(* ===== verification/Prelude.thy ===== *)
theory Prelude
  imports Main "HOL-Library.Option_ord"
begin

text \<open>
  Shared vocabulary of the development: Rust's fixed-width unsigned integers as natural numbers
  with the width written out at every operation that can leave it, results as sums, option
  helpers, and the contract that every event-driven component of corti is proved against.

  A value of type \<open>u64\<close> is a natural number; \<open>fits64\<close> says that it is one the machine type can
  hold, and each component proves that its operations keep its fields within their widths. The
  functions below carry the names of the Rust methods they stand for.
\<close>

section \<open>Automation\<close>

named_theorems arith_defs "definitions of the checked integer operations"
named_theorems step_defs "definitions of a component's operations, for case analysis of a step"

section \<open>Fixed-width unsigned integers\<close>

type_synonym u32 = nat
type_synonym u64 = nat
type_synonym u128 = nat

text \<open>A text is the list of its code points.\<close>

type_synonym utext = "nat list"

abbreviation fits32 :: "nat \<Rightarrow> bool" where
  "fits32 n \<equiv> n < 2 ^ 32"

abbreviation fits64 :: "nat \<Rightarrow> bool" where
  "fits64 n \<equiv> n < 2 ^ 64"

abbreviation fits128 :: "nat \<Rightarrow> bool" where
  "fits128 n \<equiv> n < 2 ^ 128"

abbreviation u64_max :: nat where
  "u64_max \<equiv> 2 ^ 64 - 1"

definition checked_add :: "nat \<Rightarrow> nat \<Rightarrow> nat \<Rightarrow> nat option" where
  "checked_add w a b = (if a + b < 2 ^ w then Some (a + b) else None)"

definition checked_mul :: "nat \<Rightarrow> nat \<Rightarrow> nat \<Rightarrow> nat option" where
  "checked_mul w a b = (if a * b < 2 ^ w then Some (a * b) else None)"

definition checked_sub :: "nat \<Rightarrow> nat \<Rightarrow> nat option" where
  "checked_sub a b = (if b \<le> a then Some (a - b) else None)"

definition try_from :: "nat \<Rightarrow> nat \<Rightarrow> nat option" where
  "try_from w n = (if n < 2 ^ w then Some n else None)"

definition try_from_int :: "nat \<Rightarrow> int \<Rightarrow> nat option" where
  "try_from_int w i = (if 0 \<le> i \<and> i < 2 ^ w then Some (nat i) else None)"

definition saturating_sub :: "nat \<Rightarrow> nat \<Rightarrow> nat" where
  "saturating_sub a b = a - b"

definition saturating_add :: "nat \<Rightarrow> nat \<Rightarrow> nat \<Rightarrow> nat" where
  "saturating_add w a b = min (a + b) (2 ^ w - 1)"

definition saturating_mul :: "nat \<Rightarrow> nat \<Rightarrow> nat \<Rightarrow> nat" where
  "saturating_mul w a b = min (a * b) (2 ^ w - 1)"

definition div_ceil :: "nat \<Rightarrow> nat \<Rightarrow> nat" where
  "div_ceil a b = (if a mod b = 0 then a div b else a div b + 1)"

lemmas [arith_defs] =
  checked_add_def checked_mul_def checked_sub_def try_from_def try_from_int_def
  saturating_sub_def saturating_add_def saturating_mul_def

lemma checked_add_Some [simp]:
  "checked_add w a b = Some c \<longleftrightarrow> c = a + b \<and> a + b < 2 ^ w"
  by (auto simp: checked_add_def)

lemma checked_add_None [simp]: "checked_add w a b = None \<longleftrightarrow> 2 ^ w \<le> a + b"
  by (auto simp: checked_add_def)

lemma checked_mul_Some [simp]:
  "checked_mul w a b = Some c \<longleftrightarrow> c = a * b \<and> a * b < 2 ^ w"
  by (auto simp: checked_mul_def)

lemma checked_mul_None [simp]: "checked_mul w a b = None \<longleftrightarrow> 2 ^ w \<le> a * b"
  by (auto simp: checked_mul_def)

lemma checked_sub_Some [simp]: "checked_sub a b = Some c \<longleftrightarrow> b \<le> a \<and> c = a - b"
  by (auto simp: checked_sub_def)

lemma checked_sub_None [simp]: "checked_sub a b = None \<longleftrightarrow> a < b"
  by (auto simp: checked_sub_def)

lemma try_from_Some [simp]: "try_from w n = Some m \<longleftrightarrow> m = n \<and> n < 2 ^ w"
  by (auto simp: try_from_def)

lemma try_from_None [simp]: "try_from w n = None \<longleftrightarrow> 2 ^ w \<le> n"
  by (auto simp: try_from_def)

lemma div_ceil_upper:
  assumes "0 < b"
  shows "a \<le> div_ceil a b * b"
proof -
  have "a = a div b * b + a mod b" by simp
  moreover have "a mod b < b" using assms by simp
  ultimately have "a \<le> a div b * b + b" by linarith
  then show ?thesis
    by (cases "a mod b = 0") (auto simp: div_ceil_def)
qed

lemma div_ceil_least: "0 < b \<Longrightarrow> div_ceil a b \<le> k \<longleftrightarrow> a \<le> k * b"
proof
  assume "0 < b" and "div_ceil a b \<le> k"
  then show "a \<le> k * b"
    using div_ceil_upper [of b a] by (meson le_trans mult_le_mono1)
next
  assume b: "0 < b" and a: "a \<le> k * b"
  show "div_ceil a b \<le> k"
  proof (cases "a mod b = 0")
    case True
    have "a div b \<le> k * b div b" using a by (rule div_le_mono)
    then show ?thesis using b True by (simp add: div_ceil_def)
  next
    case False
    have "a \<noteq> k * b" using False by auto
    with a have "a < k * b" by simp
    then have "a div b < k" using b by (simp add: less_mult_imp_div_less)
    then show ?thesis using False by (simp add: div_ceil_def)
  qed
qed

lemma div_ceil_mono: "0 < b \<Longrightarrow> a \<le> c \<Longrightarrow> div_ceil a b \<le> div_ceil c b"
  by (meson div_ceil_least div_ceil_upper le_trans)

lemma div_ceil_exact [simp]: "0 < b \<Longrightarrow> div_ceil (k * b) b = k"
  by (simp add: div_ceil_def)

section \<open>Saturating counters\<close>

text \<open>
  \<open>increment\<close> (capture accounting) and \<open>saturating_count\<close> (quality record) are the same code: add
  a count to a \<open>u64\<close>; on overflow pin it to the maximum and raise a sticky flag. The pair of the
  counter and the flag is returned.
\<close>

definition sat_count :: "u64 \<Rightarrow> u64 \<Rightarrow> bool \<Rightarrow> u64 \<times> bool" where
  "sat_count value count saturated =
     (case checked_add 64 value count of
        Some s \<Rightarrow> (s, saturated)
      | None \<Rightarrow> (u64_max, True))"

lemma sat_count_bound: "fits64 (fst (sat_count v c b))"
  by (auto simp: sat_count_def split: option.splits)

lemma sat_count_flag: "b \<Longrightarrow> snd (sat_count v c b)"
  by (auto simp: sat_count_def split: option.splits)

lemma sat_count_mono: "fits64 v \<Longrightarrow> v \<le> fst (sat_count v c b)"
  by (auto simp: sat_count_def split: option.splits)

lemma sat_count_exact: "\<not> snd (sat_count v c b) \<Longrightarrow> fst (sat_count v c b) = v + c \<and> \<not> b"
  by (auto simp: sat_count_def split: option.splits)

lemma sat_count_pos: "0 < c \<Longrightarrow> 0 < fst (sat_count v c b)"
  by (auto simp: sat_count_def split: option.splits)

section \<open>Results\<close>

text \<open>\<open>Result<'a, 'e>\<close> is \<open>'e + 'a\<close>; \<open>?\<close> is \<open>rbind\<close> and \<open>ok_or\<close> turns an option into a result.\<close>

definition rbind :: "'e + 'a \<Rightarrow> ('a \<Rightarrow> 'e + 'b) \<Rightarrow> 'e + 'b" where
  "rbind r f = (case r of Inl e \<Rightarrow> Inl e | Inr x \<Rightarrow> f x)"

definition ok_or :: "'a option \<Rightarrow> 'e \<Rightarrow> 'e + 'a" where
  "ok_or x e = (case x of None \<Rightarrow> Inl e | Some v \<Rightarrow> Inr v)"

definition is_ok :: "'e + 'a \<Rightarrow> bool" where
  "is_ok r = (case r of Inl _ \<Rightarrow> False | Inr _ \<Rightarrow> True)"

lemma rbind_simps [simp]:
  "rbind (Inl e) f = Inl e"
  "rbind (Inr x) f = f x"
  by (simp_all add: rbind_def)

lemma rbind_Inr [simp]: "rbind r f = Inr y \<longleftrightarrow> (\<exists>x. r = Inr x \<and> f x = Inr y)"
  by (cases r) auto

lemma rbind_assoc: "rbind (rbind r f) g = rbind r (\<lambda>x. rbind (f x) g)"
  by (cases r) auto

lemma rbind_Inl: "rbind r f = Inl e \<longleftrightarrow> r = Inl e \<or> (\<exists>x. r = Inr x \<and> f x = Inl e)"
  by (cases r) auto

lemma ok_or_simps [simp]:
  "ok_or None e = Inl e"
  "ok_or (Some v) e = Inr v"
  by (simp_all add: ok_or_def)

lemma ok_or_Inr [simp]: "ok_or x e = Inr v \<longleftrightarrow> x = Some v"
  by (cases x) auto

lemma ok_or_Inl: "ok_or x e = Inl e' \<longleftrightarrow> x = None \<and> e' = e"
  by (cases x) auto

lemma is_ok_simps [simp]:
  "is_ok (Inl e) = False"
  "is_ok (Inr x) = True"
  by (simp_all add: is_ok_def)

lemma is_ok_iff: "is_ok r \<longleftrightarrow> (\<exists>x. r = Inr x)"
  by (cases r) auto

lemma is_ok_rbind: "is_ok (rbind r f) \<longleftrightarrow> is_ok r \<and> (\<forall>x. r = Inr x \<longrightarrow> is_ok (f x))"
  by (cases r) auto

lemma is_ok_then [simp]: "is_ok (rbind r (\<lambda>_. q)) \<longleftrightarrow> is_ok r \<and> is_ok q"
  by (cases r) auto

lemma is_ok_rbind_Inr [simp]: "is_ok (rbind r Inr) \<longleftrightarrow> is_ok r"
  by (cases r) auto

lemma is_ok_ok_or [simp]: "is_ok (ok_or x e) \<longleftrightarrow> x \<noteq> None"
  by (cases x) auto

lemma is_ok_if [simp]:
  "is_ok (if b then Inl e else r) \<longleftrightarrow> \<not> b \<and> is_ok r"
  by simp

lemma unit_result: "r = Inr x \<longleftrightarrow> is_ok (r :: 'e + unit)"
  by (cases r) auto

lemma map_sum_Inr: "map_sum id f r = Inr y \<longleftrightarrow> (\<exists>z. r = Inr z \<and> y = f z)"
  by (cases r) auto

text \<open>\<open>Option::transpose\<close> on an optional result: an absent value is fine, a failed one is not.\<close>

definition transpose_result :: "('e + 'a) option \<Rightarrow> 'e + 'a option" where
  "transpose_result x =
     (case x of None \<Rightarrow> Inr None | Some (Inl e) \<Rightarrow> Inl e | Some (Inr v) \<Rightarrow> Inr (Some v))"

lemma transpose_result_simps [simp]:
  "transpose_result None = Inr None"
  "transpose_result (Some (Inl e)) = Inl e"
  "transpose_result (Some (Inr v)) = Inr (Some v)"
  by (simp_all add: transpose_result_def)

section \<open>Option helpers\<close>

definition is_some_and :: "'a option \<Rightarrow> ('a \<Rightarrow> bool) \<Rightarrow> bool" where
  "is_some_and x p = (case x of None \<Rightarrow> False | Some v \<Rightarrow> p v)"

definition is_none_or :: "'a option \<Rightarrow> ('a \<Rightarrow> bool) \<Rightarrow> bool" where
  "is_none_or x p = (case x of None \<Rightarrow> True | Some v \<Rightarrow> p v)"

definition opt_filter :: "('a \<Rightarrow> bool) \<Rightarrow> 'a option \<Rightarrow> 'a option" where
  "opt_filter p x = (case x of None \<Rightarrow> None | Some v \<Rightarrow> if p v then Some v else None)"

definition opt_or :: "'a option \<Rightarrow> 'a option \<Rightarrow> 'a option" where
  "opt_or x y = (case x of None \<Rightarrow> y | Some v \<Rightarrow> Some v)"

definition opt_zip :: "'a option \<Rightarrow> 'b option \<Rightarrow> ('a \<times> 'b) option" where
  "opt_zip x y = (case x of None \<Rightarrow> None | Some a \<Rightarrow> map_option (Pair a) y)"

lemma opt_helper_simps [simp]:
  "is_some_and None p = False"
  "is_some_and (Some v) p = p v"
  "is_none_or None p = True"
  "is_none_or (Some v) p = p v"
  "opt_filter p None = None"
  "opt_filter p (Some v) = (if p v then Some v else None)"
  "opt_or None y = y"
  "opt_or (Some v) y = Some v"
  "opt_zip None y' = None"
  "opt_zip (Some a) y' = map_option (Pair a) y'"
  by (simp_all add: is_some_and_def is_none_or_def opt_filter_def opt_or_def opt_zip_def)

lemma opt_filter_Some [simp]: "opt_filter p x = Some v \<longleftrightarrow> x = Some v \<and> p v"
  by (cases x) auto

lemma opt_zip_Some [simp]: "opt_zip x y = Some (a, b) \<longleftrightarrow> x = Some a \<and> y = Some b"
  by (cases x) auto

section \<open>The contract of an event-driven component\<close>

text \<open>
  Every stateful component is a function from a state and an event to a next state, with a
  well-formedness predicate its constructor establishes and every operation keeps. \<open>run_from\<close>
  feeds a list of events; the contract gives the invariant at every point of every run.
\<close>

primrec run_from :: "('s \<Rightarrow> 'e \<Rightarrow> 's) \<Rightarrow> 's \<Rightarrow> 'e list \<Rightarrow> 's" where
  "run_from step s [] = s"
| "run_from step s (e # es) = run_from step (step s e) es"

lemma run_from_append [simp]: "run_from step s (es @ fs) = run_from step (run_from step s es) fs"
  by (induction es arbitrary: s) auto

locale component =
  fixes step :: "'s \<Rightarrow> 'e \<Rightarrow> 's"
    and ok :: "'e \<Rightarrow> bool"
    and inv :: "'s \<Rightarrow> bool"
  assumes step_inv: "inv s \<Longrightarrow> ok e \<Longrightarrow> inv (step s e)"
begin

lemma run_inv: "inv s \<Longrightarrow> list_all ok es \<Longrightarrow> inv (run_from step s es)"
  by (induction es arbitrary: s) (auto simp: step_inv)

lemma run_inv_prefix: "inv s \<Longrightarrow> list_all ok (es @ fs) \<Longrightarrow> inv (run_from step s es)"
  by (rule run_inv) auto

end

text \<open>
  A component with a fact that, once recorded, is never retracted: the fact survives every run.
\<close>

locale monotone_component = component step ok inv
  for step :: "'s \<Rightarrow> 'e \<Rightarrow> 's" and ok inv +
  fixes fact :: "'s \<Rightarrow> bool"
  assumes fact_step: "inv s \<Longrightarrow> ok e \<Longrightarrow> fact s \<Longrightarrow> fact (step s e)"
begin

lemma fact_run: "inv s \<Longrightarrow> list_all ok es \<Longrightarrow> fact s \<Longrightarrow> fact (run_from step s es)"
  by (induction es arbitrary: s) (auto simp: step_inv fact_step)

end

section \<open>Merging snapshots\<close>

text \<open>
  Records that are merged across retries promise that merging is a join on valid records. The
  result of merging many snapshots then depends only on which snapshots there were, not on their
  order or on how often each arrived.
\<close>

locale snapshot_join =
  fixes valid :: "'a \<Rightarrow> bool"
    and merge :: "'a \<Rightarrow> 'a \<Rightarrow> 'a"
  assumes merge_valid: "valid a \<Longrightarrow> valid b \<Longrightarrow> valid (merge a b)"
    and merge_commute: "valid a \<Longrightarrow> valid b \<Longrightarrow> merge a b = merge b a"
    and merge_assoc: "valid a \<Longrightarrow> valid b \<Longrightarrow> valid c \<Longrightarrow>
          merge (merge a b) c = merge a (merge b c)"
    and merge_idem: "valid a \<Longrightarrow> merge a a = a"
begin

lemma merge_all_valid: "valid a \<Longrightarrow> list_all valid bs \<Longrightarrow> valid (foldl merge a bs)"
  by (induction bs arbitrary: a) (auto simp: merge_valid)

lemma merge_absorb: "valid a \<Longrightarrow> valid b \<Longrightarrow> merge (merge a b) b = merge a b"
  by (simp add: merge_assoc merge_idem)

lemma merge_all_upper:
  assumes "valid a" and "list_all valid bs" and "b \<in> set (a # bs)"
  shows "merge b (foldl merge a bs) = foldl merge a bs"
  using assms
proof (induction bs arbitrary: a b)
  case Nil
  then show ?case by (simp add: merge_idem)
next
  case (Cons c cs)
  let ?u = "foldl merge (merge a c) cs"
  have v: "valid (merge a c)" and vu: "valid ?u"
    using Cons.prems merge_all_valid [of "merge a c" cs] by (auto simp: merge_valid)
  have up: "merge (merge a c) ?u = ?u"
    using Cons.IH [OF v, of "merge a c"] Cons.prems by simp
  have "merge a ?u = merge a (merge (merge a c) ?u)" using up by simp
  also have "\<dots> = merge (merge a (merge a c)) ?u"
    using v vu Cons.prems by (simp add: merge_assoc)
  also have "merge a (merge a c) = merge (merge a a) c"
    using Cons.prems by (simp add: merge_assoc)
  finally have a: "merge a ?u = ?u" using up Cons.prems by (simp add: merge_idem)
  have "merge c ?u = merge c (merge (merge a c) ?u)" using up by simp
  also have "\<dots> = merge (merge c (merge a c)) ?u"
    using v vu Cons.prems by (simp add: merge_assoc)
  also have "merge c (merge a c) = merge a c"
    using Cons.prems v by (simp add: merge_commute [of c "merge a c"] merge_absorb)
  finally have c: "merge c ?u = ?u" using up by simp
  show ?case
  proof (cases "b = a \<or> b = c")
    case True
    then show ?thesis using a c by auto
  next
    case False
    then have "b \<in> set (merge a c # cs)" using Cons.prems by simp
    then show ?thesis using Cons.IH [OF v] Cons.prems by simp
  qed
qed

lemma merge_all_least:
  assumes "valid a" and "list_all valid bs" and "valid u"
    and "\<And>b. b \<in> set (a # bs) \<Longrightarrow> merge b u = u"
  shows "merge (foldl merge a bs) u = u"
  using assms
proof (induction bs arbitrary: a)
  case (Cons c cs)
  have "merge (merge a c) u = u"
    using Cons.prems by (simp add: merge_assoc)
  then show ?case using Cons.IH [of "merge a c"] Cons.prems by (auto simp: merge_valid)
qed simp

lemma merge_all_set:
  assumes "valid a" and "list_all valid bs" and "list_all valid cs"
    and "set (a # bs) = set (a # cs)"
  shows "foldl merge a bs = foldl merge a cs"
proof -
  let ?x = "foldl merge a bs" and ?y = "foldl merge a cs"
  have v: "valid ?x" "valid ?y" using assms by (simp_all add: merge_all_valid)
  have "merge ?x ?y = ?y"
    by (rule merge_all_least [OF assms(1,2) v(2)])
       (use assms merge_all_upper [OF assms(1,3)] in auto)
  moreover have "merge ?y ?x = ?x"
    by (rule merge_all_least [OF assms(1,3) v(1)])
       (use assms merge_all_upper [OF assms(1,2)] in auto)
  ultimately show ?thesis using v by (simp add: merge_commute)
qed

end

end
