(* ===== verification/DetectMachine.thy ===== *)
theory DetectMachine
  imports Prelude
begin

text \<open>
  \<open>crates/corti-detect/src/machine.rs\<close>: the debounce/coalesce state machine that turns raw
  microphone edges and timer ticks into \<open>Start\<close> and \<open>Stop\<close> actions.

  Instants and durations are natural numbers of nanoseconds. \<open>saturating_duration_since\<close> is
  subtraction stopping at zero. \<open>Instant + Duration\<close> panics when the seconds leave \<open>i64\<close>, which
  \<open>instant_add\<close> makes a value.
\<close>

section \<open>The machine\<close>

type_synonym instant = nat
type_synonym duration = nat

datatype action = ActStart | ActStop (keep: bool) (span: duration)

datatype trigger =
    Idle
  | Arming (since: instant)
  | Recording (started: instant)
  | Coasting (started: instant) (since: instant)

record machine =
  debounce :: duration
  coalesce_window :: duration
  min_recording :: duration
  trigger :: trigger

datatype instant_overflow = InstantOverflow

definition instant_add :: "instant \<Rightarrow> duration \<Rightarrow> instant_overflow + instant" where
  "instant_add t d = (if (t + d) div 10 ^ 9 < 2 ^ 63 then Inr (t + d) else Inl InstantOverflow)"

definition new_machine :: "duration \<Rightarrow> duration \<Rightarrow> duration \<Rightarrow> machine" where
  "new_machine d c m = \<lparr>debounce = d, coalesce_window = c, min_recording = m, trigger = Idle\<rparr>"

fun signal_trigger :: "trigger \<Rightarrow> bool \<Rightarrow> instant \<Rightarrow> trigger" where
  "signal_trigger Idle True now = Arming now"
| "signal_trigger (Arming s) False now = Idle"
| "signal_trigger (Recording st) False now = Coasting st now"
| "signal_trigger (Coasting st s) True now = Recording st"
| "signal_trigger t on now = t"

definition on_signal :: "machine \<Rightarrow> bool \<Rightarrow> instant \<Rightarrow> machine" where
  "on_signal m on now = m\<lparr>trigger := signal_trigger (trigger m) on now\<rparr>"

definition on_tick :: "machine \<Rightarrow> instant \<Rightarrow> action option \<times> machine" where
  "on_tick m now =
     (case trigger m of
        Arming s \<Rightarrow>
          if saturating_sub now s \<ge> debounce m
          then (Some ActStart, m\<lparr>trigger := Recording now\<rparr>)
          else (None, m)
      | Coasting st s \<Rightarrow>
          if saturating_sub now s \<ge> coalesce_window m
          then (let d = saturating_sub s st
                in (Some (ActStop (d \<ge> min_recording m) d), m\<lparr>trigger := Idle\<rparr>))
          else (None, m)
      | _ \<Rightarrow> (None, m))"

definition next_deadline :: "machine \<Rightarrow> instant_overflow + instant option" where
  "next_deadline m =
     (case trigger m of
        Arming s \<Rightarrow> map_sum id Some (instant_add s (debounce m))
      | Coasting st s \<Rightarrow> map_sum id Some (instant_add s (coalesce_window m))
      | _ \<Rightarrow> Inr None)"

definition reset :: "machine \<Rightarrow> machine" where
  "reset m = m\<lparr>trigger := Idle\<rparr>"

lemmas machine_defs = on_signal_def on_tick_def next_deadline_def reset_def
  saturating_sub_def instant_add_def

text \<open>A recorder is running exactly in the last two states.\<close>

fun is_recording :: "trigger \<Rightarrow> bool" where
  "is_recording (Recording _) = True"
| "is_recording (Coasting _ _) = True"
| "is_recording _ = False"

lemma windows_kept [simp]:
  "debounce (on_signal m on now) = debounce m"
  "coalesce_window (on_signal m on now) = coalesce_window m"
  "min_recording (on_signal m on now) = min_recording m"
  "debounce (snd (on_tick m now)) = debounce m"
  "coalesce_window (snd (on_tick m now)) = coalesce_window m"
  "min_recording (snd (on_tick m now)) = min_recording m"
  "debounce (reset m) = debounce m"
  "coalesce_window (reset m) = coalesce_window m"
  "min_recording (reset m) = min_recording m"
  by (auto simp: machine_defs Let_def split: trigger.splits)

lemma on_signal_idem: "on_signal (on_signal m on t) on t' = on_signal m on t"
  by (cases "trigger m"; cases on) (auto simp: on_signal_def)

lemma signal_recording [simp]: "is_recording (signal_trigger tr on now) = is_recording tr"
  by (cases tr; cases on) auto

lemma signal_recording_machine [simp]:
  "is_recording (trigger (on_signal m on now)) = is_recording (trigger m)"
  by (simp add: on_signal_def)

section \<open>Runs\<close>

text \<open>The worker drives the machine with edges, ticks and resets; a run collects the actions.\<close>

datatype mevent = Edge bool instant | Tick instant | Reset

fun machine_step :: "machine \<Rightarrow> mevent \<Rightarrow> action option \<times> machine" where
  "machine_step m (Edge on now) = (None, on_signal m on now)"
| "machine_step m (Tick now) = on_tick m now"
| "machine_step m Reset = (None, reset m)"

fun machine_run :: "machine \<Rightarrow> mevent list \<Rightarrow> action list \<times> machine" where
  "machine_run m [] = ([], m)"
| "machine_run m (e # es) =
     (case machine_step m e of (a, m') \<Rightarrow>
        case machine_run m' es of (acts, m'') \<Rightarrow> ((case a of None \<Rightarrow> [] | Some x \<Rightarrow> [x]) @ acts, m''))"

lemma machine_step_windows [simp]:
  "debounce (snd (machine_step m e)) = debounce m"
  "coalesce_window (snd (machine_step m e)) = coalesce_window m"
  "min_recording (snd (machine_step m e)) = min_recording m"
  by (cases e; simp)+

lemma machine_run_append:
  "machine_run m (es @ fs) =
     (case machine_run m es of (a, m') \<Rightarrow> case machine_run m' fs of (b, m'') \<Rightarrow> (a @ b, m''))"
  by (induction es arbitrary: m) (auto split: prod.splits)

text \<open>
  What a history says: the last event that matters for an edge in direction \<open>on\<close> is an edge of
  that direction at time \<open>s\<close>, with no edge the other way and no reset after it.
\<close>

fun no_release :: "bool \<Rightarrow> mevent list \<Rightarrow> bool" where
  "no_release on es = list_all (\<lambda>e. case e of Edge b _ \<Rightarrow> b = on | Tick _ \<Rightarrow> True | Reset \<Rightarrow> False) es"

definition held_since :: "bool \<Rightarrow> instant \<Rightarrow> mevent list \<Rightarrow> bool" where
  "held_since on s es \<longleftrightarrow> (\<exists>pre post. es = pre @ Edge on s # post \<and> no_release on post)"

lemma held_since_snoc: "held_since on s (es @ [Edge on s])"
  unfolding held_since_def by (rule exI [of _ es], rule exI [of _ "[]"]) simp

lemma held_since_extend:
  assumes "held_since on s es" and "no_release on [e]"
  shows "held_since on s (es @ [e])"
proof -
  from assms(1) obtain pre post where "es = pre @ Edge on s # post" and "no_release on post"
    by (auto simp: held_since_def)
  with assms(2) show ?thesis
    unfolding held_since_def by (intro exI [of _ pre] exI [of _ "post @ [e]"]) auto
qed

text \<open>The state is a summary of the history.\<close>

fun explains :: "trigger \<Rightarrow> mevent list \<Rightarrow> bool" where
  "explains Idle es = True"
| "explains (Recording st) es = True"
| "explains (Arming s) es = held_since True s es"
| "explains (Coasting st s) es = held_since False s es"

lemma explains_step:
  "explains (trigger m) es \<Longrightarrow> explains (trigger (snd (machine_step m e))) (es @ [e])"
proof (cases e)
  case (Edge on now)
  assume "explains (trigger m) es"
  with Edge show ?thesis
    by (cases "trigger m"; cases on)
       (auto simp: on_signal_def held_since_snoc intro: held_since_extend)
next
  case (Tick now)
  assume "explains (trigger m) es"
  with Tick show ?thesis
    by (cases "trigger m") (auto simp: on_tick_def Let_def intro: held_since_extend)
next
  case Reset
  then show ?thesis by (simp add: reset_def)
qed

lemma explains_run_from:
  "explains (trigger m) es \<Longrightarrow> explains (trigger (snd (machine_run m fs))) (es @ fs)"
proof (induction fs arbitrary: m es)
  case (Cons e fs)
  from explains_step [OF Cons.prems, of e]
  have "explains (trigger (snd (machine_run (snd (machine_step m e)) fs))) ((es @ [e]) @ fs)"
    by (rule Cons.IH)
  then show ?case by (auto split: prod.splits)
qed simp

lemma explains_run: "trigger m = Idle \<Longrightarrow> explains (trigger (snd (machine_run m es))) es"
  using explains_run_from [of m "[]" es] by simp

lemma run_windows [simp]:
  "debounce (snd (machine_run m es)) = debounce m"
  "coalesce_window (snd (machine_run m es)) = coalesce_window m"
  "min_recording (snd (machine_run m es)) = min_recording m"
proof (induction es arbitrary: m)
  case (Cons e es)
  { case 1 then show ?case using Cons.IH(1) [of "snd (machine_step m e)"] by (auto split: prod.splits)
  next case 2 then show ?case using Cons.IH(2) [of "snd (machine_step m e)"] by (auto split: prod.splits)
  next case 3 then show ?case using Cons.IH(3) [of "snd (machine_step m e)"] by (auto split: prod.splits) }
qed simp_all

lemma tick_start_held:
  assumes "on_tick m now = (Some ActStart, m')"
  obtains s where "trigger m = Arming s" and "debounce m \<le> now - s" and "trigger m' = Recording now"
  using assms by (auto simp: on_tick_def saturating_sub_def Let_def split: trigger.splits if_splits)

lemma tick_stop_held:
  assumes "on_tick m now = (Some (ActStop k d), m')"
  obtains st s where "trigger m = Coasting st s" and "coalesce_window m \<le> now - s"
    and "d = s - st" and "k = (min_recording m \<le> d)" and "trigger m' = Idle"
  using assms by (auto simp: on_tick_def saturating_sub_def Let_def split: trigger.splits if_splits)

section \<open>Alternation of the actions\<close>

text \<open>
  \<open>alternates b acts\<close>: starting from a state that records exactly if \<open>b\<close>, every action is the
  one that state allows, so no recording is started twice or stopped without having started.
\<close>

fun alternates :: "bool \<Rightarrow> action list \<Rightarrow> bool" where
  "alternates b [] = True"
| "alternates b (ActStart # acts) = (\<not> b \<and> alternates True acts)"
| "alternates b (ActStop k d # acts) = (b \<and> alternates False acts)"

lemma step_alternates:
  assumes "machine_step m e = (a, m')" and "e \<noteq> Reset"
  shows "case a of
           None \<Rightarrow> is_recording (trigger m') = is_recording (trigger m)
         | Some ActStart \<Rightarrow> \<not> is_recording (trigger m) \<and> is_recording (trigger m')
         | Some (ActStop _ _) \<Rightarrow> is_recording (trigger m) \<and> \<not> is_recording (trigger m')"
proof (cases e)
  case (Tick now)
  with assms show ?thesis
    by (cases "trigger m") (auto simp: on_tick_def Let_def split: if_splits)
qed (use assms in auto)

lemma run_alternates:
  "Reset \<notin> set es \<Longrightarrow> alternates (is_recording (trigger m)) (fst (machine_run m es))"
proof (induction es arbitrary: m)
  case (Cons e es)
  obtain a m' where st: "machine_step m e = (a, m')" by (cases "machine_step m e")
  have IH: "alternates (is_recording (trigger m')) (fst (machine_run m' es))"
    using Cons by simp
  from step_alternates [OF st] Cons.prems IH st show ?case
    by (auto split: option.splits action.splits prod.splits)
qed simp

section \<open>Properties\<close>

text \<open>C7. A recording starts only after the microphone was on, without a single off edge or reset,
  for at least the debounce window; the tick that confirms it puts the machine in \<open>Recording\<close>.\<close>

theorem start_needs_debounce:
  assumes "machine_run (new_machine d c k) es = (acts, m)"
    and "on_tick m now = (Some ActStart, m')"
  shows "\<exists>s. held_since True s es \<and> d \<le> now - s \<and> trigger m' = Recording now"
proof -
  have m: "m = snd (machine_run (new_machine d c k) es)" using assms(1) by simp
  have "debounce m = d" by (simp add: m new_machine_def)
  moreover have "explains (trigger m) es" unfolding m by (rule explains_run) (simp add: new_machine_def)
  ultimately show ?thesis using assms(2) by (auto elim!: tick_start_held)
qed

theorem start_needs_debounce_witness:
  "\<exists>s. held_since True s [Edge True 5, Tick 7] \<and> (10::nat) \<le> 20 - s
     \<and> Recording (20::nat) = Recording 20"
  using start_needs_debounce
    [of 10 3 4 "[Edge True 5, Tick 7]" "[]"
      "\<lparr>debounce = 10, coalesce_window = 3, min_recording = 4, trigger = Arming 5\<rparr>" 20
      "\<lparr>debounce = 10, coalesce_window = 3, min_recording = 4, trigger = Recording 20\<rparr>"]
  by (simp add: new_machine_def on_signal_def on_tick_def saturating_sub_def)

text \<open>A recording stops only after the microphone stayed off for the whole coalesce window; the
  reported span ends at the last off edge, not at the confirming tick, and the recording is kept
  exactly if that span reaches the minimum.\<close>

theorem stop_needs_coalesce:
  assumes "machine_run (new_machine d c k) es = (acts, m)"
    and "on_tick m now = (Some (ActStop kept sp), m')"
  shows "\<exists>st s. held_since False s es \<and> c \<le> now - s \<and> trigger m = Coasting st s
    \<and> sp = s - st \<and> kept = (k \<le> sp) \<and> trigger m' = Idle"
proof -
  have m: "m = snd (machine_run (new_machine d c k) es)" using assms(1) by simp
  have "coalesce_window m = c" "min_recording m = k" by (simp_all add: m new_machine_def)
  moreover have "explains (trigger m) es" unfolding m by (rule explains_run) (simp add: new_machine_def)
  ultimately show ?thesis using assms(2) by (auto elim!: tick_stop_held)
qed

theorem stop_needs_coalesce_witness:
  "\<exists>st s. held_since False s [Edge True 0, Tick 10, Edge False 15] \<and> (3::nat) \<le> 18 - s
     \<and> Coasting 10 15 = Coasting st s \<and> (5::nat) = s - st \<and> True = ((4::nat) \<le> 5)
     \<and> Idle = Idle"
  using stop_needs_coalesce
    [of 10 3 4 "[Edge True 0, Tick 10, Edge False 15]" "[ActStart]"
      "\<lparr>debounce = 10, coalesce_window = 3, min_recording = 4, trigger = Coasting 10 15\<rparr>" 18
      True 5 "\<lparr>debounce = 10, coalesce_window = 3, min_recording = 4, trigger = Idle\<rparr>"]
  by (simp add: new_machine_def on_signal_def on_tick_def saturating_sub_def)

text \<open>Without resets the actions alternate: every stop answers a start, and no recording is
  started while one is in progress.\<close>

theorem actions_alternate:
  assumes "Reset \<notin> set es"
  shows "alternates False (fst (machine_run (new_machine d c k) es))"
  using run_alternates [OF assms, of "new_machine d c k"] by (simp add: new_machine_def)

theorem actions_alternate_witness:
  "alternates False (fst (machine_run (new_machine 10 3 4)
     [Edge True 0, Tick 10, Edge False 15, Tick 18, Edge True 20, Tick 30]))"
  by (rule actions_alternate) simp

text \<open>A timed wake-up never spins, for the positive windows the detector uses: a tick at or after the announced deadline acts and leaves no
  deadline, a tick before it changes nothing.\<close>

theorem deadline_never_spins:
  assumes "next_deadline m = Inr (Some t)" and "0 < debounce m" and "0 < coalesce_window m"
  shows "if t \<le> now then fst (on_tick m now) \<noteq> None \<and> next_deadline (snd (on_tick m now)) = Inr None
    else on_tick m now = (None, m)"
  using assms
  by (auto simp: next_deadline_def on_tick_def instant_add_def saturating_sub_def Let_def
      split: trigger.splits if_splits)

theorem deadline_never_spins_witness:
  "fst (on_tick \<lparr>debounce = 10, coalesce_window = 3, min_recording = 4, trigger = Arming 5\<rparr> 15) \<noteq> None
   \<and> next_deadline (snd (on_tick \<lparr>debounce = 10, coalesce_window = 3, min_recording = 4,
        trigger = Arming 5\<rparr> 15)) = Inr None"
  using deadline_never_spins
    [of "\<lparr>debounce = 10, coalesce_window = 3, min_recording = 4, trigger = Arming 5\<rparr>" 15 15]
  by (simp add: next_deadline_def instant_add_def)

end
