(* ===== verification/DetectWorker.thy ===== *)
theory DetectWorker
  imports DetectMachine
begin

text \<open>
  \<open>crates/corti-detect/src/platform.rs\<close>: the worker thread that owns the machine and the in-flight
  recorder. It receives messages, asks the platform (CoreAudio, the recorder, the live hook) and
  performs calls whose order other components rely on.

  The platform is not modelled: every answer it gives during the handling of a message is carried
  by that message. Every call the worker makes that someone else can observe is recorded, in order,
  in a list of effects. Logging is left out.
\<close>

section \<open>Recordings, messages and effects\<close>

record owning_app =
  bundle_id :: "string option"
  app_name :: string

record recording_meta =
  started_at :: nat
  ended_at :: "nat option"
  rec_app :: owning_app
  audio_path :: string

record recorder =
  output_path :: string
  sample_rate :: nat

record 'proc finished =
  fin_path :: string
  processing :: 'proc

datatype 'proc detector_event =
    RecordingStarted recording_meta
  | RecordingFinished recording_meta string 'proc
  | RecordingDiscarded recording_meta
  | DetectorError string

datatype ('tee, 'aec, 'proc) effect =
    AttachLive owning_app
  | AskAec
  | StartRecorder owning_app "int option" "'tee option" "'aec option"
  | HookStarted recording_meta nat
  | HookAborted
  | FinishRecorder recorder
  | DiscardRecorder recorder
  | HookFinished recording_meta 'proc
  | HookDiscarded recording_meta
  | HookFailed recording_meta
  | Emit "'proc detector_event"
  | ReplyPause bool

text \<open>What the platform answers while a timeout is handled, in the order it may be asked.\<close>

record ('tee, 'aec, 'proc) answers =
  signal_now :: instant
  others_hold_input :: bool
  tick_now :: instant
  owner_app :: owning_app
  owner_pid :: "int option"
  attach_answer :: "'tee option"
  aec_answer :: "'aec option"
  start_answer :: "string + recorder"
  wall_now :: nat
  finish_answer :: "string + 'proc finished"

datatype ('tee, 'aec, 'proc) msg =
    Signal bool instant
  | DeviceChanged "string + bool option" instant
  | Pause
  | Resume "bool option" instant
  | Shutdown
  | Timeout "('tee, 'aec, 'proc) answers"

record worker =
  machine :: machine
  current :: "(recorder \<times> recording_meta) option"
  paused :: bool
  live :: bool

definition DEBOUNCE :: duration where "DEBOUNCE = 1500 * 10 ^ 6"
definition COALESCE :: duration where "COALESCE = 2 * 10 ^ 9"
definition MIN_RECORDING :: duration where "MIN_RECORDING = 3 * 10 ^ 9"
definition POLL_INTERVAL :: duration where "POLL_INTERVAL = 10 ^ 9"

section \<open>The handlers\<close>

definition deliver_finished ::
    "bool \<Rightarrow> recording_meta \<Rightarrow> 'proc finished \<Rightarrow> ('tee, 'aec, 'proc) effect list" where
  "deliver_finished hook meta f =
     (if hook then [HookFinished meta (processing f)] else [])
     @ [Emit (RecordingFinished meta (fin_path f) (processing f))]"

definition deliver_discarded ::
    "bool \<Rightarrow> recording_meta \<Rightarrow> ('tee, 'aec, 'proc) effect list" where
  "deliver_discarded hook meta =
     (if hook then [HookDiscarded meta] else []) @ [Emit (RecordingDiscarded meta)]"

text \<open>\<open>TimeDelta::from_std(d).unwrap_or_default()\<close>: a span beyond chrono's range counts as zero.\<close>

definition time_delta :: "duration \<Rightarrow> nat" where
  "time_delta d = (if d \<le> (2 ^ 63 - 1) * 10 ^ 6 then d else 0)"

definition apply_start ::
    "worker \<Rightarrow> ('tee, 'aec, 'proc) answers \<Rightarrow> ('tee, 'aec, 'proc) effect list \<times> worker" where
  "apply_start w a =
     (let tee = (if live w then attach_answer a else None);
          live_attached = (tee \<noteq> None);
          aec = (if live w then aec_answer a else None);
          asked = (if live w then [AttachLive (owner_app a), AskAec] else [])
                  @ [StartRecorder (owner_app a) (owner_pid a) tee aec]
      in case start_answer a of
           Inr r \<Rightarrow>
             (let meta = \<lparr>started_at = wall_now a, ended_at = None, rec_app = owner_app a,
                          audio_path = output_path r\<rparr>
              in (asked @ (if live_attached then [HookStarted meta (sample_rate r)] else [])
                  @ [Emit (RecordingStarted meta)],
                  w\<lparr>current := Some (r, meta)\<rparr>))
         | Inl e \<Rightarrow>
             (asked @ (if live_attached then [HookAborted] else [])
              @ [Emit (DetectorError (''failed to start recording: '' @ e))],
              w\<lparr>machine := reset (machine w)\<rparr>))"

definition apply_stop ::
    "worker \<Rightarrow> bool \<Rightarrow> duration \<Rightarrow> ('tee, 'aec, 'proc) answers
       \<Rightarrow> ('tee, 'aec, 'proc) effect list \<times> worker" where
  "apply_stop w kept d a =
     (case current w of
        None \<Rightarrow> ([], w)
      | Some (r, meta) \<Rightarrow>
          (let w' = w\<lparr>current := None\<rparr>
           in if \<not> kept then (DiscardRecorder r # deliver_discarded (live w) meta, w')
              else case finish_answer a of
                     Inr f \<Rightarrow>
                       (FinishRecorder r
                          # deliver_finished (live w)
                              (meta\<lparr>ended_at := Some (started_at meta + time_delta d)\<rparr>) f, w')
                   | Inl e \<Rightarrow>
                       (FinishRecorder r # (if live w then [HookFailed meta] else [])
                          @ [Emit (DetectorError (''failed to finish recording: '' @ e))], w')))"

fun apply_action ::
    "worker \<Rightarrow> action \<Rightarrow> ('tee, 'aec, 'proc) answers \<Rightarrow> ('tee, 'aec, 'proc) effect list \<times> worker" where
  "apply_action w ActStart a = apply_start w a"
| "apply_action w (ActStop kept d) a = apply_stop w kept d a"

definition on_wakeup ::
    "worker \<Rightarrow> ('tee, 'aec, 'proc) answers \<Rightarrow> ('tee, 'aec, 'proc) effect list \<times> worker" where
  "on_wakeup w a =
     (if paused w then ([], w)
      else let m = (if current w \<noteq> None
                    then on_signal (machine w) (others_hold_input a) (signal_now a)
                    else machine w)
           in case on_tick m (tick_now a) of
                (None, m') \<Rightarrow> ([], w\<lparr>machine := m'\<rparr>)
              | (Some act, m') \<Rightarrow> apply_action (w\<lparr>machine := m'\<rparr>) act a)"

definition rebind ::
    "worker \<Rightarrow> string + bool option \<Rightarrow> instant \<Rightarrow> ('tee, 'aec, 'proc) effect list \<times> worker" where
  "rebind w monitor now =
     (case monitor of
        Inr (Some on) \<Rightarrow>
          ([], if paused w then w else w\<lparr>machine := on_signal (machine w) on now\<rparr>)
      | Inr None \<Rightarrow> ([], w)
      | Inl e \<Rightarrow>
          ([Emit (DetectorError
              (''re-binding mic monitor after device change failed: '' @ e))], w))"

definition resume_detection :: "worker \<Rightarrow> bool option \<Rightarrow> instant \<Rightarrow> worker" where
  "resume_detection w mic now =
     (let w1 = w\<lparr>paused := False\<rparr>
      in if current w1 \<noteq> None then w1
         else let m = reset (machine w1)
              in w1\<lparr>machine := (if mic = Some True then on_signal m True now else m)\<rparr>)"

fun worker_step ::
    "worker \<Rightarrow> ('tee, 'aec, 'proc) msg \<Rightarrow> ('tee, 'aec, 'proc) effect list \<times> worker" where
  "worker_step w (Signal on now) =
     ([], if paused w then w else w\<lparr>machine := on_signal (machine w) on now\<rparr>)"
| "worker_step w (DeviceChanged monitor now) = rebind w monitor now"
| "worker_step w Pause =
     (let accepted = (current w = None)
      in ([ReplyPause accepted],
          if accepted then w\<lparr>paused := True, machine := reset (machine w)\<rparr> else w))"
| "worker_step w (Resume mic now) = ([], resume_detection w mic now)"
| "worker_step w Shutdown = ([], w)"
| "worker_step w (Timeout a) = on_wakeup w a"

definition worker_init :: "bool \<Rightarrow> bool \<Rightarrow> instant \<Rightarrow> worker" where
  "worker_init hook initial now =
     (let m = new_machine DEBOUNCE COALESCE MIN_RECORDING
      in \<lparr>machine = (if initial then on_signal m True now else m), current = None,
          paused = False, live = hook\<rparr>)"

text \<open>The loop of \<open>run\<close>: one message after the other, until \<open>Shutdown\<close> leaves it.\<close>

fun worker_run ::
    "worker \<Rightarrow> ('tee, 'aec, 'proc) msg list \<Rightarrow> ('tee, 'aec, 'proc) effect list \<times> worker" where
  "worker_run w [] = ([], w)"
| "worker_run w (m # ms) =
     (if m = Shutdown then ([], w)
      else case worker_step w m of (es, w') \<Rightarrow>
             case worker_run w' ms of (fs, w'') \<Rightarrow> (es @ fs, w''))"

text \<open>How long the loop blocks: no wake-up at all while paused.\<close>

definition next_wait :: "worker \<Rightarrow> instant \<Rightarrow> instant_overflow + duration option" where
  "next_wait w now =
     (if paused w then Inr None
      else rbind (next_deadline (machine w)) (\<lambda>dl.
             let deadline = map_option (\<lambda>d. saturating_sub d now) dl
             in Inr (if current w \<noteq> None
                     then Some (case deadline of None \<Rightarrow> POLL_INTERVAL
                                | Some d \<Rightarrow> min d POLL_INTERVAL)
                     else deadline)))"

lemmas worker_defs = apply_start_def apply_stop_def on_wakeup_def rebind_def
  resume_detection_def deliver_finished_def deliver_discarded_def Let_def

section \<open>The worker's invariant\<close>

text \<open>
  The machine believes a recording is in progress exactly when a recorder is held, and while
  detection is suspended the machine is idle and nothing is recorded.
\<close>

definition worker_inv :: "worker \<Rightarrow> bool" where
  "worker_inv w \<longleftrightarrow>
     (is_recording (trigger (machine w)) \<longleftrightarrow> current w \<noteq> None)
     \<and> (paused w \<longrightarrow> current w = None \<and> trigger (machine w) = Idle)"

lemma worker_inv_init: "worker_inv (worker_init hook initial now)"
  by (auto simp: worker_inv_def worker_init_def new_machine_def on_signal_def Let_def)

lemma apply_start_inv:
  assumes "trigger (machine w) = Recording now" and "current w = None" and "\<not> paused w"
  shows "worker_inv (snd (apply_start w a))"
  using assms by (auto simp: worker_inv_def apply_start_def reset_def Let_def split: sum.splits)

lemma apply_stop_inv:
  assumes "trigger (machine w) = Idle" and "\<not> paused w"
  shows "worker_inv (snd (apply_stop w kept d a))"
  using assms
  by (auto simp: worker_inv_def apply_stop_def Let_def split: sum.splits option.splits)

lemma on_wakeup_inv:
  assumes "worker_inv w"
  shows "worker_inv (snd (on_wakeup w a))"
proof (cases "paused w")
  case True
  then show ?thesis using assms by (simp add: on_wakeup_def)
next
  case False
  define m where "m = (if current w \<noteq> None
    then on_signal (machine w) (others_hold_input a) (signal_now a) else machine w)"
  have rec_m: "is_recording (trigger m) \<longleftrightarrow> current w \<noteq> None"
    using assms by (auto simp: m_def worker_inv_def)
  obtain act m' where tick: "on_tick m (tick_now a) = (act, m')" by fastforce
  have wake: "on_wakeup w a = (case act of None \<Rightarrow> ([], w\<lparr>machine := m'\<rparr>)
      | Some x \<Rightarrow> apply_action (w\<lparr>machine := m'\<rparr>) x a)"
    using False tick by (auto simp: on_wakeup_def m_def Let_def split: option.splits)
  show ?thesis
  proof (cases act)
    case None
    then have "is_recording (trigger m') = is_recording (trigger m)"
      using tick step_alternates [of m "Tick (tick_now a)"] by simp
    then show ?thesis using None wake False rec_m by (simp add: worker_inv_def)
  next
    case (Some x)
    show ?thesis
    proof (cases x)
      case ActStart
      obtain s where "trigger m = Arming s" and m': "trigger m' = Recording (tick_now a)"
        using tick Some ActStart by (auto elim: tick_start_held)
      then have "current w = None" using rec_m by (cases "current w") auto
      then have "worker_inv (snd (apply_start (w\<lparr>machine := m'\<rparr>) a))"
        using m' False by (intro apply_start_inv) auto
      then show ?thesis using wake Some ActStart by simp
    next
      case (ActStop kept d)
      have "trigger m' = Idle"
        using tick Some ActStop by (auto elim: tick_stop_held)
      then have "worker_inv (snd (apply_stop (w\<lparr>machine := m'\<rparr>) kept d a))"
        using False by (intro apply_stop_inv) auto
      then show ?thesis using wake Some ActStop by simp
    qed
  qed
qed

lemma worker_step_inv: "worker_inv w \<Longrightarrow> worker_inv (snd (worker_step w m))"
proof (cases m)
  case (Timeout a)
  assume "worker_inv w"
  then show ?thesis using Timeout by (simp add: on_wakeup_inv)
next
  case (DeviceChanged monitor now)
  assume "worker_inv w"
  then show ?thesis using DeviceChanged
    by (auto simp: worker_inv_def rebind_def split: sum.splits option.splits)
next
  case (Resume mic now)
  assume "worker_inv w"
  then show ?thesis using Resume
    by (auto simp: worker_inv_def resume_detection_def reset_def on_signal_def Let_def)
qed (auto simp: worker_inv_def reset_def Let_def)

interpretation detect_worker: component
  "\<lambda>w m. snd (worker_step w (m :: ('tee, 'aec, 'proc) msg))" "\<lambda>m. True" worker_inv
  by unfold_locales (rule worker_step_inv)

section \<open>The protocol the worker's calls follow\<close>

text \<open>
  A monitor reads the effects one by one. \<open>InCall\<close> carries the metadata of the recording in
  progress; between the recorder's start or stop and the event that announces it, the phases name
  what must still be delivered.
\<close>

datatype 'proc phase =
    Quiet
  | Starting bool
  | Informed recording_meta
  | Aborted
  | InCall recording_meta
  | Closing recording_meta
  | Delivered recording_meta 'proc
  | Failed
  | Dropping recording_meta
  | Dropped recording_meta

definition ended_version :: "recording_meta \<Rightarrow> recording_meta \<Rightarrow> bool" where
  "ended_version m m' \<longleftrightarrow> ended_at m' \<noteq> None \<and> m'\<lparr>ended_at := ended_at m\<rparr> = m"

definition monitor ::
    "bool \<Rightarrow> 'proc phase \<Rightarrow> ('tee, 'aec, 'proc) effect \<Rightarrow> 'proc phase option" where
  "monitor h p e =
     (case p of
        Quiet \<Rightarrow>
          (case e of
             AttachLive _ \<Rightarrow> if h then Some Quiet else None
           | AskAec \<Rightarrow> if h then Some Quiet else None
           | StartRecorder _ _ tee _ \<Rightarrow>
               if h \<or> tee = None then Some (Starting (tee \<noteq> None)) else None
           | Emit (DetectorError _) \<Rightarrow> Some Quiet
           | ReplyPause accepted \<Rightarrow> if accepted then Some Quiet else None
           | _ \<Rightarrow> None)
      | Starting tee \<Rightarrow>
          (case e of
             HookStarted m _ \<Rightarrow> if tee then Some (Informed m) else None
           | HookAborted \<Rightarrow> if tee then Some Aborted else None
           | Emit (RecordingStarted m) \<Rightarrow> if tee then None else Some (InCall m)
           | Emit (DetectorError _) \<Rightarrow> if tee then None else Some Quiet
           | _ \<Rightarrow> None)
      | Informed m \<Rightarrow>
          (case e of
             Emit (RecordingStarted m') \<Rightarrow> if m' = m then Some (InCall m) else None
           | _ \<Rightarrow> None)
      | Aborted \<Rightarrow> (case e of Emit (DetectorError _) \<Rightarrow> Some Quiet | _ \<Rightarrow> None)
      | InCall m \<Rightarrow>
          (case e of
             Emit (DetectorError _) \<Rightarrow> Some (InCall m)
           | ReplyPause accepted \<Rightarrow> if accepted then None else Some (InCall m)
           | FinishRecorder r \<Rightarrow> if output_path r = audio_path m then Some (Closing m) else None
           | DiscardRecorder r \<Rightarrow> if output_path r = audio_path m then Some (Dropping m) else None
           | _ \<Rightarrow> None)
      | Closing m \<Rightarrow>
          (case e of
             HookFinished m' q \<Rightarrow>
               if h \<and> ended_version m m' then Some (Delivered m' q) else None
           | HookFailed m' \<Rightarrow> if h \<and> m' = m then Some Failed else None
           | Emit (RecordingFinished m' _ _) \<Rightarrow>
               if \<not> h \<and> ended_version m m' then Some Quiet else None
           | Emit (DetectorError _) \<Rightarrow> if h then None else Some Quiet
           | _ \<Rightarrow> None)
      | Delivered m q \<Rightarrow>
          (case e of
             Emit (RecordingFinished m' _ q') \<Rightarrow> if m' = m \<and> q' = q then Some Quiet else None
           | _ \<Rightarrow> None)
      | Failed \<Rightarrow> (case e of Emit (DetectorError _) \<Rightarrow> Some Quiet | _ \<Rightarrow> None)
      | Dropping m \<Rightarrow>
          (case e of
             HookDiscarded m' \<Rightarrow> if h \<and> m' = m then Some (Dropped m) else None
           | Emit (RecordingDiscarded m') \<Rightarrow> if \<not> h \<and> m' = m then Some Quiet else None
           | _ \<Rightarrow> None)
      | Dropped m \<Rightarrow>
          (case e of
             Emit (RecordingDiscarded m') \<Rightarrow> if m' = m then Some Quiet else None
           | _ \<Rightarrow> None))"

fun monitors ::
    "bool \<Rightarrow> 'proc phase \<Rightarrow> ('tee, 'aec, 'proc) effect list \<Rightarrow> 'proc phase option" where
  "monitors h p [] = Some p"
| "monitors h p (e # es) = (case monitor h p e of None \<Rightarrow> None | Some q \<Rightarrow> monitors h q es)"

lemma monitors_append:
  "monitors h p (es @ fs) = (case monitors h p es of None \<Rightarrow> None | Some q \<Rightarrow> monitors h q fs)"
  by (induction es arbitrary: p) (auto split: option.splits)

text \<open>The phase between two messages is read off the recorder the worker holds.\<close>

definition phase_of :: "worker \<Rightarrow> 'proc phase" where
  "phase_of w = (case current w of None \<Rightarrow> Quiet | Some (r, m) \<Rightarrow> InCall m)"

definition protocol_inv :: "worker \<Rightarrow> bool" where
  "protocol_inv w \<longleftrightarrow> worker_inv w \<and>
     (case current w of None \<Rightarrow> True
      | Some (r, m) \<Rightarrow> output_path r = audio_path m \<and> ended_at m = None)"

lemma apply_start_protocol:
  assumes "current w = None" and "apply_start w a = (es, w')"
  shows "monitors (live w) Quiet es = Some (phase_of w')"
    and "case current w' of None \<Rightarrow> True
         | Some (r, m) \<Rightarrow> output_path r = audio_path m \<and> ended_at m = None"
  using assms
  by (auto simp: apply_start_def phase_of_def monitor_def Let_def split: sum.splits if_splits)

lemma apply_stop_protocol:
  assumes "current w = Some (r, m)" and "output_path r = audio_path m" and "ended_at m = None"
    and "apply_stop w kept d a = (es, w')"
  shows "monitors (live w) (InCall m) es = Some (phase_of w')" and "current w' = None"
  using assms
  by (auto simp: apply_stop_def deliver_discarded_def deliver_finished_def phase_of_def
      monitor_def ended_version_def Let_def split: sum.splits if_splits)

lemma live_kept [simp]: "live (snd (worker_step w m)) = live w"
proof (cases m)
  case (Timeout a)
  have "live (snd (apply_start v a)) = live v" for v
    by (auto simp: apply_start_def Let_def split: sum.splits)
  moreover have "live (snd (apply_stop v k d a)) = live v" for v k d
    by (auto simp: apply_stop_def Let_def split: sum.splits option.splits)
  ultimately have "live (snd (apply_action v x a)) = live v" for v x
    by (cases x) auto
  then show ?thesis
    using Timeout by (auto simp: on_wakeup_def Let_def split: option.splits prod.splits)
qed (auto simp: rebind_def resume_detection_def Let_def split: sum.splits option.splits)

lemma on_wakeup_protocol:
  assumes inv: "protocol_inv w"
  shows "monitors (live w) (phase_of w) (fst (on_wakeup w a)) = Some (phase_of (snd (on_wakeup w a)))
    \<and> protocol_inv (snd (on_wakeup w a))"
proof -
  have wi: "worker_inv w" using inv by (simp add: protocol_inv_def)
  then have wi': "worker_inv (snd (on_wakeup w a))" by (rule on_wakeup_inv)
  show ?thesis
  proof (cases "paused w")
    case True
    then show ?thesis using inv by (simp add: on_wakeup_def)
  next
    case False
    define m where "m = (if current w \<noteq> None
      then on_signal (machine w) (others_hold_input a) (signal_now a) else machine w)"
    have rec_m: "is_recording (trigger m) \<longleftrightarrow> current w \<noteq> None"
      using wi by (auto simp: m_def worker_inv_def)
    obtain act m' where tick: "on_tick m (tick_now a) = (act, m')" by fastforce
    define v where "v = w\<lparr>machine := m'\<rparr>"
    have v: "current v = current w" "live v = live w"
      by (simp_all add: v_def)
    have wake: "on_wakeup w a = (case act of None \<Rightarrow> ([], v) | Some x \<Rightarrow> apply_action v x a)"
      using False tick by (auto simp: on_wakeup_def m_def v_def Let_def split: option.splits)
    show ?thesis
    proof (cases act)
      case None
      then show ?thesis using wake wi' inv v by (simp add: protocol_inv_def phase_of_def)
    next
      case (Some x)
      then have eff: "on_wakeup w a = apply_action v x a" using wake by simp
      show ?thesis
      proof (cases x)
        case ActStart
        have "\<not> is_recording (trigger m)"
          using tick Some ActStart by (auto elim: tick_start_held)
        then have c: "current v = None" using rec_m v by (cases "current w") auto
        obtain es w' where st: "apply_start v a = (es, w')" by fastforce
        show ?thesis
          using apply_start_protocol [OF c st] c eff st ActStart v wi'
          by (auto simp: protocol_inv_def phase_of_def)
      next
        case (ActStop kept d)
        have "is_recording (trigger m)"
          using tick Some ActStop by (auto elim: tick_stop_held)
        then obtain r mt where c: "current v = Some (r, mt)"
          using rec_m v by auto
        have ok: "output_path r = audio_path mt" "ended_at mt = None"
          using inv c v by (auto simp: protocol_inv_def)
        obtain es w' where st: "apply_stop v kept d a = (es, w')" by fastforce
        show ?thesis
          using apply_stop_protocol [OF c ok st] c eff st ActStop v wi'
          by (auto simp: protocol_inv_def phase_of_def)
      qed
    qed
  qed
qed

lemma worker_step_protocol:
  assumes inv: "protocol_inv w"
  shows "monitors (live w) (phase_of w) (fst (worker_step w m))
      = Some (phase_of (snd (worker_step w m)))
    \<and> protocol_inv (snd (worker_step w m))"
proof (cases m)
  case (Timeout a)
  then show ?thesis using on_wakeup_protocol [OF inv] by simp
next
  case (DeviceChanged mon now)
  have "worker_inv (snd (worker_step w m))"
    using inv by (simp add: protocol_inv_def worker_step_inv)
  then show ?thesis using inv DeviceChanged
    by (auto simp: protocol_inv_def rebind_def phase_of_def monitor_def
        split: sum.splits option.splits)
next
  case (Resume mic now)
  have "worker_inv (snd (worker_step w m))"
    using inv by (simp add: protocol_inv_def worker_step_inv)
  then show ?thesis using inv Resume
    by (auto simp: protocol_inv_def resume_detection_def phase_of_def Let_def
        split: option.splits)
next
  case (Signal on now)
  have "worker_inv (snd (worker_step w m))"
    using inv by (simp add: protocol_inv_def worker_step_inv)
  then show ?thesis using inv Signal by (auto simp: protocol_inv_def phase_of_def)
next
  case Pause
  have "worker_inv (snd (worker_step w m))"
    using inv by (simp add: protocol_inv_def worker_step_inv)
  then show ?thesis using inv Pause
    by (auto simp: protocol_inv_def phase_of_def monitor_def Let_def split: option.splits)
next
  case Shutdown
  then show ?thesis using inv by simp
qed

lemma worker_run_protocol:
  "protocol_inv w \<Longrightarrow>
     monitors (live w) (phase_of w) (fst (worker_run w ms)) = Some (phase_of (snd (worker_run w ms)))
     \<and> protocol_inv (snd (worker_run w ms))"
proof (induction ms arbitrary: w)
  case (Cons m ms)
  obtain es w' where st: "worker_step w m = (es, w')" by fastforce
  from worker_step_protocol [OF Cons.prems, of m] st
  have step: "monitors (live w) (phase_of w) es = Some (phase_of w')" "protocol_inv w'"
    by simp_all
  have "live w' = live w" using live_kept [of w m] st by simp
  then show ?case
    using Cons.IH [OF step(2)] step(1) st Cons.prems
    by (auto simp: monitors_append split: prod.splits)
qed simp

section \<open>Waking up\<close>

lemma next_wait_paused: "paused w \<Longrightarrow> next_wait w now = Inr None"
  by (simp add: next_wait_def)

definition polls_in_time :: "instant_overflow + duration option \<Rightarrow> bool" where
  "polls_in_time r =
     (case r of Inl _ \<Rightarrow> True | Inr None \<Rightarrow> False | Inr (Some d) \<Rightarrow> d \<le> POLL_INTERVAL)"

lemma next_wait_recording: "\<not> paused w \<Longrightarrow> current w \<noteq> None \<Longrightarrow> polls_in_time (next_wait w now)"
  by (cases "next_deadline (machine w)")
     (auto simp: next_wait_def polls_in_time_def Let_def split: option.splits)

section \<open>Properties\<close>

text \<open>C5. Calls made by the worker follow the live-hook and event protocol on every sequence of
  messages and platform answers: nothing is announced that was not started, every started
  recording gets exactly one verdict, the hook hears it before the event is emitted, and a pause is
  accepted only when no recording is held. The trace ends in the phase the held recorder implies.\<close>

theorem worker_follows_protocol:
  "monitors hook Quiet (fst (worker_run (worker_init hook initial now) ms))
     = Some (phase_of (snd (worker_run (worker_init hook initial now) ms)))"
proof -
  have "protocol_inv (worker_init hook initial now)"
    using worker_inv_init [of hook initial now]
    by (simp add: protocol_inv_def worker_init_def Let_def)
  from worker_run_protocol [OF this, of ms] show ?thesis
    by (simp add: phase_of_def worker_init_def Let_def)
qed

text \<open>C6. In every reachable worker state the machine believes a recording is in progress exactly
  when a recorder is held, a suspended worker is idle, holds nothing and never wakes up, and while a
  recording runs the worker wakes within the poll interval (unless the deadline overflows).\<close>

theorem worker_state_agrees:
  "let w = run_from (\<lambda>w m. snd (worker_step w m)) (worker_init hook initial now) ms
   in is_recording (trigger (machine w)) = (current w \<noteq> None)
      \<and> (if paused w
         then current w = None \<and> trigger (machine w) = Idle \<and> next_wait w t = Inr None
         else if current w = None then True
         else polls_in_time (next_wait w t))"
proof -
  define w where "w = run_from (\<lambda>w m. snd (worker_step w m)) (worker_init hook initial now) ms"
  have "worker_inv w"
    unfolding w_def
    by (rule detect_worker.run_inv) (simp_all add: worker_inv_init list_all_iff)
  then show ?thesis
    unfolding w_def [symmetric] Let_def
    by (auto simp: worker_inv_def next_wait_paused next_wait_recording)
qed

end
