(* ===== verification/QualityTypes.thy ===== *)
theory QualityTypes
  imports Prelude "HOL-Library.Product_Lexorder" "HOL-Library.List_Lexorder"
begin

text \<open>
  The data types of \<open>crates/corti-core/src/quality.rs\<close>: epochs of a capture, spans of lost or degraded
  audio, their classification, and the overflow counters for facts that could not be kept.

  Enumerations that derive \<open>Ord\<close> are instances of \<open>linorder\<close> in the order of their constructors;
  a span's derived order is the lexicographic order of its fields (\<open>span_key\<close>).
\<close>

section \<open>Enumerations\<close>

datatype quality_coverage = Observed | LegacyUnknown

datatype capture_epoch_reason = EpochStarted | HostGap | LayoutChanged | RateChanged

datatype quality_track = Mic | Tap | Both

datatype quality_cause =
    RingOverflow | HostDiscontinuity | LayoutChange | RateChange | TeeDrop | MicTapMismatch
  | DecodeFailure | NoResult | ResamplerFailure | WindowNotFiled | ForcedBoundary
  | FarReferenceSilent

datatype quality_class = SourceLoss | ProcessingLoss | DegradedOnly

datatype quality_stage = StageCapture | StageLive | StageBatch

datatype quality_resolution = Outstanding | RecoveredByBatch

datatype quality_error =
    UnsupportedVersion | CapacityExceeded | InvalidRate | InvalidChannels | InvalidEpochOrder
  | ConflictingEpoch | UnknownEpoch | UnknownAvailability | InvalidInterval
  | InvalidClassification | InvalidResolution | InvalidOverflow | InvalidActivity
  | QArithmeticOverflow

primrec track_rank :: "quality_track \<Rightarrow> nat" where
  "track_rank Mic = 0"
| "track_rank Tap = 1"
| "track_rank Both = 2"

lemma track_rank_inject [simp]: "track_rank x = track_rank y \<longleftrightarrow> x = y"
  by (cases x; cases y) auto

instantiation quality_track :: linorder
begin

definition less_eq_quality_track :: "quality_track \<Rightarrow> quality_track \<Rightarrow> bool" where
  "x \<le> y \<longleftrightarrow> track_rank x \<le> track_rank y"

definition less_quality_track :: "quality_track \<Rightarrow> quality_track \<Rightarrow> bool" where
  "x < y \<longleftrightarrow> track_rank x < track_rank y"

instance
  by standard (auto simp: less_eq_quality_track_def less_quality_track_def)

end

primrec cause_rank :: "quality_cause \<Rightarrow> nat" where
  "cause_rank RingOverflow = 0"
| "cause_rank HostDiscontinuity = 1"
| "cause_rank LayoutChange = 2"
| "cause_rank RateChange = 3"
| "cause_rank TeeDrop = 4"
| "cause_rank MicTapMismatch = 5"
| "cause_rank DecodeFailure = 6"
| "cause_rank NoResult = 7"
| "cause_rank ResamplerFailure = 8"
| "cause_rank WindowNotFiled = 9"
| "cause_rank ForcedBoundary = 10"
| "cause_rank FarReferenceSilent = 11"

lemma cause_rank_inject [simp]: "cause_rank x = cause_rank y \<longleftrightarrow> x = y"
  by (cases x; cases y) auto

instantiation quality_cause :: linorder
begin

definition less_eq_quality_cause :: "quality_cause \<Rightarrow> quality_cause \<Rightarrow> bool" where
  "x \<le> y \<longleftrightarrow> cause_rank x \<le> cause_rank y"

definition less_quality_cause :: "quality_cause \<Rightarrow> quality_cause \<Rightarrow> bool" where
  "x < y \<longleftrightarrow> cause_rank x < cause_rank y"

instance
  by standard (auto simp: less_eq_quality_cause_def less_quality_cause_def)

end

primrec class_rank :: "quality_class \<Rightarrow> nat" where
  "class_rank SourceLoss = 0"
| "class_rank ProcessingLoss = 1"
| "class_rank DegradedOnly = 2"

lemma class_rank_inject [simp]: "class_rank x = class_rank y \<longleftrightarrow> x = y"
  by (cases x; cases y) auto

instantiation quality_class :: linorder
begin

definition less_eq_quality_class :: "quality_class \<Rightarrow> quality_class \<Rightarrow> bool" where
  "x \<le> y \<longleftrightarrow> class_rank x \<le> class_rank y"

definition less_quality_class :: "quality_class \<Rightarrow> quality_class \<Rightarrow> bool" where
  "x < y \<longleftrightarrow> class_rank x < class_rank y"

instance
  by standard (auto simp: less_eq_quality_class_def less_quality_class_def)

end

primrec stage_rank :: "quality_stage \<Rightarrow> nat" where
  "stage_rank StageCapture = 0"
| "stage_rank StageLive = 1"
| "stage_rank StageBatch = 2"

lemma stage_rank_inject [simp]: "stage_rank x = stage_rank y \<longleftrightarrow> x = y"
  by (cases x; cases y) auto

instantiation quality_stage :: linorder
begin

definition less_eq_quality_stage :: "quality_stage \<Rightarrow> quality_stage \<Rightarrow> bool" where
  "x \<le> y \<longleftrightarrow> stage_rank x \<le> stage_rank y"

definition less_quality_stage :: "quality_stage \<Rightarrow> quality_stage \<Rightarrow> bool" where
  "x < y \<longleftrightarrow> stage_rank x < stage_rank y"

instance
  by standard (auto simp: less_eq_quality_stage_def less_quality_stage_def)

end

primrec resolution_rank :: "quality_resolution \<Rightarrow> nat" where
  "resolution_rank Outstanding = 0"
| "resolution_rank RecoveredByBatch = 1"

lemma resolution_rank_inject [simp]: "resolution_rank x = resolution_rank y \<longleftrightarrow> x = y"
  by (cases x; cases y) auto

instantiation quality_resolution :: linorder
begin

definition less_eq_quality_resolution :: "quality_resolution \<Rightarrow> quality_resolution \<Rightarrow> bool" where
  "x \<le> y \<longleftrightarrow> resolution_rank x \<le> resolution_rank y"

definition less_quality_resolution :: "quality_resolution \<Rightarrow> quality_resolution \<Rightarrow> bool" where
  "x < y \<longleftrightarrow> resolution_rank x < resolution_rank y"

instance
  by standard (auto simp: less_eq_quality_resolution_def less_quality_resolution_def)

end

section \<open>Epochs\<close>

record capture_epoch =
  epoch_id :: u32
  source_start_ns :: "u64 option"
  source_rate_hz :: u32
  source_frame_base :: u64
  retained_start_frame :: u64
  retained_rate_hz :: u32
  mic_channels :: u32
  tap_channels :: u32
  reason :: capture_epoch_reason

definition validate_epoch :: "capture_epoch \<Rightarrow> quality_error + unit" where
  "validate_epoch e =
     (if source_rate_hz e = 0 \<or> retained_rate_hz e = 0 then Inl InvalidRate
      else if is_none_or (checked_add 32 (mic_channels e) (tap_channels e)) (\<lambda>c. c = 0)
      then Inl InvalidChannels
      else Inr ())"

text \<open>Source time of a frame; an unknown epoch start stays unknown.\<close>

definition nanos_at :: "u64 option \<Rightarrow> u64 \<Rightarrow> u32 \<Rightarrow> 'e \<Rightarrow> 'e + u64 option" where
  "nanos_at base delta rate overflow_error =
     transpose_result (map_option (\<lambda>b.
       rbind (ok_or (try_from 64 (delta * 1000000000 div rate)) overflow_error) (\<lambda>nanos.
         ok_or (checked_add 64 b nanos) overflow_error)) base)"

definition source_time_ns :: "capture_epoch \<Rightarrow> u64 \<Rightarrow> quality_error + u64 option" where
  "source_time_ns e frame =
     rbind (validate_epoch e) (\<lambda>_.
     rbind (ok_or (checked_sub frame (source_frame_base e)) InvalidInterval) (\<lambda>delta.
       nanos_at (source_start_ns e) delta (source_rate_hz e) QArithmeticOverflow))"

definition retained_frame :: "capture_epoch \<Rightarrow> u64 \<Rightarrow> quality_error + u64" where
  "retained_frame e frame =
     rbind (validate_epoch e) (\<lambda>_.
     rbind (ok_or (checked_sub frame (source_frame_base e)) InvalidInterval) (\<lambda>delta.
     rbind (ok_or (try_from 64 (delta * retained_rate_hz e div source_rate_hz e))
              QArithmeticOverflow) (\<lambda>frames.
       ok_or (checked_add 64 (retained_start_frame e) frames) QArithmeticOverflow)))"

section \<open>Spans\<close>

record quality_span =
  epoch :: u32
  start_frame :: u64
  end_frame :: u64
  track :: quality_track
  cause :: quality_cause
  loss_class :: quality_class
  stage :: quality_stage
  resolution :: quality_resolution

definition span_key :: "quality_span \<Rightarrow>
    u32 \<times> u64 \<times> u64 \<times> quality_track \<times> quality_cause \<times> quality_class \<times> quality_stage \<times>
    quality_resolution" where
  "span_key s = (epoch s, start_frame s, end_frame s, track s, cause s, loss_class s, stage s,
     resolution s)"

lemma span_key_inject [simp]: "span_key s = span_key t \<longleftrightarrow> s = t"
  by (auto simp: span_key_def)

definition validate_class :: "quality_span \<Rightarrow> quality_error + unit" where
  "validate_class s =
     (let valid =
        (case cause s of
           RingOverflow \<Rightarrow> loss_class s = SourceLoss
         | HostDiscontinuity \<Rightarrow> loss_class s = SourceLoss
         | LayoutChange \<Rightarrow> loss_class s = SourceLoss \<or> loss_class s = DegradedOnly
         | RateChange \<Rightarrow> loss_class s = SourceLoss \<or> loss_class s = DegradedOnly
         | TeeDrop \<Rightarrow> loss_class s = ProcessingLoss
         | MicTapMismatch \<Rightarrow> loss_class s = ProcessingLoss
         | DecodeFailure \<Rightarrow> loss_class s = ProcessingLoss
         | NoResult \<Rightarrow> loss_class s = ProcessingLoss
         | WindowNotFiled \<Rightarrow> loss_class s = ProcessingLoss
         | ResamplerFailure \<Rightarrow>
             loss_class s = (if stage s = StageCapture then SourceLoss else ProcessingLoss)
         | ForcedBoundary \<Rightarrow> loss_class s = DegradedOnly
         | FarReferenceSilent \<Rightarrow> loss_class s = DegradedOnly)
      in if valid then Inr () else Inl InvalidClassification)"

definition same_kind :: "quality_span \<Rightarrow> quality_span \<Rightarrow> bool" where
  "same_kind s t \<longleftrightarrow> epoch s = epoch t \<and> track s = track t \<and> cause s = cause t \<and> loss_class s = loss_class t
     \<and> stage s = stage t \<and> resolution s = resolution t"

definition validate_resolution :: "quality_class \<Rightarrow> quality_resolution \<Rightarrow> quality_error + unit" where
  "validate_resolution c r =
     (if r = RecoveredByBatch \<and> c \<noteq> ProcessingLoss then Inl InvalidResolution else Inr ())"

lemma same_kind_refl [simp]: "same_kind s s"
  and same_kind_sym: "same_kind s t \<Longrightarrow> same_kind t s"
  and same_kind_trans: "same_kind s t \<Longrightarrow> same_kind t u \<Longrightarrow> same_kind s u"
  by (auto simp: same_kind_def)

lemma same_kind_bounds [simp]:
  "same_kind (s\<lparr>start_frame := a\<rparr>) t = same_kind s t"
  "same_kind (s\<lparr>end_frame := b\<rparr>) t = same_kind s t"
  "same_kind s (t\<lparr>start_frame := a\<rparr>) = same_kind s t"
  "same_kind s (t\<lparr>end_frame := b\<rparr>) = same_kind s t"
  by (simp_all add: same_kind_def)

section \<open>Overflow counters\<close>

text \<open>
  The two arrays of three counters are functions of the class; \<open>index\<close> numbers the classes and is
  left implicit. Both accessors of the source, \<open>omitted_spans[class.index()]\<close> and the loops over
  \<open>0..3\<close>, range over the three classes.
\<close>

record quality_overflow =
  omitted_spans :: "quality_class \<Rightarrow> u64"
  outstanding_omitted_spans :: "quality_class \<Rightarrow> u64"
  omitted_epochs :: u64
  counter_saturated :: bool

definition default_overflow :: quality_overflow where
  "default_overflow = \<lparr>omitted_spans = (\<lambda>_. 0), outstanding_omitted_spans = (\<lambda>_. 0),
     omitted_epochs = 0, counter_saturated = False\<rparr>"

text \<open>
  \<open>omit_span\<close> writes the saturation of its counters into the flag it is handed: the record's own,
  or the activity summary's. The new value of that flag is the second component.
\<close>

definition omit_span ::
    "quality_overflow \<Rightarrow> quality_class \<Rightarrow> quality_resolution \<Rightarrow> u64 \<Rightarrow> bool
       \<Rightarrow> quality_overflow \<times> bool" where
  "omit_span ov c r count saturated =
     (case sat_count (omitted_spans ov c) count saturated of
        (omitted, sat1) \<Rightarrow>
          (let ov1 = ov\<lparr>omitted_spans := (omitted_spans ov)(c := omitted)\<rparr>
           in if r = Outstanding
              then (case sat_count (outstanding_omitted_spans ov c) count sat1 of
                      (out, sat2) \<Rightarrow>
                        (ov1\<lparr>outstanding_omitted_spans :=
                           (outstanding_omitted_spans ov)(c := out)\<rparr>, sat2))
              else (ov1, sat1)))"

definition omit_span_own ::
    "quality_overflow \<Rightarrow> quality_class \<Rightarrow> quality_resolution \<Rightarrow> u64 \<Rightarrow> quality_overflow" where
  "omit_span_own ov c r count =
     (case omit_span ov c r count (counter_saturated ov) of
        (ov', sat) \<Rightarrow> ov'\<lparr>counter_saturated := sat\<rparr>)"

definition merge_lower_bounds :: "quality_overflow \<Rightarrow> quality_overflow \<Rightarrow> quality_overflow" where
  "merge_lower_bounds a b =
     \<lparr>omitted_spans = (\<lambda>c. max (omitted_spans a c) (omitted_spans b c)),
      outstanding_omitted_spans =
        (\<lambda>c. max (outstanding_omitted_spans a c) (outstanding_omitted_spans b c)),
      omitted_epochs = max (omitted_epochs a) (omitted_epochs b),
      counter_saturated = (counter_saturated a \<or> counter_saturated b)\<rparr>"

definition overflow_fits :: "quality_overflow \<Rightarrow> bool" where
  "overflow_fits ov \<longleftrightarrow> (\<forall>c. fits64 (omitted_spans ov c)) \<and> (\<forall>c. fits64 (outstanding_omitted_spans ov c))
     \<and> fits64 (omitted_epochs ov)"

text \<open>
  The outstanding counters never exceed the totals, and only processing loss can differ: what
  \<open>validate\<close> demands of the counters.
\<close>

definition overflow_consistent :: "quality_overflow \<Rightarrow> bool" where
  "overflow_consistent ov \<longleftrightarrow>
     outstanding_omitted_spans ov SourceLoss = omitted_spans ov SourceLoss
     \<and> outstanding_omitted_spans ov DegradedOnly = omitted_spans ov DegradedOnly
     \<and> outstanding_omitted_spans ov ProcessingLoss \<le> omitted_spans ov ProcessingLoss"

lemma sat_count_sync: "a = b \<Longrightarrow> fst (sat_count a n s) = fst (sat_count b n t)"
  by (auto simp: sat_count_def split: option.splits)

lemma sat_count_le: "a \<le> b \<Longrightarrow> fst (sat_count a n s) \<le> fst (sat_count b n t)"
  by (auto simp: sat_count_def split: option.splits)

lemma omit_span_fits:
  assumes "overflow_fits ov"
  shows "overflow_fits (fst (omit_span ov c r n s))"
proof -
  have b: "fits64 x" if "sat_count v m f = (x, g)" for v m f x g
    using sat_count_bound [of v m f] that by simp
  show ?thesis
    using assms by (auto simp: omit_span_def overflow_fits_def Let_def split: prod.splits dest: b)
qed

lemma omit_span_consistent:
  assumes "overflow_consistent ov" and "is_ok (validate_resolution c r)" and "overflow_fits ov"
  shows "overflow_consistent (fst (omit_span ov c r n s))"
proof -
  obtain t s1 where t: "sat_count (omitted_spans ov c) n s = (t, s1)" by fastforce
  obtain u s2 where u: "sat_count (outstanding_omitted_spans ov c) n s1 = (u, s2)" by fastforce
  have mono: "omitted_spans ov c \<le> t"
    using assms(3) sat_count_mono [of "omitted_spans ov c" n s] t by (simp add: overflow_fits_def)
  have le: "outstanding_omitted_spans ov c \<le> omitted_spans ov c"
    using assms(1) by (cases c) (auto simp: overflow_consistent_def)
  have "u \<le> t" using sat_count_le [OF le, of n s1 s] t u by simp
  moreover have "outstanding_omitted_spans ov c = omitted_spans ov c \<Longrightarrow> u = t"
    using sat_count_sync [of "outstanding_omitted_spans ov c" "omitted_spans ov c" n s1 s] t u
    by simp
  ultimately show ?thesis
    using assms mono le t u
    by (cases c; cases r)
       (auto simp: omit_span_def overflow_consistent_def validate_resolution_def)
qed

lemma omit_span_mono:
  assumes "overflow_fits ov"
  shows "omitted_spans ov d \<le> omitted_spans (fst (omit_span ov c r n s)) d"
    and "outstanding_omitted_spans ov d \<le> outstanding_omitted_spans (fst (omit_span ov c r n s)) d"
  using assms sat_count_mono [of "omitted_spans ov c" n s]
    sat_count_mono [of "outstanding_omitted_spans ov c" n]
  by (auto simp: omit_span_def overflow_fits_def Let_def split: prod.splits)
    (metis fst_conv)+

lemma omit_span_counts:
  assumes "0 < n"
  shows "0 < omitted_spans (fst (omit_span ov c r n s)) c"
    and "r = Outstanding \<Longrightarrow> 0 < outstanding_omitted_spans (fst (omit_span ov c r n s)) c"
  using sat_count_pos [OF assms, of "omitted_spans ov c" s]
    sat_count_pos [OF assms, of "outstanding_omitted_spans ov c"]
  by (auto simp: omit_span_def Let_def split: prod.splits) (metis fst_conv)+

lemma omit_span_other_fields [simp]:
  "omitted_epochs (fst (omit_span ov c r n s)) = omitted_epochs ov"
  "counter_saturated (fst (omit_span ov c r n s)) = counter_saturated ov"
  by (auto simp: omit_span_def Let_def split: prod.splits)

lemma omit_span_flag: "s \<Longrightarrow> snd (omit_span ov c r n s)"
  using sat_count_flag [of s "omitted_spans ov c" n]
    sat_count_flag [of True "outstanding_omitted_spans ov c" n]
  by (auto simp: omit_span_def Let_def split: prod.splits)

end
