(* ===== verification/QualityActivity.thy ===== *)
theory QualityActivity
  imports QualityTypes
begin

text \<open>
  \<open>crates/corti-core/src/quality_activity.rs\<close>: per-scope evidence about the far-end audio, kept in
  the quality record and merged across retries.

  \<open>ActivityInput\<close> and \<open>ActivityExtent\<close> derive \<open>Ord\<close> and are merged by \<open>min\<close>; they are
  single-constructor datatypes with that order as an instance of \<open>linorder\<close>.
\<close>

section \<open>Inputs and extents\<close>

definition MAX_ACTIVITY_RATE_HZ :: u32 where
  "MAX_ACTIVITY_RATE_HZ = 192000"

datatype activity_scope = ScopeCapture | ScopeOffline | ScopeLive

primrec scope_stage :: "activity_scope \<Rightarrow> quality_stage" where
  "scope_stage ScopeCapture = StageCapture"
| "scope_stage ScopeOffline = StageBatch"
| "scope_stage ScopeLive = StageLive"

datatype activity_input = ActivityInput (identity: "nat list") (input_rate_hz: u32)

datatype activity_extent = ActivityExtent (extent_end: u64) (all_zero: bool)

instantiation activity_input :: linorder
begin

definition less_eq_activity_input :: "activity_input \<Rightarrow> activity_input \<Rightarrow> bool" where
  "x \<le> y \<longleftrightarrow> (identity x, input_rate_hz x) \<le> (identity y, input_rate_hz y)"

definition less_activity_input :: "activity_input \<Rightarrow> activity_input \<Rightarrow> bool" where
  "x < y \<longleftrightarrow> (identity x, input_rate_hz x) < (identity y, input_rate_hz y)"

instance
  by standard
     (auto simp: less_eq_activity_input_def less_activity_input_def activity_input.expand)

end

instantiation activity_extent :: linorder
begin

definition less_eq_activity_extent :: "activity_extent \<Rightarrow> activity_extent \<Rightarrow> bool" where
  "x \<le> y \<longleftrightarrow> (extent_end x, all_zero x) \<le> (extent_end y, all_zero y)"

definition less_activity_extent :: "activity_extent \<Rightarrow> activity_extent \<Rightarrow> bool" where
  "x < y \<longleftrightarrow> (extent_end x, all_zero x) < (extent_end y, all_zero y)"

instance
  by standard
     (auto simp: less_eq_activity_extent_def less_activity_extent_def activity_extent.expand)

end

definition validate_input :: "activity_input \<Rightarrow> quality_error + unit" where
  "validate_input i =
     (if identity i = replicate 32 0 \<or> input_rate_hz i = 0 \<or> MAX_ACTIVITY_RATE_HZ < input_rate_hz i
      then Inl InvalidActivity else Inr ())"

definition new_activity_input :: "nat list \<Rightarrow> u32 \<Rightarrow> quality_error + activity_input" where
  "new_activity_input ident rate =
     (let i = ActivityInput ident rate in rbind (validate_input i) (\<lambda>_. Inr i))"

section \<open>Evidence of one scope\<close>

record activity_evidence =
  input :: "activity_input option"
  observed_tap :: bool
  nonzero_tap :: bool
  sustained_zero_tap :: bool
  absent_tap_layout :: bool
  suspected :: bool
  uncertain :: bool
  binding_conflict :: bool
  proof_conflict :: bool
  omitted_runs :: u64
  complete :: "activity_extent option"

definition default_evidence :: activity_evidence where
  "default_evidence = \<lparr>input = None, observed_tap = False, nonzero_tap = False,
     sustained_zero_tap = False, absent_tap_layout = False, suspected = False, uncertain = False,
     binding_conflict = False, proof_conflict = False, omitted_runs = 0, complete = None\<rparr>"

datatype far_reference_verdict = FarUnknown | FarPresent | FarIntermittent | FarAbsent

definition unambiguous_input :: "activity_evidence \<Rightarrow> activity_input option" where
  "unambiguous_input e = (if \<not> binding_conflict e \<and> \<not> proof_conflict e then input e else None)"

definition is_uncertain :: "activity_evidence \<Rightarrow> bool" where
  "is_uncertain e \<longleftrightarrow> uncertain e \<or> binding_conflict e \<or> proof_conflict e"

definition complete_end_frame :: "activity_evidence \<Rightarrow> u64 option" where
  "complete_end_frame e =
     map_option extent_end
       (if \<not> binding_conflict e \<and> \<not> proof_conflict e then complete e else None)"

definition far_reference :: "activity_evidence \<Rightarrow> far_reference_verdict" where
  "far_reference e =
     (if binding_conflict e \<or> proof_conflict e then FarUnknown
      else if nonzero_tap e
      then (if sustained_zero_tap e \<or> absent_tap_layout e then FarIntermittent else FarPresent)
      else if complete e \<noteq> None then FarAbsent
      else FarUnknown)"

definition validate_evidence :: "activity_evidence \<Rightarrow> quality_error + unit" where
  "validate_evidence e =
     (case input e of
        None \<Rightarrow> if e = default_evidence then Inr () else Inl InvalidActivity
      | Some i \<Rightarrow>
          rbind (validate_input i) (\<lambda>_.
            if (nonzero_tap e \<or> sustained_zero_tap e) \<and> \<not> observed_tap e
               \<or> suspected e \<and> \<not> sustained_zero_tap e
            then Inl InvalidActivity
            else if is_some_and (complete e) (\<lambda>x.
                   extent_end x = 0
                   \<or> (\<not> observed_tap e \<and> \<not> absent_tap_layout e)
                   \<or> (all_zero x = nonzero_tap e \<and> \<not> proof_conflict e))
            then Inl InvalidActivity
            else Inr ()))"

text \<open>The \<open>match\<close> of \<open>merge\<close>: a first value is adopted, a different one is a conflict.\<close>

definition merge_binding :: "'a::linorder option \<Rightarrow> 'a option \<Rightarrow> 'a option \<times> bool" where
  "merge_binding x y =
     (case (x, y) of
        (None, _) \<Rightarrow> (y, False)
      | (Some a, Some b) \<Rightarrow> if a \<noteq> b then (Some (min a b), True) else (x, False)
      | _ \<Rightarrow> (x, False))"

definition merge_evidence :: "activity_evidence \<Rightarrow> activity_evidence \<Rightarrow> activity_evidence" where
  "merge_evidence a b =
     (case merge_binding (input a) (input b) of (inp, clash) \<Rightarrow>
      case merge_binding (complete a) (complete b) of (proof_end, contradiction) \<Rightarrow>
        (let nonzero = (nonzero_tap a \<or> nonzero_tap b)
         in \<lparr>input = inp,
             observed_tap = (observed_tap a \<or> observed_tap b),
             nonzero_tap = nonzero,
             sustained_zero_tap = (sustained_zero_tap a \<or> sustained_zero_tap b),
             absent_tap_layout = (absent_tap_layout a \<or> absent_tap_layout b),
             suspected = (suspected a \<or> suspected b),
             uncertain = (uncertain a \<or> uncertain b),
             binding_conflict = (binding_conflict a \<or> clash \<or> binding_conflict b),
             proof_conflict = (proof_conflict a \<or> contradiction \<or> proof_conflict b
                \<or> is_some_and proof_end (\<lambda>x. all_zero x \<and> nonzero)),
             omitted_runs = max (omitted_runs a) (omitted_runs b),
             complete = proof_end\<rparr>))"

lemmas merge_evidence_defs = merge_evidence_def merge_binding_def Let_def

lemma merge_binding_simps [simp]:
  "merge_binding None y = (y, False)"
  "merge_binding x None = (x, False)"
  "merge_binding (Some a) (Some b) = (Some (min a b), a \<noteq> b)"
  by (auto simp: merge_binding_def split: option.splits)

text \<open>Facts are only ever added: no merge clears a flag or lowers a counter.\<close>

lemma merge_evidence_sticky:
  "is_uncertain a \<Longrightarrow> is_uncertain (merge_evidence a b)"
  "suspected a \<Longrightarrow> suspected (merge_evidence a b)"
  "omitted_runs a \<le> omitted_runs (merge_evidence a b)"
  by (auto simp: is_uncertain_def merge_evidence_def Let_def split: prod.splits)

lemma valid_evidence_cases:
  assumes "is_ok (validate_evidence e)"
  shows "e = default_evidence \<or> (\<exists>i. input e = Some i \<and> is_ok (validate_input i)
     \<and> (nonzero_tap e \<or> sustained_zero_tap e \<longrightarrow> observed_tap e)
     \<and> (suspected e \<longrightarrow> sustained_zero_tap e)
     \<and> (case complete e of None \<Rightarrow> True
        | Some x \<Rightarrow> extent_end x \<noteq> 0 \<and> (observed_tap e \<or> absent_tap_layout e)
            \<and> (all_zero x \<noteq> nonzero_tap e \<or> proof_conflict e)))"
  using assms
  by (auto simp: validate_evidence_def rbind_def is_ok_def
      split: option.splits if_splits sum.splits)

lemma valid_evidence_default [simp]: "is_ok (validate_evidence default_evidence)"
  by (simp add: validate_evidence_def default_evidence_def)

lemma valid_evidence_some:
  "input e = Some i \<Longrightarrow> is_ok (validate_evidence e) \<longleftrightarrow>
     is_ok (validate_input i)
     \<and> (nonzero_tap e \<or> sustained_zero_tap e \<longrightarrow> observed_tap e)
     \<and> (suspected e \<longrightarrow> sustained_zero_tap e)
     \<and> (case complete e of None \<Rightarrow> True
        | Some x \<Rightarrow> extent_end x \<noteq> 0 \<and> (observed_tap e \<or> absent_tap_layout e)
            \<and> (all_zero x \<noteq> nonzero_tap e \<or> proof_conflict e))"
  by (cases "validate_input i") (auto simp: validate_evidence_def split: option.splits)

lemma merge_evidence_default [simp]:
  "merge_evidence default_evidence b = b" if "is_ok (validate_evidence b)"
  using valid_evidence_cases [OF that]
  by (auto simp: merge_evidence_def default_evidence_def Let_def split: option.splits)

lemma merge_evidence_default2 [simp]:
  "merge_evidence a default_evidence = a" if "is_ok (validate_evidence a)"
  using valid_evidence_cases [OF that]
  by (auto simp: merge_evidence_def default_evidence_def Let_def split: option.splits)

lemma merge_binding_commute: "merge_binding x y = merge_binding y x"
  by (cases x; cases y) (auto simp: min.commute)

lemma merge_binding_idem [simp]: "merge_binding x x = (x, False)"
  by (cases x) auto

lemma merge_binding_assoc:
  "fst (merge_binding (fst (merge_binding x y)) z) = fst (merge_binding x (fst (merge_binding y z)))"
  "snd (merge_binding x y) \<or> snd (merge_binding (fst (merge_binding x y)) z)
     \<longleftrightarrow> snd (merge_binding y z) \<or> snd (merge_binding x (fst (merge_binding y z)))"
  by (cases x; cases y; cases z; auto simp: min.assoc min_def)+

lemma merge_binding_agree [simp]:
  "\<not> snd (merge_binding x (Some p)) \<Longrightarrow> fst (merge_binding x (Some p)) = Some p"
  "\<not> snd (merge_binding (Some p) x) \<Longrightarrow> fst (merge_binding (Some p) x) = Some p"
  by (cases x; auto)+

lemma merge_evidence_sel [simp]:
  "input (merge_evidence a b) = fst (merge_binding (input a) (input b))"
  "observed_tap (merge_evidence a b) = (observed_tap a \<or> observed_tap b)"
  "nonzero_tap (merge_evidence a b) = (nonzero_tap a \<or> nonzero_tap b)"
  "sustained_zero_tap (merge_evidence a b) = (sustained_zero_tap a \<or> sustained_zero_tap b)"
  "absent_tap_layout (merge_evidence a b) = (absent_tap_layout a \<or> absent_tap_layout b)"
  "suspected (merge_evidence a b) = (suspected a \<or> suspected b)"
  "uncertain (merge_evidence a b) = (uncertain a \<or> uncertain b)"
  "binding_conflict (merge_evidence a b) =
     (binding_conflict a \<or> snd (merge_binding (input a) (input b)) \<or> binding_conflict b)"
  "proof_conflict (merge_evidence a b) =
     (proof_conflict a \<or> snd (merge_binding (complete a) (complete b)) \<or> proof_conflict b
      \<or> is_some_and (fst (merge_binding (complete a) (complete b)))
          (\<lambda>x. all_zero x \<and> (nonzero_tap a \<or> nonzero_tap b)))"
  "omitted_runs (merge_evidence a b) = max (omitted_runs a) (omitted_runs b)"
  "complete (merge_evidence a b) = fst (merge_binding (complete a) (complete b))"
  by (simp_all add: merge_evidence_def Let_def split: prod.splits)

lemma merge_evidence_commute: "merge_evidence a b = merge_evidence b a"
  by (rule activity_evidence.equality)
     (auto simp: merge_binding_commute [of "input b"] merge_binding_commute [of "complete b"]
        disj_commute)

lemma proof_conflict_assoc:
  "proof_conflict (merge_evidence (merge_evidence a b) c)
     = proof_conflict (merge_evidence a (merge_evidence b c))"
proof (cases "snd (merge_binding (complete a) (complete b))
    \<or> snd (merge_binding (fst (merge_binding (complete a) (complete b))) (complete c))")
  case True
  then show ?thesis
    using merge_binding_assoc(2) [of "complete a" "complete b" "complete c"] by auto
next
  case False
  have l: "fst (merge_binding (complete a) (complete b)) = Some p \<Longrightarrow>
      fst (merge_binding (complete a) (fst (merge_binding (complete b) (complete c)))) = Some p"
    for p
    using False by (simp add: merge_binding_assoc(1) [symmetric])
  have r: "fst (merge_binding (complete b) (complete c)) = Some p \<Longrightarrow>
      fst (merge_binding (complete a) (fst (merge_binding (complete b) (complete c)))) = Some p"
    for p
    using False merge_binding_assoc(2) [of "complete a" "complete b" "complete c"] by simp
  show ?thesis
    using False l r merge_binding_assoc [of "complete a" "complete b" "complete c"]
    by (cases "fst (merge_binding (complete a) (complete b))";
        cases "fst (merge_binding (complete b) (complete c))") auto
qed

lemma merge_evidence_assoc:
  "merge_evidence (merge_evidence a b) c = merge_evidence a (merge_evidence b c)"
proof (rule activity_evidence.equality)
  show "binding_conflict (merge_evidence (merge_evidence a b) c)
      = binding_conflict (merge_evidence a (merge_evidence b c))"
    using merge_binding_assoc(2) [of "input a" "input b" "input c"] by auto
qed (use proof_conflict_assoc in \<open>auto simp: merge_binding_assoc(1) max.assoc\<close>)

lemma merge_evidence_idem:
  assumes "is_ok (validate_evidence a)"
  shows "merge_evidence a a = a"
  using valid_evidence_cases [OF assms]
  by (intro activity_evidence.equality)
     (auto simp: default_evidence_def is_some_and_def split: option.splits)

lemma merge_binding_valid:
  "(\<forall>i. x = Some i \<longrightarrow> P i) \<Longrightarrow> (\<forall>i. y = Some i \<longrightarrow> P i) \<Longrightarrow>
     fst (merge_binding x y) = Some j \<Longrightarrow> P j"
  by (cases x; cases y) (auto simp: min_def split: if_splits)

lemma merge_evidence_valid:
  assumes "is_ok (validate_evidence a)" and "is_ok (validate_evidence b)"
  shows "is_ok (validate_evidence (merge_evidence a b))"
proof (cases "a = default_evidence \<or> b = default_evidence")
  case True
  then show ?thesis using assms by auto
next
  case False
  then obtain i j where a: "input a = Some i" and b: "input b = Some j"
    using valid_evidence_cases [OF assms(1)] valid_evidence_cases [OF assms(2)] by auto
  have "is_ok (validate_input (min i j))"
    using assms by (simp add: valid_evidence_some [OF a] valid_evidence_some [OF b] min_def)
  then show ?thesis
    using assms a b
    by (cases "complete a"; cases "complete b")
       (auto simp: valid_evidence_some [where i = "min i j"] valid_evidence_some [OF a]
          valid_evidence_some [OF b] min_def split: if_splits)
qed

interpretation evidence: snapshot_join "\<lambda>e. is_ok (validate_evidence e)" merge_evidence
  by unfold_locales
     (auto intro: merge_evidence_valid merge_evidence_commute merge_evidence_assoc
        merge_evidence_idem)

section \<open>The three scopes\<close>

record quality_activity =
  omission_counter_saturated :: bool
  capture :: activity_evidence
  offline :: activity_evidence
  live :: activity_evidence

definition default_activity :: quality_activity where
  "default_activity = \<lparr>omission_counter_saturated = False, capture = default_evidence,
     offline = default_evidence, live = default_evidence\<rparr>"

primrec get_evidence :: "quality_activity \<Rightarrow> activity_scope \<Rightarrow> activity_evidence" where
  "get_evidence q ScopeCapture = capture q"
| "get_evidence q ScopeOffline = offline q"
| "get_evidence q ScopeLive = live q"

primrec observe :: "quality_activity \<Rightarrow> activity_scope \<Rightarrow> activity_evidence \<Rightarrow> quality_activity" where
  "observe q ScopeCapture e = q\<lparr>capture := merge_evidence (capture q) e\<rparr>"
| "observe q ScopeOffline e = q\<lparr>offline := merge_evidence (offline q) e\<rparr>"
| "observe q ScopeLive e = q\<lparr>live := merge_evidence (live q) e\<rparr>"

definition validate_activity :: "quality_activity \<Rightarrow> quality_error + unit" where
  "validate_activity q =
     rbind (validate_evidence (capture q)) (\<lambda>_.
     rbind (validate_evidence (offline q)) (\<lambda>_.
       validate_evidence (live q)))"

definition merge_activity :: "quality_activity \<Rightarrow> quality_activity \<Rightarrow> quality_activity" where
  "merge_activity a b =
     \<lparr>omission_counter_saturated = (omission_counter_saturated a \<or> omission_counter_saturated b),
      capture = merge_evidence (capture a) (capture b),
      offline = merge_evidence (offline a) (offline b),
      live = merge_evidence (live a) (live b)\<rparr>"

lemma valid_activity_iff:
  "is_ok (validate_activity q) \<longleftrightarrow> is_ok (validate_evidence (capture q))
     \<and> is_ok (validate_evidence (offline q)) \<and> is_ok (validate_evidence (live q))"
  by (auto simp: validate_activity_def rbind_def is_ok_def split: sum.splits)

lemma valid_activity_get: "is_ok (validate_activity q) \<Longrightarrow> is_ok (validate_evidence (get_evidence q s))"
  by (cases s) (auto simp: valid_activity_iff)

lemma valid_default_activity [simp]: "is_ok (validate_activity default_activity)"
  by (simp add: valid_activity_iff default_activity_def)

lemma merge_activity_assoc:
  "merge_activity (merge_activity a b) c = merge_activity a (merge_activity b c)"
  by (simp add: merge_activity_def merge_evidence_assoc disj_assoc)

interpretation activity: snapshot_join "\<lambda>q. is_ok (validate_activity q)" merge_activity
proof
  fix a b :: quality_activity
  show "is_ok (validate_activity a) \<Longrightarrow> is_ok (validate_activity b) \<Longrightarrow>
      is_ok (validate_activity (merge_activity a b))"
    by (simp add: valid_activity_iff merge_activity_def merge_evidence_valid)
  show "merge_activity a b = merge_activity b a"
    by (simp add: merge_activity_def merge_evidence_commute [of "capture a"]
        merge_evidence_commute [of "offline a"] merge_evidence_commute [of "live a"] disj_commute)
  show "is_ok (validate_activity a) \<Longrightarrow> merge_activity a a = a"
    by (simp add: valid_activity_iff merge_activity_def merge_evidence_idem)
qed (rule merge_activity_assoc)

lemma observe_valid:
  "is_ok (validate_activity q) \<Longrightarrow> is_ok (validate_evidence e) \<Longrightarrow>
     is_ok (validate_activity (observe q s e))"
  by (cases s) (auto simp: valid_activity_iff merge_evidence_valid)

end
