(* ===== verification/QualityRecord.thy ===== *)
theory QualityRecord
  imports QualityActivity
begin

text \<open>
  The record of \<open>crates/corti-core/src/quality.rs\<close>: the single persisted quality model of a
  recording, with its validation, bounded insertion, merging of snapshots and recovery.

  Mutating methods that can fail return the result together with the record they leave behind.
\<close>

section \<open>The record\<close>

definition QUALITY_SCHEMA_VERSION :: u32 where "QUALITY_SCHEMA_VERSION = 1"
definition MAX_QUALITY_EPOCHS :: nat where "MAX_QUALITY_EPOCHS = 64"
definition MAX_QUALITY_SPANS :: nat where "MAX_QUALITY_SPANS = 256"

record quality_record =
  schema_version :: u32
  coverage :: quality_coverage
  epochs :: "capture_epoch list"
  spans :: "quality_span list"
  overflow :: quality_overflow
  activity :: quality_activity

definition default_record :: quality_record where
  "default_record = \<lparr>schema_version = QUALITY_SCHEMA_VERSION, coverage = LegacyUnknown, epochs = [],
     spans = [], overflow = default_overflow, activity = default_activity\<rparr>"

definition observed_record :: quality_record where
  "observed_record = default_record\<lparr>coverage := Observed\<rparr>"

datatype source_verdict = Complete | Incomplete | Unknown

datatype batch_recovery_outcome =
    SameBackendWholeFileSuccess | ExplicitLocalWholeFileSuccess | BatchFailed | Partial
  | DifferentBackend | UnknownBackend

section \<open>Validation\<close>

definition activity_omission_sum :: "quality_activity \<Rightarrow> u64 \<times> bool" where
  "activity_omission_sum q =
     fold (\<lambda>s (count, saturated). sat_count count (omitted_runs (get_evidence q s)) saturated)
       [ScopeCapture, ScopeOffline, ScopeLive] (0, False)"

definition validate_epoch_pair :: "capture_epoch \<Rightarrow> capture_epoch \<Rightarrow> quality_error + unit" where
  "validate_epoch_pair previous e =
     (if epoch_id e \<le> epoch_id previous \<or> reason e = EpochStarted
         \<or> retained_rate_hz e \<noteq> retained_rate_hz previous
         \<or> retained_start_frame e < retained_start_frame previous
      then Inl InvalidEpochOrder else Inr ())"

text \<open>The loop of \<open>validate_epochs\<close>, from the previous epoch and the last known offset.\<close>

fun validate_epochs_from ::
    "capture_epoch option \<Rightarrow> u64 option \<Rightarrow> capture_epoch list \<Rightarrow> quality_error + unit" where
  "validate_epochs_from previous last_known [] = Inr ()"
| "validate_epochs_from previous last_known (e # es) =
     rbind (validate_epoch e) (\<lambda>_.
     rbind (case previous of
              None \<Rightarrow> if reason e \<noteq> EpochStarted then Inl InvalidEpochOrder else Inr ()
            | Some p \<Rightarrow> validate_epoch_pair p e) (\<lambda>_.
     case source_start_ns e of
       None \<Rightarrow> validate_epochs_from (Some e) last_known es
     | Some offset \<Rightarrow>
         if is_some_and last_known (\<lambda>l. offset < l) then Inl InvalidEpochOrder
         else validate_epochs_from (Some e) (Some offset) es))"

definition validate_epochs :: "capture_epoch list \<Rightarrow> quality_error + unit" where
  "validate_epochs es = validate_epochs_from None None es"

text \<open>\<open>iter().position\<close>: the index of the first epoch with an id.\<close>

fun epoch_position :: "u32 \<Rightarrow> capture_epoch list \<Rightarrow> nat option" where
  "epoch_position i [] = None"
| "epoch_position i (e # es) =
     (if epoch_id e = i then Some 0 else map_option Suc (epoch_position i es))"

definition get_epoch :: "capture_epoch list \<Rightarrow> nat \<Rightarrow> capture_epoch option" where
  "get_epoch es i = (if i < length es then Some (es ! i) else None)"

definition validate_span :: "capture_epoch list \<Rightarrow> quality_span \<Rightarrow> quality_error + unit" where
  "validate_span es s =
     rbind (validate_class s) (\<lambda>_.
     rbind (validate_resolution (loss_class s) (resolution s)) (\<lambda>_.
     rbind (ok_or (epoch_position (epoch s) es) UnknownEpoch) (\<lambda>i.
       (let e = es ! i
        in if end_frame s \<le> start_frame s \<or> start_frame s < source_frame_base e
           then Inl InvalidInterval
           else rbind (source_time_ns e (end_frame s)) (\<lambda>source_end.
                rbind (retained_frame e (end_frame s)) (\<lambda>_.
                  case get_epoch es (i + 1) of
                    None \<Rightarrow> Inr ()
                  | Some next \<Rightarrow>
                      (case opt_zip source_end (source_start_ns next) of
                         None \<Rightarrow> Inr ()
                       | Some (fin, next_start) \<Rightarrow>
                           if next_start < fin then Inl InvalidInterval else Inr ())))))))"

fun first_error :: "('a \<Rightarrow> 'e + unit) \<Rightarrow> 'a list \<Rightarrow> 'e + unit" where
  "first_error f [] = Inr ()"
| "first_error f (x # xs) = rbind (f x) (\<lambda>_. first_error f xs)"

definition validate_counters :: "quality_overflow \<Rightarrow> quality_class \<Rightarrow> quality_error + unit" where
  "validate_counters ov c =
     (if omitted_spans ov c < outstanding_omitted_spans ov c
         \<or> c \<noteq> ProcessingLoss \<and> outstanding_omitted_spans ov c \<noteq> omitted_spans ov c
      then Inl InvalidOverflow else Inr ())"

definition validate :: "quality_record \<Rightarrow> quality_error + unit" where
  "validate r =
     (if schema_version r \<noteq> QUALITY_SCHEMA_VERSION then Inl UnsupportedVersion
      else if MAX_QUALITY_EPOCHS < length (epochs r) \<or> MAX_QUALITY_SPANS < length (spans r)
      then Inl CapacityExceeded
      else rbind (validate_epochs (epochs r)) (\<lambda>_.
           rbind (validate_activity (activity r)) (\<lambda>_.
           (case activity_omission_sum (activity r) of (activity_omissions, activity_saturated) \<Rightarrow>
             if omitted_spans (overflow r) DegradedOnly < activity_omissions
                \<or> activity_saturated \<and> \<not> omission_counter_saturated (activity r)
             then Inl InvalidActivity
             else rbind (first_error (validate_span (epochs r)) (spans r)) (\<lambda>_.
                    first_error (validate_counters (overflow r))
                      [SourceLoss, ProcessingLoss, DegradedOnly])))))"

section \<open>Coalescing\<close>

definition swap_remove :: "'a list \<Rightarrow> nat \<Rightarrow> 'a list" where
  "swap_remove xs i = butlast (xs[i := last xs])"

definition touches :: "quality_span \<Rightarrow> quality_span \<Rightarrow> bool" where
  "touches previous s \<longleftrightarrow> same_kind previous s \<and> start_frame s \<le> end_frame previous
     \<and> start_frame previous \<le> end_frame s"

definition widen :: "quality_span \<Rightarrow> quality_span \<Rightarrow> quality_span" where
  "widen s previous =
     s\<lparr>start_frame := min (start_frame s) (start_frame previous),
       end_frame := max (end_frame s) (end_frame previous)\<rparr>"

lemma length_swap_remove [simp]: "length (swap_remove xs i) = length xs - 1"
  by (simp add: swap_remove_def)

text \<open>The loop restarts after each removal: the widened interval can reach an earlier span.\<close>

function coalesce_from :: "nat \<Rightarrow> quality_span list \<Rightarrow> quality_span \<Rightarrow> quality_span list \<times> quality_span" where
  "coalesce_from i xs s =
     (if i < length xs
      then (if touches (xs ! i) s
            then coalesce_from 0 (swap_remove xs i) (widen s (xs ! i))
            else coalesce_from (i + 1) xs s)
      else (xs, s))"
  by pat_completeness auto
termination
  by (relation "measures [\<lambda>(i, xs, s). length xs, \<lambda>(i, xs, s). length xs - i]") auto

declare coalesce_from.simps [simp del]

definition coalesce :: "quality_span list \<Rightarrow> quality_span \<Rightarrow> quality_span list \<times> quality_span" where
  "coalesce xs s = coalesce_from 0 xs s"

text \<open>\<open>sort_unstable\<close> on the derived total order.\<close>

definition sort_spans :: "quality_span list \<Rightarrow> quality_span list" where
  "sort_spans xs = sort_key span_key xs"

section \<open>Insertion and omission\<close>

definition record_omitted_epochs :: "quality_record \<Rightarrow> u64 \<Rightarrow> quality_record" where
  "record_omitted_epochs r count =
     (case sat_count (omitted_epochs (overflow r)) count (counter_saturated (overflow r)) of
        (n, sat) \<Rightarrow>
          r\<lparr>overflow := (overflow r)\<lparr>omitted_epochs := n, counter_saturated := sat\<rparr>\<rparr>)"

definition insert_epoch ::
    "quality_record \<Rightarrow> capture_epoch \<Rightarrow> (quality_error + bool) \<times> quality_record" where
  "insert_epoch r e =
     (case rbind (validate r) (\<lambda>_. validate_epoch e) of
        Inl err \<Rightarrow> (Inl err, r)
      | Inr _ \<Rightarrow>
          (case find (\<lambda>p. epoch_id p = epoch_id e) (epochs r) of
             Some p \<Rightarrow> (if p = e then Inr True else Inl ConflictingEpoch, r)
           | None \<Rightarrow>
               (let order =
                  (if epochs r \<noteq> [] then validate_epoch_pair (last (epochs r)) e
                   else if reason e \<noteq> EpochStarted then Inl InvalidEpochOrder else Inr ())
                in case order of
                     Inl err \<Rightarrow> (Inl err, r)
                   | Inr _ \<Rightarrow>
                       (if is_some_and (source_start_ns e) (\<lambda>offset.
                             list_ex (\<lambda>p. offset < p) (List.map_filter source_start_ns (epochs r)))
                        then (Inl InvalidEpochOrder, r)
                        else if length (epochs r) = MAX_QUALITY_EPOCHS
                        then (Inr False, record_omitted_epochs r 1)
                        else (let r' = r\<lparr>epochs := epochs r @ [e]\<rparr>
                              in case validate r' of
                                   Inl err \<Rightarrow> (Inl err, r)
                                 | Inr _ \<Rightarrow> (Inr True, r'))))))"

definition try_insert_span ::
    "quality_record \<Rightarrow> quality_span \<Rightarrow> (quality_error + bool) \<times> quality_record" where
  "try_insert_span r s =
     (case rbind (validate r) (\<lambda>_. validate_span (epochs r) s) of
        Inl err \<Rightarrow> (Inl err, r)
      | Inr _ \<Rightarrow>
          (case coalesce (spans r) s of (kept, merged) \<Rightarrow>
             if length kept = MAX_QUALITY_SPANS then (Inr False, r\<lparr>spans := kept\<rparr>)
             else (Inr True, r\<lparr>spans := sort_spans (kept @ [merged])\<rparr>)))"

definition record_omitted_spans ::
    "quality_record \<Rightarrow> quality_class \<Rightarrow> quality_resolution \<Rightarrow> u64
       \<Rightarrow> (quality_error + unit) \<times> quality_record" where
  "record_omitted_spans r c res count =
     (case rbind (validate r) (\<lambda>_. validate_resolution c res) of
        Inl err \<Rightarrow> (Inl err, r)
      | Inr _ \<Rightarrow> (Inr (), r\<lparr>overflow := omit_span_own (overflow r) c res count\<rparr>))"

text \<open>Activity omissions saturate the flag of the activity summary, not the record's.\<close>

definition omit_activity :: "quality_record \<Rightarrow> u64 \<Rightarrow> quality_record" where
  "omit_activity r count =
     (case omit_span (overflow r) DegradedOnly Outstanding count
             (omission_counter_saturated (activity r)) of
        (ov, sat) \<Rightarrow>
          r\<lparr>overflow := ov, activity := (activity r)\<lparr>omission_counter_saturated := sat\<rparr>\<rparr>)"

definition record_omitted_activity_run ::
    "quality_record \<Rightarrow> (quality_error + unit) \<times> quality_record" where
  "record_omitted_activity_run r =
     (case validate r of Inl err \<Rightarrow> (Inl err, r) | Inr _ \<Rightarrow> (Inr (), omit_activity r 1))"

definition insert_span ::
    "quality_record \<Rightarrow> quality_span \<Rightarrow> (quality_error + bool) \<times> quality_record" where
  "insert_span r s =
     (case try_insert_span r s of
        (Inl err, r') \<Rightarrow> (Inl err, r')
      | (Inr True, r') \<Rightarrow> (Inr True, r')
      | (Inr False, r') \<Rightarrow>
          (if cause s = FarReferenceSilent
           then (case record_omitted_activity_run r' of
                   (Inl err, r'') \<Rightarrow> (Inl err, r'')
                 | (Inr _, r'') \<Rightarrow> (Inr False, r''))
           else (Inr False,
                 r'\<lparr>overflow := omit_span_own (overflow r') (loss_class s) (resolution s) 1\<rparr>)))"

definition observe_activity_omissions ::
    "quality_record \<Rightarrow> activity_scope \<Rightarrow> activity_input \<Rightarrow> u64 \<Rightarrow> bool
       \<Rightarrow> (quality_error + unit) \<times> quality_record" where
  "observe_activity_omissions r scope inp runs saturated =
     (case validate r of
        Inl err \<Rightarrow> (Inl err, r)
      | Inr _ \<Rightarrow>
          (let delta = saturating_sub runs (omitted_runs (get_evidence (activity r) scope));
               r1 = omit_activity r delta;
               q = (activity r1)\<lparr>omission_counter_saturated :=
                      omission_counter_saturated (activity r1) \<or> saturated\<rparr>
           in (Inr (), r1\<lparr>activity := observe q scope
                 (default_evidence\<lparr>input := Some inp, omitted_runs := runs\<rparr>)\<rparr>)))"

section \<open>Recovery and completeness\<close>

definition whole_file_success :: "batch_recovery_outcome \<Rightarrow> bool" where
  "whole_file_success b \<longleftrightarrow> b = SameBackendWholeFileSuccess \<or> b = ExplicitLocalWholeFileSuccess"

definition resolve_span :: "quality_span \<Rightarrow> quality_span" where
  "resolve_span s =
     (if loss_class s = ProcessingLoss then s\<lparr>resolution := RecoveredByBatch\<rparr> else s)"

definition push_coalesced :: "quality_span list \<Rightarrow> quality_span \<Rightarrow> quality_span list" where
  "push_coalesced xs s = (case coalesce xs s of (kept, merged) \<Rightarrow> kept @ [merged])"

definition resolve_processing_after_batch ::
    "quality_record \<Rightarrow> batch_recovery_outcome \<Rightarrow> (quality_error + bool) \<times> quality_record" where
  "resolve_processing_after_batch r outcome =
     (case validate r of
        Inl err \<Rightarrow> (Inl err, r)
      | Inr _ \<Rightarrow>
          (if \<not> whole_file_success outcome then (Inr False, r)
           else (Inr True,
                 r\<lparr>spans := sort_spans (foldl push_coalesced [] (map resolve_span (spans r))),
                   overflow := (overflow r)\<lparr>outstanding_omitted_spans :=
                     (outstanding_omitted_spans (overflow r))(ProcessingLoss := 0)\<rparr>\<rparr>)))"

definition has_outstanding :: "quality_record \<Rightarrow> quality_class \<Rightarrow> bool" where
  "has_outstanding r c =
     (if c = SourceLoss
      then omitted_spans (overflow r) c \<noteq> 0 \<or> outstanding_omitted_spans (overflow r) c \<noteq> 0
           \<or> list_ex (\<lambda>s. loss_class s = c) (spans r)
      else outstanding_omitted_spans (overflow r) c \<noteq> 0
           \<or> list_ex (\<lambda>s. loss_class s = c \<and> resolution s = Outstanding) (spans r))"

definition source_completeness :: "quality_record \<Rightarrow> source_verdict" where
  "source_completeness r =
     (if has_outstanding r SourceLoss then Incomplete
      else if \<not> is_ok (validate r) \<or> coverage r = LegacyUnknown
         \<or> omitted_epochs (overflow r) \<noteq> 0 \<or> counter_saturated (overflow r)
         \<or> list_ex (\<lambda>e. source_start_ns e = None) (epochs r)
      then Unknown
      else Complete)"

definition completeness :: "quality_record \<Rightarrow> source_verdict" where
  "completeness r =
     (if has_outstanding r SourceLoss \<or> has_outstanding r ProcessingLoss then Incomplete
      else source_completeness r)"

definition requires_batch_recovery :: "quality_record \<Rightarrow> bool" where
  "requires_batch_recovery r = has_outstanding r ProcessingLoss"

section \<open>Projection onto the retained recording\<close>

text \<open>One source-loss span, clipped to its epoch's retained stretch; \<open>None\<close> when nothing is left.\<close>

definition project_span ::
    "quality_record \<Rightarrow> u64 \<Rightarrow> quality_span
       \<Rightarrow> quality_error + (u64 \<times> u64 \<times> quality_track) option" where
  "project_span r frames s =
     rbind (ok_or (epoch_position (epoch s) (epochs r)) UnknownEpoch) (\<lambda>i.
       (let e = epochs r ! i
        in rbind (if i + 1 = length (epochs r) \<and> omitted_epochs (overflow r) \<noteq> 0
                  then rbind (retained_frame e (start_frame s)) (\<lambda>f.
                         if f < frames then Inl UnknownEpoch else Inr ())
                  else Inr ()) (\<lambda>_.
             (let limit = (case get_epoch (epochs r) (i + 1) of
                             None \<Rightarrow> frames
                           | Some next \<Rightarrow> min (retained_start_frame next) frames)
              in rbind (retained_frame e (start_frame s)) (\<lambda>f.
                 rbind (retained_frame e (end_frame s)) (\<lambda>g.
                   (let first = min (max f (retained_start_frame e)) limit;
                        final = min g limit
                    in Inr (if first < final then Some (first, final, track s) else None))))))))"

fun project_spans ::
    "quality_record \<Rightarrow> u64 \<Rightarrow> quality_span list \<Rightarrow> quality_error + (u64 \<times> u64 \<times> quality_track) list"
where
  "project_spans r frames [] = Inr []"
| "project_spans r frames (s # ss) =
     rbind (project_span r frames s) (\<lambda>x.
     rbind (project_spans r frames ss) (\<lambda>xs.
       Inr (case x of None \<Rightarrow> xs | Some y \<Rightarrow> y # xs)))"

definition retained_source_loss_intervals ::
    "quality_record \<Rightarrow> u64 \<Rightarrow> quality_error + (u64 \<times> u64 \<times> quality_track) list" where
  "retained_source_loss_intervals r frames =
     rbind (validate r) (\<lambda>_.
       if omitted_spans (overflow r) SourceLoss \<noteq> 0 \<or> counter_saturated (overflow r)
       then Inl UnknownAvailability
       else project_spans r frames (filter (\<lambda>s. loss_class s = SourceLoss) (spans r)))"

section \<open>Merging snapshots\<close>

fun union_epochs :: "capture_epoch list \<Rightarrow> capture_epoch list \<Rightarrow> quality_error + capture_epoch list" where
  "union_epochs es [] = Inr es"
| "union_epochs es (e # others) =
     (case find (\<lambda>p. epoch_id p = epoch_id e) es of
        Some p \<Rightarrow> if p \<noteq> e then Inl ConflictingEpoch else union_epochs es others
      | None \<Rightarrow> union_epochs (es @ [e]) others)"

text \<open>
  The loop that keeps a span of the union or counts it as omitted. The last component counts the
  omitted far-reference spans by the stage that observed them.
\<close>

definition keep_or_omit ::
    "capture_epoch list \<Rightarrow> quality_span
       \<Rightarrow> quality_span list \<times> quality_overflow \<times> (quality_stage \<Rightarrow> nat)
       \<Rightarrow> quality_span list \<times> quality_overflow \<times> (quality_stage \<Rightarrow> nat)" where
  "keep_or_omit es s acc =
     (case acc of (kept, ov, omitted) \<Rightarrow>
        if length kept < MAX_QUALITY_SPANS \<and> list_ex (\<lambda>e. epoch_id e = epoch s) es
        then (kept @ [s], ov, omitted)
        else (kept, omit_span_own ov (loss_class s) (resolution s) 1,
              if cause s = FarReferenceSilent
              then omitted(stage s := omitted (stage s) + 1) else omitted))"

definition observe_omitted :: "(quality_stage \<Rightarrow> nat) \<Rightarrow> quality_activity \<Rightarrow> quality_activity" where
  "observe_omitted omitted q =
     fold (\<lambda>scope q.
       case input (get_evidence q scope) of
         None \<Rightarrow> q
       | Some i \<Rightarrow> observe q scope
           (default_evidence\<lparr>input := Some i, omitted_runs := omitted (scope_stage scope)\<rparr>))
       [ScopeCapture, ScopeOffline, ScopeLive] q"

text \<open>The union, before its final validation.\<close>

definition merged_record ::
    "quality_record \<Rightarrow> quality_record \<Rightarrow> capture_epoch list \<Rightarrow> quality_record" where
  "merged_record r other union_list =
     (let es = take MAX_QUALITY_EPOCHS union_list;
          ov0 = default_overflow\<lparr>omitted_epochs :=
                  saturating_sub (length union_list) MAX_QUALITY_EPOCHS\<rparr>;
          union_spans = sort_spans (foldl push_coalesced [] (spans r @ spans other))
      in case fold (keep_or_omit es) union_spans ([], ov0, \<lambda>_. 0) of (kept, ov1, omitted) \<Rightarrow>
        (let q = observe_omitted omitted (merge_activity (activity r) (activity other));
             ov2 = merge_lower_bounds (merge_lower_bounds ov1 (overflow r)) (overflow other)
         in case activity_omission_sum q of (runs, saturated) \<Rightarrow>
           (let degraded = max (omitted_spans ov2 DegradedOnly) runs
            in default_record\<lparr>
                 coverage := (if coverage r = Observed \<and> coverage other = Observed
                              then Observed else LegacyUnknown),
                 epochs := es,
                 spans := kept,
                 overflow := ov2\<lparr>omitted_spans := (omitted_spans ov2)(DegradedOnly := degraded),
                   outstanding_omitted_spans :=
                     (outstanding_omitted_spans ov2)(DegradedOnly := degraded)\<rparr>,
                 activity := q\<lparr>omission_counter_saturated :=
                   omission_counter_saturated q \<or> saturated\<rparr>\<rparr>)))"

definition merge_snapshot ::
    "quality_record \<Rightarrow> quality_record \<Rightarrow> (quality_error + unit) \<times> quality_record" where
  "merge_snapshot r other =
     (case rbind (validate r) (\<lambda>_.
           rbind (validate other) (\<lambda>_.
           rbind (union_epochs (epochs r) (epochs other)) (\<lambda>es.
             (let union_list = sort_key epoch_id es
              in rbind (validate_epochs union_list) (\<lambda>_.
                   (let m = merged_record r other union_list
                    in rbind (validate m) (\<lambda>_. Inr m))))))) of
        Inl err \<Rightarrow> (Inl err, r)
      | Inr m \<Rightarrow> (Inr (), m))"

section \<open>Merging activity against the record's own epochs\<close>

text \<open>\<open>?\<close> on a mutating call: the first error ends the loop.\<close>

fun try_fold :: "('a \<Rightarrow> 's \<Rightarrow> ('e + 'b) \<times> 's) \<Rightarrow> 'a list \<Rightarrow> 's \<Rightarrow> ('e + unit) \<times> 's" where
  "try_fold f [] s = (Inr (), s)"
| "try_fold f (x # xs) s =
     (case f x s of (Inl err, s') \<Rightarrow> (Inl err, s') | (Inr _, s') \<Rightarrow> try_fold f xs s')"

definition place_activity_span ::
    "quality_record \<Rightarrow> quality_record \<Rightarrow> quality_span
       \<Rightarrow> quality_record \<times> (quality_stage \<Rightarrow> nat)
       \<Rightarrow> (quality_error + unit) \<times> (quality_record \<times> (quality_stage \<Rightarrow> nat))" where
  "place_activity_span r snapshot s acc =
     (case acc of (act, unmapped) \<Rightarrow>
        if cause s \<noteq> FarReferenceSilent then (Inr (), acc)
        else if is_some_and (find (\<lambda>e. epoch_id e = epoch s) (epochs snapshot))
                  (\<lambda>e. e \<in> set (epochs r))
                \<and> is_ok (validate_span (epochs act) s)
        then (case insert_span act s of
                (Inl err, act') \<Rightarrow> (Inl err, (act', unmapped))
              | (Inr _, act') \<Rightarrow> (Inr (), (act', unmapped)))
        else (Inr (), (act, unmapped(stage s := unmapped (stage s) + 1))))"

definition count_unmapped ::
    "(quality_stage \<Rightarrow> nat) \<Rightarrow> activity_scope \<Rightarrow> quality_record
       \<Rightarrow> (quality_error + unit) \<times> quality_record" where
  "count_unmapped unmapped scope act =
     (let count = unmapped (scope_stage scope);
          e = get_evidence (activity act) scope
      in case input e of
           Some i \<Rightarrow>
             observe_activity_omissions act scope i (saturating_add 64 (omitted_runs e) count)
               (checked_add 64 (omitted_runs e) count = None)
         | None \<Rightarrow> try_fold (\<lambda>_. record_omitted_activity_run) [0..<count] act)"

definition activity_view :: "quality_record \<Rightarrow> quality_record \<Rightarrow> quality_record" where
  "activity_view r snapshot =
     (case activity_omission_sum (activity snapshot) of (omitted, saturated) \<Rightarrow>
        default_record\<lparr>
          coverage := coverage r, epochs := epochs r,
          overflow := default_overflow\<lparr>
            omitted_spans := (\<lambda>_. 0)(DegradedOnly := omitted),
            outstanding_omitted_spans := (\<lambda>_. 0)(DegradedOnly := omitted)\<rparr>,
          activity := (activity snapshot)\<lparr>omission_counter_saturated :=
            omission_counter_saturated (activity snapshot) \<or> saturated\<rparr>\<rparr>)"

definition merge_activity_snapshot ::
    "quality_record \<Rightarrow> quality_record \<Rightarrow> (quality_error + unit) \<times> quality_record" where
  "merge_activity_snapshot r snapshot =
     (case rbind (validate r) (\<lambda>_. validate snapshot) of
        Inl err \<Rightarrow> (Inl err, r)
      | Inr _ \<Rightarrow>
          (case try_fold (place_activity_span r snapshot) (spans snapshot)
                  (activity_view r snapshot, \<lambda>_. 0) of
             (Inl err, _) \<Rightarrow> (Inl err, r)
           | (Inr _, (act, unmapped)) \<Rightarrow>
               (case try_fold (count_unmapped unmapped) [ScopeCapture, ScopeOffline, ScopeLive] act of
                  (Inl err, _) \<Rightarrow> (Inl err, r)
                | (Inr _, act') \<Rightarrow> merge_snapshot r act')))"

end
