(* ===== verification/QualityCoalesce.thy ===== *)
theory QualityCoalesce
  imports QualityRecord "HOL-Library.Multiset"
begin

text \<open>
  The coalescing loop of the quality record: it terminates, keeps exactly the frames that were
  covered, and leaves spans of one kind that neither overlap nor touch.
\<close>

section \<open>Removing by swap\<close>

lemma mset_swap_remove:
  assumes "i < length xs"
  shows "mset xs = add_mset (xs ! i) (mset (swap_remove xs i))"
proof (cases xs rule: rev_cases)
  case Nil
  then show ?thesis using assms by simp
next
  case (snoc ys y)
  show ?thesis
  proof (cases "i = length ys")
    case True
    then show ?thesis using snoc by (simp add: swap_remove_def)
  next
    case False
    then have i: "i < length ys" using assms snoc by simp
    have "swap_remove xs i = ys[i := y]"
      using i snoc by (simp add: swap_remove_def list_update_append butlast_list_update)
    moreover have "mset (ys[i := y]) = add_mset y (mset ys - {#ys ! i#})"
      using i by (simp add: mset_update)
    moreover have "ys ! i \<in># mset ys" using i by simp
    ultimately show ?thesis using i snoc by (simp add: nth_append)
  qed
qed

lemma set_swap_remove: "i < length xs \<Longrightarrow> set xs = insert (xs ! i) (set (swap_remove xs i))"
  using mset_swap_remove [of i xs] by (metis set_mset_add_mset_insert set_mset_mset)

lemma set_swap_remove_subset: "i < length xs \<Longrightarrow> set (swap_remove xs i) \<subseteq> set xs"
  using set_swap_remove [of i xs] by auto

lemma distinct_swap_remove:
  assumes "i < length xs" and "distinct xs"
  shows "distinct (swap_remove xs i)"
proof -
  have "\<forall>a. count (mset xs) a = (if a \<in> set xs then 1 else 0)"
    using assms(2) by (simp add: distinct_count_atmost_1)
  then have le: "count (mset (swap_remove xs i)) a \<le> 1" for a
    unfolding mset_swap_remove [OF assms(1)]
    by (metis One_nat_def Suc_le_mono add_mset_eq_single bot_nat_0.extremum count_add_mset le_SucI
        less_eq_Suc_le not_less_eq_eq)
  have "count (mset (swap_remove xs i)) a = (if a \<in> set (swap_remove xs i) then 1 else 0)" for a
    using le [of a] by (auto simp: count_eq_zero_iff Suc_leI le_Suc_eq
        simp flip: set_mset_mset not_in_iff)
  then show ?thesis by (simp add: distinct_count_atmost_1)
qed

section \<open>Touching spans\<close>

definition proper :: "quality_span \<Rightarrow> bool" where
  "proper s \<longleftrightarrow> start_frame s < end_frame s"

definition frames_of :: "quality_span \<Rightarrow> nat set" where
  "frames_of s = {start_frame s..<end_frame s}"

text \<open>The frames that a list of spans covers with facts of one kind.\<close>

definition covered :: "quality_span list \<Rightarrow> quality_span \<Rightarrow> nat set" where
  "covered xs k = (\<Union>s \<in> {s \<in> set xs. same_kind s k}. frames_of s)"

lemma covered_cong: "set xs = set ys \<Longrightarrow> covered xs k = covered ys k"
  by (simp add: covered_def)

lemma covered_simps [simp]:
  "covered [] k = {}"
  "covered (s # xs) k = (if same_kind s k then frames_of s else {}) \<union> covered xs k"
  "covered (xs @ ys) k = covered xs k \<union> covered ys k"
  by (auto simp: covered_def)

lemma touches_refl: "proper s \<Longrightarrow> touches s s"
  by (simp add: touches_def proper_def)

lemma touches_sym: "touches s t \<Longrightarrow> touches t s"
  by (auto simp: touches_def same_kind_sym)

lemma same_kind_widen [simp]:
  "same_kind (widen s p) k = same_kind s k"
  "same_kind k (widen s p) = same_kind k s"
  by (simp_all add: widen_def same_kind_def)

lemma widen_sel [simp]:
  "start_frame (widen s p) = min (start_frame s) (start_frame p)"
  "end_frame (widen s p) = max (end_frame s) (end_frame p)"
  by (simp_all add: widen_def)

lemma proper_widen: "proper s \<Longrightarrow> proper (widen s p)"
  by (auto simp: proper_def)

lemma frames_of_widen:
  "touches p s \<Longrightarrow> frames_of (widen s p) = frames_of p \<union> frames_of s"
  by (auto simp: touches_def frames_of_def)

lemma touches_widen: "touches x s \<Longrightarrow> touches x (widen s p)"
  by (auto simp: touches_def)

section \<open>The loop\<close>

text \<open>
  One induction gives everything the callers need: which spans survive, that the covered frames
  are unchanged, that any property closed under widening is inherited, and that the result touches
  nothing that is left.
\<close>

lemma coalesce_from_facts:
  assumes "coalesce_from i xs s = (kept, m)"
    and "\<And>x t. x \<in> set xs \<Longrightarrow> touches x t \<Longrightarrow> Q t \<Longrightarrow> Q (widen t x)" and "Q s"
    and "\<forall>j<i. j < length xs \<longrightarrow> \<not> touches (xs ! j) s"
  shows "set kept \<subseteq> set xs \<and> length kept \<le> length xs \<and> (distinct xs \<longrightarrow> distinct kept)
    \<and> Q m \<and> same_kind m s
    \<and> covered (kept @ [m]) k = covered (xs @ [s]) k
    \<and> (\<forall>x \<in> set kept. \<not> touches x m)
    \<and> (length kept = length xs \<longrightarrow> kept = xs \<and> m = s)"
  using assms
proof (induction i xs s rule: coalesce_from.induct)
  case (1 i xs s)
  show ?case
  proof (cases "i < length xs")
    case False
    then have "kept = xs" "m = s"
      using "1.prems"(1) by (simp_all add: coalesce_from.simps [of i])
    then show ?thesis using "1.prems" False by (auto simp: in_set_conv_nth)
  next
    case i: True
    show ?thesis
    proof (cases "touches (xs ! i) s")
      case False
      then have rec: "coalesce_from (i + 1) xs s = (kept, m)"
        using "1.prems"(1) i by (simp add: coalesce_from.simps [of i])
      have "\<forall>j<i + 1. j < length xs \<longrightarrow> \<not> touches (xs ! j) s"
        using "1.prems"(4) False by (auto simp: less_Suc_eq)
      then show ?thesis
        using "1.IH"(2) [OF i False rec "1.prems"(2,3)] by simp
    next
      case t: True
      let ?ys = "swap_remove xs i" and ?w = "widen s (xs ! i)"
      have rec: "coalesce_from 0 ?ys ?w = (kept, m)"
        using "1.prems"(1) i t by (simp add: coalesce_from.simps [of i])
      have sub: "set ?ys \<subseteq> set xs" using i by (rule set_swap_remove_subset)
      have "Q ?w" using "1.prems"(2,3) i t by simp
      then have IH: "set kept \<subseteq> set ?ys \<and> length kept \<le> length ?ys
          \<and> (distinct ?ys \<longrightarrow> distinct kept) \<and> Q m \<and> same_kind m ?w
          \<and> covered (kept @ [m]) k = covered (?ys @ [?w]) k
          \<and> (\<forall>x \<in> set kept. \<not> touches x m) \<and> (length kept = length ?ys \<longrightarrow> kept = ?ys \<and> m = ?w)"
        using "1.IH"(1) [OF i t rec] "1.prems"(2) sub by blast
      have "covered (xs @ [s]) k = covered (?ys @ [xs ! i, s]) k"
        using set_swap_remove [OF i] by (intro covered_cong) auto
      also have "\<dots> = covered (?ys @ [?w]) k"
        using t frames_of_widen [OF t] same_kind_trans [of "xs ! i" s k]
          same_kind_trans [of s "xs ! i" k] same_kind_sym [of "xs ! i" s]
        by (auto simp: touches_def)
      finally have cov: "covered (kept @ [m]) k = covered (xs @ [s]) k" using IH by simp
      have len: "length kept < length xs" using IH i by (simp, linarith)
      then show ?thesis
        using IH sub i cov distinct_swap_remove [OF i] by auto
    qed
  qed
qed

lemma coalesce_facts:
  assumes "coalesce xs s = (kept, m)"
    and "\<And>x t. x \<in> set xs \<Longrightarrow> touches x t \<Longrightarrow> Q t \<Longrightarrow> Q (widen t x)" and "Q s"
  shows "set kept \<subseteq> set xs" and "length kept \<le> length xs"
    and "distinct xs \<Longrightarrow> distinct kept" and "Q m" and "same_kind m s"
    and "covered (kept @ [m]) k = covered (xs @ [s]) k"
    and "x \<in> set kept \<Longrightarrow> \<not> touches x m"
    and "length kept = length xs \<Longrightarrow> kept = xs \<and> m = s"
  using coalesce_from_facts [of 0 xs s kept m Q k] assms unfolding coalesce_def by auto

lemma coalesce_plain:
  assumes "coalesce xs s = (kept, m)"
  shows "set kept \<subseteq> set xs" and "distinct xs \<Longrightarrow> distinct kept" and "same_kind m s"
    and "covered (kept @ [m]) k = covered (xs @ [s]) k"
    and "x \<in> set kept \<Longrightarrow> \<not> touches x m"
  using coalesce_facts [OF assms, of "\<lambda>_. True"] by simp_all

section \<open>Separated spans\<close>

definition separated :: "quality_span list \<Rightarrow> bool" where
  "separated xs \<longleftrightarrow> distinct xs \<and> (\<forall>x \<in> set xs. \<forall>y \<in> set xs. x \<noteq> y \<longrightarrow> \<not> touches x y)"

lemma coalesce_separated:
  assumes "coalesce xs s = (kept, m)" and "separated xs" and "proper s"
  shows "separated (kept @ [m])"
proof -
  have m: "proper m"
    by (rule coalesce_facts(4) [OF assms(1), of proper]) (auto simp: assms proper_widen)
  have sub: "set kept \<subseteq> set xs" and d: "distinct xs \<Longrightarrow> distinct kept"
    and nt: "\<And>x. x \<in> set kept \<Longrightarrow> \<not> touches x m"
    using coalesce_plain [OF assms(1)] by auto
  have "m \<notin> set kept" using nt touches_refl [OF m] by auto
  then show ?thesis
    using assms(2) sub d nt touches_sym [of m] by (auto simp: separated_def subset_iff)
qed

lemma set_sort_spans [simp]: "set (sort_spans xs) = set xs"
  and length_sort_spans [simp]: "length (sort_spans xs) = length xs"
  by (simp_all add: sort_spans_def)

lemma covered_sort_spans [simp]: "covered (sort_spans xs) k = covered xs k"
  by (rule covered_cong) simp

lemma separated_sort_spans [simp]: "separated (sort_spans xs) = separated xs"
  by (simp add: separated_def sort_spans_def)

lemma push_coalesced_covered [simp]: "covered (push_coalesced xs s) k = covered (xs @ [s]) k"
  using coalesce_plain(4) [of xs s "fst (coalesce xs s)" "snd (coalesce xs s)" k]
  by (simp add: push_coalesced_def case_prod_beta)

lemma push_all_covered: "covered (foldl push_coalesced xs ss) k = covered (xs @ ss) k"
  by (induction ss arbitrary: xs) auto

lemma push_coalesced_separated:
  "separated xs \<Longrightarrow> proper s \<Longrightarrow> separated (push_coalesced xs s)"
  using coalesce_separated by (auto simp: push_coalesced_def split: prod.splits)

lemma push_all_separated:
  "separated xs \<Longrightarrow> list_all proper ss \<Longrightarrow> separated (foldl push_coalesced xs ss)"
  by (induction ss arbitrary: xs) (auto simp: push_coalesced_separated)

text \<open>A property of spans that widening keeps holds of everything a fold of insertions leaves.\<close>

lemma push_all_inherit:
  assumes "\<And>x t. Q x \<Longrightarrow> touches x t \<Longrightarrow> Q t \<Longrightarrow> Q (widen t x)"
  shows "list_all Q xs \<Longrightarrow> list_all Q ss \<Longrightarrow> list_all Q (foldl push_coalesced xs ss)"
proof (induction ss arbitrary: xs)
  case (Cons s ss)
  obtain kept m where c: "coalesce xs s = (kept, m)" by fastforce
  have "set kept \<subseteq> set xs" and "Q m"
    using coalesce_facts(1,4) [OF c, of Q] Cons.prems assms by (auto simp: list_all_iff)
  then have "list_all Q (push_coalesced xs s)"
    using Cons.prems c by (auto simp: push_coalesced_def list_all_iff)
  then show ?case using Cons by simp
qed simp

text \<open>Every span pushed leaves a span of its kind: its frames stay covered.\<close>

lemma covered_kind:
  assumes "covered xs s = covered ys s" and "s \<in> set xs" and "proper s"
  shows "\<exists>m \<in> set ys. same_kind m s"
proof -
  have "start_frame s \<in> covered xs s"
    using assms(2,3) by (auto simp: covered_def frames_of_def proper_def)
  then show ?thesis using assms(1) by (auto simp: covered_def)
qed

lemma push_all_kinds:
  "s \<in> set (xs @ ss) \<Longrightarrow> proper s \<Longrightarrow> \<exists>m \<in> set (foldl push_coalesced xs ss). same_kind m s"
  using covered_kind [of "xs @ ss" s "foldl push_coalesced xs ss"] push_all_covered [of xs ss s]
  by auto

lemma push_all_kinds_rev:
  assumes "m \<in> set (foldl push_coalesced xs ss)" and "list_all proper (xs @ ss)"
  shows "\<exists>s \<in> set (xs @ ss). same_kind s m"
proof -
  have "list_all proper (foldl push_coalesced xs ss)"
    using assms(2) by (intro push_all_inherit) (auto simp: proper_widen)
  then have "proper m" using assms(1) by (auto simp: list_all_iff)
  then show ?thesis
    using covered_kind [of "foldl push_coalesced xs ss" m "xs @ ss"] assms(1)
      push_all_covered [of xs ss m] by auto
qed

end
