(* ===== verification/QualityFacts.thy ===== *)
theory QualityFacts
  imports QualityCoalesce
begin

text \<open>
  The quality record's invariant and what its operations do: every operation keeps a well-formed
  record well-formed, no operation forgets a source loss, insertion keeps exactly the covered
  frames, recovery resolves processing loss and nothing else.
\<close>

section \<open>Validity, taken apart\<close>

lemma first_error_ok [simp]: "is_ok (first_error f xs) \<longleftrightarrow> list_all (\<lambda>x. is_ok (f x)) xs"
proof (induction xs)
  case (Cons x xs)
  then show ?case by (cases "f x") auto
qed simp

lemma validate_counters_ok:
  "list_all (\<lambda>c. is_ok (validate_counters ov c)) [SourceLoss, ProcessingLoss, DegradedOnly]
     \<longleftrightarrow> overflow_consistent ov"
  by (auto simp: validate_counters_def overflow_consistent_def split: if_splits)

definition activity_counted :: "quality_overflow \<Rightarrow> quality_activity \<Rightarrow> bool" where
  "activity_counted ov q \<longleftrightarrow>
     fst (activity_omission_sum q) \<le> omitted_spans ov DegradedOnly
     \<and> (snd (activity_omission_sum q) \<longrightarrow> omission_counter_saturated q)"

lemma valid_iff:
  "is_ok (validate r) \<longleftrightarrow>
     schema_version r = QUALITY_SCHEMA_VERSION
     \<and> length (epochs r) \<le> MAX_QUALITY_EPOCHS \<and> length (spans r) \<le> MAX_QUALITY_SPANS
     \<and> is_ok (validate_epochs (epochs r))
     \<and> is_ok (validate_activity (activity r))
     \<and> activity_counted (overflow r) (activity r)
     \<and> list_all (\<lambda>s. is_ok (validate_span (epochs r) s)) (spans r)
     \<and> overflow_consistent (overflow r)"
proof -
  obtain n b where "activity_omission_sum (activity r) = (n, b)" by fastforce
  then show ?thesis
    by (simp add: validate_def activity_counted_def validate_counters_ok [symmetric] not_less)
qed

definition record_fits :: "quality_record \<Rightarrow> bool" where
  "record_fits r \<longleftrightarrow> overflow_fits (overflow r)
     \<and> (\<forall>s. fits64 (omitted_runs (get_evidence (activity r) s)))"

definition well_formed :: "quality_record \<Rightarrow> bool" where
  "well_formed r \<longleftrightarrow> is_ok (validate r) \<and> record_fits r"

lemma well_formed_observed: "well_formed observed_record"
proof -
  have "activity_omission_sum default_activity = (0, False)"
    by (simp add: activity_omission_sum_def default_activity_def default_evidence_def
        sat_count_def checked_add_def)
  moreover have "get_evidence default_activity s = default_evidence" for s
    by (cases s) (simp_all add: default_activity_def)
  ultimately show ?thesis
    by (simp add: well_formed_def valid_iff observed_record_def default_record_def
        validate_epochs_def activity_counted_def overflow_consistent_def record_fits_def
        overflow_fits_def default_overflow_def default_evidence_def)
qed

section \<open>Spans of a valid record\<close>

text \<open>What validation asks of the end of a span, given the index of its epoch.\<close>

definition end_ok :: "capture_epoch list \<Rightarrow> nat \<Rightarrow> u64 \<Rightarrow> bool" where
  "end_ok es i f \<longleftrightarrow>
     (\<exists>t. source_time_ns (es ! i) f = Inr t \<and> is_ok (retained_frame (es ! i) f)
       \<and> (case get_epoch es (i + 1) of None \<Rightarrow> True
          | Some next \<Rightarrow> is_none_or (opt_zip t (source_start_ns next)) (\<lambda>(x, y). x \<le> y)))"

lemma valid_span_iff:
  "is_ok (validate_span es s) \<longleftrightarrow>
     is_ok (validate_class s) \<and> is_ok (validate_resolution (loss_class s) (resolution s))
     \<and> (\<exists>i. epoch_position (epoch s) es = Some i \<and> proper s
          \<and> source_frame_base (es ! i) \<le> start_frame s \<and> end_ok es i (end_frame s))"
proof (cases "epoch_position (epoch s) es")
  case None
  then show ?thesis by (auto simp: validate_span_def is_ok_rbind)
next
  case (Some i)
  have z: "is_ok (case opt_zip t n of None \<Rightarrow> Inr () | Some (x, y) \<Rightarrow> if y < x then Inl e else Inr ())
      \<longleftrightarrow> is_none_or (opt_zip t n) (\<lambda>(x, y). x \<le> y)" for t n :: "nat option" and e :: quality_error
    by (cases t; cases n) auto
  show ?thesis
    by (cases "source_time_ns (es ! i) (end_frame s)"; cases "get_epoch es (i + 1)")
       (auto simp: validate_span_def Some end_ok_def proper_def Let_def z not_less not_le)
qed

lemma valid_span_proper: "is_ok (validate_span es s) \<Longrightarrow> proper s"
  and valid_span_resolution:
    "is_ok (validate_span es s) \<Longrightarrow> is_ok (validate_resolution (loss_class s) (resolution s))"
  by (auto simp: valid_span_iff)

lemma valid_span_widen:
  assumes "is_ok (validate_span es x)" and "is_ok (validate_span es t)" and "touches x t"
  shows "is_ok (validate_span es (widen t x))"
proof -
  have k: "same_kind x t" using assms(3) by (simp add: touches_def)
  obtain i where i: "epoch_position (epoch t) es = Some i" "proper t"
      "source_frame_base (es ! i) \<le> start_frame t" "end_ok es i (end_frame t)"
    and c: "is_ok (validate_class t)" "is_ok (validate_resolution (loss_class t) (resolution t))"
    using assms(2) by (auto simp: valid_span_iff)
  have x: "source_frame_base (es ! i) \<le> start_frame x" "end_ok es i (end_frame x)"
    using assms(1) i(1) k by (auto simp: valid_span_iff same_kind_def)
  have "validate_class (widen t x) = validate_class t"
    by (simp add: validate_class_def widen_def cong: quality_cause.case_cong)
  then show ?thesis
    using c i x proper_widen [OF i(2), of x]
    by (simp add: valid_span_iff) (simp add: widen_def max_def)
qed

section \<open>Counting omissions\<close>

lemma omit_span_own_sel [simp]:
  "omitted_spans (omit_span_own ov c res n) = omitted_spans (fst (omit_span ov c res n (counter_saturated ov)))"
  "outstanding_omitted_spans (omit_span_own ov c res n)
     = outstanding_omitted_spans (fst (omit_span ov c res n (counter_saturated ov)))"
  "omitted_epochs (omit_span_own ov c res n) = omitted_epochs ov"
  by (simp_all add: omit_span_own_def split: prod.splits)
     (metis fst_conv omit_span_other_fields(1))

lemma omit_span_own_fits: "overflow_fits ov \<Longrightarrow> overflow_fits (omit_span_own ov c res n)"
  using omit_span_fits [of ov c res n "counter_saturated ov"] by (simp add: overflow_fits_def)

lemma omit_span_own_consistent:
  "overflow_consistent ov \<Longrightarrow> is_ok (validate_resolution c res) \<Longrightarrow> overflow_fits ov \<Longrightarrow>
     overflow_consistent (omit_span_own ov c res n)"
  using omit_span_consistent [of ov c res n "counter_saturated ov"]
  by (simp add: overflow_consistent_def)

lemma omit_span_own_mono:
  "overflow_fits ov \<Longrightarrow> omitted_spans ov d \<le> omitted_spans (omit_span_own ov c res n) d"
  using omit_span_mono(1) by simp

lemma omit_span_own_counts:
  "0 < n \<Longrightarrow> 0 < omitted_spans (omit_span_own ov c res n) c"
  using omit_span_counts(1) by simp

lemma omit_span_own_flag:
  "counter_saturated ov \<Longrightarrow> counter_saturated (omit_span_own ov c res n)"
  by (auto simp: omit_span_own_def split: prod.splits dest: omit_span_flag [of _ ov c res n])
     (metis omit_span_flag snd_conv)

lemma activity_counted_mono:
  "activity_counted ov q \<Longrightarrow> omitted_spans ov DegradedOnly \<le> omitted_spans ov' DegradedOnly \<Longrightarrow>
     activity_counted ov' q"
  by (auto simp: activity_counted_def)

lemma activity_sum_flag [simp]:
  "activity_omission_sum (q\<lparr>omission_counter_saturated := b\<rparr>) = activity_omission_sum q"
proof -
  have "get_evidence (q\<lparr>omission_counter_saturated := b\<rparr>) s = get_evidence q s" for s
    by (cases s) simp_all
  then show ?thesis by (simp add: activity_omission_sum_def)
qed

lemma get_evidence_flag [simp]:
  "get_evidence (q\<lparr>omission_counter_saturated := b\<rparr>) s = get_evidence q s"
  by (cases s) simp_all

lemma valid_activity_flag [simp]:
  "validate_activity (q\<lparr>omission_counter_saturated := b\<rparr>) = validate_activity q"
  by (simp add: validate_activity_def)

section \<open>Every operation keeps the record well-formed\<close>

lemma wf_omit:
  assumes "well_formed r" and "is_ok (validate_resolution c res)"
  shows "well_formed (r\<lparr>overflow := omit_span_own (overflow r) c res n\<rparr>)"
  using assms activity_counted_mono [of "overflow r" "activity r"]
    omit_span_own_mono [of "overflow r" DegradedOnly c res n]
  by (auto simp: well_formed_def valid_iff record_fits_def omit_span_own_fits
      omit_span_own_consistent)

lemma wf_record_omitted_spans: "well_formed r \<Longrightarrow> well_formed (snd (record_omitted_spans r c res n))"
  using wf_omit [of r c res n]
  by (auto simp: record_omitted_spans_def is_ok_rbind unit_result split: sum.splits
      dest!: unit_result [THEN iffD1])

lemma wf_record_omitted_epochs: "well_formed r \<Longrightarrow> well_formed (record_omitted_epochs r n)"
proof -
  assume wf: "well_formed r"
  obtain m b where s: "sat_count (omitted_epochs (overflow r)) n (counter_saturated (overflow r)) = (m, b)"
    by fastforce
  then have "fits64 m" using sat_count_bound by (metis fst_conv)
  then show ?thesis using wf s
    by (auto simp: record_omitted_epochs_def well_formed_def valid_iff record_fits_def
        overflow_fits_def overflow_consistent_def activity_counted_def)
qed

lemma wf_omit_activity:
  assumes "well_formed r"
  shows "well_formed (omit_activity r n)"
proof -
  let ?s = "omission_counter_saturated (activity r)"
  have fits: "overflow_fits (overflow r)" using assms by (simp add: well_formed_def record_fits_def)
  obtain ov b where o: "omit_span (overflow r) DegradedOnly Outstanding n ?s = (ov, b)" by fastforce
  have ov: "overflow_fits ov" "overflow_consistent ov"
    and m: "omitted_spans (overflow r) DegradedOnly \<le> omitted_spans ov DegradedOnly"
    using omit_span_fits [OF fits, of DegradedOnly Outstanding n ?s]
      omit_span_consistent [of "overflow r" DegradedOnly Outstanding n ?s]
      omit_span_mono(1) [OF fits, of DegradedOnly DegradedOnly Outstanding n ?s] assms fits o
    by (simp_all add: well_formed_def valid_iff validate_resolution_def)
  have "?s \<Longrightarrow> b" using omit_span_flag [of ?s "overflow r" DegradedOnly Outstanding n] o by simp
  then show ?thesis
    using assms o ov m
    by (auto simp: omit_activity_def well_formed_def valid_iff record_fits_def activity_counted_def)
qed

lemma wf_record_omitted_activity_run:
  "well_formed r \<Longrightarrow> well_formed (snd (record_omitted_activity_run r))"
  by (auto simp: record_omitted_activity_run_def wf_omit_activity split: sum.splits)

lemma try_insert_span_cases:
  assumes "try_insert_span r s = (res, r')"
  obtains (err) e where "res = Inl e" "r' = r"
  | (full) "res = Inr False" "r' = r" "length (spans r) = MAX_QUALITY_SPANS"
      "is_ok (validate r)" "is_ok (validate_span (epochs r) s)"
  | (kept) kept m where "res = Inr True" "coalesce (spans r) s = (kept, m)"
      "r' = r\<lparr>spans := sort_spans (kept @ [m])\<rparr>" "length kept < MAX_QUALITY_SPANS"
      "is_ok (validate r)" "is_ok (validate_span (epochs r) s)"
proof (cases "rbind (validate r) (\<lambda>_. validate_span (epochs r) s)")
  case (Inl e)
  then show ?thesis using assms by (intro err [of e]) (auto simp: try_insert_span_def)
next
  case (Inr u)
  then have v: "is_ok (validate r)" "is_ok (validate_span (epochs r) s)" by auto
  obtain kept m where c: "coalesce (spans r) s = (kept, m)" by fastforce
  have le: "length kept \<le> length (spans r)" "length (spans r) \<le> MAX_QUALITY_SPANS"
    using coalesce_facts(2) [OF c, of "\<lambda>_. True"] v(1) by (simp_all add: valid_iff)
  show ?thesis
  proof (cases "length kept = MAX_QUALITY_SPANS")
    case True
    then have "length kept = length (spans r)" using le by simp
    then have "kept = spans r"
      using coalesce_facts(8) [OF c, of "\<lambda>_. True"] by simp
    then show ?thesis using assms Inr c True v full by (simp add: try_insert_span_def)
  next
    case False
    then show ?thesis using assms Inr c v le kept by (simp add: try_insert_span_def)
  qed
qed

lemma wf_try_insert_span:
  assumes "well_formed r"
  shows "well_formed (snd (try_insert_span r s))"
proof -
  obtain res r' where t: "try_insert_span r s = (res, r')" by fastforce
  from t show ?thesis
  proof (cases rule: try_insert_span_cases)
    case (kept kept m)
    let ?V = "\<lambda>s. is_ok (validate_span (epochs r) s)"
    have sp: "list_all ?V (spans r)" using kept(5) by (simp add: valid_iff)
    have "?V m"
      by (rule coalesce_facts(4) [OF kept(2), of ?V])
         (use sp kept(6) valid_span_widen in \<open>auto simp: list_all_iff\<close>)
    moreover have "set kept \<subseteq> set (spans r)"
      using coalesce_facts(1) [OF kept(2), of "\<lambda>_. True"] by simp
    ultimately have "list_all ?V (sort_spans (kept @ [m]))" using sp by (auto simp: list_all_iff)
    then show ?thesis
      using assms kept t by (auto simp: well_formed_def valid_iff record_fits_def)
  qed (use assms t in auto)
qed

lemma wf_insert_span:
  assumes "well_formed r"
  shows "well_formed (snd (insert_span r s))"
proof -
  obtain res r' where t: "try_insert_span r s = (res, r')" by fastforce
  have wf: "well_formed r'" using wf_try_insert_span [OF assms, of s] t by simp
  from t show ?thesis
  proof (cases rule: try_insert_span_cases)
    case full
    then have "well_formed (r'\<lparr>overflow := omit_span_own (overflow r') (loss_class s) (resolution s) 1\<rparr>)"
      using wf by (intro wf_omit) (auto dest: valid_span_resolution)
    moreover have "well_formed (snd (record_omitted_activity_run r'))"
      using wf by (rule wf_record_omitted_activity_run)
    ultimately show ?thesis
      using full(1) t by (auto simp: insert_span_def split: prod.splits sum.splits)
  qed (use t wf in \<open>auto simp: insert_span_def\<close>)
qed

lemma wf_insert_epoch: "well_formed r \<Longrightarrow> well_formed (snd (insert_epoch r e))"
  using wf_record_omitted_epochs [of r 1]
  by (auto simp: insert_epoch_def Let_def well_formed_def record_fits_def
      split: sum.splits option.splits if_splits dest: unit_result [THEN iffD1])

end
