(* ===== verification/QualityOps.thy ===== *)
theory QualityOps
  imports QualityFacts
begin

text \<open>
  The composite operations of the quality record: recovery after a batch pass, activity counting and
  the two merges. Each keeps a well-formed record well-formed, and each is shown to leave, add or
  combine losses of a class exactly as intended.
\<close>

section \<open>Classes of loss\<close>

text \<open>Whether a record holds any fact of a class, resolved or not, in a span or in a counter.\<close>

definition any_loss :: "quality_span list \<Rightarrow> quality_overflow \<Rightarrow> quality_class \<Rightarrow> bool" where
  "any_loss ss ov c \<longleftrightarrow> list_ex (\<lambda>s. loss_class s = c) ss \<or> omitted_spans ov c \<noteq> 0"

definition has_loss :: "quality_record \<Rightarrow> quality_class \<Rightarrow> bool" where
  "has_loss r c = any_loss (spans r) (overflow r) c"

lemma has_outstanding_source:
  "is_ok (validate r) \<Longrightarrow> has_outstanding r SourceLoss = has_loss r SourceLoss"
  by (auto simp: has_outstanding_def has_loss_def any_loss_def valid_iff overflow_consistent_def)

lemma any_loss_kinds:
  assumes "\<And>s. s \<in> set ss \<Longrightarrow> \<exists>t \<in> set ts. same_kind s t"
    and "\<And>t. t \<in> set ts \<Longrightarrow> \<exists>s \<in> set ss. same_kind s t"
  shows "any_loss ss ov c = any_loss ts ov c"
proof -
  have "list_ex (\<lambda>s. loss_class s = c) ss = list_ex (\<lambda>s. loss_class s = c) ts"
    using assms by (auto simp: list_ex_iff) (metis same_kind_def)+
  then show ?thesis by (simp add: any_loss_def)
qed

lemma omit_span_own_class:
  assumes "overflow_fits ov"
  shows "omitted_spans (omit_span_own ov d res 1) c \<noteq> 0 \<longleftrightarrow> omitted_spans ov c \<noteq> 0 \<or> c = d"
proof (cases "c = d")
  case True
  then show ?thesis using omit_span_own_counts [of 1 ov d res] by simp
next
  case False
  then show ?thesis by (simp add: omit_span_def Let_def split: prod.splits)
qed

text \<open>Coalescing keeps every property of the spans that depends on their kind only.\<close>

lemma coalesce_kind:
  assumes "coalesce xs s = (kept, m)" and "list_all proper (s # xs)"
    and Q: "\<And>x y. same_kind x y \<Longrightarrow> Q x = Q y"
  shows "list_ex Q (kept @ [m]) \<longleftrightarrow> list_ex Q (s # xs)"
proof -
  have p: "foldl push_coalesced xs [s] = kept @ [m]" using assms(1) by (simp add: push_coalesced_def)
  have a: "\<exists>m' \<in> set (kept @ [m]). same_kind m' x" if "x \<in> set (s # xs)" for x
    using push_all_kinds [of x xs "[s]"] that assms(2) unfolding p by (auto simp: list_all_iff)
  have b: "\<exists>x \<in> set (s # xs). same_kind x m'" if "m' \<in> set (kept @ [m])" for m'
    using push_all_kinds_rev [of m' xs "[s]"] that assms(2) unfolding p by auto
  have "(\<exists>m' \<in> set (kept @ [m]). Q m') \<longleftrightarrow> (\<exists>x \<in> set (s # xs). Q x)"
    by (metis a b Q)
  then show ?thesis unfolding list_ex_iff .
qed

lemma coalesce_class:
  assumes "coalesce xs s = (kept, m)" and "list_all proper (s # xs)"
  shows "list_ex (\<lambda>s. loss_class s = c) (kept @ [m]) \<longleftrightarrow> list_ex (\<lambda>s. loss_class s = c) (s # xs)"
  by (rule coalesce_kind [OF assms]) (simp add: same_kind_def)

lemma valid_spans_proper: "is_ok (validate r) \<Longrightarrow> list_all proper (spans r)"
  by (auto simp: valid_iff list_all_iff dest: valid_span_proper)

section \<open>Recovery\<close>

lemma push_all_length: "length (foldl push_coalesced xs ss) \<le> length xs + length ss"
proof (induction ss arbitrary: xs)
  case (Cons s ss)
  obtain kept m where c: "coalesce xs s = (kept, m)" by fastforce
  have "length kept \<le> length xs" using coalesce_facts(2) [OF c, of "\<lambda>_. True"] by simp
  then show ?case using Cons [of "kept @ [m]"] c by (simp add: push_coalesced_def)
qed simp

lemma resolve_span_sel [simp]:
  "loss_class (resolve_span s) = loss_class s" "epoch (resolve_span s) = epoch s"
  "start_frame (resolve_span s) = start_frame s" "end_frame (resolve_span s) = end_frame s"
  "cause (resolve_span s) = cause s" "stage (resolve_span s) = stage s"
  "track (resolve_span s) = track s" "proper (resolve_span s) = proper s"
  "frames_of (resolve_span s) = frames_of s"
  "resolution (resolve_span s)
     = (if loss_class s = ProcessingLoss then RecoveredByBatch else resolution s)"
  by (simp_all add: resolve_span_def proper_def frames_of_def)

lemma valid_resolve_span: "is_ok (validate_span es s) \<Longrightarrow> is_ok (validate_span es (resolve_span s))"
  by (auto simp: valid_span_iff validate_class_def validate_resolution_def
      cong: quality_cause.case_cong)

lemma spans_after_recovery:
  assumes "list_all (\<lambda>s. is_ok (validate_span es s)) ss"
  shows "list_all (\<lambda>s. is_ok (validate_span es s)) (foldl push_coalesced [] (map resolve_span ss))"
  using assms
  by (intro push_all_inherit valid_span_widen) (auto simp: list_all_iff valid_resolve_span)

lemma wf_resolve:
  assumes "well_formed r"
  shows "well_formed (snd (resolve_processing_after_batch r outcome))"
proof -
  have "length (foldl push_coalesced [] (map resolve_span (spans r))) \<le> length (spans r)"
    using push_all_length [of "[]" "map resolve_span (spans r)"] by simp
  then show ?thesis
    using assms spans_after_recovery [of "epochs r" "spans r"]
    by (auto simp: resolve_processing_after_batch_def well_formed_def valid_iff record_fits_def
        overflow_consistent_def overflow_fits_def activity_counted_def list_all_iff
        split: sum.splits)
qed

section \<open>What insertion does to the losses\<close>

lemma record_omitted_activity_run_loss:
  "overflow_fits (overflow r) \<Longrightarrow> c \<noteq> DegradedOnly \<Longrightarrow>
     has_loss (snd (record_omitted_activity_run r)) c = has_loss r c"
  by (auto simp: record_omitted_activity_run_def omit_activity_def has_loss_def any_loss_def
      omit_span_def Let_def split: sum.splits prod.splits)

text \<open>A new span is accounted for whatever happens: as a span, or in the counter of its class.\<close>

lemma insert_span_loss:
  assumes "well_formed r" and "insert_span r s = (Inr b, r')"
    and "c \<noteq> DegradedOnly"
  shows "has_loss r' c \<longleftrightarrow> has_loss r c \<or> loss_class s = c"
proof -
  obtain res q where t: "try_insert_span r s = (res, q)" by fastforce
  have fits: "overflow_fits (overflow r)" using assms(1) by (simp add: well_formed_def record_fits_def)
  have ov: "overflow q = overflow r" and ep: "epochs q = epochs r"
    using t by (cases rule: try_insert_span_cases; simp)+
  from t show ?thesis
  proof (cases rule: try_insert_span_cases)
    case err
    then show ?thesis using assms t by (simp add: insert_span_def)
  next
    case full
    then have cls: "cause s = FarReferenceSilent \<Longrightarrow> loss_class s = DegradedOnly"
      by (auto simp: valid_span_iff validate_class_def split: if_splits)
    show ?thesis
    proof (cases "cause s = FarReferenceSilent")
      case True
      then have "r' = snd (record_omitted_activity_run r)"
        using assms(2) t full by (auto simp: insert_span_def split: prod.splits sum.splits)
      then show ?thesis using cls True assms(3) fits by (simp add: record_omitted_activity_run_loss)
    next
      case False
      then have "r' = r\<lparr>overflow := omit_span_own (overflow r) (loss_class s) (resolution s) 1\<rparr>"
        using assms(2) t full by (simp add: insert_span_def)
      then show ?thesis
        using omit_span_own_class [OF fits, of "loss_class s" "resolution s" c]
        by (auto simp: has_loss_def any_loss_def simp del: omit_span_own_sel)
    qed
  next
    case (kept kept m)
    then have "r' = q" using assms(2) t by (simp add: insert_span_def)
    moreover have "list_all proper (s # spans r)"
      using kept valid_spans_proper [of r] valid_span_proper [of "epochs r" s] by simp
    ultimately show ?thesis
      using coalesce_class [OF kept(2), of c] kept(3)
      by (auto simp: has_loss_def any_loss_def list_ex_iff)
  qed
qed

lemma insert_span_error: "insert_span r s = (Inl e, r') \<Longrightarrow> r' = r"
proof -
  assume a: "insert_span r s = (Inl e, r')"
  obtain res q where t: "try_insert_span r s = (res, q)" by fastforce
  from t show ?thesis
    by (cases rule: try_insert_span_cases)
       (use a t in \<open>auto simp: insert_span_def record_omitted_activity_run_def
          split: if_splits sum.splits\<close>)
qed

section \<open>Counting activity runs\<close>

lemma sat_fold: "fst (sat_count (min a u64_max) b f) = min (a + b) u64_max"
  "snd (sat_count (min a u64_max) b (u64_max < a)) = (u64_max < a + b)"
  by (auto simp: sat_count_def checked_add_def min_def split: if_splits)

definition activity_total :: "quality_activity \<Rightarrow> nat" where
  "activity_total q = omitted_runs (capture q) + omitted_runs (offline q) + omitted_runs (live q)"

lemma activity_sum_total:
  "activity_omission_sum q = (min (activity_total q) u64_max, u64_max < activity_total q)"
proof -
  have z: "sat_count 0 b False = (min b u64_max, u64_max < b)" for b
    by (auto simp: sat_count_def checked_add_def)
  have s: "sat_count (min a u64_max) b (u64_max < a) = (min (a + b) u64_max, u64_max < a + b)"
    for a b
    using sat_fold(1) [of a b] sat_fold(2) [of a b] by (intro prod_eqI) simp_all
  show ?thesis
    unfolding activity_omission_sum_def activity_total_def
    by (simp only: fold_simps id_apply get_evidence.simps case_prod_conv z s)
qed

lemma activity_counted_total:
  "fits64 (omitted_spans ov DegradedOnly) \<Longrightarrow>
     activity_counted ov q \<longleftrightarrow> min (activity_total q) u64_max \<le> omitted_spans ov DegradedOnly
       \<and> (u64_max < activity_total q \<longrightarrow> omission_counter_saturated q)"
  by (simp add: activity_counted_def activity_sum_total)

lemma activity_total_observe:
  "activity_total (observe q scope e)
     = activity_total q + (omitted_runs e - omitted_runs (get_evidence q scope))"
  by (cases scope) (auto simp: activity_total_def max_def)

lemma activity_total_flag [simp]:
  "activity_total (q\<lparr>omission_counter_saturated := b\<rparr>) = activity_total q"
  by (simp add: activity_total_def)

lemma observe_flag [simp]:
  "omission_counter_saturated (observe q scope e) = omission_counter_saturated q"
  by (cases scope) simp_all

lemma observe_runs:
  "omitted_runs (get_evidence (observe q scope e) s)
     = (if s = scope then max (omitted_runs (get_evidence q s)) (omitted_runs e)
        else omitted_runs (get_evidence q s))"
  by (cases scope; cases s) auto

text \<open>What counting leaves in the overflow and in the flag of the activity summary.\<close>

lemma omit_activity_facts:
  assumes "overflow_fits (overflow r)"
  shows "epochs (omit_activity r n) = epochs r" and "spans (omit_activity r n) = spans r"
    and "coverage (omit_activity r n) = coverage r"
    and "get_evidence (activity (omit_activity r n)) s = get_evidence (activity r) s"
    and "activity_total (activity (omit_activity r n)) = activity_total (activity r)"
    and "omission_counter_saturated (activity r) \<Longrightarrow>
           omission_counter_saturated (activity (omit_activity r n))"
    and "\<not> omission_counter_saturated (activity (omit_activity r n)) \<Longrightarrow>
           omitted_spans (overflow (omit_activity r n)) DegradedOnly
             = omitted_spans (overflow r) DegradedOnly + n"
    and "omitted_spans (overflow (omit_activity r n)) DegradedOnly
           = min (omitted_spans (overflow r) DegradedOnly + n) u64_max"
    and "c \<noteq> DegradedOnly \<Longrightarrow> omitted_spans (overflow (omit_activity r n)) c
           = omitted_spans (overflow r) c"
proof -
  let ?s = "omission_counter_saturated (activity r)" and ?v = "omitted_spans (overflow r) DegradedOnly"
  obtain a f where a: "sat_count ?v n ?s = (a, f)" by fastforce
  obtain b g where b: "sat_count (outstanding_omitted_spans (overflow r) DegradedOnly) n f = (b, g)"
    by fastforce
  have o: "omit_activity r n = r\<lparr>overflow := (overflow r)\<lparr>
      omitted_spans := (omitted_spans (overflow r))(DegradedOnly := a),
      outstanding_omitted_spans := (outstanding_omitted_spans (overflow r))(DegradedOnly := b)\<rparr>,
      activity := (activity r)\<lparr>omission_counter_saturated := g\<rparr>\<rparr>"
    using a b by (simp add: omit_activity_def omit_span_def)
  have fg: "f \<Longrightarrow> g" and sf: "?s \<Longrightarrow> f"
    using sat_count_flag [of f _ n] sat_count_flag [of ?s ?v n] a b by (metis snd_conv)+
  have nf: "a = ?v + n" if "\<not> f" using sat_count_exact [of ?v n ?s] a that by simp
  have m: "a = min (?v + n) u64_max"
    using a assms by (auto simp: sat_count_def checked_add_def overflow_fits_def min_def
        split: if_splits)
  show "epochs (omit_activity r n) = epochs r" "spans (omit_activity r n) = spans r"
    "coverage (omit_activity r n) = coverage r"
    "get_evidence (activity (omit_activity r n)) s = get_evidence (activity r) s"
    "activity_total (activity (omit_activity r n)) = activity_total (activity r)"
    "c \<noteq> DegradedOnly \<Longrightarrow> omitted_spans (overflow (omit_activity r n)) c
       = omitted_spans (overflow r) c"
    by (simp_all add: o)
  show "?s \<Longrightarrow> omission_counter_saturated (activity (omit_activity r n))"
    using fg sf by (simp add: o)
  show "\<not> omission_counter_saturated (activity (omit_activity r n)) \<Longrightarrow>
      omitted_spans (overflow (omit_activity r n)) DegradedOnly = ?v + n"
    using fg nf by (auto simp: o)
  show "omitted_spans (overflow (omit_activity r n)) DegradedOnly = min (?v + n) u64_max"
    using m by (simp add: o)
qed

lemma wf_observe_activity_omissions:
  assumes wf: "well_formed r" and inp: "is_ok (validate_input inp)" and runs: "fits64 runs"
  shows "well_formed (snd (observe_activity_omissions r scope inp runs sat))"
proof -
  let ?d = "runs - omitted_runs (get_evidence (activity r) scope)"
  let ?r1 = "omit_activity r ?d"
  let ?e = "default_evidence\<lparr>input := Some inp, omitted_runs := runs\<rparr>"
  let ?q = "observe ((activity ?r1)\<lparr>omission_counter_saturated :=
      omission_counter_saturated (activity ?r1) \<or> sat\<rparr>) scope ?e"
  have fits: "overflow_fits (overflow r)" and v: "is_ok (validate r)"
    using wf by (simp_all add: well_formed_def record_fits_def)
  have wf1: "well_formed ?r1" using wf by (rule wf_omit_activity)
  note f = omit_activity_facts [OF fits, where n = ?d]
  have e: "is_ok (validate_evidence ?e)"
    using inp by (simp add: valid_evidence_some [where i = inp] default_evidence_def)
  have tot: "activity_total ?q = activity_total (activity r) + ?d"
    by (simp add: activity_total_observe f(4,5))
  have fits1: "fits64 (omitted_spans (overflow r) DegradedOnly)"
    "fits64 (omitted_spans (overflow ?r1) DegradedOnly)"
    using fits wf1 by (simp_all add: overflow_fits_def well_formed_def record_fits_def)
  have c: "activity_counted (overflow r) (activity r)" using v by (simp add: valid_iff)
  have "activity_counted (overflow ?r1) ?q"
    unfolding activity_counted_total [OF fits1(2)] tot
  proof
    show "min (activity_total (activity r) + ?d) u64_max
        \<le> omitted_spans (overflow ?r1) DegradedOnly"
      using c unfolding activity_counted_total [OF fits1(1)] f(8) by (auto simp: min_def split: if_splits)
    show "u64_max < activity_total (activity r) + ?d \<longrightarrow> omission_counter_saturated ?q"
    proof (rule ccontr)
      assume n: "\<not> ?thesis"
      define d where "d = ?d"
      have "\<not> omission_counter_saturated (activity ?r1)" using n by simp
      then have "\<not> omission_counter_saturated (activity r)"
        and "omitted_spans (overflow r) DegradedOnly + d < 2 ^ 64"
        using f(6,7) fits1(2) by (auto simp: d_def)
      moreover have "u64_max < activity_total (activity r) + d" using n by (simp add: d_def)
      ultimately show False
        using c unfolding activity_counted_total [OF fits1(1)] by (auto simp: min_def split: if_splits)
    qed
  qed
  moreover have "fits64 (omitted_runs (get_evidence ?q s))" for s
    using wf runs by (simp add: observe_runs f(4) well_formed_def record_fits_def default_evidence_def)
  moreover have "is_ok (validate_activity ?q)"
    using wf1 e by (intro observe_valid) (simp_all add: well_formed_def valid_iff)
  ultimately have "well_formed (?r1\<lparr>activity := ?q\<rparr>)"
    using wf1 by (simp add: well_formed_def valid_iff record_fits_def)
  then show ?thesis
    using wf v by (auto simp: observe_activity_omissions_def Let_def saturating_sub_def split: sum.splits)
qed

end
