(* ===== verification/QualityMerge.thy ===== *)
theory QualityMerge
  imports QualityOps
begin

text \<open>
  The union of two snapshots of one recording, and the merge that takes only the activity facts of
  another snapshot.
\<close>

section \<open>The union of spans\<close>

lemma length_union_epochs: "union_epochs es fs = Inr us \<Longrightarrow> length us \<le> length es + length fs"
  by (induction es fs arbitrary: us rule: union_epochs.induct)
     (auto split: option.splits if_splits, fastforce+)

text \<open>No span is lost between keeping and counting.\<close>

lemma keep_or_omit_fold:
  assumes "overflow_fits ov" and "fold (keep_or_omit es) ss (kept, ov, om) = (kept', ov', om')"
  shows "overflow_fits ov' \<and> any_loss kept' ov' c = (any_loss kept ov c \<or> list_ex (\<lambda>s. loss_class s = c) ss)
    \<and> om' st \<le> om st + length ss"
  using assms
proof (induction ss arbitrary: kept ov om)
  case (Cons s ss)
  obtain k1 ov1 om1 where k: "keep_or_omit es s (kept, ov, om) = (k1, ov1, om1)"
    using prod_cases3 by blast
  have f1: "overflow_fits ov1"
    using k Cons.prems(1) by (auto simp: keep_or_omit_def omit_span_own_fits split: if_splits)
  have l1: "any_loss k1 ov1 c = (any_loss kept ov c \<or> loss_class s = c)"
    using k omit_span_own_class [OF Cons.prems(1), of "loss_class s" "resolution s" c]
    by (auto simp: keep_or_omit_def any_loss_def simp del: omit_span_own_sel split: if_splits)
  have o1: "om1 st \<le> om st + 1" using k by (auto simp: keep_or_omit_def split: if_splits)
  have "fold (keep_or_omit es) ss (k1, ov1, om1) = (kept', ov', om')"
    using Cons.prems(2) k by simp
  from Cons.IH [OF f1 this] show ?case using l1 o1 by auto
qed auto

lemma observe_omitted_runs:
  "omitted_runs (get_evidence (observe_omitted om q) s)
     \<le> max (omitted_runs (get_evidence q s)) (om (scope_stage s))"
  by (cases s)
     (simp_all add: observe_omitted_def default_evidence_def split: option.splits)

lemma observe_omitted_sat [simp]:
  "omission_counter_saturated (observe_omitted om q) = omission_counter_saturated q"
  by (simp add: observe_omitted_def split: option.splits)

lemma merge_activity_runs:
  "omitted_runs (get_evidence (merge_activity a b) s)
     = max (omitted_runs (get_evidence a s)) (omitted_runs (get_evidence b s))"
  by (cases s) (simp_all add: merge_activity_def)

lemma merge_lower_bounds_sel [simp]:
  "omitted_spans (merge_lower_bounds a b) c = max (omitted_spans a c) (omitted_spans b c)"
  "outstanding_omitted_spans (merge_lower_bounds a b) c
     = max (outstanding_omitted_spans a c) (outstanding_omitted_spans b c)"
  "omitted_epochs (merge_lower_bounds a b) = max (omitted_epochs a) (omitted_epochs b)"
  "counter_saturated (merge_lower_bounds a b) = (counter_saturated a \<or> counter_saturated b)"
  by (simp_all add: merge_lower_bounds_def)

lemma any_loss_max:
  "any_loss ss (merge_lower_bounds (merge_lower_bounds a b) c) d
     \<longleftrightarrow> any_loss ss a d \<or> omitted_spans b d \<noteq> 0 \<or> omitted_spans c d \<noteq> 0"
  by (auto simp: any_loss_def max_def)

lemma union_spans_class:
  assumes "list_all proper ss"
  shows "list_ex (\<lambda>s. loss_class s = c) (sort_spans (foldl push_coalesced [] ss))
    = list_ex (\<lambda>s. loss_class s = c) ss"
proof -
  have "any_loss (sort_spans (foldl push_coalesced [] ss)) default_overflow c
      = any_loss ss default_overflow c"
    by (rule any_loss_kinds)
       (use push_all_kinds_rev [of _ "[]" ss] push_all_kinds [of _ "[]" ss] assms same_kind_sym
        in \<open>auto simp: list_all_iff, blast\<close>)
  then show ?thesis by (simp add: any_loss_def default_overflow_def)
qed

section \<open>The merge\<close>

lemma merge_snapshot_cases:
  assumes "merge_snapshot r other = (res, m)"
  obtains (err) e where "res = Inl e" "m = r"
  | (ok) us where "res = Inr ()" "is_ok (validate r)" "is_ok (validate other)" "is_ok (validate m)"
      "union_epochs (epochs r) (epochs other) = Inr us" "m = merged_record r other (sort_key epoch_id us)"
  using assms by (fastforce simp: merge_snapshot_def Let_def unit_result [symmetric] split: sum.splits)

lemma merged_record_facts:
  assumes r: "is_ok (validate r)" "record_fits r" and o: "is_ok (validate other)" "record_fits other"
    and len: "length us \<le> 2 * MAX_QUALITY_EPOCHS"
  shows "record_fits (merged_record r other us)"
    and "c \<noteq> DegradedOnly \<Longrightarrow>
      has_loss (merged_record r other us) c = (has_loss r c \<or> has_loss other c)"
proof -
  let ?ov0 = "default_overflow\<lparr>omitted_epochs := saturating_sub (length us) MAX_QUALITY_EPOCHS\<rparr>"
  let ?ss = "sort_spans (foldl push_coalesced [] (spans r @ spans other))"
  obtain kept ov om where f: "fold (keep_or_omit (take MAX_QUALITY_EPOCHS us)) ?ss ([], ?ov0, \<lambda>_. 0)
      = (kept, ov, om)"
    by (metis prod_cases3)
  have ov0: "overflow_fits ?ov0"
    using len by (simp add: overflow_fits_def default_overflow_def saturating_sub_def
        MAX_QUALITY_EPOCHS_def)
  note k = keep_or_omit_fold [OF ov0 f]
  have "length ?ss \<le> 2 * MAX_QUALITY_SPANS"
    using push_all_length [of "[]" "spans r @ spans other"] r(1) o(1) by (simp add: valid_iff)
  moreover have "om st \<le> length ?ss" for st using k [of SourceLoss st] by simp
  ultimately have om: "om st < 2 ^ 64" for st
    using le_trans [of "om st" "length ?ss" "2 * MAX_QUALITY_SPANS"]
    by (simp add: MAX_QUALITY_SPANS_def)
  let ?q = "observe_omitted om (merge_activity (activity r) (activity other))"
  have q: "fits64 (omitted_runs (get_evidence ?q s))" for s
    using observe_omitted_runs [of om "merge_activity (activity r) (activity other)" s]
      merge_activity_runs [of "activity r" "activity other" s] r(2) o(2) om [of "scope_stage s"]
    by (auto simp: record_fits_def intro: le_less_trans)
  obtain n b where sum: "activity_omission_sum ?q = (n, b)" by fastforce
  have n: "n < 2 ^ 64" using sum by (auto simp: activity_sum_total min_def split: if_splits)
  let ?ov = "merge_lower_bounds (merge_lower_bounds ov (overflow r)) (overflow other)"
  have m: "spans (merged_record r other us) = kept"
    "omitted_spans (overflow (merged_record r other us))
       = (omitted_spans ?ov)(DegradedOnly := max (omitted_spans ?ov DegradedOnly) n)"
    "outstanding_omitted_spans (overflow (merged_record r other us))
       = (outstanding_omitted_spans ?ov)(DegradedOnly := max (omitted_spans ?ov DegradedOnly) n)"
    "omitted_epochs (overflow (merged_record r other us)) = omitted_epochs ?ov"
    "get_evidence (activity (merged_record r other us)) s = get_evidence ?q s" for s
    using f sum by (simp_all add: merged_record_def Let_def)
  show "record_fits (merged_record r other us)"
    using k r(2) o(2) n q by (simp add: record_fits_def overflow_fits_def m)
  assume c: "c \<noteq> DegradedOnly"
  have "list_all proper (spans r @ spans other)"
    using valid_spans_proper [OF r(1)] valid_spans_proper [OF o(1)] by simp
  then have "any_loss kept ov c = (list_ex (\<lambda>s. loss_class s = c) (spans r @ spans other))"
    using k [of c] union_spans_class [of "spans r @ spans other" c]
    by (simp add: any_loss_def default_overflow_def)
  then show "has_loss (merged_record r other us) c = (has_loss r c \<or> has_loss other c)"
    using c any_loss_max [of kept ov "overflow r" "overflow other" c]
    by (auto simp: has_loss_def any_loss_def m max_def)
qed

lemma merge_snapshot_facts:
  assumes "well_formed r" and "record_fits other" and "merge_snapshot r other = (res, m)"
  shows "well_formed m"
    and "res = Inr () \<Longrightarrow> c \<noteq> DegradedOnly \<Longrightarrow> has_loss m c = (has_loss r c \<or> has_loss other c)"
proof -
  have r: "is_ok (validate r)" "record_fits r" using assms(1) by (simp_all add: well_formed_def)
  have facts: "well_formed m \<and>
      (res = Inr () \<longrightarrow> c \<noteq> DegradedOnly \<longrightarrow> has_loss m c = (has_loss r c \<or> has_loss other c))"
    using assms(3)
  proof (cases rule: merge_snapshot_cases)
    case err
    then show ?thesis using assms(1) by simp
  next
    case (ok us)
    have "length (sort_key epoch_id us) \<le> 2 * MAX_QUALITY_EPOCHS"
      using length_union_epochs [OF ok(5)] ok(2,3) by (simp add: valid_iff)
    note f = merged_record_facts [OF r ok(3) assms(2) this]
    show ?thesis using f(1) f(2) [of c] ok(4,6) by (simp add: well_formed_def)
  qed
  then show "well_formed m"
    and "res = Inr () \<Longrightarrow> c \<noteq> DegradedOnly \<Longrightarrow> has_loss m c = (has_loss r c \<or> has_loss other c)"
    by blast+
qed

section \<open>Merging only the activity facts\<close>

lemma try_fold_inv:
  assumes "\<And>x s res s'. x \<in> set xs \<Longrightarrow> P s \<Longrightarrow> f x s = (res, s') \<Longrightarrow> P s'"
    and "P s" and "try_fold f xs s = (res, s')"
  shows "P s'"
  using assms
proof (induction xs arbitrary: s)
  case (Cons x xs)
  obtain a t where fx: "f x s = (a, t)" by fastforce
  have t: "P t" using Cons.prems(1) [of x s a t] Cons.prems(2) fx by simp
  show ?case
  proof (cases a)
    case (Inl e)
    then show ?thesis using Cons.prems(3) fx t by simp
  next
    case (Inr b)
    then have "try_fold f xs t = (res, s')" using Cons.prems(3) fx by simp
    then show ?thesis
      by (rule Cons.IH [rotated 2]) (use Cons.prems(1) t in \<open>auto intro: list.set_intros(2)\<close>)
  qed
qed simp

definition activity_only :: "quality_record \<Rightarrow> bool" where
  "activity_only act \<longleftrightarrow> well_formed act \<and> \<not> has_loss act SourceLoss \<and> \<not> has_loss act ProcessingLoss"

lemma activity_view_only:
  assumes "well_formed r" and "well_formed snapshot"
  shows "activity_only (activity_view r snapshot)"
proof -
  obtain n b where sum: "activity_omission_sum (activity snapshot) = (n, b)" by fastforce
  have n: "fits64 n" using sum by (auto simp: activity_sum_total min_def split: if_splits)
  have "is_ok (validate_epochs (epochs r))" "is_ok (validate_activity (activity snapshot))"
    "length (epochs r) \<le> MAX_QUALITY_EPOCHS"
    using assms by (auto simp: well_formed_def valid_iff)
  then show ?thesis
    using sum n assms(2)
    by (auto simp: activity_only_def activity_view_def well_formed_def valid_iff record_fits_def
        default_record_def default_overflow_def overflow_fits_def overflow_consistent_def
        activity_counted_def has_loss_def any_loss_def)
qed

lemma activity_only_insert:
  assumes "activity_only act" and "cause s = FarReferenceSilent" and "insert_span act s = (res, act')"
  shows "activity_only act'"
proof (cases res)
  case (Inl e)
  then show ?thesis using assms insert_span_error by (metis (no_types))
next
  case (Inr b)
  have wf: "well_formed act" using assms(1) by (simp add: activity_only_def)
  have "well_formed act'" using wf_insert_span [OF wf, of s] assms(3) by simp
  moreover have "loss_class s = DegradedOnly"
  proof -
    obtain x q where t: "try_insert_span act s = (x, q)" by fastforce
    from t have "is_ok (validate_span (epochs act) s)"
      by (cases rule: try_insert_span_cases) (use assms(3) Inr t in \<open>auto simp: insert_span_def\<close>)
    then show ?thesis using assms(2) by (auto simp: valid_span_iff validate_class_def split: if_splits)
  qed
  ultimately show ?thesis
    using insert_span_loss [OF wf, of s b act'] assms(1,3) Inr by (simp add: activity_only_def)
qed

lemma omit_activity_loss:
  "overflow_fits (overflow r) \<Longrightarrow> c \<noteq> DegradedOnly \<Longrightarrow> has_loss (omit_activity r n) c = has_loss r c"
  by (simp add: has_loss_def any_loss_def omit_activity_facts(2,9))

lemma observe_activity_omissions_loss:
  assumes "overflow_fits (overflow r)" and "c \<noteq> DegradedOnly"
  shows "has_loss (snd (observe_activity_omissions r scope inp runs sat)) c = has_loss r c"
  using omit_activity_loss [OF assms] assms
  by (simp add: observe_activity_omissions_def Let_def has_loss_def split: sum.splits)

lemma activity_only_observe:
  assumes "activity_only act" and "is_ok (validate_input inp)" and "fits64 runs"
  shows "activity_only (snd (observe_activity_omissions act scope inp runs sat))"
  using assms wf_observe_activity_omissions [of act inp runs scope sat]
    observe_activity_omissions_loss [of act _ scope inp runs sat]
  by (simp add: activity_only_def well_formed_def record_fits_def)

lemma activity_only_run: "activity_only act \<Longrightarrow> activity_only (snd (record_omitted_activity_run act))"
  using wf_record_omitted_activity_run [of act] record_omitted_activity_run_loss [of act]
  by (simp add: activity_only_def well_formed_def record_fits_def)

lemma activity_only_count:
  assumes "activity_only act" and "count_unmapped unmapped scope act = (res, act')"
  shows "activity_only act'"
proof (cases "input (get_evidence (activity act) scope)")
  case None
  have "try_fold (\<lambda>_. record_omitted_activity_run) [0..<unmapped (scope_stage scope)] act = (res, act')"
    using assms(2) None by (simp add: count_unmapped_def Let_def)
  then show ?thesis
    by (rule try_fold_inv [where P = activity_only, rotated 2])
       (use assms(1) in \<open>auto dest: activity_only_run\<close>)
next
  case (Some i)
  have "is_ok (validate_evidence (get_evidence (activity act) scope))"
    using assms(1) by (auto simp: activity_only_def well_formed_def valid_iff intro: valid_activity_get)
  then have "is_ok (validate_input i)" using valid_evidence_some [OF Some] by simp
  then have "activity_only (snd (observe_activity_omissions act scope i
      (saturating_add 64 (omitted_runs (get_evidence (activity act) scope)) (unmapped (scope_stage scope)))
      (checked_add 64 (omitted_runs (get_evidence (activity act) scope)) (unmapped (scope_stage scope))
         = None)))"
    using assms(1) by (intro activity_only_observe) (simp_all add: saturating_add_def)
  then show ?thesis using assms(2) Some by (simp add: count_unmapped_def Let_def)
qed

lemma activity_only_place:
  assumes "activity_only (fst acc)" and "place_activity_span r snapshot s acc = (res, acc')"
  shows "activity_only (fst acc')"
  using assms
  by (cases acc) (auto simp: place_activity_span_def split: if_splits prod.splits sum.splits
      dest: activity_only_insert)

lemma merge_activity_snapshot_facts:
  assumes wf: "well_formed r" "well_formed snapshot"
    and m: "merge_activity_snapshot r snapshot = (res, m)"
  shows "well_formed m" and "c \<noteq> DegradedOnly \<Longrightarrow> has_loss m c = has_loss r c"
proof -
  obtain a act unmapped where p: "try_fold (place_activity_span r snapshot) (spans snapshot)
      (activity_view r snapshot, \<lambda>_. 0) = (a, (act, unmapped))"
    by (metis prod_cases3)
  obtain b act' where q: "try_fold (count_unmapped unmapped) [ScopeCapture, ScopeOffline, ScopeLive] act
      = (b, act')"
    by fastforce
  have "activity_only (fst (act, unmapped))"
    by (rule try_fold_inv [where P = "\<lambda>acc. activity_only (fst acc)", OF _ _ p])
       (use activity_view_only [OF wf] activity_only_place in auto)
  then have ao: "activity_only act'"
    using try_fold_inv [where P = activity_only, OF _ _ q] activity_only_count by simp
  have cases: "m = r \<or> merge_snapshot r act' = (res, m)"
    using m p q by (auto simp: merge_activity_snapshot_def split: sum.splits)
  have e: "m' = r" if "merge_snapshot r act' = (Inl e, m')" for e m'
    using that by (cases rule: merge_snapshot_cases) auto
  have "record_fits act'" using ao by (simp add: activity_only_def well_formed_def)
  note f = merge_snapshot_facts [OF wf(1) this]
  show "well_formed m" using cases wf(1) f(1) by blast
  show "has_loss m c = has_loss r c" if c: "c \<noteq> DegradedOnly"
  proof (cases "m = r")
    case False
    then have ms: "merge_snapshot r act' = (res, m)" using cases by blast
    then have "res = Inr ()" using e [of _ m] False by (cases res) auto
    moreover have "\<not> has_loss act' c" using ao c by (cases c) (auto simp: activity_only_def)
    ultimately show ?thesis using f(2) [OF ms] c by simp
  qed simp
qed

end
