(* ===== verification/QualityProps.thy ===== *)
theory QualityProps
  imports QualityMerge
begin

text \<open>
  What the quality record promises to its users: it stays valid under every sequence of operations,
  known source loss is never forgotten, insertion accounts for each fact, recovery settles processing
  loss only, merging combines and never manufactures completeness.
\<close>

section \<open>Sequences of operations\<close>

datatype quality_op =
    InsertEpoch capture_epoch
  | InsertSpan quality_span
  | TryInsertSpan quality_span
  | OmitSpans quality_class quality_resolution u64
  | OmitEpochs u64
  | OmitActivityRun
  | ObserveOmissions activity_scope activity_input u64 bool
  | ResolveAfterBatch batch_recovery_outcome
  | MergeSnapshot quality_record
  | MergeActivity quality_record

primrec record_step :: "quality_record \<Rightarrow> quality_op \<Rightarrow> quality_record" where
  "record_step r (InsertEpoch e) = snd (insert_epoch r e)"
| "record_step r (InsertSpan s) = snd (insert_span r s)"
| "record_step r (TryInsertSpan s) = snd (try_insert_span r s)"
| "record_step r (OmitSpans c res n) = snd (record_omitted_spans r c res n)"
| "record_step r (OmitEpochs n) = record_omitted_epochs r n"
| "record_step r OmitActivityRun = snd (record_omitted_activity_run r)"
| "record_step r (ObserveOmissions scope i n b) = snd (observe_activity_omissions r scope i n b)"
| "record_step r (ResolveAfterBatch b) = snd (resolve_processing_after_batch r b)"
| "record_step r (MergeSnapshot q) = snd (merge_snapshot r q)"
| "record_step r (MergeActivity q) = snd (merge_activity_snapshot r q)"

text \<open>
  What the types promise of the arguments: counts are \<open>u64\<close>, an activity input passed its
  constructor, a snapshot has counters in range (and is valid, for the activity merge, whose source
  rejects an invalid one first).
\<close>

primrec op_ok :: "quality_op \<Rightarrow> bool" where
  "op_ok (InsertEpoch e) = True"
| "op_ok (InsertSpan s) = True"
| "op_ok (TryInsertSpan s) = True"
| "op_ok (OmitSpans c res n) = fits64 n"
| "op_ok (OmitEpochs n) = fits64 n"
| "op_ok OmitActivityRun = True"
| "op_ok (ObserveOmissions scope i n b) = (is_ok (validate_input i) \<and> fits64 n)"
| "op_ok (ResolveAfterBatch b) = True"
| "op_ok (MergeSnapshot q) = record_fits q"
| "op_ok (MergeActivity q) = record_fits q"

lemma merge_activity_invalid:
  "\<not> is_ok (validate q) \<Longrightarrow> snd (merge_activity_snapshot r q) = r"
  by (cases "validate q"; cases "validate r") (auto simp: merge_activity_snapshot_def)

lemma wf_merge_activity:
  assumes "well_formed r" and "record_fits q"
  shows "well_formed (snd (merge_activity_snapshot r q))"
    and "c \<noteq> DegradedOnly \<Longrightarrow> has_loss (snd (merge_activity_snapshot r q)) c = has_loss r c"
proof -
  have "well_formed (snd (merge_activity_snapshot r q))
    \<and> (c \<noteq> DegradedOnly \<longrightarrow> has_loss (snd (merge_activity_snapshot r q)) c = has_loss r c)"
  proof (cases "is_ok (validate q)")
    case True
    then have q: "well_formed q" using assms(2) by (simp add: well_formed_def)
    show ?thesis
      using merge_activity_snapshot_facts [OF assms(1) q prod.collapse [symmetric]] by blast
  next
    case False
    then show ?thesis using assms(1) by (simp add: merge_activity_invalid)
  qed
  then show "well_formed (snd (merge_activity_snapshot r q))"
    and "c \<noteq> DegradedOnly \<Longrightarrow> has_loss (snd (merge_activity_snapshot r q)) c = has_loss r c"
    by blast+
qed

lemma record_step_wf: "well_formed r \<Longrightarrow> op_ok p \<Longrightarrow> well_formed (record_step r p)"
  by (cases p)
     (simp_all add: wf_insert_epoch wf_insert_span wf_try_insert_span wf_record_omitted_spans
        wf_record_omitted_epochs wf_record_omitted_activity_run wf_observe_activity_omissions
        wf_resolve wf_merge_activity(1) merge_snapshot_facts(1) [OF _ _ prod.collapse [symmetric]])

lemma try_insert_span_loss:
  assumes "try_insert_span r s = (res, r')" and "has_loss r c"
  shows "has_loss r' c"
  using assms(1)
proof (cases rule: try_insert_span_cases)
  case (kept kept m)
  have "list_all proper (s # spans r)"
    using kept valid_spans_proper [of r] valid_span_proper [of "epochs r" s] by simp
  then show ?thesis
    using coalesce_class [OF kept(2), of c] kept(3) assms(2)
    by (auto simp: has_loss_def any_loss_def list_ex_iff)
qed (use assms in auto)

lemma insert_span_keeps_loss:
  assumes "well_formed r" and "has_loss r SourceLoss"
  shows "has_loss (snd (insert_span r s)) SourceLoss"
proof -
  obtain res r' where i: "insert_span r s = (res, r')" by fastforce
  show ?thesis
    using insert_span_loss [OF assms(1), of s _ r' SourceLoss] insert_span_error [of r s _ r'] assms i
    by (cases res) auto
qed

lemma insert_epoch_loss [simp]: "has_loss (snd (insert_epoch r e)) c = has_loss r c"
  by (auto simp: insert_epoch_def Let_def has_loss_def record_omitted_epochs_def any_loss_def
      split: sum.splits option.splits if_splits prod.splits)

lemma record_omitted_loss:
  assumes "overflow_fits (overflow r)"
  shows "has_loss r c \<Longrightarrow> has_loss (snd (record_omitted_spans r d res n)) c"
    and "has_loss (record_omitted_epochs r k) c = has_loss r c"
  using omit_span_own_mono [OF assms, of c d res n]
  by (auto simp: record_omitted_spans_def record_omitted_epochs_def has_loss_def any_loss_def
      split: sum.splits prod.splits)

lemma resolve_loss:
  assumes "is_ok (validate r)"
  shows "has_loss (snd (resolve_processing_after_batch r outcome)) c = has_loss r c"
proof -
  have "list_ex (\<lambda>s. loss_class s = c) (sort_spans (foldl push_coalesced [] (map resolve_span (spans r))))
      = list_ex (\<lambda>s. loss_class s = c) (spans r)"
    using union_spans_class [of "map resolve_span (spans r)" c] valid_spans_proper [OF assms]
    by (simp add: list_all_iff list_ex_iff)
  then show ?thesis
    by (auto simp: resolve_processing_after_batch_def has_loss_def any_loss_def split: sum.splits)
qed

lemma record_step_loss:
  assumes wf: "well_formed r" and "op_ok p" and "has_loss r SourceLoss"
  shows "has_loss (record_step r p) SourceLoss"
proof (cases p)
  case (MergeSnapshot q)
  obtain res m where m: "merge_snapshot r q = (res, m)" by fastforce
  have "res \<noteq> Inr () \<Longrightarrow> m = r" using m by (cases rule: merge_snapshot_cases) auto
  then show ?thesis
    using merge_snapshot_facts(2) [OF wf _ m, of SourceLoss] assms m MergeSnapshot by fastforce
next
  case (TryInsertSpan s)
  then show ?thesis
    using try_insert_span_loss [of r s _ "snd (try_insert_span r s)"] assms(3) by (metis prod.collapse record_step.simps(3))
qed (use assms in \<open>auto simp: insert_span_keeps_loss record_omitted_loss well_formed_def
      record_fits_def record_omitted_activity_run_loss observe_activity_omissions_loss resolve_loss
      wf_merge_activity(2)\<close>)

interpretation quality: monotone_component record_step op_ok well_formed "\<lambda>r. has_loss r SourceLoss"
  by unfold_locales (auto intro: record_step_wf record_step_loss)

lemma source_incomplete_iff: "source_completeness r = Incomplete \<longleftrightarrow> has_outstanding r SourceLoss"
  by (simp add: source_completeness_def)

lemma wf_incomplete: "well_formed r \<Longrightarrow> source_completeness r = Incomplete \<longleftrightarrow> has_loss r SourceLoss"
  by (simp add: source_incomplete_iff has_outstanding_source well_formed_def)

section \<open>Validity and sticky source loss\<close>

text \<open>C2. Starting from a freshly observed record, any sequence of insertions, omissions, activity
  observations, recoveries and merges leaves a record that passes its own validation, with every
  counter in range.\<close>

theorem record_stays_valid:
  assumes "list_all op_ok ops"
  shows "well_formed (run_from record_step observed_record ops)"
  by (rule quality.run_inv [OF well_formed_observed assms])

theorem record_stays_valid_witness:
  "well_formed (run_from record_step observed_record
     [OmitSpans SourceLoss Outstanding 3, OmitEpochs 2, OmitActivityRun,
      ResolveAfterBatch SameBackendWholeFileSuccess, MergeSnapshot observed_record])"
  by (rule record_stays_valid)
     (use well_formed_observed in \<open>simp add: well_formed_def\<close>)

text \<open>C1. Known source loss is permanent: once the captured source is incomplete, no operation,
  successful batch recovery and merges with clean snapshots included, makes it complete or unknown
  again.\<close>

theorem source_loss_permanent:
  assumes "well_formed r" and "list_all op_ok ops" and "source_completeness r = Incomplete"
  shows "source_completeness (run_from record_step r ops) = Incomplete
    \<and> completeness (run_from record_step r ops) = Incomplete"
proof -
  let ?r = "run_from record_step r ops"
  have "has_loss ?r SourceLoss"
    using quality.fact_run [OF assms(1,2)] assms(1,3) by (simp add: wf_incomplete)
  then have "source_completeness ?r = Incomplete"
    using quality.run_inv [OF assms(1,2)] by (simp add: wf_incomplete)
  then show ?thesis by (simp add: completeness_def source_incomplete_iff)
qed

lemma example_loss:
  "well_formed (snd (record_omitted_spans observed_record SourceLoss Outstanding 1))"
  "source_completeness (snd (record_omitted_spans observed_record SourceLoss Outstanding 1)) = Incomplete"
proof -
  show w: "well_formed (snd (record_omitted_spans observed_record SourceLoss Outstanding 1))"
    by (rule wf_record_omitted_spans [OF well_formed_observed])
  have "is_ok (rbind (validate observed_record) (\<lambda>_. validate_resolution SourceLoss Outstanding))"
    using well_formed_observed by (simp add: well_formed_def validate_resolution_def)
  then obtain u where "rbind (validate observed_record) (\<lambda>_. validate_resolution SourceLoss Outstanding) = Inr u"
    by (auto simp: is_ok_iff)
  then have "has_loss (snd (record_omitted_spans observed_record SourceLoss Outstanding 1)) SourceLoss"
    using omit_span_own_counts [of 1 "overflow observed_record" SourceLoss Outstanding]
    by (simp add: record_omitted_spans_def has_loss_def any_loss_def)
  then show "source_completeness (snd (record_omitted_spans observed_record SourceLoss Outstanding 1))
      = Incomplete"
    using w by (simp add: wf_incomplete)
qed

theorem source_loss_permanent_witness:
  "source_completeness (run_from record_step
     (snd (record_omitted_spans observed_record SourceLoss Outstanding 1))
     [ResolveAfterBatch SameBackendWholeFileSuccess, MergeSnapshot observed_record]) = Incomplete"
  using source_loss_permanent [OF example_loss(1) _ example_loss(2),
      of "[ResolveAfterBatch SameBackendWholeFileSuccess, MergeSnapshot observed_record]"]
    well_formed_observed
  by (simp add: well_formed_def)

section \<open>Insertion\<close>

lemma sat_incr: "fst (sat_count v 1 f) = min (v + 1) u64_max"
  by (auto simp: sat_count_def checked_add_def min_def)

lemma omit_one:
  "omitted_spans (omit_span_own ov c res 1) c = min (omitted_spans ov c + 1) u64_max"
  using sat_incr [of "omitted_spans ov c" "counter_saturated ov"]
  by (auto simp: omit_span_def Let_def split: prod.splits)

lemma omit_activity_one:
  "omitted_spans (overflow (omit_activity r 1)) DegradedOnly
     = min (omitted_spans (overflow r) DegradedOnly + 1) u64_max"
  using sat_incr [of "omitted_spans (overflow r) DegradedOnly" "omission_counter_saturated (activity r)"]
  by (auto simp: omit_activity_def omit_span_def Let_def split: prod.splits)

lemma separated_spans: "separated (spans r) \<Longrightarrow> try_insert_span r s = (res, r') \<Longrightarrow> separated (spans r')"
  by (erule try_insert_span_cases)
     (auto dest: coalesce_separated [of "spans r" s] valid_span_proper [of "epochs r" s])

text \<open>C3. Inserting a span accounts for it exactly. When it is accepted, for every kind of fact the
  frames covered afterwards are those covered before together with those of the span, nothing
  else of the record changes, and spans that did not touch still do not. When the record is full
  its spans are unchanged and the counter of the span's class grows by one (pinned at the maximum).
  On an error the record is unchanged.\<close>

theorem insert_span_accounts:
  "case insert_span r s of
     (Inr True, r') \<Rightarrow>
       (\<forall>k. covered (spans r') k = covered (s # spans r) k)
       \<and> r' = r\<lparr>spans := spans r'\<rparr> \<and> (if separated (spans r) then separated (spans r') else True)
   | (Inr False, r') \<Rightarrow>
       spans r' = spans r \<and> length (spans r) = MAX_QUALITY_SPANS
       \<and> omitted_spans (overflow r') (loss_class s)
           = min (omitted_spans (overflow r) (loss_class s) + 1) u64_max
   | (Inl _, r') \<Rightarrow> r' = r"
proof -
  obtain res q where t: "try_insert_span r s = (res, q)" by fastforce
  from t show ?thesis
  proof (cases rule: try_insert_span_cases)
    case (err e)
    then show ?thesis using t by (simp add: insert_span_def)
  next
    case full
    obtain u where "validate r = Inr u" using full(4) by (auto simp: is_ok_iff)
    moreover have "cause s = FarReferenceSilent \<Longrightarrow> loss_class s = DegradedOnly"
      using full(5) by (auto simp: valid_span_iff validate_class_def split: if_splits)
    moreover have "spans (omit_activity r 1) = spans r"
      by (simp add: omit_activity_def split: prod.splits)
    ultimately show ?thesis
      using full t omit_one [of "overflow r" "loss_class s" "resolution s"] omit_activity_one [of r]
      by (simp add: insert_span_def record_omitted_activity_run_def del: omit_span_own_sel)
  next
    case (kept kept m)
    have "covered (kept @ [m]) k = covered (s # spans r) k" for k
      using coalesce_plain(4) [OF kept(2), of k] by auto
    moreover have "separated (spans r) \<Longrightarrow> separated (kept @ [m])"
      using coalesce_separated [OF kept(2)] valid_span_proper [OF kept(6)] by simp
    ultimately show ?thesis
      using t kept by (simp add: insert_span_def del: covered_simps)
  qed
qed

section \<open>Recovery\<close>

lemma recovered_resolution:
  assumes "list_all proper ss" and "m \<in> set (foldl push_coalesced [] (map resolve_span ss))"
  shows "loss_class m = ProcessingLoss \<Longrightarrow> resolution m = RecoveredByBatch"
  using push_all_kinds_rev [OF assms(2)] assms(1)
  by (auto simp: list_all_iff same_kind_def)

lemma completeness_processed:
  "\<not> has_outstanding r ProcessingLoss \<Longrightarrow> completeness r = source_completeness r"
  by (simp add: completeness_def source_completeness_def)

text \<open>C4. Recovery after a batch pass settles processing loss and nothing else. A verified pass over
  the whole file (by the same backend, or an explicitly requested local one) leaves no outstanding
  processing loss, so no batch recovery is required, and the source completeness, the epochs, the
  activity facts and the frames covered by every other kind of fact are what they were. Every other
  outcome changes nothing.\<close>

theorem recovery_settles_processing_only:
  assumes "well_formed r"
  shows "case resolve_processing_after_batch r outcome of
     (Inl _, _) \<Rightarrow> False
   | (Inr resolved, r') \<Rightarrow>
       resolved = (outcome \<in> {SameBackendWholeFileSuccess, ExplicitLocalWholeFileSuccess})
       \<and> (if resolved
          then \<not> requires_batch_recovery r'
            \<and> source_completeness r' = source_completeness r
            \<and> completeness r' = source_completeness r
            \<and> epochs r' = epochs r \<and> activity r' = activity r \<and> coverage r' = coverage r
            \<and> (\<forall>k. covered (spans r') k =
                 (if loss_class k = ProcessingLoss
                  then (if resolution k = RecoveredByBatch
                        then covered (map resolve_span (spans r)) k else {})
                  else covered (spans r) k))
          else r' = r)"
proof -
  obtain u where v: "validate r = Inr u" using assms by (auto simp: well_formed_def is_ok_iff)
  have p: "list_all proper (spans r)" using valid_spans_proper [of r] v by simp
  let ?ss = "sort_spans (foldl push_coalesced [] (map resolve_span (spans r)))"
  let ?r = "r\<lparr>spans := ?ss, overflow := (overflow r)\<lparr>outstanding_omitted_spans :=
      (outstanding_omitted_spans (overflow r))(ProcessingLoss := 0)\<rparr>\<rparr>"
  have res: "resolve_processing_after_batch r outcome
      = (if whole_file_success outcome then (Inr True, ?r) else (Inr False, r))"
    by (simp add: resolve_processing_after_batch_def v)
  show ?thesis
  proof (cases "whole_file_success outcome")
    case False
    then show ?thesis by (simp add: res whole_file_success_def)
  next
    case True
    have wf: "well_formed ?r" using wf_resolve [OF assms, of outcome] True res by simp
    have loss: "has_loss ?r c = has_loss r c" for c
      using resolve_loss [of r outcome] v True by (simp add: res)
    have src: "has_outstanding ?r SourceLoss = has_outstanding r SourceLoss"
      using has_outstanding_source [of ?r] has_outstanding_source [of r] wf v loss
      by (simp add: well_formed_def)
    then have sc: "source_completeness ?r = source_completeness r"
      using wf v by (simp add: source_completeness_def well_formed_def)
    have proc: "\<not> has_outstanding ?r ProcessingLoss"
      using recovered_resolution [OF p] by (auto simp: has_outstanding_def list_ex_iff)
    then have "completeness ?r = source_completeness r"
      using sc completeness_processed by simp
    moreover have "covered ?ss k =
        (if loss_class k = ProcessingLoss
         then (if resolution k = RecoveredByBatch then covered (map resolve_span (spans r)) k else {})
         else covered (spans r) k)" for k
      using push_all_covered [of "[]" "map resolve_span (spans r)" k]
      by (auto simp: covered_def same_kind_def resolve_span_def split: if_splits)
    ultimately show ?thesis
      using True sc proc
      by (simp add: res whole_file_success_def requires_batch_recovery_def)
  qed
qed

theorem recovery_settles_processing_only_witness:
  "case resolve_processing_after_batch observed_record SameBackendWholeFileSuccess of
     (Inl _, _) \<Rightarrow> False
   | (Inr resolved, r') \<Rightarrow> resolved \<and> \<not> requires_batch_recovery r'"
  using recovery_settles_processing_only [OF well_formed_observed, of SameBackendWholeFileSuccess]
  by (auto split: prod.splits sum.splits)

section \<open>Merging snapshots\<close>

lemma union_epochs_contains:
  "union_epochs es fs = Inr us \<Longrightarrow> set es \<union> set fs \<subseteq> set us"
proof (induction es fs arbitrary: us rule: union_epochs.induct)
  case (2 es e others)
  show ?case
  proof (cases "find (\<lambda>p. epoch_id p = epoch_id e) es")
    case None
    then show ?thesis using 2 by auto
  next
    case (Some p)
    then have "p \<in> set es" by (auto simp: find_Some_iff)
    then show ?thesis using 2 Some by (auto split: if_splits)
  qed
qed auto

lemma fold_keep_epochs:
  "fold (keep_or_omit es) ss (kept, ov, om) = (kept', ov', om') \<Longrightarrow>
     omitted_epochs ov' = omitted_epochs ov"
proof (induction ss arbitrary: kept ov om)
  case (Cons s ss)
  obtain k1 ov1 om1 where k: "keep_or_omit es s (kept, ov, om) = (k1, ov1, om1)"
    by (metis prod_cases3)
  then have "omitted_epochs ov1 = omitted_epochs ov"
    by (auto simp: keep_or_omit_def split: if_splits)
  then show ?case using Cons k by simp
qed simp

lemma merged_record_observed:
  "coverage (merged_record r other us) =
     (if coverage r = Observed \<and> coverage other = Observed then Observed else LegacyUnknown)"
  "epochs (merged_record r other us) = take MAX_QUALITY_EPOCHS us"
  "omitted_epochs (overflow (merged_record r other us))
     = max (max (length us - MAX_QUALITY_EPOCHS) (omitted_epochs (overflow r)))
         (omitted_epochs (overflow other))"
  "counter_saturated (overflow r) \<or> counter_saturated (overflow other) \<Longrightarrow>
     counter_saturated (overflow (merged_record r other us))"
  using fold_keep_epochs [of "take MAX_QUALITY_EPOCHS us"
      "sort_spans (foldl push_coalesced [] (spans r @ spans other))"]
  by (auto simp: merged_record_def Let_def saturating_sub_def split: prod.splits)

text \<open>Merging two snapshots of a recording combines their losses and never manufactures
  completeness: the merged source is incomplete exactly when one of the two was, and it is complete
  only when both were. A refused merge leaves the record unchanged.\<close>

theorem merge_combines_completeness:
  assumes "well_formed r" and "record_fits other"
  shows "case merge_snapshot r other of
     (Inl _, m) \<Rightarrow> m = r
   | (Inr _, m) \<Rightarrow>
       (source_completeness m = Incomplete
          \<longleftrightarrow> source_completeness r = Incomplete \<or> source_completeness other = Incomplete)
       \<and> (if source_completeness m = Complete
          then source_completeness r = Complete \<and> source_completeness other = Complete else True)"
proof -
  obtain res m where m: "merge_snapshot r other = (res, m)" by fastforce
  from m show ?thesis
  proof (cases rule: merge_snapshot_cases)
    case (err e)
    then show ?thesis using m by simp
  next
    case (ok us)
    let ?es = "sort_key epoch_id us"
    have wm: "well_formed m" using merge_snapshot_facts(1) [OF assms m] .
    have wo: "well_formed other" using ok(3) assms(2) by (simp add: well_formed_def)
    have inc: "source_completeness m = Incomplete
        \<longleftrightarrow> source_completeness r = Incomplete \<or> source_completeness other = Incomplete"
      using merge_snapshot_facts(2) [OF assms m, of SourceLoss] ok(1) assms(1) wm wo
      by (simp add: wf_incomplete)
    have "source_completeness r = Complete \<and> source_completeness other = Complete"
      if c: "source_completeness m = Complete"
    proof -
      have clean: "coverage m = Observed" "omitted_epochs (overflow m) = 0"
        "\<not> counter_saturated (overflow m)" "\<forall>e \<in> set (epochs m). source_start_ns e \<noteq> None"
        using c by (cases "coverage m"; auto simp: source_completeness_def list_ex_iff
            split: if_splits)+
      have "length ?es \<le> MAX_QUALITY_EPOCHS" using clean(2) by (simp add: ok(6) merged_record_observed)
      then have "set (epochs m) = set us" by (simp add: ok(6) merged_record_observed)
      then have "\<forall>e \<in> set (epochs r) \<union> set (epochs other). source_start_ns e \<noteq> None"
        using union_epochs_contains [OF ok(5)] clean(4) by auto
      moreover have "coverage r = Observed" "coverage other = Observed"
        using clean(1) by (simp_all add: ok(6) merged_record_observed split: if_splits)
      moreover have "omitted_epochs (overflow r) = 0" "omitted_epochs (overflow other) = 0"
        using clean(2) by (simp_all add: ok(6) merged_record_observed)
      moreover have "\<not> counter_saturated (overflow r)" "\<not> counter_saturated (overflow other)"
        using clean(3) merged_record_observed(4) [of r other ?es] by (auto simp: ok(6))
      moreover have "\<not> has_outstanding r SourceLoss" "\<not> has_outstanding other SourceLoss"
        using inc c by (simp_all add: source_incomplete_iff)
      ultimately show ?thesis
        using ok(2,3) by (auto simp: source_completeness_def list_ex_iff)
    qed
    then show ?thesis using m inc ok(1) by simp
  qed
qed

theorem merge_combines_completeness_witness:
  "case merge_snapshot (snd (record_omitted_spans observed_record SourceLoss Outstanding 1))
       observed_record of
     (Inl _, _) \<Rightarrow> True | (Inr _, m) \<Rightarrow> source_completeness m = Incomplete"
  using merge_combines_completeness [OF example_loss(1), of observed_record] example_loss(2)
    well_formed_observed
  by (auto simp: well_formed_def split: prod.splits sum.splits)

section \<open>Masking source loss in the retained recording\<close>

text \<open>
  The specification: a retained frame is lost on a track when some source-loss span of that track,
  carried to retained coordinates through its epoch, contains it before the next epoch's retained
  audio begins.
\<close>

definition lost_frame :: "quality_record \<Rightarrow> quality_span list \<Rightarrow> u64 \<Rightarrow> u64 \<Rightarrow> quality_track \<Rightarrow> bool" where
  "lost_frame r ss frames f t \<longleftrightarrow> f < frames \<and>
     (\<exists>s \<in> set ss. track s = t \<and>
        (\<exists>i a b. epoch_position (epoch s) (epochs r) = Some i
           \<and> retained_frame (epochs r ! i) (start_frame s) = Inr a
           \<and> retained_frame (epochs r ! i) (end_frame s) = Inr b
           \<and> a \<le> f \<and> f < b
           \<and> is_none_or (get_epoch (epochs r) (i + 1)) (\<lambda>n. f < retained_start_frame n)))"

definition masks :: "(u64 \<times> u64 \<times> quality_track) list \<Rightarrow> u64 \<Rightarrow> quality_track \<Rightarrow> bool" where
  "masks xs f t \<longleftrightarrow> list_ex (\<lambda>(a, b, t'). t' = t \<and> a \<le> f \<and> f < b) xs"

lemma retained_frame_start: "retained_frame e f = Inr a \<Longrightarrow> retained_start_frame e \<le> a"
  by (auto simp: retained_frame_def checked_add_def split: if_splits)

lemma retained_frame_mono:
  assumes "is_ok (retained_frame e g)" and "source_frame_base e \<le> f" and "f \<le> g"
  shows "is_ok (retained_frame e f)"
proof -
  have "(f - source_frame_base e) * retained_rate_hz e div source_rate_hz e
      \<le> (g - source_frame_base e) * retained_rate_hz e div source_rate_hz e"
    using assms(3) by (intro div_le_mono mult_le_mono1) simp
  then show ?thesis
    using assms by (auto simp: retained_frame_def is_ok_rbind checked_sub_def checked_add_def
        try_from_def split: if_splits)
qed

lemma project_span_masks:
  assumes "project_span r frames s = Inr x"
  shows "masks (case x of None \<Rightarrow> [] | Some y \<Rightarrow> [y]) f t = lost_frame r [s] frames f t"
    and "is_none_or x (\<lambda>(a, b, _). a < b \<and> b \<le> frames)"
proof -
  obtain i a b where i: "epoch_position (epoch s) (epochs r) = Some i"
    and a: "retained_frame (epochs r ! i) (start_frame s) = Inr a"
    and b: "retained_frame (epochs r ! i) (end_frame s) = Inr b"
    using assms by (auto simp: project_span_def Let_def)
  have le: "retained_start_frame (epochs r ! i) \<le> a" using retained_frame_start [OF a] .
  have x: "x = (let limit = (case get_epoch (epochs r) (i + 1) of None \<Rightarrow> frames
        | Some next \<Rightarrow> min (retained_start_frame next) frames)
      in if min a limit < min b limit then Some (min a limit, min b limit, track s) else None)"
    using assms i a b le by (auto simp: project_span_def Let_def max_absorb1)
  show "masks (case x of None \<Rightarrow> [] | Some y \<Rightarrow> [y]) f t = lost_frame r [s] frames f t"
    using i a b
    by (cases "get_epoch (epochs r) (i + 1)")
       (auto simp: x masks_def lost_frame_def Let_def min_def split: if_splits)
  show "is_none_or x (\<lambda>(a, b, _). a < b \<and> b \<le> frames)"
    by (auto simp: x Let_def split: option.splits)
qed

lemma lost_frame_Cons: "lost_frame r (s # ss) frames f t \<longleftrightarrow> lost_frame r [s] frames f t \<or> lost_frame r ss frames f t"
  by (auto simp: lost_frame_def)

lemma masks_append: "masks (xs @ ys) f t \<longleftrightarrow> masks xs f t \<or> masks ys f t"
  by (simp add: masks_def)

lemma project_spans_masks:
  "project_spans r frames ss = Inr xs \<Longrightarrow>
     masks xs f t = lost_frame r ss frames f t \<and> list_all (\<lambda>(a, b, _). a < b \<and> b \<le> frames) xs"
proof (induction ss arbitrary: xs)
  case Nil
  then show ?case by (simp add: masks_def lost_frame_def)
next
  case (Cons s ss)
  obtain x ys where x: "project_span r frames s = Inr x" and ys: "project_spans r frames ss = Inr ys"
    and xs: "xs = (case x of None \<Rightarrow> [] | Some y \<Rightarrow> [y]) @ ys"
    using Cons.prems by (auto split: option.splits)
  show ?case
    using Cons.IH [OF ys] project_span_masks(1) [OF x, of f t] project_span_masks(2) [OF x]
      lost_frame_Cons [of r s ss frames f t]
    by (cases x) (auto simp: xs masks_append split_beta masks_def)
qed

lemma project_span_total:
  assumes "is_ok (validate_span (epochs r) s)" and "omitted_epochs (overflow r) = 0"
  shows "is_ok (project_span r frames s)"
proof -
  obtain i where i: "epoch_position (epoch s) (epochs r) = Some i" "proper s"
      "source_frame_base (epochs r ! i) \<le> start_frame s" "end_ok (epochs r) i (end_frame s)"
    using assms(1) by (auto simp: valid_span_iff)
  then have e: "is_ok (retained_frame (epochs r ! i) (end_frame s))" by (auto simp: end_ok_def)
  then obtain b where b: "retained_frame (epochs r ! i) (end_frame s) = Inr b"
    by (auto simp: is_ok_iff)
  obtain a where "retained_frame (epochs r ! i) (start_frame s) = Inr a"
    using retained_frame_mono [OF e i(3)] i(2) by (auto simp: proper_def is_ok_iff)
  then show ?thesis
    using i(1) assms(2) b by (simp add: project_span_def Let_def)
qed

lemma project_spans_total:
  "list_all (\<lambda>s. is_ok (validate_span (epochs r) s)) ss \<Longrightarrow> omitted_epochs (overflow r) = 0 \<Longrightarrow>
     is_ok (project_spans r frames ss)"
  by (induction ss) (auto simp: is_ok_rbind project_span_total)

text \<open>The mask of lost audio is exact. The intervals returned for a recording of a given length
  are non-empty, lie inside it, and contain a frame of a track exactly when a source-loss span of
  that track maps onto it inside its own epoch's retained stretch. The projection is refused only
  when the record is invalid or its accounting is itself incomplete.\<close>

theorem retained_mask_exact:
  "case retained_source_loss_intervals r frames of
     Inr xs \<Rightarrow>
       (\<forall>f t. masks xs f t
          = lost_frame r (filter (\<lambda>s. loss_class s = SourceLoss) (spans r)) frames f t)
       \<and> list_all (\<lambda>(a, b, _). a < b \<and> b \<le> frames) xs
   | Inl _ \<Rightarrow>
       (if is_ok (validate r)
        then 0 < omitted_spans (overflow r) SourceLoss \<or> counter_saturated (overflow r)
          \<or> 0 < omitted_epochs (overflow r)
        else True)"
proof (cases "retained_source_loss_intervals r frames")
  case (Inr xs)
  then have "project_spans r frames (filter (\<lambda>s. loss_class s = SourceLoss) (spans r)) = Inr xs"
    by (auto simp: retained_source_loss_intervals_def split: if_splits)
  then show ?thesis using project_spans_masks [of r frames _ xs] Inr by fastforce
next
  case (Inl e)
  have "is_ok (retained_source_loss_intervals r frames)"
    if "is_ok (validate r)" "omitted_spans (overflow r) SourceLoss = 0"
      "\<not> counter_saturated (overflow r)" "omitted_epochs (overflow r) = 0"
    using that project_spans_total [of r "filter (\<lambda>s. loss_class s = SourceLoss) (spans r)" frames]
    by (auto simp: retained_source_loss_intervals_def is_ok_rbind valid_iff list_all_iff)
  then show ?thesis using Inl by auto
qed

section \<open>Merging activity, and its order\<close>

text \<open>The merge that takes only another snapshot's activity facts never changes which source or
  processing losses a record reports, whether it succeeds or fails, and leaves it well-formed.\<close>

theorem activity_merge_keeps_losses:
  assumes "well_formed r" and "record_fits snapshot"
  shows "well_formed (snd (merge_activity_snapshot r snapshot))
    \<and> has_loss (snd (merge_activity_snapshot r snapshot)) SourceLoss = has_loss r SourceLoss
    \<and> has_loss (snd (merge_activity_snapshot r snapshot)) ProcessingLoss = has_loss r ProcessingLoss"
  using wf_merge_activity [OF assms] by simp

theorem activity_merge_keeps_losses_witness:
  "\<not> has_loss (snd (merge_activity_snapshot observed_record
      (snd (record_omitted_spans observed_record SourceLoss Outstanding 1)))) SourceLoss"
  using activity_merge_keeps_losses [OF well_formed_observed,
      of "snd (record_omitted_spans observed_record SourceLoss Outstanding 1)"] example_loss(1)
  by (simp add: well_formed_def has_loss_def any_loss_def observed_record_def default_record_def
      default_overflow_def)

text \<open>The activity verdict of a recording does not depend on the order in which the snapshots of
  its retries arrive, or on how often each is delivered: folding the same set of valid snapshots
  gives the same summary, hence the same far-reference verdict for every stage.\<close>

theorem activity_merge_order_independent:
  assumes "list_all (\<lambda>q. is_ok (validate_activity q)) (q # qs)"
    and "list_all (\<lambda>q. is_ok (validate_activity q)) ps" and "set (q # qs) = set (q # ps)"
  shows "foldl merge_activity q qs = foldl merge_activity q ps
    \<and> far_reference (get_evidence (foldl merge_activity q qs) scope)
        = far_reference (get_evidence (foldl merge_activity q ps) scope)"
  using activity.merge_all_set [of q qs ps] assms by simp

definition tap_snapshot :: "bool \<Rightarrow> quality_activity" where
  "tap_snapshot b = default_activity\<lparr>capture := default_evidence\<lparr>
     input := Some (ActivityInput (replicate 32 1) 48000), observed_tap := True, nonzero_tap := b\<rparr>\<rparr>"

lemma tap_snapshot_valid: "is_ok (validate_activity (tap_snapshot b))"
proof -
  have "is_ok (validate_input (ActivityInput (replicate 32 1) 48000))"
    by (simp add: validate_input_def MAX_ACTIVITY_RATE_HZ_def)
  then have "is_ok (validate_evidence (default_evidence\<lparr>
      input := Some (ActivityInput (replicate 32 1) 48000), observed_tap := True, nonzero_tap := b\<rparr>))"
    by (simp add: valid_evidence_some [where i = "ActivityInput (replicate 32 1) 48000"]
        default_evidence_def)
  then show ?thesis by (simp add: tap_snapshot_def valid_activity_iff default_activity_def)
qed

theorem activity_merge_order_independent_witness:
  "foldl merge_activity default_activity [tap_snapshot True, tap_snapshot False]
     = foldl merge_activity default_activity [tap_snapshot False, tap_snapshot True, tap_snapshot False]"
proof -
  let ?a = "tap_snapshot True" and ?b = "tap_snapshot False" and ?d = default_activity
  have "set (?d # [?a, ?b]) = set (?d # [?b, ?a, ?b])" by (simp only: list.set) blast
  moreover have "list_all (\<lambda>q. is_ok (validate_activity q)) [?d, ?a, ?b]"
    "list_all (\<lambda>q. is_ok (validate_activity q)) [?b, ?a, ?b]"
    by (simp_all only: list.pred_inject tap_snapshot_valid valid_default_activity simp_thms)
  ultimately show ?thesis by (intro activity_merge_order_independent [THEN conjunct1])
qed

end
