(* ===== verification/QualityMapping.thy ===== *)
theory QualityMapping
  imports QualityProps
begin

text \<open>
  Projection of facts known in coordinates of the retained recording back into capture epochs
  (\<open>crates/corti-core/src/quality_mapping.rs\<close>): the live and batch stages know only which retained
  frames they lost, and the record speaks of source frames of an epoch. The interval is split at the
  epochs' retained boundaries; what cannot be placed is counted as an omitted span of its class.
\<close>

section \<open>One epoch\<close>

definition source_of :: "capture_epoch \<Rightarrow> bool \<Rightarrow> u64 \<Rightarrow> u64 option" where
  "source_of e ceil retained =
     Option.bind (checked_sub retained (retained_start_frame e)) (\<lambda>offset.
       (let numerator = offset * source_rate_hz e;
            divisor = retained_rate_hz e;
            delta = (if ceil then div_ceil numerator divisor else numerator div divisor)
        in Option.bind (try_from 64 delta) (checked_add 64 (source_frame_base e))))"

text \<open>The last frame whose floored timestamp does not exceed the next epoch's.\<close>

definition boundary_frame :: "capture_epoch \<Rightarrow> u64 \<Rightarrow> u64 \<Rightarrow> u64 option" where
  "boundary_frame e start limit =
     Option.bind (checked_sub limit start) (\<lambda>delta_ns.
       (let max_delta = ((delta_ns + 1) * source_rate_hz e - 1) div 1000000000
        in Option.bind (try_from 64 max_delta) (checked_add 64 (source_frame_base e))))"

definition epoch_interval ::
    "capture_epoch \<Rightarrow> capture_epoch option \<Rightarrow> u64 \<Rightarrow> u64 \<Rightarrow> (u64 \<times> u64) option" where
  "epoch_interval e next retained_start retained_end =
     Option.bind (source_of e False retained_start) (\<lambda>start.
     Option.bind (source_of e True retained_end) (\<lambda>fin.
     Option.bind
       (case opt_zip (source_start_ns e) (Option.bind next source_start_ns) of
          None \<Rightarrow> Some fin
        | Some (start_ns, limit) \<Rightarrow> map_option (min fin) (boundary_frame e start_ns limit)) (\<lambda>fin'.
       if start < fin' then Some (start, fin') else None)))"

section \<open>The loop over the epochs\<close>

definition omit_fact :: "quality_record \<Rightarrow> quality_class \<Rightarrow> (quality_error + unit) \<times> quality_record" where
  "omit_fact r c = record_omitted_spans r c Outstanding 1"

text \<open>The fact to record is a span whose epoch and frames are filled in per epoch.\<close>

definition place_fact ::
    "quality_span \<Rightarrow> capture_epoch \<Rightarrow> capture_epoch option \<Rightarrow> u64 \<Rightarrow> u64 \<Rightarrow> quality_record
       \<Rightarrow> (quality_error + unit) \<times> quality_record" where
  "place_fact entry e next start fin r =
     (let unknown_boundary = (case next of
            None \<Rightarrow> omitted_epochs (overflow r) \<noteq> 0
          | Some n \<Rightarrow> checked_add 32 (epoch_id e) 1 \<noteq> Some (epoch_id n))
      in case (if unknown_boundary then None else epoch_interval e next start fin) of
           None \<Rightarrow> omit_fact r (loss_class entry)
         | Some (a, b) \<Rightarrow>
             (case insert_span r (entry\<lparr>epoch := epoch_id e, start_frame := a, end_frame := b\<rparr>) of
                (Inl _, r') \<Rightarrow> omit_fact r' (loss_class entry)
              | (Inr _, r') \<Rightarrow> (Inr (), r')))"

text \<open>The cursor when the loop ends, unless an omission fails.\<close>

fun place_in_epochs ::
    "quality_span \<Rightarrow> u64 \<Rightarrow> capture_epoch list \<Rightarrow> u64 \<Rightarrow> quality_record
       \<Rightarrow> (quality_error + u64) \<times> quality_record" where
  "place_in_epochs entry retained_end [] cursor r = (Inr cursor, r)"
| "place_in_epochs entry retained_end (e # es) cursor r =
     (let next = (case es of [] \<Rightarrow> None | n # _ \<Rightarrow> Some n);
          fin = (case next of None \<Rightarrow> retained_end | Some n \<Rightarrow> min (retained_start_frame n) retained_end);
          start = max cursor (retained_start_frame e)
      in if fin \<le> start then place_in_epochs entry retained_end es cursor r
         else (case (if cursor < start then omit_fact r (loss_class entry) else (Inr (), r)) of
             (Inl err, r1) \<Rightarrow> (Inl err, r1)
           | (Inr _, r1) \<Rightarrow>
               (case place_fact entry e next start fin r1 of
                  (Inl err, r2) \<Rightarrow> (Inl err, r2)
                | (Inr _, r2) \<Rightarrow>
                    if fin = retained_end then (Inr fin, r2)
                    else place_in_epochs entry retained_end es fin r2)))"

definition insert_retained_fact ::
    "quality_record \<Rightarrow> u64 \<Rightarrow> u64 \<Rightarrow> quality_track \<Rightarrow> quality_cause \<Rightarrow> quality_stage \<Rightarrow> quality_class
       \<Rightarrow> (quality_error + unit) \<times> quality_record" where
  "insert_retained_fact r retained_start retained_end tr ca st cl =
     (if retained_end \<le> retained_start then omit_fact r cl
      else (case place_in_epochs
               \<lparr>epoch = 0, start_frame = 0, end_frame = 0, track = tr, cause = ca, loss_class = cl,
                stage = st, resolution = Outstanding\<rparr> retained_end (epochs r) retained_start r of
             (Inl err, r') \<Rightarrow> (Inl err, r')
           | (Inr cursor, r') \<Rightarrow>
               if cursor < retained_end then omit_fact r' cl else (Inr (), r')))"

definition insert_retained_forced_boundary ::
    "quality_record \<Rightarrow> u64 \<Rightarrow> u64 \<Rightarrow> quality_track \<Rightarrow> (quality_error + unit) \<times> quality_record" where
  "insert_retained_forced_boundary r retained_start retained_end tr =
     (case validate r of
        Inl err \<Rightarrow> (Inl err, r)
      | Inr _ \<Rightarrow>
          insert_retained_fact r retained_start retained_end tr ForcedBoundary StageLive DegradedOnly)"

definition insert_retained_processing_loss ::
    "quality_record \<Rightarrow> u64 \<Rightarrow> u64 \<Rightarrow> quality_track \<Rightarrow> quality_cause \<Rightarrow> quality_stage
       \<Rightarrow> (quality_error + unit) \<times> quality_record" where
  "insert_retained_processing_loss r retained_start retained_end tr ca st =
     (case validate r of
        Inl err \<Rightarrow> (Inl err, r)
      | Inr _ \<Rightarrow>
          if ca \<notin> {TeeDrop, MicTapMismatch, DecodeFailure, NoResult, WindowNotFiled}
             \<and> \<not> (ca = ResamplerFailure \<and> st \<noteq> StageCapture)
          then (Inl InvalidClassification, r)
          else insert_retained_fact r retained_start retained_end tr ca st ProcessingLoss)"

section \<open>What one step adds\<close>

definition kinds :: "quality_class \<Rightarrow> quality_span \<Rightarrow> bool" where
  "kinds c s \<longleftrightarrow> loss_class s = c \<and> (c = SourceLoss \<or> resolution s = Outstanding)"

lemma has_outstanding_kinds:
  "has_outstanding r c \<longleftrightarrow>
     c = SourceLoss \<and> omitted_spans (overflow r) c \<noteq> 0 \<or> outstanding_omitted_spans (overflow r) c \<noteq> 0
     \<or> list_ex (kinds c) (spans r)"
  by (auto simp: has_outstanding_def kinds_def list_ex_iff)

text \<open>
  A step that records facts of one class keeps the record well-formed, and what the record says about
  the other classes; it never takes a covered frame or an omission of the class away.
\<close>

definition adds :: "quality_class \<Rightarrow> quality_record \<Rightarrow> quality_record \<Rightarrow> bool" where
  "adds c r r' \<longleftrightarrow> well_formed r' \<and> epochs r' = epochs r
     \<and> omitted_epochs (overflow r') = omitted_epochs (overflow r)
     \<and> (\<forall>d. d \<noteq> c \<longrightarrow> has_outstanding r' d = has_outstanding r d)
     \<and> (has_outstanding r c \<longrightarrow> has_outstanding r' c)
     \<and> (\<forall>q. covered (spans r) q \<subseteq> covered (spans r') q)
     \<and> outstanding_omitted_spans (overflow r) c \<le> outstanding_omitted_spans (overflow r') c"

lemma adds_refl: "well_formed r \<Longrightarrow> adds c r r"
  by (simp add: adds_def)

lemma adds_trans: "adds c r q \<Longrightarrow> adds c q p \<Longrightarrow> adds c r p"
  unfolding adds_def by (simp, meson order_trans)

lemma sat_sum: "fst (sat_count v n f) = min (v + n) u64_max"
  by (auto simp: sat_count_def checked_add_def min_def)

lemma omit_outstanding:
  "outstanding_omitted_spans (omit_span_own ov c Outstanding n) c
     = min (outstanding_omitted_spans ov c + n) u64_max"
  "omitted_spans (omit_span_own ov c Outstanding n) c = min (omitted_spans ov c + n) u64_max"
  "d \<noteq> c \<Longrightarrow> outstanding_omitted_spans (omit_span_own ov c Outstanding n) d = outstanding_omitted_spans ov d"
  "d \<noteq> c \<Longrightarrow> omitted_spans (omit_span_own ov c Outstanding n) d = omitted_spans ov d"
  using sat_sum [of "outstanding_omitted_spans ov c" n] sat_sum [of "omitted_spans ov c" n]
  by (auto simp: omit_span_def Let_def split: prod.splits) (metis fst_conv)+

lemma omit_adds:
  fixes r n c
  defines "r' \<equiv> r\<lparr>overflow := omit_span_own (overflow r) c Outstanding n\<rparr>"
  assumes "well_formed r"
  shows "adds c r r'" and "has_outstanding r' c \<longleftrightarrow> has_outstanding r c \<or> 0 < n"
proof -
  have fits: "outstanding_omitted_spans (overflow r) c < 2 ^ 64" "omitted_spans (overflow r) c < 2 ^ 64"
    using assms(2) by (auto simp: well_formed_def record_fits_def overflow_fits_def)
  have "well_formed r'"
    unfolding r'_def by (rule wf_omit [OF assms(2)]) (simp add: validate_resolution_def)
  then show "adds c r r'" and "has_outstanding r' c \<longleftrightarrow> has_outstanding r c \<or> 0 < n"
    using fits omit_span_own_sel(3) [of "overflow r" c Outstanding n]
    unfolding r'_def adds_def has_outstanding_kinds
    by (auto simp: omit_outstanding simp del: omit_span_own_sel)
qed

lemma omit_fact_adds:
  assumes "well_formed r"
  obtains r' where "omit_fact r c = (Inr (), r')" "adds c r r'" "has_outstanding r' c"
    "outstanding_omitted_spans (overflow r') c = min (outstanding_omitted_spans (overflow r) c + 1) u64_max"
proof
  let ?r = "r\<lparr>overflow := omit_span_own (overflow r) c Outstanding 1\<rparr>"
  obtain u where "validate r = Inr u" using assms by (auto simp: well_formed_def is_ok_iff)
  then show "omit_fact r c = (Inr (), ?r)"
    by (simp add: omit_fact_def record_omitted_spans_def validate_resolution_def)
  show "outstanding_omitted_spans (overflow ?r) c = min (outstanding_omitted_spans (overflow r) c + 1) u64_max"
    by (simp add: omit_outstanding del: omit_span_own_sel)
qed (use omit_adds [OF assms] in auto)

lemma insert_span_adds:
  assumes "well_formed r" and "insert_span r s = (Inr b, r')"
    and "resolution s = Outstanding" and "cause s \<noteq> FarReferenceSilent"
  shows "adds (loss_class s) r r'" and "has_outstanding r' (loss_class s)"
    and "outstanding_omitted_spans (overflow r') (loss_class s) = outstanding_omitted_spans (overflow r) (loss_class s)
       \<Longrightarrow> outstanding_omitted_spans (overflow r) (loss_class s) < u64_max \<Longrightarrow> frames_of s \<subseteq> covered (spans r') s"
proof -
  obtain res q where t: "try_insert_span r s = (res, q)" by fastforce
  let ?c = "loss_class s"
  have "adds ?c r r' \<and> has_outstanding r' ?c
    \<and> (outstanding_omitted_spans (overflow r') ?c = outstanding_omitted_spans (overflow r) ?c
       \<longrightarrow> outstanding_omitted_spans (overflow r) ?c < u64_max \<longrightarrow> frames_of s \<subseteq> covered (spans r') s)"
    using t
  proof (cases rule: try_insert_span_cases)
    case (err e)
    then show ?thesis using assms(2) t by (simp add: insert_span_def)
  next
    case full
    then have "r' = r\<lparr>overflow := omit_span_own (overflow r) ?c Outstanding 1\<rparr>"
      using assms(2-4) t by (simp add: insert_span_def)
    then show ?thesis
      using omit_adds [OF assms(1), of ?c 1] by (auto simp: omit_outstanding min_def simp del: omit_span_own_sel)
  next
    case (kept kept m)
    then have r': "r' = r\<lparr>spans := sort_spans (kept @ [m])\<rparr>" using assms(2) t by (simp add: insert_span_def)
    have "list_all proper (s # spans r)"
      using kept valid_spans_proper [of r] valid_span_proper [of "epochs r" s] by simp
    then have k: "list_ex (kinds d) (kept @ [m]) \<longleftrightarrow> kinds d s \<or> list_ex (kinds d) (spans r)" for d
      using coalesce_kind [OF kept(2), of "kinds d"] by (simp add: kinds_def same_kind_def)
    have sorted: "list_ex (kinds d) (sort_spans (kept @ [m])) \<longleftrightarrow> kinds d s \<or> list_ex (kinds d) (spans r)" for d
      using k [of d] by (simp add: list_ex_iff)
    have cov: "covered (spans r') d = covered (s # spans r) d" for d
      using coalesce_plain(4) [OF kept(2), of d] by (auto simp: r')
    have "well_formed r'" using wf_insert_span [OF assms(1), of s] assms(2) by simp
    moreover have "has_outstanding r' d \<longleftrightarrow> kinds d s \<or> has_outstanding r d" for d
      unfolding has_outstanding_kinds r' by (auto simp: sorted)
    moreover have "frames_of s \<subseteq> covered (spans r') s" by (simp add: cov)
    ultimately show ?thesis
      unfolding adds_def using assms(3) by (simp add: cov kinds_def) (simp add: r')
  qed
  then show "adds ?c r r'" "has_outstanding r' ?c"
    "outstanding_omitted_spans (overflow r') ?c = outstanding_omitted_spans (overflow r) ?c
       \<Longrightarrow> outstanding_omitted_spans (overflow r) ?c < u64_max \<Longrightarrow> frames_of s \<subseteq> covered (spans r') s"
    by blast+
qed

section \<open>Where a retained frame lands\<close>

text \<open>
  The source frame of a retained frame of an epoch, and whether that source frame is still going on
  when the next epoch starts.
\<close>

definition source_frame :: "capture_epoch \<Rightarrow> u64 \<Rightarrow> u64" where
  "source_frame e f =
     source_frame_base e + (f - retained_start_frame e) * source_rate_hz e div retained_rate_hz e"

definition crosses :: "capture_epoch \<Rightarrow> capture_epoch option \<Rightarrow> u64 \<Rightarrow> bool" where
  "crosses e next f \<longleftrightarrow>
     (case opt_zip (source_start_ns e) (Option.bind next source_start_ns) of
        None \<Rightarrow> False
      | Some (start, limit) \<Rightarrow>
          limit < start + (source_frame e f + 1 - source_frame_base e) * 1000000000 div source_rate_hz e)"

lemma source_of_Some:
  assumes "source_of e ceil f = Some x"
  shows "retained_start_frame e \<le> f"
    and "x = (if ceil then source_frame_base e
                + div_ceil ((f - retained_start_frame e) * source_rate_hz e) (retained_rate_hz e)
              else source_frame e f)"
  using assms by (auto simp: source_of_def source_frame_def Let_def bind_eq_Some_conv split: if_splits)

lemma div_less_div_ceil: "0 < b \<Longrightarrow> u < v \<Longrightarrow> u div b < div_ceil v b"
  using div_ceil_upper [of b v] by (metis div_le_mono le_trans leD leI less_mult_imp_div_less order_less_le_trans)

lemma boundary_crosses:
  assumes "boundary_frame e start limit = Some b" and "b \<le> x" and "0 < source_rate_hz e"
  shows "limit < start + (x + 1 - source_frame_base e) * 1000000000 div source_rate_hz e"
proof -
  let ?m = "(limit - start + 1) * source_rate_hz e"
  have le: "start \<le> limit" and b: "b = source_frame_base e + (?m - 1) div 1000000000"
    using assms(1) by (auto simp: boundary_frame_def Let_def bind_eq_Some_conv)
  let ?d = "x + 1 - source_frame_base e"
  have "(?m - 1) div 1000000000 < ?d" using assms(2) b by linarith
  then have "?m - 1 < ?d * 1000000000" by (simp add: div_less_iff_less_mult)
  then have "?m \<le> ?d * 1000000000" by linarith
  then have "limit - start + 1 \<le> ?d * 1000000000 div source_rate_hz e"
    using assms(3) by (simp add: less_eq_div_iff_mult_less_eq)
  then show ?thesis using le by linarith
qed

lemma source_of_brackets:
  assumes "source_of e False lo = Some a" and "source_of e True hi = Some b" and "lo \<le> f" and "f < hi"
    and "0 < source_rate_hz e" and "0 < retained_rate_hz e"
  shows "a \<le> source_frame e f" and "source_frame e f < b"
proof -
  note lo = source_of_Some [OF assms(1)] and hi = source_of_Some [OF assms(2)]
  show "a \<le> source_frame e f"
    using lo assms(3) by (auto simp: source_frame_def intro!: div_le_mono mult_le_mono)
  show "source_frame e f < b"
    using hi assms lo(1) div_less_div_ceil [OF assms(6), of "(f - retained_start_frame e) * source_rate_hz e"
        "(hi - retained_start_frame e) * source_rate_hz e"]
    by (simp add: source_frame_def)
qed

lemma epoch_interval_lands:
  assumes "epoch_interval e next lo hi = Some (a, b)" and "lo \<le> f" and "f < hi"
    and "0 < source_rate_hz e" and "0 < retained_rate_hz e"
  shows "source_frame e f \<in> {a..<b} \<or> crosses e next f"
proof -
  obtain fin where a: "source_of e False lo = Some a" and fin: "source_of e True hi = Some fin"
    and b: "(case opt_zip (source_start_ns e) (Option.bind next source_start_ns) of
          None \<Rightarrow> Some fin
        | Some (start_ns, limit) \<Rightarrow> map_option (min fin) (boundary_frame e start_ns limit)) = Some b"
    using assms(1) by (auto simp: epoch_interval_def bind_eq_Some_conv split: if_splits)
  show ?thesis
    using b assms(4) source_of_brackets [OF a fin assms(2-5)] boundary_crosses [of e _ _ _ "source_frame e f"]
    by (auto simp: crosses_def min_def split: option.splits if_splits) (meson not_le)
qed

definition located :: "capture_epoch list \<Rightarrow> quality_span \<Rightarrow> quality_span list \<Rightarrow> u64 \<Rightarrow> bool" where
  "located es k ss f \<longleftrightarrow>
     (\<exists>us e vs. es = us @ e # vs \<and> retained_start_frame e \<le> f
        \<and> (vs \<noteq> [] \<longrightarrow> f < retained_start_frame (hd vs))
        \<and> (source_frame e f \<in> covered ss (k\<lparr>epoch := epoch_id e\<rparr>)
           \<or> crosses e (if vs = [] then None else Some (hd vs)) f))"

lemma located_mono: "located es k ss f \<Longrightarrow> (\<And>q. covered ss q \<subseteq> covered ts q) \<Longrightarrow> located es k ts f"
  unfolding located_def by blast

lemma located_Cons: "located es k ss f \<Longrightarrow> located (e # es) k ss f"
  unfolding located_def by (metis append_Cons)

section \<open>The loop records the whole interval\<close>

text \<open>A step that leaves the omissions of its class alone has recorded its frames as spans.\<close>

abbreviation no_omission :: "quality_class \<Rightarrow> quality_record \<Rightarrow> quality_record \<Rightarrow> bool" where
  "no_omission c r r' \<equiv>
     outstanding_omitted_spans (overflow r') c = outstanding_omitted_spans (overflow r) c
     \<and> outstanding_omitted_spans (overflow r) c < u64_max"

lemma adds_no_omission:
  "adds c r q \<Longrightarrow> adds c q p \<Longrightarrow> no_omission c r p \<Longrightarrow> no_omission c r q \<and> no_omission c q p"
  unfolding adds_def by linarith

lemma place_fact_adds:
  assumes "well_formed r" and "resolution entry = Outstanding" and "cause entry \<noteq> FarReferenceSilent"
  obtains r' where "place_fact entry e next start fin r = (Inr (), r')" "adds (loss_class entry) r r'"
    "has_outstanding r' (loss_class entry)"
    "no_omission (loss_class entry) r r' \<Longrightarrow> \<exists>a b. epoch_interval e next start fin = Some (a, b)
       \<and> {a..<b} \<subseteq> covered (spans r') (entry\<lparr>epoch := epoch_id e\<rparr>)"
proof -
  let ?c = "loss_class entry"
  obtain r1 where o: "omit_fact r ?c = (Inr (), r1)" "adds ?c r r1" "has_outstanding r1 ?c"
      "outstanding_omitted_spans (overflow r1) ?c = min (outstanding_omitted_spans (overflow r) ?c + 1) u64_max"
    using omit_fact_adds [OF assms(1), of ?c] by blast
  then have n: "\<not> no_omission ?c r r1" by linarith
  let ?p = "case next of None \<Rightarrow> omitted_epochs (overflow r) \<noteq> 0
     | Some n \<Rightarrow> checked_add 32 (epoch_id e) 1 \<noteq> Some (epoch_id n)"
  show ?thesis
  proof (cases "if ?p then None else epoch_interval e next start fin")
    case None
    then have "place_fact entry e next start fin r = (Inr (), r1)" using o(1) by (simp add: place_fact_def)
    then show ?thesis by (rule that [OF _ o(2,3)]) (use n in blast)
  next
    case (Some ab)
    obtain a b where ab: "ab = (a, b)" by fastforce
    let ?s = "entry\<lparr>epoch := epoch_id e, start_frame := a, end_frame := b\<rparr>"
    obtain res r2 where i: "insert_span r ?s = (res, r2)" by fastforce
    show ?thesis
    proof (cases res)
      case (Inl err)
      then have "r2 = r" using i insert_span_error by simp
      then have "place_fact entry e next start fin r = (Inr (), r1)"
        using o(1) i Inl Some ab by (simp add: place_fact_def)
      then show ?thesis by (rule that [OF _ o(2,3)]) (use n in blast)
    next
      case (Inr flag)
      have ok: "resolution ?s = Outstanding" "cause ?s \<noteq> FarReferenceSilent" using assms by simp_all
      note f = insert_span_adds [OF assms(1) i [unfolded Inr] ok]
      have k: "covered ss ?s = covered ss (entry\<lparr>epoch := epoch_id e\<rparr>)" for ss
        by (simp add: covered_def same_kind_def)
      have e: "epoch_interval e next start fin = Some (a, b)" using Some ab by (simp split: if_splits)
      show ?thesis
        using that [of r2] f i Inr Some ab e k by (simp add: place_fact_def frames_of_def)
    qed
  qed
qed

lemma place_in_epochs_adds:
  assumes "well_formed r" and "resolution entry = Outstanding" and "cause entry \<noteq> FarReferenceSilent"
    and "list_all (\<lambda>e. is_ok (validate_epoch e)) es" and "c = loss_class entry"
  shows "\<exists>cursor' r'. place_in_epochs entry stop es cursor r = (Inr cursor', r') \<and> adds c r r'
    \<and> cursor \<le> cursor' \<and> (cursor < cursor' \<longrightarrow> has_outstanding r' c)
    \<and> (no_omission c r r' \<longrightarrow> (\<forall>f. cursor \<le> f \<longrightarrow> f < cursor' \<longrightarrow> located es entry (spans r') f))"
  using assms(1,4)
proof (induction es arbitrary: cursor r)
  case Nil
  then show ?case by (simp add: adds_refl)
next
  case (Cons e es)
  let ?next = "case es of [] \<Rightarrow> None | n # _ \<Rightarrow> Some n"
  let ?fin = "case ?next of None \<Rightarrow> stop | Some n \<Rightarrow> min (retained_start_frame n) stop"
  let ?start = "max cursor (retained_start_frame e)"
  show ?case
  proof (cases "?fin \<le> ?start")
    case True
    then have "place_in_epochs entry stop (e # es) cursor r = place_in_epochs entry stop es cursor r"
      by (simp add: Let_def)
    then show ?thesis using Cons.IH [OF Cons.prems(1), of cursor] Cons.prems(2) located_Cons by fastforce
  next
    case False
    obtain r1 where o: "omit_fact r c = (Inr (), r1)" "adds c r r1"
        "outstanding_omitted_spans (overflow r1) c = min (outstanding_omitted_spans (overflow r) c + 1) u64_max"
      using omit_fact_adds [OF Cons.prems(1), of c] by blast
    obtain r2 where gap: "(if cursor < ?start then omit_fact r c else (Inr (), r)) = (Inr (), r2)"
        "adds c r r2" "no_omission c r r2 \<Longrightarrow> \<not> cursor < ?start"
    proof (cases "cursor < ?start")
      case True
      then show ?thesis using that [of r1] o by (simp add: min_def split: if_splits)
    next
      case False
      then show ?thesis using that [of r] adds_refl [OF Cons.prems(1)] by simp
    qed
    have w2: "well_formed r2" using gap(2) by (simp add: adds_def)
    obtain r3 where p: "place_fact entry e ?next ?start ?fin r2 = (Inr (), r3)" "adds c r2 r3"
        "has_outstanding r3 c"
        "no_omission c r2 r3 \<Longrightarrow> \<exists>a b. epoch_interval e ?next ?start ?fin = Some (a, b)
           \<and> {a..<b} \<subseteq> covered (spans r3) (entry\<lparr>epoch := epoch_id e\<rparr>)"
      using place_fact_adds [OF w2 assms(2,3), of e ?next ?start ?fin] unfolding assms(5) by blast
    have w3: "well_formed r3" using p(2) by (simp add: adds_def)
    have unfolded: "place_in_epochs entry stop (e # es) cursor r
        = (if ?fin = stop then (Inr ?fin, r3) else place_in_epochs entry stop es ?fin r3)"
      using False gap(1) p(1) unfolding assms(5)
      by (simp only: place_in_epochs.simps Let_def if_False prod.case sum.case)
    have rates: "0 < source_rate_hz e" "0 < retained_rate_hz e"
      using Cons.prems(2) by (auto simp: validate_epoch_def split: if_splits)
    have here: "located (e # es) entry (spans q) f"
      if f: "cursor \<le> f" "f < ?fin" and n: "no_omission c r q" and q: "adds c r3 q" for q f
    proof -
      have ns: "no_omission c r r2 \<and> no_omission c r2 r3"
        using adds_no_omission [OF gap(2) p(2)] adds_no_omission [OF adds_trans [OF gap(2) p(2)] q n] by blast
      then have st: "?start = cursor" "retained_start_frame e \<le> cursor" using gap(3) by auto
      obtain a b where ab: "epoch_interval e ?next ?start ?fin = Some (a, b)"
          "{a..<b} \<subseteq> covered (spans r3) (entry\<lparr>epoch := epoch_id e\<rparr>)"
        using p(4) ns by blast
      have next_hd: "?next = (if es = [] then None else Some (hd es))" by (cases es) auto
      have "source_frame e f \<in> {a..<b} \<or> crosses e ?next f"
        by (rule epoch_interval_lands [OF ab(1) _ f(2) rates]) (use st f in simp)
      moreover have "covered (spans r3) k \<subseteq> covered (spans q) k" for k using q by (simp add: adds_def)
      ultimately have lands: "source_frame e f \<in> covered (spans q) (entry\<lparr>epoch := epoch_id e\<rparr>)
          \<or> crosses e (if es = [] then None else Some (hd es)) f"
        using ab(2) unfolding next_hd by blast
      have "es \<noteq> [] \<longrightarrow> f < retained_start_frame (hd es)" using f(2) by (cases es) auto
      then have "e # es = [] @ e # es \<and> retained_start_frame e \<le> f
          \<and> (es \<noteq> [] \<longrightarrow> f < retained_start_frame (hd es))
          \<and> (source_frame e f \<in> covered (spans q) (entry\<lparr>epoch := epoch_id e\<rparr>)
             \<or> crosses e (if es = [] then None else Some (hd es)) f)"
        using lands st f(1) by (intro conjI) simp_all
      then show ?thesis unfolding located_def by blast
    qed
    show ?thesis
    proof (cases "?fin = stop")
      case True
      have "place_in_epochs entry stop (e # es) cursor r = (Inr ?fin, r3)"
        unfolding unfolded by (rule if_P [OF True])
      then show ?thesis
        using adds_trans [OF gap(2) p(2)] p(3) False here [OF _ _ _ adds_refl [OF w3]]
        by (intro exI [of _ ?fin] exI [of _ r3]) auto
    next
      case fin: False
      obtain cursor' q where q: "place_in_epochs entry stop es ?fin r3 = (Inr cursor', q)" "adds c r3 q"
          "?fin \<le> cursor'" "no_omission c r3 q \<Longrightarrow> \<forall>f. ?fin \<le> f \<longrightarrow> f < cursor' \<longrightarrow> located es entry (spans q) f"
        using Cons.IH [OF w3, of ?fin] Cons.prems(2) by auto
      have "place_in_epochs entry stop (e # es) cursor r = (Inr cursor', q)"
        unfolding unfolded if_not_P [OF fin] by (rule q(1))
      moreover have a: "adds c r q" using adds_trans [OF adds_trans [OF gap(2) p(2)] q(2)] .
      moreover have "has_outstanding q c" using q(2) p(3) by (simp add: adds_def)
      moreover have "no_omission c r3 q" if "no_omission c r q"
        using adds_no_omission [OF adds_trans [OF gap(2) p(2)] q(2) that] by blast
      then have "located (e # es) entry (spans q) f"
        if "no_omission c r q" "cursor \<le> f" "f < cursor'" for f
        using here [of f q] q(2,4) that located_Cons [of es entry "spans q" f e] by (meson leI)
      moreover have "cursor \<le> cursor'" using False q(3) by linarith
      ultimately show ?thesis by blast
    qed
  qed
qed

section \<open>The operations\<close>

lemma valid_epochs_all: "is_ok (validate_epochs_from p l es) \<Longrightarrow> list_all (\<lambda>e. is_ok (validate_epoch e)) es"
  by (induction p l es rule: validate_epochs_from.induct)
     (auto simp: is_ok_rbind split: option.splits if_splits)

lemma insert_retained_fact_adds:
  assumes "well_formed r" and "ca \<noteq> FarReferenceSilent"
  obtains r' where "insert_retained_fact r lo hi tr ca st c = (Inr (), r')" "adds c r r'" "has_outstanding r' c"
    "no_omission c r r' \<Longrightarrow> lo < hi \<and> (\<forall>f. lo \<le> f \<longrightarrow> f < hi \<longrightarrow> located (epochs r)
       \<lparr>epoch = 0, start_frame = 0, end_frame = 0, track = tr, cause = ca, loss_class = c,
        stage = st, resolution = Outstanding\<rparr> (spans r') f)"
proof (cases "hi \<le> lo")
  case True
  obtain r1 where o: "omit_fact r c = (Inr (), r1)" "adds c r r1" "has_outstanding r1 c"
      "outstanding_omitted_spans (overflow r1) c = min (outstanding_omitted_spans (overflow r) c + 1) u64_max"
    using omit_fact_adds [OF assms(1), of c] by blast
  have "insert_retained_fact r lo hi tr ca st c = (Inr (), r1)"
    using True o(1) by (simp add: insert_retained_fact_def)
  moreover have "\<not> no_omission c r r1" using o(4) by linarith
  ultimately show ?thesis using that [of r1] o(2,3) by blast
next
  case False
  let ?k = "\<lparr>epoch = 0, start_frame = 0, end_frame = 0, track = tr, cause = ca, loss_class = c,
    stage = st, resolution = Outstanding\<rparr>"
  have k: "resolution ?k = Outstanding" "cause ?k \<noteq> FarReferenceSilent" "c = loss_class ?k"
    using assms(2) by simp_all
  have "list_all (\<lambda>e. is_ok (validate_epoch e)) (epochs r)"
    using assms(1) by (auto simp: well_formed_def valid_iff validate_epochs_def intro: valid_epochs_all)
  then obtain cursor q where p: "place_in_epochs ?k hi (epochs r) lo r = (Inr cursor, q)" "adds c r q"
      "lo \<le> cursor" "lo < cursor \<Longrightarrow> has_outstanding q c"
      "no_omission c r q \<Longrightarrow> \<forall>f. lo \<le> f \<longrightarrow> f < cursor \<longrightarrow> located (epochs r) ?k (spans q) f"
    using place_in_epochs_adds [OF assms(1) k(1,2) _ k(3), of "epochs r" hi lo] by blast
  have q: "well_formed q" using p(2) by (simp add: adds_def)
  show ?thesis
  proof (cases "cursor < hi")
    case True
    obtain r1 where o: "omit_fact q c = (Inr (), r1)" "adds c q r1" "has_outstanding r1 c"
        "outstanding_omitted_spans (overflow r1) c = min (outstanding_omitted_spans (overflow q) c + 1) u64_max"
      using omit_fact_adds [OF q, of c] by blast
    have "insert_retained_fact r lo hi tr ca st c = (Inr (), r1)"
      using True False p(1) o(1) by (simp add: insert_retained_fact_def)
    moreover have "\<not> no_omission c r r1" using o(4) p(2) unfolding adds_def by linarith
    ultimately show ?thesis using that [of r1] adds_trans [OF p(2) o(2)] o(3) by blast
  next
    case end_reached: False
    then have "insert_retained_fact r lo hi tr ca st c = (Inr (), q)"
      using False p(1) by (simp add: insert_retained_fact_def)
    moreover have "lo < cursor" using False end_reached by linarith
    moreover have "no_omission c r q \<Longrightarrow> lo < hi \<and> (\<forall>f. lo \<le> f \<longrightarrow> f < hi \<longrightarrow> located (epochs r) ?k (spans q) f)"
      using p(5) False end_reached by (meson leI less_le_trans)
    ultimately show ?thesis using that [of q] p(2,4) by blast
  qed
qed



end
