(* ===== verification/CaptureMismatch.thy ===== *)
theory CaptureMismatch
  imports QualityMapping
begin

text \<open>
  The alignment accounting of \<open>crates/corti-core/src/capture_mismatch.rs\<close>: the live tee delivers
  microphone and system samples in chunks, and a chunk whose two sides differ in length has lost
  frames of one of them. The facts are kept in retained coordinates, bounded in number, until the
  capture snapshot is known, and are then settled into its quality record.
\<close>

definition MAX_LIVE_MISMATCH_INTERVALS :: nat where "MAX_LIVE_MISMATCH_INTERVALS = MAX_QUALITY_SPANS"
definition MISMATCH_WARN_EVERY :: nat where "MISMATCH_WARN_EVERY = 100"

record mismatch_interval =
  mm_epoch :: capture_epoch
  mm_start :: u64
  mm_end :: u64
  mm_track :: quality_track

record mismatches =
  mm_count :: u64
  mm_intervals :: "mismatch_interval list"
  mm_omitted :: u64
  mm_saturated :: bool
  mm_epochs :: "(capture_epoch \<times> bool) list"
  mm_omitted_epochs :: u64
  mm_last_id :: "u32 option"

definition no_mismatches :: mismatches where
  "no_mismatches = \<lparr>mm_count = 0, mm_intervals = [], mm_omitted = 0, mm_saturated = False,
     mm_epochs = [], mm_omitted_epochs = 0, mm_last_id = None\<rparr>"

text \<open>A received chunk: its epoch, the writer's position, the two lengths and the sample rate.\<close>

record chunk =
  chunk_epoch :: capture_epoch
  chunk_start :: u64
  mic_len :: nat
  tap_len :: nat
  chunk_rate :: u32

section \<open>Observing\<close>

text \<open>The entry of an epoch id, if there is one, with its consistency updated.\<close>

fun note_epoch :: "capture_epoch \<Rightarrow> (capture_epoch \<times> bool) list \<Rightarrow> (capture_epoch \<times> bool) list option" where
  "note_epoch e [] = None"
| "note_epoch e ((saved, consistent) # rest) =
     (if epoch_id saved = epoch_id e then Some ((saved, consistent \<and> saved = e) # rest)
      else map_option ((#) (saved, consistent)) (note_epoch e rest))"

definition remember_epoch :: "mismatches \<Rightarrow> capture_epoch \<Rightarrow> mismatches" where
  "remember_epoch m e =
     (let m' = (case note_epoch e (mm_epochs m) of
          Some es \<Rightarrow> m\<lparr>mm_epochs := es\<rparr>
        | None \<Rightarrow>
            if length (mm_epochs m) < MAX_QUALITY_EPOCHS
            then m\<lparr>mm_epochs := mm_epochs m @ [(e, True)]\<rparr>
            else if mm_last_id m \<noteq> Some (epoch_id e)
            then m\<lparr>mm_saturated := mm_saturated m \<or> mm_omitted_epochs m = u64_max,
                   mm_omitted_epochs := saturating_add 64 (mm_omitted_epochs m) 1\<rparr>
            else m)
      in m'\<lparr>mm_last_id := Some (epoch_id e)\<rparr>)"

text \<open>Which frames of a chunk are missing, as an offset, and from which track.\<close>

definition mismatch_of :: "chunk \<Rightarrow> (nat \<times> quality_track) option" where
  "mismatch_of c =
     (let mic_expected = (mic_channels (chunk_epoch c) \<noteq> 0);
          tap_expected = (tap_channels (chunk_epoch c) \<noteq> 0)
      in if mic_expected \<and> tap_expected \<and> mic_len c \<noteq> tap_len c
         then Some (min (mic_len c) (tap_len c), if mic_len c < tap_len c then Mic else Tap)
         else if \<not> mic_expected \<and> mic_len c \<noteq> 0 \<or> \<not> tap_expected \<and> tap_len c \<noteq> 0
         then Some (0, Both)
         else None)"

definition should_warn :: "mismatches \<Rightarrow> bool" where
  "should_warn m \<longleftrightarrow> mm_count m = 1 \<or> mm_count m \<noteq> 0 \<and> MISMATCH_WARN_EVERY dvd mm_count m"

definition interval_of :: "chunk \<Rightarrow> nat \<Rightarrow> quality_track \<Rightarrow> mismatch_interval option" where
  "interval_of c missing_start tr =
     (let e = chunk_epoch c; frames = max (mic_len c) (tap_len c)
      in map_option (\<lambda>(a, b). \<lparr>mm_epoch = e, mm_start = a, mm_end = b, mm_track = tr\<rparr>)
           (opt_filter (\<lambda>(a, b). a < b \<and> retained_start_frame e \<le> a \<and> retained_rate_hz e = chunk_rate c
                \<and> chunk_rate c \<noteq> 0 \<and> source_rate_hz e \<noteq> 0)
             (opt_zip (checked_add 64 (chunk_start c) missing_start)
                      (checked_add 64 (chunk_start c) frames))))"

definition extends_interval :: "mismatch_interval \<Rightarrow> mismatch_interval \<Rightarrow> bool" where
  "extends_interval previous iv \<longleftrightarrow>
     mm_epoch previous = mm_epoch iv \<and> mm_track previous = mm_track iv \<and> mm_end previous = mm_start iv"

text \<open>Keep an interval: extend the last one, push it while there is room, else count it.\<close>

definition omit_interval :: "mismatches \<Rightarrow> mismatches" where
  "omit_interval m =
     m\<lparr>mm_saturated := mm_saturated m \<or> mm_omitted m = u64_max,
       mm_omitted := saturating_add 64 (mm_omitted m) 1\<rparr>"

definition keep_interval :: "mismatches \<Rightarrow> mismatch_interval option \<Rightarrow> mismatches" where
  "keep_interval m found =
     (case found of
        None \<Rightarrow> omit_interval m
      | Some iv \<Rightarrow>
          if mm_intervals m \<noteq> [] \<and> extends_interval (last (mm_intervals m)) iv
          then m\<lparr>mm_intervals := butlast (mm_intervals m)
                   @ [(last (mm_intervals m))\<lparr>mm_end := mm_end iv\<rparr>]\<rparr>
          else if length (mm_intervals m) < MAX_LIVE_MISMATCH_INTERVALS
          then m\<lparr>mm_intervals := mm_intervals m @ [iv]\<rparr>
          else omit_interval m)"

definition observe_chunk :: "mismatches \<Rightarrow> chunk \<Rightarrow> bool \<times> mismatches" where
  "observe_chunk m0 c =
     (let m = remember_epoch m0 (chunk_epoch c)
      in case mismatch_of c of
           None \<Rightarrow> (False, m)
         | Some (missing_start, tr) \<Rightarrow>
             (let m1 = m\<lparr>mm_saturated := mm_saturated m \<or> mm_count m = u64_max,
                         mm_count := saturating_add 64 (mm_count m) 1\<rparr>
              in (should_warn m1, keep_interval m1 (interval_of c missing_start tr))))"

section \<open>Settling\<close>

fun index_of :: "'a \<Rightarrow> 'a list \<Rightarrow> nat option" where
  "index_of x [] = None"
| "index_of x (y # ys) = (if y = x then Some 0 else map_option Suc (index_of x ys))"

text \<open>The two frame conversions are those of \<open>source_of\<close>.\<close>

definition source_span :: "mismatch_interval \<Rightarrow> quality_record \<Rightarrow> quality_span option" where
  "source_span iv snap =
     Option.bind (index_of (mm_epoch iv) (epochs snap)) (\<lambda>index.
       if is_some_and (get_epoch (epochs snap) (index + 1)) (\<lambda>next. retained_start_frame next < mm_end iv)
       then None
       else let e = mm_epoch iv
            in Option.bind (source_of e False (mm_start iv)) (\<lambda>a.
               Option.bind (source_of e True (mm_end iv)) (\<lambda>b.
                 Some \<lparr>epoch = epoch_id e, start_frame = a, end_frame = b, track = mm_track iv,
                   cause = MicTapMismatch, loss_class = ProcessingLoss, stage = StageLive,
                   resolution = Outstanding\<rparr>)))"

definition omit_losses :: "quality_record \<Rightarrow> u64 \<Rightarrow> quality_error + quality_record" where
  "omit_losses q n =
     (case record_omitted_spans q ProcessingLoss Outstanding n of
        (Inl err, _) \<Rightarrow> Inl err
      | (Inr _, q') \<Rightarrow> Inr q')"

fun settle_intervals ::
    "quality_record \<Rightarrow> mismatch_interval list \<Rightarrow> quality_record \<Rightarrow> quality_error + quality_record" where
  "settle_intervals snap [] q = Inr q"
| "settle_intervals snap (iv # ivs) q =
     rbind (case source_span iv snap of
         None \<Rightarrow> omit_losses q 1
       | Some s \<Rightarrow>
           (case insert_span q s of
              (Inl _, q') \<Rightarrow> omit_losses q' 1
            | (Inr _, q') \<Rightarrow> Inr q'))
       (settle_intervals snap ivs)"

definition settle_mismatches :: "mismatches \<Rightarrow> quality_record \<Rightarrow> quality_error + quality_record" where
  "settle_mismatches m snap =
     rbind (omit_losses snap (mm_omitted m)) (\<lambda>q.
       settle_intervals snap (mm_intervals m)
         (q\<lparr>overflow := (overflow q)\<lparr>counter_saturated := counter_saturated (overflow q) \<or> mm_saturated m\<rparr>\<rparr>))"

definition bound_capture :: "mismatches \<Rightarrow> quality_record" where
  "bound_capture m =
     foldl (\<lambda>r (e, consistent). if consistent then snd (insert_epoch r e) else r)
       (record_omitted_epochs observed_record (mm_omitted_epochs m)) (mm_epochs m)"

definition provisional_quality :: "mismatches \<Rightarrow> quality_record" where
  "provisional_quality m =
     (case settle_mismatches m (bound_capture m) of
        Inr q \<Rightarrow> q
      | Inl _ \<Rightarrow> observed_record\<lparr>overflow := (overflow observed_record)\<lparr>
          omitted_spans := (omitted_spans (overflow observed_record))(ProcessingLoss := mm_count m),
          outstanding_omitted_spans :=
            (outstanding_omitted_spans (overflow observed_record))(ProcessingLoss := mm_count m),
          counter_saturated := mm_saturated m\<rparr>\<rparr>)"

section \<open>Every mismatch is kept\<close>

definition mismatched :: "chunk \<Rightarrow> bool" where
  "mismatched c \<longleftrightarrow> mismatch_of c \<noteq> None"

text \<open>A retained interval of the table holds the missing frames of a chunk.\<close>

definition holds :: "mismatch_interval list \<Rightarrow> chunk \<Rightarrow> bool" where
  "holds ivs c \<longleftrightarrow>
     (case mismatch_of c of
        None \<Rightarrow> True
      | Some (missing_start, tr) \<Rightarrow>
          (\<exists>iv \<in> set ivs. mm_epoch iv = chunk_epoch c \<and> mm_track iv = tr
             \<and> mm_start iv \<le> chunk_start c + missing_start
             \<and> chunk_start c + max (mic_len c) (tap_len c) \<le> mm_end iv))"

definition sound_interval :: "mismatch_interval \<Rightarrow> bool" where
  "sound_interval iv \<longleftrightarrow> mm_start iv < mm_end iv \<and> retained_start_frame (mm_epoch iv) \<le> mm_start iv
     \<and> 0 < retained_rate_hz (mm_epoch iv) \<and> 0 < source_rate_hz (mm_epoch iv)"

text \<open>What is known after a list of chunks.\<close>

definition observed_all :: "chunk list \<Rightarrow> mismatches \<Rightarrow> bool" where
  "observed_all cs m \<longleftrightarrow>
     list_all sound_interval (mm_intervals m) \<and> length (mm_intervals m) \<le> MAX_LIVE_MISMATCH_INTERVALS
     \<and> (mm_omitted m = 0 \<longrightarrow> list_all (holds (mm_intervals m)) cs)
     \<and> (mm_omitted m \<noteq> 0 \<or> mm_intervals m \<noteq> [] \<longleftrightarrow> list_ex mismatched cs)
     \<and> (mm_count m \<noteq> 0 \<longleftrightarrow> list_ex mismatched cs)"

lemma remember_epoch_keeps [simp]:
  "mm_intervals (remember_epoch m e) = mm_intervals m"
  "mm_omitted (remember_epoch m e) = mm_omitted m"
  "mm_count (remember_epoch m e) = mm_count m"
  by (simp_all add: remember_epoch_def Let_def split: option.splits)

lemma omit_interval_omits [simp]: "mm_omitted (omit_interval m) \<noteq> 0"
  "mm_intervals (omit_interval m) = mm_intervals m" "mm_count (omit_interval m) = mm_count m"
  by (simp_all add: omit_interval_def saturating_add_def)

lemma interval_of_Some:
  assumes "interval_of c k tr = Some iv"
  shows "sound_interval iv" and "mm_epoch iv = chunk_epoch c" and "mm_track iv = tr"
    and "mm_start iv = chunk_start c + k" and "mm_end iv = chunk_start c + max (mic_len c) (tap_len c)"
  using assms by (auto simp: interval_of_def sound_interval_def Let_def)

lemma keep_interval_cases:
  obtains (omit) "keep_interval m found = omit_interval m"
  | (extend) ivs p iv where "found = Some iv" "mm_intervals m = ivs @ [p]" "extends_interval p iv"
      "keep_interval m found = m\<lparr>mm_intervals := ivs @ [p\<lparr>mm_end := mm_end iv\<rparr>]\<rparr>"
  | (push) iv where "found = Some iv" "length (mm_intervals m) < MAX_LIVE_MISMATCH_INTERVALS"
      "keep_interval m found = m\<lparr>mm_intervals := mm_intervals m @ [iv]\<rparr>"
proof (cases found)
  case None
  then show ?thesis using omit by (simp add: keep_interval_def)
next
  case (Some iv)
  show ?thesis
  proof (cases "mm_intervals m \<noteq> [] \<and> extends_interval (last (mm_intervals m)) iv")
    case True
    then show ?thesis
      using Some extend [of iv "butlast (mm_intervals m)" "last (mm_intervals m)"]
      by (simp add: keep_interval_def)
  next
    case False
    then have k: "keep_interval m found = (if length (mm_intervals m) < MAX_LIVE_MISMATCH_INTERVALS
        then m\<lparr>mm_intervals := mm_intervals m @ [iv]\<rparr> else omit_interval m)"
      unfolding keep_interval_def Some option.case by (rule if_not_P)
    show ?thesis
    proof (cases "length (mm_intervals m) < MAX_LIVE_MISMATCH_INTERVALS")
      case True
      then show ?thesis using push [OF Some True] k by simp
    next
      case False
      then show ?thesis using omit k by simp
    qed
  qed
qed

text \<open>An interval of the same epoch and track that reaches at least as far on both sides.\<close>

definition contains :: "mismatch_interval \<Rightarrow> mismatch_interval \<Rightarrow> bool" where
  "contains jv iv \<longleftrightarrow> mm_epoch jv = mm_epoch iv \<and> mm_track jv = mm_track iv
     \<and> mm_start jv \<le> mm_start iv \<and> mm_end iv \<le> mm_end jv"

lemma keep_interval_facts:
  assumes "list_all sound_interval (mm_intervals m)" and "\<And>iv. found = Some iv \<Longrightarrow> sound_interval iv"
    and "length (mm_intervals m) \<le> MAX_LIVE_MISMATCH_INTERVALS"
  shows "list_all sound_interval (mm_intervals (keep_interval m found))"
    and "length (mm_intervals (keep_interval m found)) \<le> MAX_LIVE_MISMATCH_INTERVALS"
    and "mm_omitted (keep_interval m found) = 0 \<Longrightarrow> mm_omitted m = 0"
    and "mm_omitted (keep_interval m found) = 0 \<Longrightarrow>
      \<exists>iv. found = Some iv \<and> (\<exists>jv \<in> set (mm_intervals (keep_interval m found)). contains jv iv)"
    and "iv \<in> set (mm_intervals m) \<Longrightarrow> \<exists>jv \<in> set (mm_intervals (keep_interval m found)). contains jv iv"
    and "mm_count (keep_interval m found) = mm_count m"
    and "mm_omitted (keep_interval m found) \<noteq> 0 \<or> mm_intervals (keep_interval m found) \<noteq> []"
proof -
  have ext: "contains (p\<lparr>mm_end := mm_end iv\<rparr>) iv" "contains (p\<lparr>mm_end := mm_end iv\<rparr>) p"
      "sound_interval (p\<lparr>mm_end := mm_end iv\<rparr>)"
    if "extends_interval p iv" "found = Some iv" "mm_intervals m = ivs @ [p]" for p iv ivs
    using that assms(1) assms(2) [of iv] by (auto simp: contains_def extends_interval_def sound_interval_def)
  have refl: "contains iv iv" for iv by (simp add: contains_def)
  show "list_all sound_interval (mm_intervals (keep_interval m found))"
    by (cases rule: keep_interval_cases [of m found]) (use assms ext(3) in auto)
  show "length (mm_intervals (keep_interval m found)) \<le> MAX_LIVE_MISMATCH_INTERVALS"
    by (cases rule: keep_interval_cases [of m found]) (use assms in auto)
  show "mm_omitted m = 0" if "mm_omitted (keep_interval m found) = 0"
    by (cases rule: keep_interval_cases [of m found]) (use that in auto)
  show "\<exists>iv. found = Some iv \<and> (\<exists>jv \<in> set (mm_intervals (keep_interval m found)). contains jv iv)"
    if "mm_omitted (keep_interval m found) = 0"
    by (cases rule: keep_interval_cases [of m found]) (use that ext(1) refl in auto)
  show "\<exists>jv \<in> set (mm_intervals (keep_interval m found)). contains jv iv" if "iv \<in> set (mm_intervals m)"
  proof (cases rule: keep_interval_cases [of m found])
    case (extend ivs p jv)
    then show ?thesis using that ext(2) [OF extend(3,1,2)] refl [of iv] by auto
  qed (use that refl [of iv] in auto)
  show "mm_count (keep_interval m found) = mm_count m"
    by (cases rule: keep_interval_cases [of m found]) auto
  show "mm_omitted (keep_interval m found) \<noteq> 0 \<or> mm_intervals (keep_interval m found) \<noteq> []"
    by (cases rule: keep_interval_cases [of m found]) auto
qed

lemma holds_contains:
  assumes "holds ivs c" and "\<And>iv. iv \<in> set ivs \<Longrightarrow> \<exists>jv \<in> set jvs. contains jv iv"
  shows "holds jvs c"
proof (cases "mismatch_of c")
  case None
  then show ?thesis by (simp add: holds_def)
next
  case (Some kt)
  obtain k tr where kt: "kt = (k, tr)" by fastforce
  obtain iv where iv: "iv \<in> set ivs" "mm_epoch iv = chunk_epoch c" "mm_track iv = tr"
      "mm_start iv \<le> chunk_start c + k" "chunk_start c + max (mic_len c) (tap_len c) \<le> mm_end iv"
    using assms(1) Some kt by (auto simp: holds_def)
  obtain jv where jv: "jv \<in> set jvs" "contains jv iv" using assms(2) [OF iv(1)] by blast
  have "mm_epoch jv = chunk_epoch c \<and> mm_track jv = tr \<and> mm_start jv \<le> chunk_start c + k
      \<and> chunk_start c + max (mic_len c) (tap_len c) \<le> mm_end jv"
    using iv jv(2) unfolding contains_def by (metis le_trans)
  then show ?thesis using jv(1) unfolding holds_def Some kt by auto
qed

lemma observe_chunk_all:
  assumes "observed_all cs m"
  shows "observed_all (cs @ [c]) (snd (observe_chunk m c))"
proof (cases "mismatch_of c")
  case None
  then have "holds ivs c" "\<not> mismatched c" for ivs by (simp_all add: holds_def mismatched_def)
  then show ?thesis using assms None by (auto simp: observe_chunk_def observed_all_def Let_def)
next
  case (Some kt)
  obtain k tr where kt: "kt = (k, tr)" by fastforce
  define m1 where "m1 = (let m = remember_epoch m (chunk_epoch c)
    in m\<lparr>mm_saturated := mm_saturated m \<or> mm_count m = u64_max, mm_count := saturating_add 64 (mm_count m) 1\<rparr>)"
  have m1: "mm_intervals m1 = mm_intervals m" "mm_omitted m1 = mm_omitted m" "mm_count m1 \<noteq> 0"
    by (simp_all add: m1_def Let_def saturating_add_def)
  let ?found = "interval_of c k tr"
  have step: "snd (observe_chunk m c) = keep_interval m1 ?found"
    using Some kt by (simp add: observe_chunk_def m1_def Let_def)
  have "list_all sound_interval (mm_intervals m1)" "length (mm_intervals m1) \<le> MAX_LIVE_MISMATCH_INTERVALS"
    using assms by (simp_all add: observed_all_def m1)
  note f = keep_interval_facts [OF this(1) _ this(2), of ?found]
  let ?m = "keep_interval m1 ?found"
  note sound = interval_of_Some(1) [of c k tr]
  have old: "holds (mm_intervals ?m) d" if "holds (mm_intervals m) d" for d
    by (rule holds_contains [OF that]) (use f(5) sound m1 in simp)
  have new: "holds (mm_intervals ?m) c" if z: "mm_omitted ?m = 0"
  proof -
    obtain iv jv where iv: "?found = Some iv" and jv: "jv \<in> set (mm_intervals ?m)" "contains jv iv"
      using f(4) [OF _ z] sound by blast
    have "mm_epoch jv = chunk_epoch c \<and> mm_track jv = tr \<and> mm_start jv \<le> chunk_start c + k
        \<and> chunk_start c + max (mic_len c) (tap_len c) \<le> mm_end jv"
      using interval_of_Some [OF iv] jv(2) unfolding contains_def by simp
    then show ?thesis using jv(1) unfolding holds_def Some kt by auto
  qed
  have "mismatched c" using Some by (simp add: mismatched_def)
  moreover have "mm_omitted ?m = 0 \<Longrightarrow> mm_omitted m = 0" using f(3) sound m1 by simp
  ultimately show ?thesis
    using assms f(1,2,6,7) sound new old m1 unfolding step observed_all_def list_all_iff by simp
qed

lemma observe_run_all:
  "observed_all ds m \<Longrightarrow> observed_all (ds @ cs) (run_from (\<lambda>m c. snd (observe_chunk m c)) m cs)"
proof (induction cs arbitrary: ds m)
  case (Cons c cs)
  then show ?case using Cons.IH [of "ds @ [c]"] observe_chunk_all [of ds m c] by simp
qed simp

section \<open>Settling records every mismatch\<close>

lemma omit_losses_adds:
  assumes "well_formed q"
  obtains q' where "omit_losses q n = Inr q'" "adds ProcessingLoss q q'"
    "has_outstanding q' ProcessingLoss \<longleftrightarrow> has_outstanding q ProcessingLoss \<or> 0 < n"
    "no_omission ProcessingLoss q q' \<Longrightarrow> n = 0"
proof
  let ?q = "q\<lparr>overflow := omit_span_own (overflow q) ProcessingLoss Outstanding n\<rparr>"
  obtain u where "validate q = Inr u" using assms by (auto simp: well_formed_def is_ok_iff)
  then show "omit_losses q n = Inr ?q"
    by (simp add: omit_losses_def record_omitted_spans_def validate_resolution_def)
  show "n = 0" if "no_omission ProcessingLoss q ?q"
    using that by (auto simp: omit_outstanding min_def simp del: omit_span_own_sel split: if_splits)
qed (rule omit_adds [OF assms])+

lemma saturated_adds:
  fixes q b
  defines "q' \<equiv> q\<lparr>overflow := (overflow q)\<lparr>counter_saturated := b\<rparr>\<rparr>"
  assumes "well_formed q"
  shows "adds c q q'" and "has_outstanding q' d = has_outstanding q d"
proof -
  have "well_formed q'"
    using assms(2) by (simp add: q'_def well_formed_def valid_iff record_fits_def overflow_fits_def
        overflow_consistent_def activity_counted_def)
  then show "adds c q q'" "has_outstanding q' d = has_outstanding q d"
    by (simp_all add: q'_def adds_def has_outstanding_kinds)
qed

definition mismatch_span :: "capture_epoch \<Rightarrow> quality_track \<Rightarrow> quality_span" where
  "mismatch_span e tr = \<lparr>epoch = epoch_id e, start_frame = 0, end_frame = 0, track = tr,
     cause = MicTapMismatch, loss_class = ProcessingLoss, stage = StageLive, resolution = Outstanding\<rparr>"

text \<open>The source frames of the retained frames in an interval are covered.\<close>

definition interval_covered :: "quality_span list \<Rightarrow> mismatch_interval \<Rightarrow> bool" where
  "interval_covered ss iv \<longleftrightarrow>
     (\<forall>f. mm_start iv \<le> f \<longrightarrow> f < mm_end iv \<longrightarrow>
        source_frame (mm_epoch iv) f \<in> covered ss (mismatch_span (mm_epoch iv) (mm_track iv)))"

lemma source_span_facts:
  assumes "source_span iv snap = Some s" and "sound_interval iv" and "mm_start iv \<le> f" and "f < mm_end iv"
  shows "source_frame (mm_epoch iv) f \<in> frames_of s"
proof -
  obtain a b where "source_of (mm_epoch iv) False (mm_start iv) = Some a"
      "source_of (mm_epoch iv) True (mm_end iv) = Some b" "start_frame s = a" "end_frame s = b"
    using assms(1) by (auto simp: source_span_def Let_def bind_eq_Some_conv split: if_splits)
  then show ?thesis
    using source_of_brackets [of "mm_epoch iv" "mm_start iv" a "mm_end iv" b f] assms(2-4)
    by (simp add: frames_of_def sound_interval_def)
qed

lemma source_span_kind:
  assumes "source_span iv snap = Some s"
  shows "loss_class s = ProcessingLoss" "resolution s = Outstanding" "cause s \<noteq> FarReferenceSilent"
    "covered ss s = covered ss (mismatch_span (mm_epoch iv) (mm_track iv))"
  using assms
  by (auto simp: source_span_def mismatch_span_def covered_def same_kind_def Let_def bind_eq_Some_conv
      split: if_splits)

lemma settle_interval_adds:
  assumes "well_formed q" and "sound_interval iv"
  obtains q' where "(case source_span iv snap of
         None \<Rightarrow> omit_losses q 1
       | Some s \<Rightarrow>
           (case insert_span q s of (Inl _, q') \<Rightarrow> omit_losses q' 1 | (Inr _, q') \<Rightarrow> Inr q')) = Inr q'"
    "adds ProcessingLoss q q'" "has_outstanding q' ProcessingLoss"
    "no_omission ProcessingLoss q q' \<Longrightarrow> interval_covered (spans q') iv"
proof -
  obtain q1 where o: "omit_losses q 1 = Inr q1" "adds ProcessingLoss q q1"
      "has_outstanding q1 ProcessingLoss" "\<not> no_omission ProcessingLoss q q1"
    using omit_losses_adds [OF assms(1), of 1] by (metis zero_less_one less_not_refl)
  show ?thesis
  proof (cases "source_span iv snap")
    case None
    show ?thesis by (rule that [OF _ o(2,3)]) (use None o in auto)
  next
    case (Some s)
    note k = source_span_kind [OF Some]
    obtain res q2 where i: "insert_span q s = (res, q2)" by fastforce
    show ?thesis
    proof (cases res)
      case (Inl err)
      then have "q2 = q" using i insert_span_error by simp
      then show ?thesis by (intro that [OF _ o(2,3)]) (use Some Inl i o in auto)
    next
      case (Inr flag)
      note f = insert_span_adds [OF assms(1) i [unfolded Inr] k(2,3), unfolded k(1)]
      have "interval_covered (spans q2) iv" if "no_omission ProcessingLoss q q2"
        using f(3) that source_span_facts [OF Some assms(2)] unfolding interval_covered_def k(4) by blast
      then show ?thesis by (intro that [OF _ f(1,2)]) (use Some Inr i in auto)
    qed
  qed
qed

lemma interval_covered_adds: "interval_covered (spans q) iv \<Longrightarrow> adds c q q' \<Longrightarrow> interval_covered (spans q') iv"
  unfolding interval_covered_def adds_def by blast

lemma settle_intervals_adds:
  assumes "well_formed q" and "list_all sound_interval ivs"
  shows "\<exists>q'. settle_intervals snap ivs q = Inr q' \<and> adds ProcessingLoss q q'
    \<and> (has_outstanding q' ProcessingLoss \<longleftrightarrow> has_outstanding q ProcessingLoss \<or> ivs \<noteq> [])
    \<and> (no_omission ProcessingLoss q q' \<longrightarrow> list_all (interval_covered (spans q')) ivs)"
  using assms
proof (induction ivs arbitrary: q)
  case Nil
  then show ?case by (simp add: adds_refl)
next
  case (Cons iv ivs)
  obtain q1 where s: "(case source_span iv snap of
         None \<Rightarrow> omit_losses q 1
       | Some s \<Rightarrow>
           (case insert_span q s of (Inl _, q') \<Rightarrow> omit_losses q' 1 | (Inr _, q') \<Rightarrow> Inr q')) = Inr q1"
      and a: "adds ProcessingLoss q q1" "has_outstanding q1 ProcessingLoss"
      and c: "no_omission ProcessingLoss q q1 \<Longrightarrow> interval_covered (spans q1) iv"
    using settle_interval_adds [OF Cons.prems(1), of iv snap] Cons.prems(2) by auto
  have "well_formed q1" using a(1) by (simp add: adds_def)
  then obtain q' where r: "settle_intervals snap ivs q1 = Inr q'" "adds ProcessingLoss q1 q'"
      "no_omission ProcessingLoss q1 q' \<longrightarrow> list_all (interval_covered (spans q')) ivs"
    using Cons.IH [of q1] Cons.prems(2) by auto
  have "settle_intervals snap (iv # ivs) q = Inr q'" by (simp only: settle_intervals.simps s rbind_simps r(1))
  moreover have "has_outstanding q' ProcessingLoss" using a(2) r(2) by (simp add: adds_def)
  moreover have "list_all (interval_covered (spans q')) (iv # ivs)" if "no_omission ProcessingLoss q q'"
  proof -
    have "no_omission ProcessingLoss q q1 \<and> no_omission ProcessingLoss q1 q'"
      by (rule adds_no_omission [OF a(1) r(2) that])
    then show ?thesis using c r(3) interval_covered_adds [OF _ r(2)] by simp
  qed
  moreover have "adds ProcessingLoss q q'" by (rule adds_trans [OF a(1) r(2)])
  ultimately show ?case by blast
qed

lemma settle_adds:
  assumes "well_formed r" and "list_all sound_interval (mm_intervals m)"
  shows "\<exists>q. settle_mismatches m r = Inr q \<and> adds ProcessingLoss r q
    \<and> (has_outstanding q ProcessingLoss \<longleftrightarrow>
         has_outstanding r ProcessingLoss \<or> mm_omitted m \<noteq> 0 \<or> mm_intervals m \<noteq> [])
    \<and> (no_omission ProcessingLoss r q \<longrightarrow>
         mm_omitted m = 0 \<and> list_all (interval_covered (spans q)) (mm_intervals m))"
proof -
  obtain q1 where o: "omit_losses r (mm_omitted m) = Inr q1" "adds ProcessingLoss r q1"
      "has_outstanding q1 ProcessingLoss \<longleftrightarrow> has_outstanding r ProcessingLoss \<or> 0 < mm_omitted m"
      "no_omission ProcessingLoss r q1 \<Longrightarrow> mm_omitted m = 0"
    using omit_losses_adds [OF assms(1), of "mm_omitted m"] by metis
  have "well_formed q1" using o(2) by (simp add: adds_def)
  note sat = saturated_adds [OF this, where b = "counter_saturated (overflow q1) \<or> mm_saturated m"]
  let ?q = "q1\<lparr>overflow := (overflow q1)\<lparr>counter_saturated := counter_saturated (overflow q1) \<or> mm_saturated m\<rparr>\<rparr>"
  have "well_formed ?q" using sat(1) by (simp add: adds_def)
  from settle_intervals_adds [OF this assms(2), of r] obtain q
    where s: "settle_intervals r (mm_intervals m) ?q = Inr q" "adds ProcessingLoss ?q q"
      "has_outstanding q ProcessingLoss \<longleftrightarrow> has_outstanding ?q ProcessingLoss \<or> mm_intervals m \<noteq> []"
      "no_omission ProcessingLoss ?q q \<longrightarrow> list_all (interval_covered (spans q)) (mm_intervals m)"
    by blast
  have kept: "mm_omitted m = 0 \<and> list_all (interval_covered (spans q)) (mm_intervals m)"
    if "no_omission ProcessingLoss r q"
  proof -
    have "no_omission ProcessingLoss r q1 \<and> no_omission ProcessingLoss ?q q"
      using adds_no_omission [OF adds_trans [OF o(2) sat(1)] s(2) that] adds_no_omission [OF o(2) sat(1)] by blast
    then show ?thesis using o(4) s(4) by blast
  qed
  have "settle_mismatches m r = Inr q" using o(1) s(1) by (simp add: settle_mismatches_def)
  moreover have "adds ProcessingLoss r q" by (rule adds_trans [OF adds_trans [OF o(2) sat(1)] s(2)])
  moreover have "has_outstanding q ProcessingLoss \<longleftrightarrow>
      has_outstanding r ProcessingLoss \<or> mm_omitted m \<noteq> 0 \<or> mm_intervals m \<noteq> []"
    using s(3) o(3) sat(2) by auto
  ultimately show ?thesis using kept by blast
qed

section \<open>Properties\<close>

lemma bound_capture_facts:
  "well_formed (bound_capture m) \<and> \<not> has_outstanding (bound_capture m) ProcessingLoss"
proof -
  let ?f = "\<lambda>r (e, consistent). if consistent then snd (insert_epoch r e) else r"
  have "well_formed (foldl ?f r es) \<and> \<not> has_outstanding (foldl ?f r es) ProcessingLoss"
    if "well_formed r" "\<not> has_outstanding r ProcessingLoss" for r es
    using that
  proof (induction es arbitrary: r)
    case (Cons p es)
    obtain e consistent where p: "p = (e, consistent)" by fastforce
    have "has_outstanding (snd (insert_epoch r e)) c = has_outstanding r c" for c
      by (auto simp: insert_epoch_def Let_def has_outstanding_def record_omitted_epochs_def
          split: sum.splits option.splits prod.splits if_splits)
    then show ?case using Cons.IH [of "?f r p"] Cons.prems wf_insert_epoch [of r e] p by simp
  qed simp
  moreover have "\<not> has_outstanding (record_omitted_epochs observed_record n) ProcessingLoss" for n
    by (simp add: has_outstanding_def record_omitted_epochs_def observed_record_def default_record_def
        default_overflow_def split: prod.splits)
  ultimately show ?thesis
    unfolding bound_capture_def
    using wf_record_omitted_epochs [OF well_formed_observed, of "mm_omitted_epochs m"] by blast
qed

text \<open>The missing frames of a chunk, each mapped to its source frame, are covered by mismatch spans.\<close>

definition chunk_covered :: "quality_span list \<Rightarrow> chunk \<Rightarrow> bool" where
  "chunk_covered ss c =
     (case mismatch_of c of
        None \<Rightarrow> True
      | Some (missing_start, tr) \<Rightarrow>
          list_all (\<lambda>f. source_frame (chunk_epoch c) f \<in> covered ss (mismatch_span (chunk_epoch c) tr))
            [chunk_start c + missing_start ..< chunk_start c + max (mic_len c) (tap_len c)])"

lemma holds_covered:
  assumes "holds ivs c" and "list_all (interval_covered ss) ivs"
  shows "chunk_covered ss c"
proof (cases "mismatch_of c")
  case None
  then show ?thesis by (simp add: chunk_covered_def)
next
  case (Some kt)
  obtain k tr where kt: "kt = (k, tr)" by fastforce
  obtain iv where iv: "iv \<in> set ivs" "mm_epoch iv = chunk_epoch c" "mm_track iv = tr"
      "mm_start iv \<le> chunk_start c + k" "chunk_start c + max (mic_len c) (tap_len c) \<le> mm_end iv"
    using assms(1) Some kt by (auto simp: holds_def)
  have "interval_covered ss iv" using assms(2) iv(1) by (simp add: list_all_iff)
  then have "source_frame (chunk_epoch c) f \<in> covered ss (mismatch_span (chunk_epoch c) tr)"
    if "chunk_start c + k \<le> f" "f < chunk_start c + max (mic_len c) (tap_len c)" for f
    unfolding interval_covered_def iv(2,3) using that iv(4,5) by auto
  then show ?thesis unfolding chunk_covered_def Some kt by (simp add: list_all_iff)
qed

text \<open>C25. No alignment loss of the live tee is forgotten. Whatever chunks were observed, settling them
  into any well-formed capture record succeeds, keeps it well-formed with its epochs and its
  source-loss verdict, and makes batch recovery required exactly if it already was or some chunk was
  mismatched; unless an omission was counted, the source frames of all missing retained frames are
  covered by mismatch spans of the right epoch and track. Without a capture record, the provisional
  quality is well-formed and requires recovery exactly if some chunk was mismatched.\<close>

theorem mismatch_reaches_record:
  assumes "well_formed r"
  shows "let m = run_from (\<lambda>m c. snd (observe_chunk m c)) no_mismatches chunks
    in (case settle_mismatches m r of
          Inl _ \<Rightarrow> False
        | Inr q \<Rightarrow> well_formed q \<and> epochs q = epochs r
            \<and> has_outstanding q SourceLoss = has_outstanding r SourceLoss
            \<and> requires_batch_recovery q = (requires_batch_recovery r \<or> list_ex mismatched chunks)
            \<and> (if no_omission ProcessingLoss r q then list_all (chunk_covered (spans q)) chunks else True))
       \<and> well_formed (provisional_quality m)
       \<and> requires_batch_recovery (provisional_quality m) = list_ex mismatched chunks"
proof -
  define m where "m = run_from (\<lambda>m c. snd (observe_chunk m c)) no_mismatches chunks"
  have "observed_all [] no_mismatches" by (simp add: observed_all_def no_mismatches_def)
  from observe_run_all [OF this, of chunks] have m: "observed_all chunks m" by (simp add: m_def)
  then have snd: "list_all sound_interval (mm_intervals m)" by (simp add: observed_all_def)
  obtain q where q: "settle_mismatches m r = Inr q" "adds ProcessingLoss r q"
      "has_outstanding q ProcessingLoss \<longleftrightarrow>
         has_outstanding r ProcessingLoss \<or> mm_omitted m \<noteq> 0 \<or> mm_intervals m \<noteq> []"
      "no_omission ProcessingLoss r q \<longrightarrow>
         mm_omitted m = 0 \<and> list_all (interval_covered (spans q)) (mm_intervals m)"
    using settle_adds [OF assms snd] by blast
  have cov: "list_all (chunk_covered (spans q)) chunks" if "no_omission ProcessingLoss r q"
    using q(4) that m holds_covered unfolding observed_all_def list_all_iff by blast
  obtain p where p: "settle_mismatches m (bound_capture m) = Inr p" "adds ProcessingLoss (bound_capture m) p"
      "has_outstanding p ProcessingLoss \<longleftrightarrow>
         has_outstanding (bound_capture m) ProcessingLoss \<or> mm_omitted m \<noteq> 0 \<or> mm_intervals m \<noteq> []"
    using settle_adds [OF _ snd, of "bound_capture m"] bound_capture_facts [of m] by blast
  show ?thesis
    unfolding m_def [symmetric] Let_def
    using q(1-3) cov p m bound_capture_facts [of m]
    by (simp add: adds_def observed_all_def requires_batch_recovery_def provisional_quality_def)
qed

theorem mismatch_reaches_record_witness:
  "requires_batch_recovery (provisional_quality (run_from (\<lambda>m c. snd (observe_chunk m c)) no_mismatches
     [\<lparr>chunk_epoch = \<lparr>epoch_id = 0, source_start_ns = None, source_rate_hz = 48000, source_frame_base = 0,
        retained_start_frame = 0, retained_rate_hz = 48000, mic_channels = 1, tap_channels = 1,
        reason = EpochStarted\<rparr>, chunk_start = 0, mic_len = 4, tap_len = 7, chunk_rate = 48000\<rparr>]))"
  using mismatch_reaches_record [OF well_formed_observed, of "[\<lparr>chunk_epoch = \<lparr>epoch_id = 0,
      source_start_ns = None, source_rate_hz = 48000, source_frame_base = 0,
        retained_start_frame = 0, retained_rate_hz = 48000, mic_channels = 1, tap_channels = 1,
        reason = EpochStarted\<rparr>, chunk_start = 0, mic_len = 4, tap_len = 7, chunk_rate = 48000\<rparr>]"]
  by (simp add: Let_def mismatched_def mismatch_of_def)

end
