(* ===== verification/CaptureTimeline.thy ===== *)
theory CaptureTimeline
  imports QualityRecord
begin

text \<open>
  The callback accounting of \<open>crates/corti-core/src/capture_accounting.rs\<close>: a fixed-size timeline that
  turns audio callbacks into descriptors (epochs, losses, an overflow summary, admitted audio).

  The const generic \<open>PENDING\<close> is the field \<open>pending_capacity\<close>, which no operation changes; the
  array \<open>pending\<close> with its length is a list. Methods that can fail return the result together with
  the timeline they leave behind, which an error may have changed.
\<close>

section \<open>Formats, timestamps and epochs\<close>

definition HAL_DESCRIPTOR_CAPACITY :: nat where "HAL_DESCRIPTOR_CAPACITY = 4096"
definition PENDING_DESCRIPTOR_CAPACITY :: nat where "PENDING_DESCRIPTOR_CAPACITY = 64"
definition MAX_LOSS_FILL_SECONDS :: u64 where "MAX_LOSS_FILL_SECONDS = 10"

datatype accounting_error =
    InvalidFormat | InvalidCapacity | EmptyCallback | ArithmeticOverflow | EpochIdExhausted
  | AdmissionNotDrained | Stopped

record capture_format =
  generation :: u64
  format_rate_hz :: u32
  format_mic_channels :: u32
  format_tap_channels :: u32

definition channels :: "capture_format \<Rightarrow> accounting_error + u64" where
  "channels f =
     (if format_rate_hz f = 0 then Inl InvalidFormat
      else ok_or (opt_filter (\<lambda>c. c \<noteq> 0)
             (checked_add 32 (format_mic_channels f) (format_tap_channels f))) InvalidFormat)"

text \<open>
  The \<open>f64\<close> sample time matters only through whether it is a finite whole number, and which one.
\<close>

datatype sample_value = NotWhole | Whole int

record capture_timestamp =
  sample_time :: sample_value
  sample_time_valid :: bool
  source_offset_ns :: u64
  host_time_valid :: bool

definition sample_frame :: "capture_timestamp \<Rightarrow> int option" where
  "sample_frame t =
     (case sample_time t of
        Whole v \<Rightarrow> if sample_time_valid t \<and> \<bar>v\<bar> \<le> 9007199254740992 then Some v else None
      | NotWhole \<Rightarrow> None)"

definition host_offset :: "capture_timestamp \<Rightarrow> u64 option" where
  "host_offset t = (if host_time_valid t then Some (source_offset_ns t) else None)"

record callback_input =
  cb_frames :: u64
  cb_format :: capture_format
  cb_timestamp :: capture_timestamp

record epoch_start =
  start_id :: u32
  start_ns :: "u64 option"
  frame_base :: u64
  start_format :: capture_format
  start_reason :: capture_epoch_reason

definition with_retained_base ::
    "epoch_start \<Rightarrow> u64 \<Rightarrow> u32 \<Rightarrow> accounting_error + capture_epoch" where
  "with_retained_base e retained_start rate =
     rbind (channels (start_format e)) (\<lambda>_.
       if rate = 0 then Inl InvalidFormat
       else Inr \<lparr>epoch_id = start_id e, source_start_ns = start_ns e,
              source_rate_hz = format_rate_hz (start_format e), source_frame_base = frame_base e,
              retained_start_frame = retained_start, retained_rate_hz = rate,
              mic_channels = format_mic_channels (start_format e),
              tap_channels = format_tap_channels (start_format e), reason = start_reason e\<rparr>)"

definition time_at :: "epoch_start \<Rightarrow> u64 \<Rightarrow> accounting_error + u64 option" where
  "time_at e frame =
     rbind (ok_or (checked_sub frame (frame_base e)) ArithmeticOverflow) (\<lambda>delta.
       nanos_at (start_ns e) delta (format_rate_hz (start_format e)) ArithmeticOverflow)"

section \<open>Descriptors\<close>

record audio_block =
  audio_epoch :: u32
  audio_start :: u64
  audio_frames :: u64
  audio_samples :: u64
  audio_format :: capture_format

record accounting_overflow =
  acc_omitted_epochs :: u64
  acc_omitted_spans :: u64
  acc_saturated :: bool

definition no_overflow :: accounting_overflow where
  "no_overflow = \<lparr>acc_omitted_epochs = 0, acc_omitted_spans = 0, acc_saturated = False\<rparr>"

definition apply_to ::
    "accounting_overflow \<Rightarrow> quality_record \<Rightarrow> (quality_error + unit) \<times> quality_record" where
  "apply_to ov r =
     (case record_omitted_spans r SourceLoss Outstanding (acc_omitted_spans ov) of
        (Inl e, r1) \<Rightarrow> (Inl e, r1)
      | (Inr _, r1) \<Rightarrow>
          (let r2 = record_omitted_epochs r1 (acc_omitted_epochs ov)
           in (Inr (), r2\<lparr>overflow := (overflow r2)\<lparr>counter_saturated :=
                counter_saturated (overflow r2) \<or> acc_saturated ov\<rparr>\<rparr>)))"

datatype capture_descriptor =
    Epoch epoch_start
  | Loss quality_span
  | Overflow accounting_overflow
  | Audio audio_block

record dropped_counts =
  dropped_frames :: u64
  dropped_samples :: u64
  dropped_saturated :: bool

record loss_run =
  run_epoch :: u32
  run_frame :: u64
  run_source_ns :: "u64 option"

section \<open>The timeline\<close>

record capture_timeline =
  pending_capacity :: nat
  pending :: "capture_descriptor list"
  acc_overflow :: accounting_overflow
  current_epoch :: "epoch_start option"
  format_needs_binding :: bool
  next_frame :: u64
  expected_sample :: "int option"
  expected_host_ns :: "u64 option"
  expected_host_remainder :: u64
  minimum_source_ns :: "u64 option"
  loss_run_start :: "loss_run option"
  unknown_loss_run :: bool
  need_resync :: bool
  ready_epoch :: "epoch_start option"
  ready_audio :: "audio_block option"
  admission_open :: bool
  stopped :: bool
  dropped :: dropped_counts

definition new_timeline :: "nat \<Rightarrow> accounting_error + capture_timeline" where
  "new_timeline capacity =
     (if capacity < 2 \<or> HAL_DESCRIPTOR_CAPACITY - 3 < capacity then Inl InvalidCapacity
      else Inr \<lparr>pending_capacity = capacity, pending = [], acc_overflow = no_overflow,
        current_epoch = None, format_needs_binding = False, next_frame = 0, expected_sample = None,
        expected_host_ns = None, expected_host_remainder = 0, minimum_source_ns = None,
        loss_run_start = None, unknown_loss_run = False, need_resync = False, ready_epoch = None,
        ready_audio = None, admission_open = False, stopped = False,
        dropped = \<lparr>dropped_frames = 0, dropped_samples = 0, dropped_saturated = False\<rparr>\<rparr>)"

definition check_idle :: "capture_timeline \<Rightarrow> accounting_error + unit" where
  "check_idle t =
     (if admission_open t then Inl AdmissionNotDrained
      else if stopped t then Inl Stopped else Inr ())"

definition next_epoch ::
    "capture_timeline \<Rightarrow> capture_format \<Rightarrow> u64 option \<Rightarrow> capture_epoch_reason
       \<Rightarrow> accounting_error + epoch_start" where
  "next_epoch t f source_start why =
     rbind (transpose_result (map_option (\<lambda>c.
              ok_or (checked_add 32 (start_id c) 1) EpochIdExhausted) (current_epoch t))) (\<lambda>i.
       Inr \<lparr>start_id = (case i of None \<Rightarrow> 0 | Some n \<Rightarrow> n), start_ns = source_start,
         frame_base = next_frame t, start_format = f, start_reason = why\<rparr>)"

definition count_epoch :: "capture_timeline \<Rightarrow> capture_timeline" where
  "count_epoch t =
     (let ov = acc_overflow t
      in case sat_count (acc_omitted_epochs ov) 1 (acc_saturated ov) of (n, sat) \<Rightarrow>
           t\<lparr>acc_overflow := ov\<lparr>acc_omitted_epochs := n, acc_saturated := sat\<rparr>\<rparr>)"

definition omit_source_span :: "capture_timeline \<Rightarrow> capture_timeline" where
  "omit_source_span t =
     (let ov = acc_overflow t
      in case sat_count (acc_omitted_spans ov) 1 (acc_saturated ov) of (n, sat) \<Rightarrow>
           t\<lparr>acc_overflow := ov\<lparr>acc_omitted_spans := n, acc_saturated := sat\<rparr>\<rparr>)"

definition count_dropped :: "capture_timeline \<Rightarrow> u64 \<Rightarrow> u64 \<Rightarrow> capture_timeline" where
  "count_dropped t frames samples =
     (let d = dropped t
      in case sat_count (dropped_frames d) frames (dropped_saturated d) of (f, sat1) \<Rightarrow>
         case sat_count (dropped_samples d) samples sat1 of (s, sat2) \<Rightarrow>
           t\<lparr>dropped := \<lparr>dropped_frames = f, dropped_samples = s, dropped_saturated = sat2\<rparr>,
             acc_overflow := (acc_overflow t)\<lparr>acc_saturated := acc_saturated (acc_overflow t) \<or> sat2\<rparr>\<rparr>)"

definition account_unknown_loss :: "capture_timeline \<Rightarrow> u64 \<Rightarrow> u64 \<Rightarrow> capture_timeline" where
  "account_unknown_loss t frames samples =
     (count_dropped (count_epoch (omit_source_span (t\<lparr>unknown_loss_run := True\<rparr>))) frames samples)
       \<lparr>need_resync := True\<rparr>"

definition push_pending :: "capture_timeline \<Rightarrow> capture_descriptor \<Rightarrow> bool \<times> capture_timeline" where
  "push_pending t d =
     (if length (pending t) = pending_capacity t then (False, t)
      else (True, t\<lparr>pending := pending t @ [d]\<rparr>))"

definition queue_epoch :: "capture_timeline \<Rightarrow> epoch_start \<Rightarrow> capture_timeline" where
  "queue_epoch t e =
     (case push_pending t (Epoch e) of
        (True, t') \<Rightarrow> t'\<lparr>need_resync := False\<rparr>
      | (False, t') \<Rightarrow> (count_epoch t')\<lparr>need_resync := True\<rparr>)"

text \<open>\<open>time_at(..).ok().flatten()\<close>\<close>

definition known_time :: "epoch_start \<Rightarrow> u64 \<Rightarrow> u64 option" where
  "known_time e frame = (case time_at e frame of Inl _ \<Rightarrow> None | Inr x \<Rightarrow> x)"

definition loss_run_exceeds_cap :: "capture_timeline \<Rightarrow> quality_span \<Rightarrow> bool \<times> capture_timeline" where
  "loss_run_exceeds_cap t s =
     (if unknown_loss_run t then (True, t)
      else case current_epoch t of
        None \<Rightarrow> (True, t)
      | Some cur \<Rightarrow>
          (let run = (case loss_run_start t of
                        Some r \<Rightarrow> r
                      | None \<Rightarrow> \<lparr>run_epoch = epoch s, run_frame = start_frame s,
                                  run_source_ns = known_time cur (start_frame s)\<rparr>);
               t' = t\<lparr>loss_run_start := Some run\<rparr>
           in if run_epoch run = epoch s
              then (is_none_or (checked_sub (end_frame s) (run_frame run)) (\<lambda>frames.
                      format_rate_hz (start_format cur) * MAX_LOSS_FILL_SECONDS < frames), t')
              else (is_none_or
                      (case opt_zip (run_source_ns run) (known_time cur (end_frame s)) of
                         None \<Rightarrow> None
                       | Some (start, fin) \<Rightarrow> checked_sub fin start)
                      (\<lambda>duration. MAX_LOSS_FILL_SECONDS * 1000000000 < duration), t')))"

definition extends_loss :: "quality_span \<Rightarrow> quality_span \<Rightarrow> bool" where
  "extends_loss previous s \<longleftrightarrow>
     epoch previous = epoch s \<and> track previous = track s \<and> cause previous = cause s
     \<and> loss_class previous = loss_class s \<and> stage previous = stage s
     \<and> resolution previous = resolution s \<and> end_frame previous = start_frame s"

definition queue_loss :: "capture_timeline \<Rightarrow> quality_span \<Rightarrow> capture_timeline" where
  "queue_loss t s =
     (case loss_run_exceeds_cap t s of (exceeds, t1) \<Rightarrow>
       (let t2 = t1\<lparr>need_resync := need_resync t1 \<or> exceeds\<rparr>;
            append = (case push_pending t2 (Loss s) of
                        (True, t3) \<Rightarrow> t3
                      | (False, t3) \<Rightarrow> (omit_source_span t3)\<lparr>need_resync := True\<rparr>)
        in if pending t2 = [] then append
           else case last (pending t2) of
                  Loss previous \<Rightarrow>
                    if extends_loss previous s
                    then t2\<lparr>pending := butlast (pending t2)
                           @ [Loss (previous\<lparr>end_frame := end_frame s\<rparr>)]\<rparr>
                    else append
                | _ \<Rightarrow> append))"

section \<open>Preparing a callback\<close>

definition capture_loss :: "epoch_start \<Rightarrow> u64 \<Rightarrow> u64 \<Rightarrow> quality_cause \<Rightarrow> quality_span" where
  "capture_loss cur first final why =
     \<lparr>epoch = start_id cur, start_frame = first, end_frame = final, track = Both, cause = why,
      loss_class = SourceLoss, stage = StageCapture, resolution = Outstanding\<rparr>"

text \<open>The larger of two optional bounds; an absent one does not bind.\<close>

definition opt_max :: "nat option \<Rightarrow> nat option \<Rightarrow> nat option" where
  "opt_max a b =
     (case (a, b) of (Some x, Some y) \<Rightarrow> Some (max x y) | (x, y) \<Rightarrow> opt_or x y)"

definition not_before :: "nat option \<Rightarrow> nat \<Rightarrow> bool" where
  "not_before minimum offset = is_none_or minimum (\<lambda>m. m \<le> offset)"

definition change_reason :: "capture_format \<Rightarrow> capture_format \<Rightarrow> capture_epoch_reason" where
  "change_reason old new =
     (if format_rate_hz new \<noteq> format_rate_hz old then RateChanged
      else if new \<noteq> old then LayoutChanged else HostGap)"

text \<open>The first callback, and the first one after frames of an unknown format, open an epoch.\<close>

definition open_epoch ::
    "capture_timeline \<Rightarrow> capture_format \<Rightarrow> u64 option \<Rightarrow> capture_epoch_reason
       \<Rightarrow> (accounting_error + unit) \<times> capture_timeline" where
  "open_epoch t f offset why =
     (case next_epoch t f offset why of
        Inl e \<Rightarrow> (Inl e, t)
      | Inr ep \<Rightarrow> (Inr (), queue_epoch (t\<lparr>current_epoch := Some ep\<rparr>) ep))"

definition sample_delta :: "capture_timeline \<Rightarrow> callback_input \<Rightarrow> int option" where
  "sample_delta t inp =
     (case opt_zip (sample_frame (cb_timestamp inp)) (expected_sample t) of
        None \<Rightarrow> None
      | Some (now, expected) \<Rightarrow> if now \<noteq> expected then Some (now - expected) else None)"

definition host_delta ::
    "capture_timeline \<Rightarrow> epoch_start \<Rightarrow> callback_input \<Rightarrow> int option \<Rightarrow> int option" where
  "host_delta t cur inp jump =
     map_option (\<lambda>(expected, observed).
       (let known_gap_ns =
          (case opt_filter (\<lambda>j. 0 < j) jump of
             None \<Rightarrow> 0
           | Some gap \<Rightarrow> (gap * 1000000000 + int (expected_host_remainder t))
                          div int (format_rate_hz (start_format cur)))
        in int observed - (int expected + known_gap_ns)))
     (opt_zip (expected_host_ns t) (host_offset (cb_timestamp inp)))"

text \<open>A forward jump of the sample clock is an exact loss; a backward one only an unknown loss.\<close>

definition account_jump ::
    "capture_timeline \<Rightarrow> epoch_start \<Rightarrow> int option \<Rightarrow> (accounting_error + unit) \<times> capture_timeline"
where
  "account_jump t cur jump =
     (case jump of
        None \<Rightarrow> (Inr (), t)
      | Some j \<Rightarrow>
          if 0 < j
          then (case rbind (ok_or (try_from_int 64 j) ArithmeticOverflow) (\<lambda>missing.
                     rbind (ok_or (checked_add 64 (next_frame t) missing) ArithmeticOverflow) (\<lambda>fin.
                     rbind (time_at cur fin) (\<lambda>_. Inr fin))) of
                  Inl e \<Rightarrow> (Inl e, t)
                | Inr fin \<Rightarrow>
                    (Inr (), (queue_loss t (capture_loss cur (next_frame t) fin HostDiscontinuity))
                       \<lparr>next_frame := fin\<rparr>))
          else (Inr (), (omit_source_span t)\<lparr>need_resync := True\<rparr>))"

definition prepare_callback ::
    "capture_timeline \<Rightarrow> callback_input \<Rightarrow> (accounting_error + unit) \<times> capture_timeline" where
  "prepare_callback t inp =
     (case current_epoch t of
        None \<Rightarrow>
          (case open_epoch t (cb_format inp) (host_offset (cb_timestamp inp)) EpochStarted of
             (Inl e, t') \<Rightarrow> (Inl e, t')
           | (Inr _, t') \<Rightarrow> (Inr (), t'\<lparr>format_needs_binding := False\<rparr>))
      | Some cur \<Rightarrow>
          (let format_changed = (cb_format inp \<noteq> start_format cur);
               rate_changed = (format_rate_hz (cb_format inp) \<noteq> format_rate_hz (start_format cur));
               why = change_reason (start_format cur) (cb_format inp)
           in if format_needs_binding t
              then (case open_epoch t (cb_format inp)
                          (opt_filter (not_before (minimum_source_ns t))
                             (host_offset (cb_timestamp inp))) why of
                      (Inl e, t') \<Rightarrow> (Inl e, t')
                    | (Inr _, t') \<Rightarrow> (Inr (), t'\<lparr>format_needs_binding := False\<rparr>))
              else
                (let delta = sample_delta t inp;
                     unknown_clock_change = (rate_changed \<and> delta \<noteq> None);
                     jump = (if unknown_clock_change then None else delta);
                     host = host_delta t cur inp jump;
                     tolerance_ns = 1000000000 div format_rate_hz (start_format cur);
                     host_discontinuity = is_some_and host (\<lambda>d. tolerance_ns < nat \<bar>d\<bar>);
                     backwards = is_some_and jump (\<lambda>j. j < 0)
                 in if \<not> format_changed \<and> jump = None \<and> \<not> host_discontinuity then (Inr (), t)
                    else
                      (let t1 = (if unknown_clock_change then count_epoch t else t);
                           t2 = (if host_discontinuity
                                 then (if backwards then t1 else omit_source_span t1)
                                        \<lparr>unknown_loss_run := True\<rparr>
                                 else t1)
                       in case account_jump t2 cur jump of
                            (Inl e, t3) \<Rightarrow> (Inl e, t3)
                          | (Inr _, t3) \<Rightarrow>
                              (case time_at cur (next_frame t3) of
                                 Inl e \<Rightarrow> (Inl e, t3)
                               | Inr boundary \<Rightarrow>
                                   (let minimum = opt_max boundary (minimum_source_ns t3);
                                        predicted =
                                          (if unknown_clock_change \<or> host_discontinuity \<or> backwards
                                           then None else boundary);
                                        offset =
                                          (if host_discontinuity \<and> is_some_and host (\<lambda>d. d < 0)
                                           then None
                                           else opt_or (host_offset (cb_timestamp inp)) predicted)
                                    in open_epoch t3 (cb_format inp)
                                         (opt_filter (not_before minimum) offset) why))))))"

section \<open>Planning a callback\<close>

record admission =
  accepted :: bool
  pcm_samples :: u64
  descriptor_slots :: nat

definition give_up :: "capture_timeline \<Rightarrow> u64 \<Rightarrow> u64 \<Rightarrow> capture_timeline" where
  "give_up t frames samples = (account_unknown_loss t frames samples)\<lparr>stopped := True\<rparr>"

definition saturate_dropped :: "capture_timeline \<Rightarrow> capture_timeline" where
  "saturate_dropped t = t\<lparr>dropped := (dropped t)\<lparr>dropped_saturated := True\<rparr>\<rparr>"

definition same_source_rate :: "capture_timeline \<Rightarrow> callback_input \<Rightarrow> bool" where
  "same_source_rate t inp =
     is_some_and (current_epoch t)
       (\<lambda>c. format_rate_hz (start_format c) = format_rate_hz (cb_format inp))"

text \<open>The host boundary after this callback, with the remainder of the division.\<close>

definition next_host ::
    "capture_timeline \<Rightarrow> callback_input \<Rightarrow> accounting_error + (u64 \<times> u64) option" where
  "next_host t inp =
     (let observed = host_offset (cb_timestamp inp);
          carried = (observed = None \<and> same_source_rate t inp);
          gap = (if carried
                 then (case opt_zip (sample_frame (cb_timestamp inp)) (expected_sample t) of
                         None \<Rightarrow> 0
                       | Some (now, expected) \<Rightarrow>
                           (case try_from_int 64 (now - expected) of None \<Rightarrow> 0 | Some g \<Rightarrow> g))
                 else 0);
          remainder = (if carried then expected_host_remainder t else 0);
          rate = format_rate_hz (cb_format inp);
          numerator = (cb_frames inp + gap) * 1000000000 + remainder
      in transpose_result (map_option (\<lambda>offset.
           rbind (ok_or (try_from 64 (numerator div rate)) ArithmeticOverflow) (\<lambda>duration.
             map_sum id (\<lambda>next. (next, numerator mod rate))
               (ok_or (checked_add 64 offset duration) ArithmeticOverflow)))
           (opt_or observed (expected_host_ns t))))"

definition slots_needed :: "capture_timeline \<Rightarrow> nat" where
  "slots_needed t =
     length (pending t) + of_bool (acc_overflow t \<noteq> no_overflow) + of_bool (need_resync t) + 1"

text \<open>
  The decision on a prepared callback. Accepted, it opens a fresh epoch when one is owed and stages
  the audio block; rejected, it is queued as a loss. The result is the decision and the source end.
\<close>

definition resync ::
    "capture_timeline \<Rightarrow> callback_input \<Rightarrow> epoch_start \<Rightarrow> accounting_error + epoch_start" where
  "resync t inp cur =
     rbind (time_at cur (next_frame t)) (\<lambda>predicted.
       next_epoch t (cb_format inp)
         (opt_filter (not_before (opt_max predicted (minimum_source_ns t)))
            (opt_or (host_offset (cb_timestamp inp)) predicted))
         HostGap)"

definition stage_audio ::
    "capture_timeline \<Rightarrow> callback_input \<Rightarrow> u64 \<Rightarrow> epoch_start \<Rightarrow> capture_timeline" where
  "stage_audio t inp samples ep =
     t\<lparr>ready_audio := Some \<lparr>audio_epoch = start_id ep, audio_start = next_frame t,
          audio_frames = cb_frames inp, audio_samples = samples, audio_format = cb_format inp\<rparr>,
        admission_open := True, loss_run_start := None, unknown_loss_run := False\<rparr>"

definition reject ::
    "capture_timeline \<Rightarrow> callback_input \<Rightarrow> u64 \<Rightarrow> epoch_start \<Rightarrow> u64 \<Rightarrow> capture_timeline" where
  "reject t inp samples cur fin =
     count_dropped (queue_loss t (capture_loss cur (next_frame t) fin RingOverflow))
       (cb_frames inp) samples"

definition admit ::
    "capture_timeline \<Rightarrow> callback_input \<Rightarrow> u64 \<Rightarrow> epoch_start \<Rightarrow> u64 \<Rightarrow> u64 option
       \<Rightarrow> (accounting_error + u64 option) \<times> capture_timeline" where
  "admit t inp samples cur fin source_end =
     (if need_resync t
      then (case time_at cur (next_frame t) of
              Inl e \<Rightarrow> (Inl e, t)
            | Inr _ \<Rightarrow>
                (case rbind (resync t inp cur) (\<lambda>ep. map_sum id (Pair ep) (time_at ep fin)) of
                   Inl e \<Rightarrow> (Inl e, give_up t (cb_frames inp) samples)
                 | Inr (ep, new_end) \<Rightarrow>
                     (Inr new_end, stage_audio (t\<lparr>current_epoch := Some ep, ready_epoch := Some ep,
                        need_resync := False\<rparr>) inp samples ep)))
      else (Inr source_end, stage_audio t inp samples cur))"

definition advance ::
    "capture_timeline \<Rightarrow> callback_input \<Rightarrow> bool \<Rightarrow> u64 \<Rightarrow> u64 option \<Rightarrow> (u64 \<times> u64) option
       \<Rightarrow> capture_timeline" where
  "advance t inp same_rate fin source_end host =
     (let sample = opt_or (sample_frame (cb_timestamp inp))
            (if same_rate then expected_sample t else None)
      in t\<lparr>next_frame := fin,
           minimum_source_ns :=
             (case source_end of
                None \<Rightarrow> minimum_source_ns t
              | Some e \<Rightarrow> Some (case minimum_source_ns t of None \<Rightarrow> e | Some m \<Rightarrow> max m e)),
           expected_sample :=
             (case sample of
                None \<Rightarrow> None
              | Some v \<Rightarrow>
                  if cb_frames inp < 2 ^ 63 \<and> v + int (cb_frames inp) < 2 ^ 63
                  then Some (v + int (cb_frames inp)) else None),
           expected_host_ns := map_option fst host,
           expected_host_remainder := (case host of None \<Rightarrow> 0 | Some (_, r) \<Rightarrow> r)\<rparr>)"

text \<open>The callback once its sample count and host boundary are known.\<close>

definition plan_known ::
    "capture_timeline \<Rightarrow> callback_input \<Rightarrow> u64 \<Rightarrow> (u64 \<times> u64) option \<Rightarrow> nat \<Rightarrow> nat
       \<Rightarrow> (accounting_error + admission) \<times> capture_timeline" where
  "plan_known t0 inp samples host available_pcm available_descriptors =
     (case prepare_callback t0 inp of
        (Inl e, t) \<Rightarrow> (Inl e, give_up t (cb_frames inp) samples)
      | (Inr _, t) \<Rightarrow>
          (case checked_add 64 (next_frame t) (cb_frames inp) of
             None \<Rightarrow> (Inl ArithmeticOverflow, give_up t (cb_frames inp) samples)
           | Some fin \<Rightarrow>
               (case current_epoch t of
                  None \<Rightarrow> (Inl InvalidFormat, t)
                | Some cur \<Rightarrow>
                    (case time_at cur fin of
                       Inl e \<Rightarrow> (Inl e, give_up t (cb_frames inp) samples)
                     | Inr source_end \<Rightarrow>
                         (let slots = slots_needed t;
                              ok = (samples \<le> available_pcm
                                    \<and> slots \<le> min available_descriptors HAL_DESCRIPTOR_CAPACITY);
                              finish_with = (\<lambda>end t'.
                                (Inr \<lparr>accepted = ok, pcm_samples = samples,
                                   descriptor_slots = (if ok then slots else 0)\<rparr>,
                                 advance t' inp (same_source_rate t0 inp) fin end host))
                          in if ok
                             then (case admit t inp samples cur fin source_end of
                                     (Inl e, t') \<Rightarrow> (Inl e, t')
                                   | (Inr end, t') \<Rightarrow> finish_with end t')
                             else finish_with source_end (reject t inp samples cur fin))))))"

definition plan_callback ::
    "capture_timeline \<Rightarrow> callback_input \<Rightarrow> nat \<Rightarrow> nat
       \<Rightarrow> (accounting_error + admission) \<times> capture_timeline" where
  "plan_callback t inp available_pcm available_descriptors =
     (case check_idle t of
        Inl e \<Rightarrow> (Inl e, t)
      | Inr _ \<Rightarrow>
          if cb_frames inp = 0 then (Inl EmptyCallback, t)
          else
            (case channels (cb_format inp) of
               Inl e \<Rightarrow>
                 (case checked_mul 64 (cb_frames inp)
                         (format_mic_channels (cb_format inp) + format_tap_channels (cb_format inp)) of
                    Some samples \<Rightarrow> (Inl e, give_up t (cb_frames inp) samples)
                  | None \<Rightarrow> (Inl e, give_up (saturate_dropped t) (cb_frames inp) u64_max))
             | Inr chans \<Rightarrow>
                 (case checked_mul 64 (cb_frames inp) chans of
                    None \<Rightarrow>
                      (Inl ArithmeticOverflow, give_up (saturate_dropped t) (cb_frames inp) u64_max)
                  | Some samples \<Rightarrow>
                      (case next_host t inp of
                         Inl e \<Rightarrow> (Inl e, give_up t (cb_frames inp) samples)
                       | Inr host \<Rightarrow>
                           plan_known t inp samples host available_pcm available_descriptors))))"

definition record_unknown_format_loss ::
    "capture_timeline \<Rightarrow> u64 \<Rightarrow> u64 \<Rightarrow> (accounting_error + unit) \<times> capture_timeline" where
  "record_unknown_format_loss t frames samples =
     (case check_idle t of
        Inl e \<Rightarrow> (Inl e, t)
      | Inr _ \<Rightarrow>
          (let t' = (account_unknown_loss t frames samples)\<lparr>format_needs_binding := True,
                 expected_sample := None, expected_host_ns := None, expected_host_remainder := 0\<rparr>
           in case checked_add 64 (next_frame t') frames of
                None \<Rightarrow> (Inl ArithmeticOverflow, t'\<lparr>stopped := True\<rparr>)
              | Some n \<Rightarrow> (Inr (), t'\<lparr>next_frame := n\<rparr>)))"

section \<open>Draining descriptors\<close>

definition pop_pending :: "capture_timeline \<Rightarrow> capture_descriptor option \<times> capture_timeline" where
  "pop_pending t =
     (case pending t of [] \<Rightarrow> (None, t) | d # ds \<Rightarrow> (Some d, t\<lparr>pending := ds\<rparr>))"

definition pop_overflow :: "capture_timeline \<Rightarrow> capture_descriptor option \<times> capture_timeline" where
  "pop_overflow t =
     (if acc_overflow t = no_overflow then (None, t)
      else (Some (Overflow (acc_overflow t)), t\<lparr>acc_overflow := no_overflow\<rparr>))"

definition pop_queued :: "capture_timeline \<Rightarrow> capture_descriptor option \<times> capture_timeline" where
  "pop_queued t =
     (case pop_pending t of (Some d, t') \<Rightarrow> (Some d, t') | (None, t') \<Rightarrow> pop_overflow t')"

definition pop_ready :: "capture_timeline \<Rightarrow> capture_descriptor option \<times> capture_timeline" where
  "pop_ready t =
     (if \<not> admission_open t then (None, t)
      else case pop_queued t of
        (Some d, t') \<Rightarrow> (Some d, t')
      | (None, t') \<Rightarrow>
          (case ready_epoch t' of
             Some e \<Rightarrow> (Some (Epoch e), t'\<lparr>ready_epoch := None\<rparr>)
           | None \<Rightarrow>
               (map_option Audio (ready_audio t'), t'\<lparr>ready_audio := None, admission_open := False\<rparr>)))"

definition finish_timeline :: "capture_timeline \<Rightarrow> (accounting_error + unit) \<times> capture_timeline" where
  "finish_timeline t =
     (if admission_open t then (Inl AdmissionNotDrained, t) else (Inr (), t\<lparr>stopped := True\<rparr>))"

text \<open>\<open>next\<close> of the two iterators: over an admission, and over a finished timeline.\<close>

definition admission_next ::
    "bool \<Rightarrow> capture_timeline \<Rightarrow> capture_descriptor option \<times> capture_timeline" where
  "admission_next was_accepted t = (if was_accepted then pop_ready t else (None, t))"

definition terminal_next :: "capture_timeline \<Rightarrow> capture_descriptor option \<times> capture_timeline" where
  "terminal_next t = pop_queued t"

section \<open>Loss fill and frame mapping\<close>

record loss_fill_plan =
  fill_source_frames :: u64
  epoch_break :: bool

definition for_gap :: "u64 \<Rightarrow> u32 \<Rightarrow> accounting_error + loss_fill_plan" where
  "for_gap source_frames rate =
     (if rate = 0 then Inl InvalidFormat
      else let break = (rate * MAX_LOSS_FILL_SECONDS < source_frames)
           in Inr \<lparr>fill_source_frames = (if break then 0 else source_frames), epoch_break = break\<rparr>)"

record frame_mapper =
  mapper_source_rate :: u32
  mapper_retained_rate :: u32
  mapper_remainder :: u64
  mapped_source :: u64
  mapped_retained :: u64

definition new_mapper :: "u32 \<Rightarrow> u32 \<Rightarrow> accounting_error + frame_mapper" where
  "new_mapper source_rate retained_rate =
     (if source_rate = 0 \<or> retained_rate = 0 then Inl InvalidFormat
      else Inr \<lparr>mapper_source_rate = source_rate, mapper_retained_rate = retained_rate,
             mapper_remainder = 0, mapped_source = 0, mapped_retained = 0\<rparr>)"

definition push_frames :: "frame_mapper \<Rightarrow> u64 \<Rightarrow> (accounting_error + u64) \<times> frame_mapper" where
  "push_frames m frames =
     (let numerator = frames * mapper_retained_rate m + mapper_remainder m
      in case rbind (ok_or (try_from 64 (numerator div mapper_source_rate m)) ArithmeticOverflow)
             (\<lambda>mapped.
              rbind (ok_or (checked_add 64 (mapped_source m) frames) ArithmeticOverflow) (\<lambda>src.
              rbind (ok_or (checked_add 64 (mapped_retained m) mapped) ArithmeticOverflow) (\<lambda>ret.
                Inr (mapped, src, ret)))) of
           Inl e \<Rightarrow> (Inl e, m)
         | Inr (mapped, src, ret) \<Rightarrow>
             (Inr mapped, m\<lparr>mapped_source := src, mapped_retained := ret,
                mapper_remainder := numerator mod mapper_source_rate m\<rparr>))"

end
