(* ===== verification/CaptureFacts.thy ===== *)
theory CaptureFacts
  imports CaptureTimeline
begin

text \<open>
  Facts about the capture timeline's operations: what each leaves unchanged, and what the stream of
  descriptors it has promised looks like afterwards.
\<close>

section \<open>Counting operations\<close>

lemma count_epoch_sel [simp]:
  "pending_capacity (count_epoch t) = pending_capacity t" "pending (count_epoch t) = pending t"
  "current_epoch (count_epoch t) = current_epoch t" "next_frame (count_epoch t) = next_frame t"
  "minimum_source_ns (count_epoch t) = minimum_source_ns t"
  "ready_epoch (count_epoch t) = ready_epoch t" "ready_audio (count_epoch t) = ready_audio t"
  "admission_open (count_epoch t) = admission_open t" "need_resync (count_epoch t) = need_resync t"
  "stopped (count_epoch t) = stopped t" "dropped (count_epoch t) = dropped t"
  "format_needs_binding (count_epoch t) = format_needs_binding t"
  "expected_sample (count_epoch t) = expected_sample t"
  "acc_omitted_spans (acc_overflow (count_epoch t)) = acc_omitted_spans (acc_overflow t)"
  by (simp_all add: count_epoch_def Let_def split: prod.splits)

lemma omit_source_span_sel [simp]:
  "pending_capacity (omit_source_span t) = pending_capacity t"
  "pending (omit_source_span t) = pending t"
  "current_epoch (omit_source_span t) = current_epoch t"
  "next_frame (omit_source_span t) = next_frame t"
  "minimum_source_ns (omit_source_span t) = minimum_source_ns t"
  "ready_epoch (omit_source_span t) = ready_epoch t"
  "ready_audio (omit_source_span t) = ready_audio t"
  "admission_open (omit_source_span t) = admission_open t"
  "need_resync (omit_source_span t) = need_resync t" "stopped (omit_source_span t) = stopped t"
  "dropped (omit_source_span t) = dropped t"
  "format_needs_binding (omit_source_span t) = format_needs_binding t"
  "expected_sample (omit_source_span t) = expected_sample t"
  by (simp_all add: omit_source_span_def Let_def split: prod.splits)

lemma omit_source_span_pos [simp]: "0 < acc_omitted_spans (acc_overflow (omit_source_span t))"
  using sat_count_pos [of 1 "acc_omitted_spans (acc_overflow t)" "acc_saturated (acc_overflow t)"]
  by (simp add: omit_source_span_def Let_def split_beta)

lemma count_dropped_sel [simp]:
  "pending_capacity (count_dropped t f s) = pending_capacity t"
  "pending (count_dropped t f s) = pending t"
  "current_epoch (count_dropped t f s) = current_epoch t"
  "next_frame (count_dropped t f s) = next_frame t"
  "minimum_source_ns (count_dropped t f s) = minimum_source_ns t"
  "ready_epoch (count_dropped t f s) = ready_epoch t"
  "ready_audio (count_dropped t f s) = ready_audio t"
  "admission_open (count_dropped t f s) = admission_open t"
  "need_resync (count_dropped t f s) = need_resync t" "stopped (count_dropped t f s) = stopped t"
  "format_needs_binding (count_dropped t f s) = format_needs_binding t"
  "expected_sample (count_dropped t f s) = expected_sample t"
  "acc_omitted_spans (acc_overflow (count_dropped t f s)) = acc_omitted_spans (acc_overflow t)"
  by (simp_all add: count_dropped_def Let_def split: prod.splits)

lemma give_up_sel [simp]:
  "pending_capacity (give_up t f s) = pending_capacity t" "pending (give_up t f s) = pending t"
  "current_epoch (give_up t f s) = current_epoch t" "next_frame (give_up t f s) = next_frame t"
  "minimum_source_ns (give_up t f s) = minimum_source_ns t"
  "ready_epoch (give_up t f s) = ready_epoch t" "ready_audio (give_up t f s) = ready_audio t"
  "admission_open (give_up t f s) = admission_open t" "need_resync (give_up t f s)"
  "stopped (give_up t f s)" "0 < acc_omitted_spans (acc_overflow (give_up t f s))"
  using omit_source_span_pos [of "t\<lparr>unknown_loss_run := True\<rparr>"]
  by (simp_all add: give_up_def account_unknown_loss_def)

lemma account_unknown_loss_sel [simp]:
  "pending_capacity (account_unknown_loss t f s) = pending_capacity t"
  "pending (account_unknown_loss t f s) = pending t"
  "current_epoch (account_unknown_loss t f s) = current_epoch t"
  "next_frame (account_unknown_loss t f s) = next_frame t"
  "minimum_source_ns (account_unknown_loss t f s) = minimum_source_ns t"
  "ready_epoch (account_unknown_loss t f s) = ready_epoch t"
  "ready_audio (account_unknown_loss t f s) = ready_audio t"
  "admission_open (account_unknown_loss t f s) = admission_open t"
  "need_resync (account_unknown_loss t f s)" "stopped (account_unknown_loss t f s) = stopped t"
  "0 < acc_omitted_spans (acc_overflow (account_unknown_loss t f s))"
  using omit_source_span_pos [of "t\<lparr>unknown_loss_run := True\<rparr>"]
  by (simp_all add: account_unknown_loss_def)

lemma saturate_dropped_sel [simp]:
  "pending_capacity (saturate_dropped t) = pending_capacity t"
  "pending (saturate_dropped t) = pending t"
  "current_epoch (saturate_dropped t) = current_epoch t"
  "next_frame (saturate_dropped t) = next_frame t"
  "minimum_source_ns (saturate_dropped t) = minimum_source_ns t"
  "ready_epoch (saturate_dropped t) = ready_epoch t"
  "ready_audio (saturate_dropped t) = ready_audio t"
  "admission_open (saturate_dropped t) = admission_open t"
  by (simp_all add: saturate_dropped_def)

section \<open>Queueing\<close>

lemma loss_run_exceeds_cap_state:
  "snd (loss_run_exceeds_cap t s) = t \<or> (\<exists>r. snd (loss_run_exceeds_cap t s) = t\<lparr>loss_run_start := r\<rparr>)"
  by (auto simp: loss_run_exceeds_cap_def Let_def split: option.splits)

text \<open>
  A loss is appended, extends the loss queued last, or is counted; nothing else that matters to the
  stream changes, and a resynchronisation once owed stays owed.
\<close>

lemma queue_loss_cases:
  obtains (append) "pending (queue_loss t s) = pending t @ [Loss s]"
      "length (pending t) \<noteq> pending_capacity t"
      "acc_overflow (queue_loss t s) = acc_overflow t"
  | (extend) ds p where "pending t = ds @ [Loss p]" "extends_loss p s"
      "pending (queue_loss t s) = ds @ [Loss (p\<lparr>end_frame := end_frame s\<rparr>)]"
      "acc_overflow (queue_loss t s) = acc_overflow t"
  | (counted) "pending (queue_loss t s) = pending t"
      "0 < acc_omitted_spans (acc_overflow (queue_loss t s))"
proof -
  obtain ex t1 where e: "loss_run_exceeds_cap t s = (ex, t1)" by fastforce
  then have t1: "pending t1 = pending t" "pending_capacity t1 = pending_capacity t"
    "acc_overflow t1 = acc_overflow t"
    using loss_run_exceeds_cap_state [of t s] by auto
  let ?t2 = "t1\<lparr>need_resync := need_resync t1 \<or> ex\<rparr>"
  let ?app = "case push_pending ?t2 (Loss s) of (True, t3) \<Rightarrow> t3
      | (False, t3) \<Rightarrow> (omit_source_span t3)\<lparr>need_resync := True\<rparr>"
  show ?thesis
  proof (cases "pending t \<noteq> [] \<and> (\<exists>p. last (pending t) = Loss p \<and> extends_loss p s)")
    case True
    then obtain p where p: "pending t \<noteq> []" "last (pending t) = Loss p" "extends_loss p s" by auto
    then have "pending t = butlast (pending t) @ [Loss p]" by (metis append_butlast_last_id)
    then show ?thesis
      using extend [of "butlast (pending t)" p] p t1 e by (simp add: queue_loss_def Let_def)
  next
    case False
    then have q: "queue_loss t s = ?app"
      using e t1 by (auto simp: queue_loss_def Let_def split: capture_descriptor.splits)
    show ?thesis
    proof (cases "length (pending t) = pending_capacity t")
      case True
      then show ?thesis using counted q t1 by (simp add: push_pending_def)
    next
      case False
      then show ?thesis using append q t1 by (simp add: push_pending_def)
    qed
  qed
qed

lemma queue_loss_sel [simp]:
  "pending_capacity (queue_loss t s) = pending_capacity t"
  "current_epoch (queue_loss t s) = current_epoch t" "next_frame (queue_loss t s) = next_frame t"
  "minimum_source_ns (queue_loss t s) = minimum_source_ns t"
  "ready_epoch (queue_loss t s) = ready_epoch t" "ready_audio (queue_loss t s) = ready_audio t"
  "admission_open (queue_loss t s) = admission_open t" "stopped (queue_loss t s) = stopped t"
  "format_needs_binding (queue_loss t s) = format_needs_binding t"
  "expected_sample (queue_loss t s) = expected_sample t"
proof -
  obtain ex t1 where e: "loss_run_exceeds_cap t s = (ex, t1)" by fastforce
  then have "t1 = t \<or> (\<exists>r. t1 = t\<lparr>loss_run_start := r\<rparr>)"
    using loss_run_exceeds_cap_state [of t s] by simp
  then show "pending_capacity (queue_loss t s) = pending_capacity t"
    "current_epoch (queue_loss t s) = current_epoch t" "next_frame (queue_loss t s) = next_frame t"
    "minimum_source_ns (queue_loss t s) = minimum_source_ns t"
    "ready_epoch (queue_loss t s) = ready_epoch t" "ready_audio (queue_loss t s) = ready_audio t"
    "admission_open (queue_loss t s) = admission_open t" "stopped (queue_loss t s) = stopped t"
    "format_needs_binding (queue_loss t s) = format_needs_binding t"
    "expected_sample (queue_loss t s) = expected_sample t"
    using e by (auto simp: queue_loss_def Let_def push_pending_def split: capture_descriptor.splits)
qed

lemma queue_loss_resync: "need_resync t \<Longrightarrow> need_resync (queue_loss t s)"
proof -
  assume n: "need_resync t"
  obtain ex t1 where e: "loss_run_exceeds_cap t s = (ex, t1)" by fastforce
  then have "t1 = t \<or> (\<exists>r. t1 = t\<lparr>loss_run_start := r\<rparr>)"
    using loss_run_exceeds_cap_state [of t s] by simp
  then show ?thesis
    using e n by (auto simp: queue_loss_def Let_def push_pending_def split: capture_descriptor.splits)
qed

lemma queue_epoch_cases:
  obtains (queued) "pending (queue_epoch t e) = pending t @ [Epoch e]" "\<not> need_resync (queue_epoch t e)"
      "length (pending t) \<noteq> pending_capacity t"
  | (counted) "pending (queue_epoch t e) = pending t" "need_resync (queue_epoch t e)"
      "length (pending t) = pending_capacity t"
  by (cases "length (pending t) = pending_capacity t")
     (simp_all add: queue_epoch_def push_pending_def)

lemma queue_epoch_sel [simp]:
  "pending_capacity (queue_epoch t e) = pending_capacity t"
  "current_epoch (queue_epoch t e) = current_epoch t" "next_frame (queue_epoch t e) = next_frame t"
  "minimum_source_ns (queue_epoch t e) = minimum_source_ns t"
  "ready_epoch (queue_epoch t e) = ready_epoch t" "ready_audio (queue_epoch t e) = ready_audio t"
  "admission_open (queue_epoch t e) = admission_open t" "stopped (queue_epoch t e) = stopped t"
  "acc_omitted_spans (acc_overflow (queue_epoch t e)) = acc_omitted_spans (acc_overflow t)"
  by (simp_all add: queue_epoch_def push_pending_def)

lemma next_epoch_Inr:
  "next_epoch t f offset why = Inr e \<longleftrightarrow>
     (case current_epoch t of None \<Rightarrow> start_id e = 0
      | Some c \<Rightarrow> start_id e = start_id c + 1 \<and> start_id c + 1 < 2 ^ 32)
     \<and> start_ns e = offset \<and> frame_base e = next_frame t \<and> start_format e = f \<and> start_reason e = why"
  by (cases "current_epoch t"; cases e)
     (auto simp: next_epoch_def transpose_result_def ok_or_def split: option.splits sum.splits)

end
