(* ===== verification/CaptureStream.thy ===== *)
theory CaptureStream
  imports CaptureFacts
begin

text \<open>
  The stream of descriptors a capture timeline emits, and the invariant that relates what has been
  emitted to the timeline's state: the described frames tile the source without overlap, every audio
  block belongs to the epoch announced last, epochs are ordered.
\<close>

section \<open>Predicates on streams\<close>

primrec extent :: "capture_descriptor \<Rightarrow> (nat \<times> nat) option" where
  "extent (Epoch e) = None"
| "extent (Loss s) = Some (start_frame s, end_frame s)"
| "extent (Overflow v) = None"
| "extent (Audio a) = Some (audio_start a, audio_start a + audio_frames a)"

text \<open>
  The frame reached by laying the described intervals end to end from \<open>p\<close>. Intervals are non-empty
  and never overlap; with \<open>exact\<close> they leave no gap either.
\<close>

fun reach :: "bool \<Rightarrow> nat \<Rightarrow> capture_descriptor list \<Rightarrow> nat option" where
  "reach exact p [] = Some p"
| "reach exact p (d # ds) =
     (case extent d of
        None \<Rightarrow> reach exact p ds
      | Some (a, b) \<Rightarrow> if (if exact then a = p else p \<le> a) \<and> a < b then reach exact b ds else None)"

text \<open>Every frame below \<open>limit\<close> is described once, or a loss without position was counted.\<close>

definition tiled :: "capture_descriptor list \<Rightarrow> bool \<Rightarrow> nat \<Rightarrow> bool" where
  "tiled xs counted limit \<longleftrightarrow>
     is_some_and (reach False 0 xs) (\<lambda>q. q \<le> limit) \<and> (counted \<or> reach True 0 xs = Some limit)"

primrec epochs_of :: "capture_descriptor list \<Rightarrow> epoch_start list" where
  "epochs_of [] = []"
| "epochs_of (d # ds) = (case d of Epoch e \<Rightarrow> [e] | _ \<Rightarrow> []) @ epochs_of ds"

fun bound_to :: "epoch_start option \<Rightarrow> capture_descriptor list \<Rightarrow> bool" where
  "bound_to c [] = True"
| "bound_to c (Epoch e # ds) = bound_to (Some e) ds"
| "bound_to c (Audio a # ds) =
     (is_some_and c (\<lambda>e. start_id e = audio_epoch a \<and> start_format e = audio_format a
        \<and> frame_base e \<le> audio_start a) \<and> bound_to c ds)"
| "bound_to c (d # ds) = bound_to c ds"

definition counts_loss :: "capture_descriptor \<Rightarrow> bool" where
  "counts_loss d \<longleftrightarrow> (case d of Overflow v \<Rightarrow> 0 < acc_omitted_spans v | _ \<Rightarrow> False)"

definition epoch_before :: "epoch_start \<Rightarrow> epoch_start \<Rightarrow> bool" where
  "epoch_before a b \<longleftrightarrow> start_id a < start_id b \<and> start_reason b \<noteq> EpochStarted
     \<and> (case opt_zip (start_ns a) (start_ns b) of None \<Rightarrow> True | Some (x, y) \<Rightarrow> x \<le> y)"

definition ordered_epochs :: "epoch_start list \<Rightarrow> bool" where
  "ordered_epochs es \<longleftrightarrow> sorted_wrt epoch_before es
     \<and> list_all (\<lambda>e. is_ok (channels (start_format e))) es
     \<and> (es = [] \<or> start_reason (hd es) = EpochStarted)"

lemma reach_append:
  "reach x p (xs @ ys) = (case reach x p xs of None \<Rightarrow> None | Some q \<Rightarrow> reach x q ys)"
  by (induction xs arbitrary: p) (auto split: option.splits)

lemma reach_mono: "reach x p xs = Some q \<Longrightarrow> p \<le> q"
  by (induction xs arbitrary: p) (fastforce split: option.splits if_splits)+

lemma epochs_of_append [simp]: "epochs_of (xs @ ys) = epochs_of xs @ epochs_of ys"
  by (induction xs) auto

lemma bound_append:
  "bound_to c (xs @ ys) \<longleftrightarrow> bound_to c xs
     \<and> bound_to (if epochs_of xs = [] then c else Some (last (epochs_of xs))) ys"
  by (induction c xs rule: bound_to.induct) auto

lemma tiled_Loss:
  assumes "tiled xs counted limit" and "start_frame s = limit" and "limit < end_frame s"
  shows "tiled (xs @ [Loss s]) counted (end_frame s)"
  using assms by (auto simp: tiled_def reach_append is_some_and_def split: option.splits)

lemma tiled_extend:
  assumes "tiled (xs @ [Loss p]) counted limit" and "end_frame p = limit" and "limit < fin"
  shows "tiled (xs @ [Loss (p\<lparr>end_frame := fin\<rparr>)]) counted fin"
  using assms by (auto simp: tiled_def reach_append is_some_and_def split: option.splits if_splits)

lemma tiled_Audio:
  assumes "tiled xs counted limit" and "audio_start a = limit" and "0 < audio_frames a"
  shows "tiled (xs @ [Audio a]) counted (limit + audio_frames a)"
  using assms by (auto simp: tiled_def reach_append is_some_and_def split: option.splits)

lemma tiled_counted: "tiled xs counted limit \<Longrightarrow> limit \<le> fin \<Longrightarrow> tiled xs True fin"
  by (auto simp: tiled_def is_some_and_def split: option.splits)

lemma tiled_skip: "extent d = None \<Longrightarrow> tiled (xs @ d # ys) = tiled (xs @ ys)"
  by (auto simp: tiled_def reach_append fun_eq_iff split: option.splits)

lemma tiled_weaken: "tiled xs c limit \<Longrightarrow> (c \<Longrightarrow> c') \<Longrightarrow> tiled xs c' limit"
  by (auto simp: tiled_def)

section \<open>The invariant\<close>

definition stream :: "capture_timeline \<Rightarrow> capture_descriptor list" where
  "stream t = pending t @ (case ready_epoch t of None \<Rightarrow> [] | Some e \<Rightarrow> [Epoch e])
     @ (case ready_audio t of None \<Rightarrow> [] | Some a \<Rightarrow> [Audio a])"

definition idle :: "capture_timeline \<Rightarrow> bool" where
  "idle t \<longleftrightarrow> ready_epoch t = None \<and> ready_audio t = None \<and> \<not> admission_open t"

definition counted :: "capture_descriptor list \<Rightarrow> capture_timeline \<Rightarrow> bool" where
  "counted ds t \<longleftrightarrow> list_ex counts_loss ds \<or> 0 < acc_omitted_spans (acc_overflow t)"

definition current_inv :: "epoch_start list \<Rightarrow> capture_timeline \<Rightarrow> bool" where
  "current_inv es t \<longleftrightarrow>
     (case current_epoch t of
        None \<Rightarrow> es = [] \<and> pending t = []
      | Some c \<Rightarrow> es \<noteq> [] \<and> frame_base c \<le> next_frame t \<and> is_ok (channels (start_format c))
          \<and> list_all (\<lambda>e. start_id e \<le> start_id c) es \<and> (\<not> need_resync t \<longrightarrow> last es = c))"

definition core_inv :: "capture_descriptor list \<Rightarrow> capture_timeline \<Rightarrow> bool" where
  "core_inv ds t \<longleftrightarrow>
     2 \<le> pending_capacity t \<and> length (pending t) \<le> pending_capacity t
     \<and> tiled (ds @ stream t) (counted ds t) (next_frame t)
     \<and> bound_to None (ds @ stream t)
     \<and> ordered_epochs (epochs_of (ds @ stream t))
     \<and> current_inv (epochs_of (ds @ stream t)) t"

text \<open>Known epoch offsets never exceed the minimum the next epoch has to respect.\<close>

definition timed :: "epoch_start list \<Rightarrow> nat option \<Rightarrow> bool" where
  "timed es m \<longleftrightarrow> list_all (\<lambda>e. is_none_or (start_ns e) (\<lambda>x. is_some_and m (\<lambda>y. x \<le> y))) es"

lemma idle_stream: "idle t \<Longrightarrow> stream t = pending t"
  by (simp add: idle_def stream_def)

text \<open>The invariant looks only at a few fields; counting more or owing a resynchronisation is fine.\<close>

lemma core_inv_same:
  assumes "core_inv ds t"
    and "pending_capacity t' = pending_capacity t" "pending t' = pending t"
      "current_epoch t' = current_epoch t" "next_frame t' = next_frame t"
      "ready_epoch t' = ready_epoch t" "ready_audio t' = ready_audio t"
    and "0 < acc_omitted_spans (acc_overflow t) \<Longrightarrow> 0 < acc_omitted_spans (acc_overflow t')"
    and "need_resync t \<Longrightarrow> need_resync t'"
  shows "core_inv ds t'"
proof -
  have "stream t' = stream t" by (simp add: stream_def assms)
  moreover have "counted ds t \<Longrightarrow> counted ds t'" using assms(8) by (auto simp: counted_def)
  moreover have "current_inv es t \<Longrightarrow> current_inv es t'" for es
    using assms by (auto simp: current_inv_def split: option.splits)
  ultimately show ?thesis
    using assms(1) tiled_weaken [of "ds @ stream t" "counted ds t" "next_frame t" "counted ds t'"]
    by (simp add: core_inv_def assms(2,3,5))
qed

lemma core_inv_counted:
  assumes "core_inv ds t" and "next_frame t \<le> n"
    and "pending_capacity t' = pending_capacity t" "pending t' = pending t"
      "current_epoch t' = current_epoch t" "next_frame t' = n"
      "ready_epoch t' = ready_epoch t" "ready_audio t' = ready_audio t"
    and "0 < acc_omitted_spans (acc_overflow t')" and "need_resync t \<Longrightarrow> need_resync t'"
  shows "core_inv ds t'"
proof -
  have "stream t' = stream t" by (simp add: stream_def assms)
  moreover have "counted ds t'" using assms(9) by (simp add: counted_def)
  moreover have "current_inv es t \<Longrightarrow> current_inv es t'" for es
    using assms by (auto simp: current_inv_def split: option.splits)
  ultimately show ?thesis
    using assms(1,2) tiled_counted [of "ds @ stream t" "counted ds t" "next_frame t" n]
    by (simp add: core_inv_def assms(3,4,6))
qed

section \<open>Queueing a loss or an epoch\<close>

lemma bound_Loss [simp]: "bound_to c (xs @ [Loss s]) = bound_to c xs"
  by (simp add: bound_append)

lemma core_queue_loss:
  assumes inv: "core_inv ds t" and idle: "idle t"
    and s: "start_frame s = next_frame t" "end_frame s = fin" "next_frame t < fin"
    and cur: "current_epoch t = Some c"
  shows "core_inv ds ((queue_loss t s)\<lparr>next_frame := fin\<rparr>)"
proof -
  let ?t = "(queue_loss t s)\<lparr>next_frame := fin\<rparr>"
  have st: "stream t = pending t" "stream ?t = pending (queue_loss t s)"
    using idle by (simp_all add: stream_def idle_def)
  have cur': "current_inv es t \<Longrightarrow> current_inv es ?t" for es
    using s(3) cur queue_loss_resync [of t s] by (auto simp: current_inv_def)
  note i = inv [unfolded core_inv_def st]
  show ?thesis
  proof (cases rule: queue_loss_cases [of t s])
    case append
    then show ?thesis
      using i cur' tiled_Loss [of "ds @ pending t" "counted ds t" "next_frame t" s] s
      by (auto simp: core_inv_def st(2) counted_def bound_append)
  next
    case (extend es p)
    have e: "end_frame p = next_frame t" using extend(2) s by (simp add: extends_loss_def)
    show ?thesis
      using i cur' extend tiled_extend [of "ds @ es" p "counted ds t" "next_frame t" fin] e s
      by (auto simp: core_inv_def st(2) counted_def bound_append)
  next
    case counted
    show ?thesis
      by (rule core_inv_counted [OF inv, of fin])
         (use s(3) counted queue_loss_resync [of t s] in auto)
  qed
qed

lemma timed_append: "timed (xs @ ys) m \<longleftrightarrow> timed xs m \<and> timed ys m"
  by (simp add: timed_def)

lemma ordered_snoc:
  assumes "ordered_epochs es" and "is_ok (channels (start_format e))"
    and "es = [] \<Longrightarrow> start_reason e = EpochStarted"
    and "es \<noteq> [] \<Longrightarrow> start_reason e \<noteq> EpochStarted"
    and "list_all (\<lambda>p. start_id p < start_id e) es" and "timed es (start_ns e) \<or> start_ns e = None"
  shows "ordered_epochs (es @ [e])"
  using assms
  by (auto simp: ordered_epochs_def sorted_wrt_append epoch_before_def list_all_iff timed_def
      opt_zip_def is_none_or_def is_some_and_def hd_append split: option.splits)

text \<open>An epoch from \<open>next_epoch\<close>, appended to the stream.\<close>

lemma next_epoch_ordered:
  assumes "core_inv ds t" and "next_epoch t f offset why = Inr e" and "is_ok (channels f)"
    and "current_epoch t = None \<Longrightarrow> why = EpochStarted"
    and "current_epoch t \<noteq> None \<Longrightarrow> why \<noteq> EpochStarted"
    and "offset = None \<or> timed (epochs_of (ds @ stream t)) offset"
  shows "ordered_epochs (epochs_of (ds @ stream t) @ [e])"
    and "list_all (\<lambda>p. start_id p \<le> start_id e) (epochs_of (ds @ stream t))"
proof -
  let ?es = "epochs_of (ds @ stream t)"
  have c: "current_inv ?es t" and o: "ordered_epochs ?es" using assms(1) by (simp_all add: core_inv_def)
  have ids: "list_all (\<lambda>p. start_id p < start_id e) ?es"
    using c assms(2) by (auto simp: current_inv_def next_epoch_Inr list_all_iff
        le_imp_less_Suc split: option.splits)
  show "list_all (\<lambda>p. start_id p \<le> start_id e) ?es"
    using ids by (auto simp: list_all_iff less_imp_le)
  show "ordered_epochs (?es @ [e])"
  proof (rule ordered_snoc [OF o])
    show "?es = [] \<Longrightarrow> start_reason e = EpochStarted"
      using c assms(2,4) by (cases "current_epoch t") (auto simp: current_inv_def next_epoch_Inr)
    show "?es \<noteq> [] \<Longrightarrow> start_reason e \<noteq> EpochStarted"
      using c assms(2,5) by (cases "current_epoch t") (auto simp: current_inv_def next_epoch_Inr)
    show "timed ?es (start_ns e) \<or> start_ns e = None"
      using assms(2,6) by (auto simp: next_epoch_Inr)
  qed (use assms(2,3) ids in \<open>auto simp: next_epoch_Inr\<close>)
qed

lemma core_queue_epoch:
  assumes inv: "core_inv ds t" and idle: "idle t"
    and e: "next_epoch t f offset why = Inr e" and f: "is_ok (channels f)"
    and why: "current_epoch t = None \<Longrightarrow> why = EpochStarted"
      "current_epoch t \<noteq> None \<Longrightarrow> why \<noteq> EpochStarted"
    and offset: "offset = None \<or> timed (epochs_of (ds @ stream t)) offset"
  shows "core_inv ds (queue_epoch (t\<lparr>current_epoch := Some e\<rparr>) e)"
proof -
  let ?t = "queue_epoch (t\<lparr>current_epoch := Some e\<rparr>) e"
  have st: "stream t = pending t" "stream ?t = pending ?t"
    using idle by (simp_all add: stream_def idle_def)
  note ord = next_epoch_ordered [OF inv e f why offset, unfolded st]
  note i = inv [unfolded core_inv_def st]
  have base: "frame_base e = next_frame t" "start_format e = f" using e by (auto simp: next_epoch_Inr)
  show ?thesis
  proof (cases rule: queue_epoch_cases [of "t\<lparr>current_epoch := Some e\<rparr>" e])
    case queued
    then show ?thesis
      using i ord base f tiled_skip [of "Epoch e" "ds @ pending t" "[]"]
      by (auto simp: core_inv_def st(2) counted_def bound_append current_inv_def)
  next
    case counted
    then have "pending t \<noteq> []" using i by auto
    then have "epochs_of (ds @ pending t) \<noteq> []"
      using i by (auto simp: current_inv_def split: option.splits)
    then show ?thesis
      using i ord base f counted
      by (auto simp: core_inv_def st(2) counted_def current_inv_def)
  qed
qed

end
