(* ===== verification/CapturePlan.thy ===== *)
theory CapturePlan
  imports CaptureStream
begin

text \<open>Planning a callback keeps the stream invariant, on every path.\<close>

section \<open>Before and after preparation\<close>

definition ready_inv :: "capture_descriptor list \<Rightarrow> capture_timeline \<Rightarrow> bool" where
  "ready_inv ds t \<longleftrightarrow> core_inv ds t \<and> idle t
     \<and> timed (epochs_of (ds @ stream t)) (minimum_source_ns t)"

text \<open>After preparation the epoch just opened may start later than the minimum known so far.\<close>

definition prepared_inv ::
    "capture_descriptor list \<Rightarrow> capture_timeline \<Rightarrow> capture_format \<Rightarrow> bool" where
  "prepared_inv ds t f \<longleftrightarrow> core_inv ds t \<and> idle t
     \<and> is_some_and (current_epoch t) (\<lambda>c. start_format c = f
         \<and> (if need_resync t then timed (epochs_of (ds @ stream t)) (minimum_source_ns t)
            else timed (butlast (epochs_of (ds @ stream t))) (minimum_source_ns t)))"

lemma timed_after: "timed es m \<Longrightarrow> not_before m x \<Longrightarrow> timed es (Some x)"
  by (auto simp: timed_def not_before_def list_all_iff is_none_or_def is_some_and_def
      split: option.splits)

lemma not_before_opt_max: "not_before (opt_max b m) x \<Longrightarrow> not_before m x"
  by (auto simp: not_before_def opt_max_def split: option.splits)

lemma timed_filter:
  assumes "timed es m"
  shows "opt_filter (not_before (opt_max b m)) off = None
    \<or> timed es (opt_filter (not_before (opt_max b m)) off)"
    and "opt_filter (not_before m) off = None \<or> timed es (opt_filter (not_before m) off)"
  using assms timed_after [of es m] not_before_opt_max [of b m]
  by (cases off; force)+

lemma timed_butlast: "timed es m \<Longrightarrow> timed (butlast es) m"
  by (auto simp: timed_def list_all_iff dest: in_set_butlastD)

lemma open_epoch_inv:
  assumes inv: "ready_inv ds t" and o: "open_epoch t f offset why = (res, t')"
    and f: "is_ok (channels f)"
    and why: "current_epoch t = None \<Longrightarrow> why = EpochStarted"
      "current_epoch t \<noteq> None \<Longrightarrow> why \<noteq> EpochStarted"
    and offset: "offset = None \<or> timed (epochs_of (ds @ stream t)) offset"
  shows "core_inv ds t' \<and> idle t' \<and> (res = Inr () \<longrightarrow> prepared_inv ds t' f)"
proof (cases "next_epoch t f offset why")
  case (Inl e)
  then show ?thesis using o inv by (auto simp: open_epoch_def ready_inv_def)
next
  case (Inr e)
  have t': "t' = queue_epoch (t\<lparr>current_epoch := Some e\<rparr>) e" using o Inr by (simp add: open_epoch_def)
  have i: "core_inv ds t" "idle t" "timed (epochs_of (ds @ stream t)) (minimum_source_ns t)"
    using inv by (simp_all add: ready_inv_def)
  have c: "core_inv ds t'" unfolding t' by (rule core_queue_epoch [OF i(1,2) Inr f why offset])
  have d: "idle t'" using i(2) by (simp add: t' idle_def)
  have st: "stream t = pending t" "stream t' = pending t'" using i(2) d by (simp_all add: idle_stream)
  have "prepared_inv ds t' f"
  proof (cases rule: queue_epoch_cases [of "t\<lparr>current_epoch := Some e\<rparr>" e])
    case queued
    then show ?thesis
      using c d i(3) Inr st by (simp add: prepared_inv_def t' next_epoch_Inr butlast_append)
  next
    case counted
    then show ?thesis
      using c d i(3) Inr st by (simp add: prepared_inv_def t' next_epoch_Inr)
  qed
  then show ?thesis using c d by simp
qed

section \<open>The sample clock's jump\<close>

lemma queue_loss_epochs [simp]:
  "epochs_of (pending (queue_loss t s)) = epochs_of (pending t)"
  by (cases rule: queue_loss_cases [of t s]) auto

lemma ready_inv_same:
  assumes "ready_inv ds t"
    and "pending_capacity t' = pending_capacity t" "pending t' = pending t"
      "current_epoch t' = current_epoch t" "next_frame t' = next_frame t"
      "ready_epoch t' = ready_epoch t" "ready_audio t' = ready_audio t"
      "admission_open t' = admission_open t" "minimum_source_ns t' = minimum_source_ns t"
    and "0 < acc_omitted_spans (acc_overflow t) \<Longrightarrow> 0 < acc_omitted_spans (acc_overflow t')"
    and "need_resync t \<Longrightarrow> need_resync t'"
  shows "ready_inv ds t'"
proof -
  have "stream t' = stream t" by (simp add: stream_def assms)
  moreover have "core_inv ds t'"
    by (rule core_inv_same [of ds t]) (use assms in \<open>auto simp: ready_inv_def\<close>)
  ultimately show ?thesis using assms by (simp add: ready_inv_def idle_def)
qed

lemma account_jump_inv:
  assumes inv: "ready_inv ds t" and cur: "current_epoch t = Some c"
    and a: "account_jump t c jump = (res, t')"
  shows "ready_inv ds t' \<and> current_epoch t' = Some c"
proof (cases jump)
  case None
  then show ?thesis using assms by (simp add: account_jump_def)
next
  case (Some j)
  show ?thesis
  proof (cases "0 < j")
    case False
    have "ready_inv ds ((omit_source_span t)\<lparr>need_resync := True\<rparr>)"
      by (rule ready_inv_same [OF inv]) auto
    then show ?thesis using a cur Some False by (auto simp: account_jump_def)
  next
    case True
    show ?thesis
    proof (cases "rbind (ok_or (try_from_int 64 j) ArithmeticOverflow) (\<lambda>missing.
        rbind (ok_or (checked_add 64 (next_frame t) missing) ArithmeticOverflow) (\<lambda>fin.
        rbind (time_at c fin) (\<lambda>_. Inr fin)))")
      case (Inl e)
      then show ?thesis using a inv cur Some True by (simp add: account_jump_def)
    next
      case (Inr fin)
      let ?s = "capture_loss c (next_frame t) fin HostDiscontinuity"
      let ?t = "(queue_loss t ?s)\<lparr>next_frame := fin\<rparr>"
      have t': "t' = ?t" using a Some True Inr by (simp add: account_jump_def)
      have lt: "next_frame t < fin" using Inr True by (auto simp: try_from_int_def split: if_splits)
      have idle: "idle t" using inv by (simp add: ready_inv_def)
      have "core_inv ds ?t"
        by (rule core_queue_loss [OF _ idle _ _ lt cur])
           (use inv in \<open>simp_all add: ready_inv_def capture_loss_def\<close>)
      moreover have "idle ?t" using idle by (simp add: idle_def)
      ultimately show ?thesis
        using inv idle cur by (simp add: t' ready_inv_def idle_stream)
    qed
  qed
qed

section \<open>Preparation\<close>

lemma change_reason_not_start: "change_reason f g \<noteq> EpochStarted"
  by (simp add: change_reason_def)

lemma opt_filter_timed:
  assumes "ready_inv ds t"
  shows "opt_filter (not_before (opt_max b (minimum_source_ns t))) off = None
    \<or> timed (epochs_of (ds @ stream t)) (opt_filter (not_before (opt_max b (minimum_source_ns t))) off)"
    and "opt_filter (not_before (minimum_source_ns t)) off = None
    \<or> timed (epochs_of (ds @ stream t)) (opt_filter (not_before (minimum_source_ns t)) off)"
  using timed_filter assms by (simp_all add: ready_inv_def del: epochs_of_append)

lemma prepared_binding:
  assumes "prepared_inv ds u f"
  shows "prepared_inv ds (u\<lparr>format_needs_binding := b\<rparr>) f"
proof -
  let ?t = "u\<lparr>format_needs_binding := b\<rparr>"
  have "stream ?t = stream u" by (simp add: stream_def)
  moreover have "core_inv ds ?t"
    by (rule core_inv_same [of ds u]) (use assms in \<open>auto simp: prepared_inv_def\<close>)
  ultimately show ?thesis
    using assms
    by (auto simp: prepared_inv_def idle_def is_some_and_def simp del: epochs_of_append
        split: option.splits)
qed

lemma prepared_same:
  assumes "ready_inv ds t" and "current_epoch t = Some c"
  shows "prepared_inv ds t (start_format c)"
  using assms timed_butlast [of "epochs_of (ds @ stream t)" "minimum_source_ns t"]
  by (simp add: ready_inv_def prepared_inv_def del: epochs_of_append)

lemma prepare_inv:
  assumes inv: "ready_inv ds t" and f: "is_ok (channels (cb_format inp))"
    and p: "prepare_callback t inp = (res, t')"
  shows "core_inv ds t' \<and> idle t' \<and> (res = Inr () \<longrightarrow> prepared_inv ds t' (cb_format inp))"
proof (cases "current_epoch t")
  case None
  then have es: "epochs_of (ds @ stream t) = []"
    using inv by (simp add: ready_inv_def core_inv_def current_inv_def)
  obtain r u where o: "open_epoch t (cb_format inp) (host_offset (cb_timestamp inp)) EpochStarted = (r, u)"
    by fastforce
  have g: "core_inv ds u \<and> idle u \<and> (r = Inr () \<longrightarrow> prepared_inv ds u (cb_format inp))"
    by (rule open_epoch_inv [OF inv o f]) (use None es in \<open>auto simp: timed_def\<close>)
  show ?thesis
  proof (cases r)
    case (Inl e)
    then show ?thesis using p None o g by (simp add: prepare_callback_def)
  next
    case (Inr v)
    have t': "t' = u\<lparr>format_needs_binding := False\<rparr>" "res = Inr ()"
      using p None o Inr by (auto simp: prepare_callback_def)
    have "prepared_inv ds u (cb_format inp)" using g Inr by simp
    then have "prepared_inv ds t' (cb_format inp)" unfolding t' by (rule prepared_binding)
    then show ?thesis by (simp add: prepared_inv_def)
  qed
next
  case (Some c)
  let ?why = "change_reason (start_format c) (cb_format inp)"
  let ?off = "host_offset (cb_timestamp inp)"
  show ?thesis
  proof (cases "format_needs_binding t")
    case True
    obtain r u where o: "open_epoch t (cb_format inp)
        (opt_filter (not_before (minimum_source_ns t)) ?off) ?why = (r, u)"
      by fastforce
    have g: "core_inv ds u \<and> idle u \<and> (r = Inr () \<longrightarrow> prepared_inv ds u (cb_format inp))"
      by (rule open_epoch_inv [OF inv o f _ _ opt_filter_timed(2) [OF inv]])
         (use Some in \<open>simp_all add: change_reason_not_start\<close>)
    show ?thesis
    proof (cases r)
      case (Inl e)
      then show ?thesis using p Some True o g by (auto simp: prepare_callback_def Let_def)
    next
      case (Inr v)
      have t': "t' = u\<lparr>format_needs_binding := False\<rparr>" "res = Inr ()"
        using p Some True o Inr by (auto simp: prepare_callback_def Let_def)
      have "prepared_inv ds u (cb_format inp)" using g Inr by simp
      then have "prepared_inv ds t' (cb_format inp)" unfolding t' by (rule prepared_binding)
      then show ?thesis by (simp add: prepared_inv_def)
    qed
  next
    case False
    let ?rate = "format_rate_hz (cb_format inp) \<noteq> format_rate_hz (start_format c)"
    let ?ucc = "?rate \<and> sample_delta t inp \<noteq> None"
    let ?jump = "if ?ucc then None else sample_delta t inp"
    let ?host = "host_delta t c inp ?jump"
    let ?hd = "is_some_and ?host (\<lambda>d. 1000000000 div format_rate_hz (start_format c) < nat \<bar>d\<bar>)"
    let ?rewound = "is_some_and ?jump (\<lambda>j. j < 0)"
    let ?t1 = "if ?ucc then count_epoch t else t"
    let ?t2 = "if ?hd then (if ?rewound then ?t1 else omit_source_span ?t1)\<lparr>unknown_loss_run := True\<rparr>
               else ?t1"
    have t1: "ready_inv ds ?t1" by (rule ready_inv_same [OF inv]) auto
    have t2: "ready_inv ds ?t2" by (rule ready_inv_same [OF t1]) auto
    have c2: "current_epoch ?t2 = Some c" using Some by simp
    obtain r3 t3 where j: "account_jump ?t2 c ?jump = (r3, t3)" by fastforce
    have t3: "ready_inv ds t3" "current_epoch t3 = Some c"
      using account_jump_inv [OF t2 c2 j] by simp_all
    have shape: "prepare_callback t inp =
        (if \<not> cb_format inp \<noteq> start_format c \<and> ?jump = None \<and> \<not> ?hd then (Inr (), t)
         else case account_jump ?t2 c ?jump of
                (Inl e, t3) \<Rightarrow> (Inl e, t3)
              | (Inr _, t3) \<Rightarrow>
                  (case time_at c (next_frame t3) of
                     Inl e \<Rightarrow> (Inl e, t3)
                   | Inr boundary \<Rightarrow>
                       open_epoch t3 (cb_format inp)
                         (opt_filter (not_before (opt_max boundary (minimum_source_ns t3)))
                           (if ?hd \<and> is_some_and ?host (\<lambda>d. d < 0) then None
                            else opt_or ?off (if ?ucc \<or> ?hd \<or> ?rewound then None else boundary)))
                         ?why))"
      unfolding prepare_callback_def Some Let_def using False by (simp only: option.case if_False)
    consider (same) "res = Inr ()" "t' = t" "cb_format inp = start_format c"
      | (err) e where "res = Inl e" "t' = t3"
      | (opened) offset b where
          "open_epoch t3 (cb_format inp) (opt_filter (not_before (opt_max b (minimum_source_ns t3))) offset)
             ?why = (res, t')"
    proof (cases "\<not> cb_format inp \<noteq> start_format c \<and> ?jump = None \<and> \<not> ?hd")
      case True
      have "prepare_callback t inp = (Inr (), t)" unfolding shape by (rule if_P [OF True])
      then show ?thesis using p same True by simp
    next
      case changed: False
      have q: "(case (r3, t3) of
                (Inl e, t3) \<Rightarrow> (Inl e, t3)
              | (Inr _, t3) \<Rightarrow>
                  (case time_at c (next_frame t3) of
                     Inl e \<Rightarrow> (Inl e, t3)
                   | Inr boundary \<Rightarrow>
                       open_epoch t3 (cb_format inp)
                         (opt_filter (not_before (opt_max boundary (minimum_source_ns t3)))
                           (if ?hd \<and> is_some_and ?host (\<lambda>d. d < 0) then None
                            else opt_or ?off (if ?ucc \<or> ?hd \<or> ?rewound then None else boundary)))
                         ?why)) = (res, t')"
        using p unfolding shape if_not_P [OF changed] j .
      show ?thesis
      proof (cases r3)
        case (Inl e)
        then show ?thesis using q err [of e] by simp
      next
        case (Inr v)
        show ?thesis
        proof (cases "time_at c (next_frame t3)")
          case (Inl e)
          then show ?thesis using q Inr err [of e] by simp
        next
          case (Inr boundary)
          then show ?thesis using q \<open>r3 = Inr v\<close> opened [of boundary]
            by (simp only: prod.case sum.case)
        qed
      qed
    qed
    then show ?thesis
    proof cases
      case same
      have "is_ok (channels (cb_format inp))" by (rule f)
      then show ?thesis using same inv Some prepared_same [OF inv Some] by (simp add: ready_inv_def)
    next
      case err
      then show ?thesis using t3 by (simp add: ready_inv_def)
    next
      case opened
      show ?thesis
        by (rule open_epoch_inv [OF t3(1) opened f _ _ opt_filter_timed(1) [OF t3(1)]])
           (use t3(2) in \<open>simp_all add: change_reason_not_start\<close>)
    qed
  qed
qed

section \<open>Advancing past the callback\<close>

lemma advance_sel [simp]:
  "pending_capacity (advance t inp b fin src h) = pending_capacity t"
  "pending (advance t inp b fin src h) = pending t"
  "current_epoch (advance t inp b fin src h) = current_epoch t"
  "next_frame (advance t inp b fin src h) = fin"
  "ready_epoch (advance t inp b fin src h) = ready_epoch t"
  "ready_audio (advance t inp b fin src h) = ready_audio t"
  "admission_open (advance t inp b fin src h) = admission_open t"
  "need_resync (advance t inp b fin src h) = need_resync t"
  "stopped (advance t inp b fin src h) = stopped t"
  "acc_overflow (advance t inp b fin src h) = acc_overflow t"
  by (simp_all add: advance_def Let_def)

lemma advance_minimum:
  "minimum_source_ns (advance t inp b fin src h) =
     (case src of None \<Rightarrow> minimum_source_ns t
      | Some e \<Rightarrow> Some (case minimum_source_ns t of None \<Rightarrow> e | Some m \<Rightarrow> max m e))"
  by (simp add: advance_def Let_def)

lemma time_at_known:
  "time_at e f = Inr r \<Longrightarrow> start_ns e = Some x \<Longrightarrow> \<exists>y. r = Some y \<and> x \<le> y"
  by (auto simp: time_at_def nanos_at_def ok_or_def transpose_result_def
      split: option.splits sum.splits)

lemma time_at_mono:
  assumes "is_ok (time_at e g)" and "frame_base e \<le> f" and "f \<le> g"
  shows "is_ok (time_at e f)"
proof -
  let ?n = "\<lambda>f. (f - frame_base e) * 1000000000 div format_rate_hz (start_format e)"
  have "?n f \<le> ?n g" using assms(3) by (intro div_le_mono mult_le_mono1) simp
  then show ?thesis
    using assms
    by (cases "start_ns e")
       (auto simp: time_at_def nanos_at_def transpose_result_def is_ok_rbind ok_or_def
          checked_sub_def checked_add_def try_from_def split: if_splits option.splits sum.splits)
qed

lemma timed_advance:
  "timed es (minimum_source_ns t) \<Longrightarrow> timed es (minimum_source_ns (advance t inp b fin src h))"
  by (fastforce simp: timed_def advance_minimum list_all_iff is_none_or_def is_some_and_def
      split: option.splits)

lemma timed_advance_last:
  assumes "timed (butlast es) (minimum_source_ns t)" and "es \<noteq> []" and "last es = c"
    and "time_at c fin = Inr src"
  shows "timed es (minimum_source_ns (advance t inp b fin src h))"
proof -
  let ?m = "minimum_source_ns (advance t inp b fin src h)"
  have "timed (butlast es) ?m" using assms(1) by (rule timed_advance)
  moreover have "timed [c] ?m"
    using time_at_known [OF assms(4)]
    by (cases "start_ns c"; cases "minimum_source_ns t") (auto simp: timed_def advance_minimum)
  moreover have "es = butlast es @ [c]" using assms(2,3) by auto
  ultimately show ?thesis using timed_append [of "butlast es" "[c]" ?m] by simp
qed

definition timeline_inv :: "capture_descriptor list \<Rightarrow> capture_timeline \<Rightarrow> bool" where
  "timeline_inv ds t \<longleftrightarrow> core_inv ds t
     \<and> (if admission_open t then ready_audio t \<noteq> None \<and> \<not> need_resync t
        else ready_epoch t = None \<and> ready_audio t = None)
     \<and> (stopped t \<or> timed (epochs_of (ds @ stream t)) (minimum_source_ns t))"

lemma prepared_current:
  assumes "prepared_inv ds t f" and "current_epoch t = Some c"
  shows "start_format c = f" and "frame_base c \<le> next_frame t"
    and "epochs_of (ds @ stream t) \<noteq> []"
    and "\<not> need_resync t \<Longrightarrow> last (epochs_of (ds @ stream t)) = c"
    and "list_all (\<lambda>e. start_id e \<le> start_id c) (epochs_of (ds @ stream t))"
  using assms by (auto simp: prepared_inv_def core_inv_def current_inv_def simp del: epochs_of_append)

lemma prepared_advance_timed:
  assumes "prepared_inv ds t f" and "current_epoch t = Some c" and "time_at c fin = Inr src"
    and "minimum_source_ns t' = minimum_source_ns t"
  shows "timed (epochs_of (ds @ stream t)) (minimum_source_ns (advance t' inp b fin src h))"
proof (cases "need_resync t")
  case True
  then show ?thesis
    using assms(1,2,4) by (intro timed_advance) (simp add: prepared_inv_def del: epochs_of_append)
next
  case False
  then show ?thesis
    using assms prepared_current [OF assms(1,2)]
    by (intro timed_advance_last) (simp_all add: prepared_inv_def del: epochs_of_append)
qed

lemma reject_inv:
  assumes inv: "prepared_inv ds t (cb_format inp)" and cur: "current_epoch t = Some c"
    and fin: "fin = next_frame t + cb_frames inp" "0 < cb_frames inp"
    and src: "time_at c fin = Inr src"
  shows "timeline_inv ds (advance (reject t inp samples c fin) inp b fin src h)"
proof -
  let ?q = "queue_loss t (capture_loss c (next_frame t) fin RingOverflow)"
  let ?t = "advance (reject t inp samples c fin) inp b fin src h"
  have i: "core_inv ds t" "idle t" using inv by (simp_all add: prepared_inv_def)
  have "core_inv ds (?q\<lparr>next_frame := fin\<rparr>)"
    by (rule core_queue_loss [OF i _ _ _ cur]) (use fin in \<open>simp_all add: capture_loss_def\<close>)
  then have core: "core_inv ds ?t" by (rule core_inv_same) (simp_all add: reject_def)
  have st: "stream ?t = pending ?q" "stream t = pending t"
    using i(2) by (simp_all add: idle_def stream_def reject_def)
  have "timed (epochs_of (ds @ stream t)) (minimum_source_ns ?t)"
    by (rule prepared_advance_timed [OF inv cur src]) (simp add: reject_def)
  then have "timed (epochs_of (ds @ stream ?t)) (minimum_source_ns ?t)"
    using st by simp
  then show ?thesis using core i(2) by (simp add: timeline_inv_def idle_def reject_def)
qed

section \<open>Admitting audio\<close>

lemma stage_audio_sel [simp]:
  "pending_capacity (stage_audio t inp n e) = pending_capacity t"
  "pending (stage_audio t inp n e) = pending t"
  "current_epoch (stage_audio t inp n e) = current_epoch t"
  "next_frame (stage_audio t inp n e) = next_frame t"
  "minimum_source_ns (stage_audio t inp n e) = minimum_source_ns t"
  "ready_epoch (stage_audio t inp n e) = ready_epoch t"
  "ready_audio (stage_audio t inp n e) = Some \<lparr>audio_epoch = start_id e, audio_start = next_frame t,
     audio_frames = cb_frames inp, audio_samples = n, audio_format = cb_format inp\<rparr>"
  "admission_open (stage_audio t inp n e)" "need_resync (stage_audio t inp n e) = need_resync t"
  "acc_overflow (stage_audio t inp n e) = acc_overflow t"
  "stopped (stage_audio t inp n e) = stopped t"
  by (simp_all add: stage_audio_def)

lemma accept_inv:
  assumes inv: "prepared_inv ds t (cb_format inp)" and cur: "current_epoch t = Some c"
    and fin: "fin = next_frame t + cb_frames inp" "0 < cb_frames inp"
    and src: "time_at c fin = Inr src" and sync: "\<not> need_resync t"
  shows "timeline_inv ds (advance (stage_audio t inp samples c) inp b fin src h)"
proof -
  let ?t = "advance (stage_audio t inp samples c) inp b fin src h"
  let ?a = "\<lparr>audio_epoch = start_id c, audio_start = next_frame t, audio_frames = cb_frames inp,
     audio_samples = samples, audio_format = cb_format inp\<rparr>"
  have i: "core_inv ds t" "idle t" using inv by (simp_all add: prepared_inv_def)
  note c = prepared_current [OF inv cur]
  have st: "stream t = pending t" "stream ?t = pending t @ [Audio ?a]"
    using i(2) by (simp_all add: idle_def stream_def)
  have es: "epochs_of (ds @ stream ?t) = epochs_of (ds @ stream t)" by (simp add: st)
  have "tiled ((ds @ pending t) @ [Audio ?a]) (counted ds t) fin"
    using tiled_Audio [of "ds @ pending t" "counted ds t" "next_frame t" ?a] i(1) fin
    by (simp add: core_inv_def st)
  moreover have "bound_to None ((ds @ pending t) @ [Audio ?a])"
    unfolding bound_append [of None "ds @ pending t"]
    using i(1) c sync by (simp add: core_inv_def st del: epochs_of_append)
  moreover have "current_inv (epochs_of (ds @ stream ?t)) ?t"
    using i(1) cur fin es by (simp add: core_inv_def current_inv_def del: epochs_of_append)
  ultimately have "core_inv ds ?t"
    using i(1) es by (simp add: core_inv_def st counted_def)
  moreover have "timed (epochs_of (ds @ stream ?t)) (minimum_source_ns ?t)"
    unfolding es by (rule prepared_advance_timed [OF inv cur src]) simp
  ultimately show ?thesis using sync by (simp add: timeline_inv_def)
qed

lemma resync_Inr:
  assumes "resync t inp c = Inr e" and "timed es (minimum_source_ns t)" and "is_ok (time_at c (next_frame t))"
  obtains offset where "next_epoch t (cb_format inp) offset HostGap = Inr e"
    and "offset = None \<or> timed es offset"
proof -
  obtain p where "time_at c (next_frame t) = Inr p" using assms(3) by (auto simp: is_ok_iff)
  then have "next_epoch t (cb_format inp)
      (opt_filter (not_before (opt_max p (minimum_source_ns t)))
         (opt_or (host_offset (cb_timestamp inp)) p)) HostGap = Inr e"
    using assms(1) by (simp add: resync_def)
  then show ?thesis using that timed_filter(1) [OF assms(2)] by blast
qed

lemma resync_inv:
  assumes inv: "prepared_inv ds t (cb_format inp)" and cur: "current_epoch t = Some c"
    and f: "is_ok (channels (cb_format inp))"
    and fin: "fin = next_frame t + cb_frames inp" "0 < cb_frames inp"
    and now: "is_ok (time_at c (next_frame t))" and e: "resync t inp c = Inr e"
    and src: "time_at e fin = Inr src" and owed: "need_resync t"
  shows "timeline_inv ds (advance (stage_audio (t\<lparr>current_epoch := Some e, ready_epoch := Some e,
     need_resync := False\<rparr>) inp samples e) inp b fin src h)"
proof -
  let ?u = "t\<lparr>current_epoch := Some e, ready_epoch := Some e, need_resync := False\<rparr>"
  let ?t = "advance (stage_audio ?u inp samples e) inp b fin src h"
  let ?a = "\<lparr>audio_epoch = start_id e, audio_start = next_frame t, audio_frames = cb_frames inp,
     audio_samples = samples, audio_format = cb_format inp\<rparr>"
  have i: "core_inv ds t" "idle t" using inv by (simp_all add: prepared_inv_def)
  have tm: "timed (epochs_of (ds @ stream t)) (minimum_source_ns t)"
    using inv cur owed by (simp add: prepared_inv_def del: epochs_of_append)
  obtain offset where n: "next_epoch t (cb_format inp) offset HostGap = Inr e"
    and o: "offset = None \<or> timed (epochs_of (ds @ stream t)) offset"
    using resync_Inr [OF e tm now] by blast
  note ord = next_epoch_ordered [OF i(1) n f _ _ o]
  have base: "frame_base e = next_frame t" "start_format e = cb_format inp"
    using n by (simp_all add: next_epoch_Inr)
  have st: "stream t = pending t" "stream ?t = pending t @ [Epoch e, Audio ?a]"
    using i(2) by (simp_all add: idle_def stream_def)
  have es: "epochs_of (ds @ stream ?t) = epochs_of (ds @ stream t) @ [e]" by (simp add: st)
  have "tiled (ds @ stream t) (counted ds t) (next_frame t)" using i(1) by (simp add: core_inv_def)
  then have "tiled (ds @ pending t @ [Epoch e]) (counted ds t) (next_frame t)"
    using tiled_skip [of "Epoch e" "ds @ pending t" "[]"] by (simp add: st)
  then have "tiled (ds @ stream ?t) (counted ds t) fin"
    using tiled_Audio [of "ds @ pending t @ [Epoch e]" "counted ds t" "next_frame t" ?a] fin
    unfolding st(2) by simp
  moreover have "bound_to None (ds @ stream ?t)"
    using i(1) base by (simp add: core_inv_def st bound_append)
  moreover have "ordered_epochs (epochs_of (ds @ stream ?t))"
    unfolding es using ord(1) cur by simp
  moreover have "current_inv (epochs_of (ds @ stream ?t)) ?t"
    unfolding es using ord(2) cur f base fin by (simp add: current_inv_def del: epochs_of_append)
  ultimately have "core_inv ds ?t" using i(1) by (simp add: core_inv_def counted_def)
  moreover have "timed (epochs_of (ds @ stream ?t)) (minimum_source_ns ?t)"
    unfolding es by (rule timed_advance_last [OF _ _ _ src]) (use tm in \<open>simp_all add: butlast_append\<close>)
  ultimately show ?thesis by (simp add: timeline_inv_def)
qed

section \<open>Every operation\<close>

lemma give_up_inv: "core_inv ds t \<Longrightarrow> idle t \<Longrightarrow> timeline_inv ds (give_up t f s)"
  using core_inv_same [of ds t "give_up t f s"] by (simp add: timeline_inv_def idle_def)

lemma ready_timeline: "ready_inv ds t \<Longrightarrow> timeline_inv ds t"
  by (auto simp: ready_inv_def timeline_inv_def idle_def simp del: epochs_of_append)

lemma timeline_ready: "timeline_inv ds t \<Longrightarrow> is_ok (check_idle t) \<Longrightarrow> ready_inv ds t"
  by (auto simp: ready_inv_def timeline_inv_def idle_def check_idle_def simp del: epochs_of_append
      split: if_splits)

lemma plan_known_inv:
  assumes inv: "ready_inv ds t0" and f: "is_ok (channels (cb_format inp))" and pos: "0 < cb_frames inp"
  shows "timeline_inv ds (snd (plan_known t0 inp samples host pcm slots))"
proof -
  obtain res t where p: "prepare_callback t0 inp = (res, t)" by fastforce
  have g: "core_inv ds t" "idle t" "res = Inr () \<Longrightarrow> prepared_inv ds t (cb_format inp)"
    using prepare_inv [OF inv f p] by simp_all
  note up = give_up_inv [OF g(1,2)]
  show ?thesis
  proof (cases res)
    case (Inl e)
    then show ?thesis using p up by (simp add: plan_known_def)
  next
    case (Inr u)
    then have prep: "prepared_inv ds t (cb_format inp)" using g(3) by simp
    then obtain c where c: "current_epoch t = Some c" by (auto simp: prepared_inv_def is_some_and_def split: option.splits)
    show ?thesis
    proof (cases "checked_add 64 (next_frame t) (cb_frames inp)")
      case None
      then show ?thesis using p Inr up
        by (simp add: plan_known_def del: checked_add_None checked_add_Some)
    next
      case fin: (Some fin)
      then have fin': "fin = next_frame t + cb_frames inp" by simp
      show ?thesis
      proof (cases "time_at c fin")
        case (Inl e)
        then show ?thesis using p \<open>res = Inr u\<close> c fin up
          by (simp add: plan_known_def del: checked_add_None checked_add_Some)
      next
        case src: (Inr src)
        have now: "is_ok (time_at c (next_frame t))"
          by (rule time_at_mono [of c fin]) (use src prepared_current(2) [OF prep c] fin' in auto)
        let ?ok = "samples \<le> pcm \<and> slots_needed t \<le> min slots HAL_DESCRIPTOR_CAPACITY"
        have form: "snd (plan_known t0 inp samples host pcm slots) =
            (if ?ok then (case admit t inp samples c fin src of (Inl e, t') \<Rightarrow> t'
                | (Inr end, t') \<Rightarrow> advance t' inp (same_source_rate t0 inp) fin end host)
             else advance (reject t inp samples c fin) inp (same_source_rate t0 inp) fin src host)"
          using p \<open>res = Inr u\<close> c fin src
          by (simp add: plan_known_def Let_def del: checked_add_None checked_add_Some
              split: prod.splits sum.splits)
        show ?thesis
        proof (cases ?ok)
          case False
          show ?thesis unfolding form if_not_P [OF False] by (rule reject_inv [OF prep c fin' pos src])
        next
          case ok: True
          show ?thesis
          proof (cases "need_resync t")
            case False
            then show ?thesis
              unfolding form using ok accept_inv [OF prep c fin' pos src False] by (simp add: admit_def)
          next
            case True
            obtain now' where now': "time_at c (next_frame t) = Inr now'"
              using now by (auto simp: is_ok_iff)
            show ?thesis
            proof (cases "rbind (resync t inp c) (\<lambda>ep. map_sum id (Pair ep) (time_at ep fin))")
              case (Inl e)
              then show ?thesis unfolding form using ok True now' up by (simp add: admit_def)
            next
              case (Inr x)
              then obtain e src' where e: "resync t inp c = Inr e" "time_at e fin = Inr src'"
                and x: "x = (e, src')"
                by (auto simp: map_sum_Inr)
              show ?thesis
                unfolding form
                using ok True now' e resync_inv [OF prep c f fin' pos now e True]
                by (simp add: admit_def)
            qed
          qed
        qed
      qed
    qed
  qed
qed

end
