(* ===== verification/Carry.thy ===== *)
theory Carry
  imports Prelude Complex_Main
begin

text \<open>
  The contract of converters that divide exactly: each push of an input amount returns a whole count
  and keeps the fraction. However the input is cut into pushes, the counts add up to the rounded-down
  total.
\<close>

primrec push_all :: "('s \<Rightarrow> 'e \<Rightarrow> (nat \<times> 's) option) \<Rightarrow> 's \<Rightarrow> 'e list \<Rightarrow> (nat \<times> 's) option" where
  "push_all push s [] = Some (0, s)"
| "push_all push s (x # xs) =
     (case push s x of
        None \<Rightarrow> None
      | Some (n, s') \<Rightarrow> map_option (\<lambda>(m, s''). (n + m, s'')) (push_all push s' xs))"

lemma of_nat_div_mod:
  "0 < d \<Longrightarrow> of_nat (a div d) + of_nat (a mod d) / of_nat d = (of_nat a / of_nat d :: rat)"
  by (metis add_divide_distrib div_mult_mod_eq nonzero_mult_div_cancel_right of_nat_0_less_iff
      of_nat_add of_nat_mult order_less_irrefl)

locale exact_carry =
  fixes push :: "'s \<Rightarrow> 'e \<Rightarrow> (nat \<times> 's) option"
    and inv :: "'s \<Rightarrow> bool"
    and rest :: "'s \<Rightarrow> rat"
    and amount :: "'e \<Rightarrow> rat"
  assumes push_exact: "inv s \<Longrightarrow> push s x = Some (n, s') \<Longrightarrow>
      inv s' \<and> of_nat n + rest s' = rest s + amount x"
    and rest_range: "inv s \<Longrightarrow> 0 \<le> rest s \<and> rest s < 1"
begin

lemma push_all_exact:
  "inv s \<Longrightarrow> push_all push s xs = Some (n, s') \<Longrightarrow>
     inv s' \<and> of_nat n + rest s' = rest s + (\<Sum>x\<leftarrow>xs. amount x)"
proof (induction xs arbitrary: s n)
  case (Cons x xs)
  obtain k t where k: "push s x = Some (k, t)"
    using Cons.prems(2) by (cases "push s x") auto
  obtain m where m: "push_all push t xs = Some (m, s')" and n: "n = k + m"
    using Cons.prems(2) k by auto
  have t: "inv t" "of_nat k + rest t = rest s + amount x"
    using push_exact [OF Cons.prems(1) k] by auto
  show ?case using Cons.IH [OF t(1) m] t(2) by (simp add: n)
qed simp

lemma push_all_floor:
  assumes "inv s" and "push_all push s xs = Some (n, s')"
  shows "int n = \<lfloor>rest s + (\<Sum>x\<leftarrow>xs. amount x)\<rfloor>"
proof -
  have e: "of_nat n + rest s' = rest s + (\<Sum>x\<leftarrow>xs. amount x)" and i: "inv s'"
    using push_all_exact [OF assms] by auto
  have "\<lfloor>of_nat n + rest s'\<rfloor> = int n"
    using rest_range [OF i] by (simp add: floor_eq_iff)
  then show ?thesis using e by simp
qed

lemma push_all_split:
  assumes "inv s" and "push_all push s xs = Some (n, t)" and "push_all push s ys = Some (m, u)"
    and "(\<Sum>x\<leftarrow>xs. amount x) = (\<Sum>x\<leftarrow>ys. amount x)"
  shows "n = m"
  using push_all_floor [OF assms(1,2)] push_all_floor [OF assms(1,3)] assms(4) by simp

end

end
