(* ===== verification/CaptureProps.thy ===== *)
theory CaptureProps
  imports CapturePlan QualityProps Carry
begin

text \<open>
  What the capture timeline promises: whatever callbacks arrive and however its descriptors are
  drained, the emitted stream tiles the source, binds audio to the announced epochs and orders
  them; an admission yields exactly the slots it reserved; frame mapping is exact.
\<close>

section \<open>Runs of the timeline\<close>

lemma plan_callback_inv:
  assumes "timeline_inv ds t"
  shows "timeline_inv ds (snd (plan_callback t inp pcm slots))"
proof (cases "check_idle t")
  case (Inl e)
  then show ?thesis using assms by (simp add: plan_callback_def)
next
  case (Inr u)
  have ready: "ready_inv ds t" by (rule timeline_ready [OF assms]) (simp add: Inr)
  then have core: "core_inv ds t" "idle t" by (simp_all add: ready_inv_def)
  have up: "timeline_inv ds (give_up t f s)" for f s by (rule give_up_inv [OF core])
  have "core_inv ds (saturate_dropped t)"
    by (rule core_inv_same [OF core(1)]) (auto simp: saturate_dropped_def)
  then have up': "timeline_inv ds (give_up (saturate_dropped t) f s)" for f s
    using core(2) by (intro give_up_inv) (simp_all add: idle_def)
  show ?thesis
  proof (cases "channels (cb_format inp)")
    case (Inl e)
    then show ?thesis using Inr assms up up' by (simp add: plan_callback_def split: option.splits)
  next
    case chans: (Inr n)
    then show ?thesis
      using Inr assms up up' plan_known_inv [OF ready, of inp]
      by (simp add: plan_callback_def split: option.splits sum.splits)
  qed
qed

lemma unknown_format_inv:
  assumes "timeline_inv ds t"
  shows "timeline_inv ds (snd (record_unknown_format_loss t frames samples))"
proof (cases "check_idle t")
  case (Inl e)
  then show ?thesis using assms by (simp add: record_unknown_format_loss_def)
next
  case (Inr u)
  have ready: "ready_inv ds t" by (rule timeline_ready [OF assms]) (simp add: Inr)
  let ?t = "(account_unknown_loss t frames samples)\<lparr>format_needs_binding := True,
      expected_sample := None, expected_host_ns := None, expected_host_remainder := 0\<rparr>"
  have st: "stream (?t\<lparr>stopped := True\<rparr>) = stream t" "stream (?t\<lparr>next_frame := n\<rparr>) = stream t" for n
    by (simp_all add: stream_def)
  have "core_inv ds (?t\<lparr>stopped := True\<rparr>)"
    by (rule core_inv_same [of ds t]) (use ready in \<open>auto simp: ready_inv_def\<close>)
  moreover have "core_inv ds (?t\<lparr>next_frame := next_frame t + frames\<rparr>)"
    by (rule core_inv_counted [of ds t "next_frame t + frames"])
       (use ready in \<open>auto simp: ready_inv_def\<close>)
  ultimately show ?thesis
    using Inr ready
    by (simp add: record_unknown_format_loss_def Let_def timeline_inv_def ready_inv_def idle_def st
        del: epochs_of_append split: option.splits)
qed

lemma emit_inv:
  assumes "timeline_inv ds t" and "ds' @ stream t' = ds @ stream t"
    and "pending_capacity t' = pending_capacity t" "length (pending t') \<le> length (pending t)"
      "current_epoch t' = current_epoch t" "next_frame t' = next_frame t"
      "minimum_source_ns t' = minimum_source_ns t" "need_resync t' = need_resync t"
      "stopped t' = stopped t"
    and "counted ds t \<Longrightarrow> counted ds' t'"
    and "if admission_open t' then ready_audio t' \<noteq> None \<and> \<not> need_resync t'
         else ready_epoch t' = None \<and> ready_audio t' = None"
  shows "timeline_inv ds' t'"
proof -
  have "current_inv es t \<Longrightarrow> current_inv es t'" for es
    using assms(4-8) by (auto simp: current_inv_def split: option.splits)
  then show ?thesis
    using assms tiled_weaken [of "ds @ stream t" "counted ds t" "next_frame t" "counted ds' t'"]
    by (simp add: timeline_inv_def core_inv_def del: epochs_of_append)
qed

lemma pop_queued_inv:
  assumes inv: "timeline_inv ds t" and p: "pop_queued t = (d, t')"
  shows "timeline_inv (ds @ (case d of None \<Rightarrow> [] | Some x \<Rightarrow> [x])) t'"
    and "d = None \<Longrightarrow> t' = t \<and> pending t = [] \<and> acc_overflow t = no_overflow"
    and "admission_open t' = admission_open t"
proof -
  consider (pend) x xs where "pending t = x # xs" "d = Some x" "t' = t\<lparr>pending := xs\<rparr>"
    | (over) "pending t = []" "d = Some (Overflow (acc_overflow t))"
        "t' = t\<lparr>acc_overflow := no_overflow\<rparr>"
    | (none) "pending t = []" "d = None" "t' = t" "acc_overflow t = no_overflow"
    using p by (auto simp: pop_queued_def pop_pending_def pop_overflow_def split: list.splits if_splits)
  then have "timeline_inv (ds @ (case d of None \<Rightarrow> [] | Some x \<Rightarrow> [x])) t'
    \<and> (d = None \<longrightarrow> t' = t \<and> pending t = [] \<and> acc_overflow t = no_overflow)
    \<and> admission_open t' = admission_open t"
  proof cases
    case pend
    have "timeline_inv (ds @ [x]) t'"
      by (rule emit_inv [OF inv])
         (use inv pend in \<open>auto simp: stream_def counted_def timeline_inv_def split: if_splits\<close>)
    then show ?thesis using pend by simp
  next
    case over
    let ?d = "Overflow (acc_overflow t)"
    have upd: "stream (t\<lparr>acc_overflow := v\<rparr>) = stream t" for v by (simp add: stream_def)
    then have st: "stream t' = stream t" using over by simp
    have "tiled ((ds @ [?d]) @ stream t') (counted (ds @ [?d]) t') (next_frame t')"
      using inv over tiled_skip [of ?d ds "stream t"]
      by (simp add: upd timeline_inv_def core_inv_def counted_def counts_loss_def no_overflow_def)
    moreover have "bound_to None ((ds @ [?d]) @ stream t') = bound_to None (ds @ stream t)"
      by (simp add: st bound_append)
    moreover have "epochs_of ((ds @ [?d]) @ stream t') = epochs_of (ds @ stream t)"
      by (simp add: st)
    moreover have "current_inv es t' = current_inv es t" for es
      using over by (simp add: current_inv_def split: option.splits)
    ultimately have "timeline_inv (ds @ [?d]) t'"
      using inv over by (simp add: timeline_inv_def core_inv_def del: epochs_of_append append_assoc)
    then show ?thesis using over by simp
  next
    case none
    then show ?thesis using inv by simp
  qed
  then show "timeline_inv (ds @ (case d of None \<Rightarrow> [] | Some x \<Rightarrow> [x])) t'"
    and "d = None \<Longrightarrow> t' = t \<and> pending t = [] \<and> acc_overflow t = no_overflow"
    and "admission_open t' = admission_open t"
    by blast+
qed

lemma pop_ready_inv:
  assumes inv: "timeline_inv ds t" and p: "pop_ready t = (d, t')"
  shows "timeline_inv (ds @ (case d of None \<Rightarrow> [] | Some x \<Rightarrow> [x])) t'"
proof (cases "admission_open t")
  case False
  then show ?thesis using inv p by (simp add: pop_ready_def)
next
  case open_: True
  obtain q u where q: "pop_queued t = (q, u)" by fastforce
  show ?thesis
  proof (cases q)
    case (Some x)
    then show ?thesis using pop_queued_inv(1) [OF inv q] p q open_ by (auto simp: pop_ready_def)
  next
    case None
    then have u: "u = t" and e: "pending t = []" using pop_queued_inv(2) [OF inv q] by auto
    obtain a where a: "ready_audio t = Some a"
      using inv open_ by (auto simp: timeline_inv_def)
    show ?thesis
    proof (cases "ready_epoch t")
      case (Some ep)
      then have d: "d = Some (Epoch ep)" "t' = t\<lparr>ready_epoch := None\<rparr>"
        using p q None u open_ by (simp_all add: pop_ready_def)
      have "timeline_inv (ds @ [Epoch ep]) t'"
        by (rule emit_inv [OF inv])
           (use inv Some a e d open_ in \<open>auto simp: stream_def counted_def timeline_inv_def\<close>)
      then show ?thesis using d by simp
    next
      case none: None
      then have d: "d = Some (Audio a)" "t' = t\<lparr>ready_audio := None, admission_open := False\<rparr>"
        using p q None u open_ a by (simp_all add: pop_ready_def)
      have "timeline_inv (ds @ [Audio a]) t'"
        by (rule emit_inv [OF inv])
           (use inv none a e d open_ in \<open>auto simp: stream_def counted_def timeline_inv_def\<close>)
      then show ?thesis using d by simp
    qed
  qed
qed

datatype timeline_event =
    PlanCallback callback_input nat nat
  | UnknownFormat u64 u64
  | DrainAdmission
  | DrainTerminal

text \<open>
  One call, on the descriptors emitted so far and the timeline. Draining after the end finishes the
  timeline first, as the terminal iterator can only be had from \<open>finish\<close>.
\<close>

fun timeline_step ::
    "capture_descriptor list \<times> capture_timeline \<Rightarrow> timeline_event
       \<Rightarrow> capture_descriptor list \<times> capture_timeline" where
  "timeline_step (ds, t) (PlanCallback inp pcm slots) = (ds, snd (plan_callback t inp pcm slots))"
| "timeline_step (ds, t) (UnknownFormat frames samples) =
     (ds, snd (record_unknown_format_loss t frames samples))"
| "timeline_step (ds, t) DrainAdmission =
     (case admission_next (admission_open t) t of
        (d, t') \<Rightarrow> (ds @ (case d of None \<Rightarrow> [] | Some x \<Rightarrow> [x]), t'))"
| "timeline_step (ds, t) DrainTerminal =
     (case finish_timeline t of
        (Inl _, t') \<Rightarrow> (ds, t')
      | (Inr _, t') \<Rightarrow>
          (case terminal_next t' of
             (d, t'') \<Rightarrow> (ds @ (case d of None \<Rightarrow> [] | Some x \<Rightarrow> [x]), t'')))"

lemma stop_inv: "timeline_inv ds t \<Longrightarrow> timeline_inv ds (t\<lparr>stopped := True\<rparr>)"
proof -
  assume "timeline_inv ds t"
  moreover have "stream (t\<lparr>stopped := True\<rparr>) = stream t" by (simp add: stream_def)
  moreover have "core_inv ds t \<Longrightarrow> core_inv ds (t\<lparr>stopped := True\<rparr>)"
    by (rule core_inv_same) auto
  ultimately show ?thesis by (simp add: timeline_inv_def)
qed

lemma timeline_step_inv:
  assumes "timeline_inv (fst s) (snd s)"
  shows "timeline_inv (fst (timeline_step s ev)) (snd (timeline_step s ev))"
proof -
  obtain ds t where s: "s = (ds, t)" by fastforce
  have i: "timeline_inv ds t" using assms s by simp
  show ?thesis
  proof (cases ev)
    case (PlanCallback inp pcm slots)
    then show ?thesis using plan_callback_inv [OF i] by (simp add: s)
  next
    case (UnknownFormat f n)
    then show ?thesis using unknown_format_inv [OF i] by (simp add: s)
  next
    case DrainAdmission
    obtain d t' where p: "pop_ready t = (d, t')" by fastforce
    then show ?thesis
      using pop_ready_inv [OF i p] i DrainAdmission
      by (simp add: s admission_next_def)
  next
    case DrainTerminal
    obtain d t' where p: "pop_queued (t\<lparr>stopped := True\<rparr>) = (d, t')" by fastforce
    then show ?thesis
      using pop_queued_inv(1) [OF stop_inv [OF i] p] i DrainTerminal
      by (simp add: s finish_timeline_def terminal_next_def)
  qed
qed

interpretation timeline: component timeline_step "\<lambda>_. True" "\<lambda>(ds, t). timeline_inv ds t"
proof
  fix s ev
  assume "case s of (ds, t) \<Rightarrow> timeline_inv ds t"
  then show "case timeline_step s ev of (ds, t) \<Rightarrow> timeline_inv ds t"
    using timeline_step_inv [of s ev] by (simp add: case_prod_beta)
qed

lemma new_timeline_inv: "new_timeline n = Inr t \<Longrightarrow> timeline_inv [] t"
  by (auto simp: new_timeline_def timeline_inv_def core_inv_def stream_def tiled_def counted_def
      no_overflow_def ordered_epochs_def current_inv_def timed_def split: if_splits)

lemma timeline_run_inv:
  assumes "new_timeline n = Inr t" and "run_from timeline_step ([], t) evs = (ds, t')"
  shows "timeline_inv ds t'"
  using timeline.run_inv [of "([], t)" evs] new_timeline_inv [OF assms(1)] assms(2)
  by (simp add: list_all_iff)

section \<open>Witnesses: a small run\<close>

definition demo_callback :: "u64 \<Rightarrow> callback_input" where
  "demo_callback frames = \<lparr>cb_frames = frames,
     cb_format = \<lparr>generation = 1, format_rate_hz = 48000, format_mic_channels = 1,
       format_tap_channels = 1\<rparr>,
     cb_timestamp = \<lparr>sample_time = Whole 0, sample_time_valid = False, source_offset_ns = 0,
       host_time_valid = False\<rparr>\<rparr>"

definition demo_timeline :: capture_timeline where
  "demo_timeline = \<lparr>pending_capacity = 2, pending = [], acc_overflow = no_overflow,
     current_epoch = None, format_needs_binding = False, next_frame = 0, expected_sample = None,
     expected_host_ns = None, expected_host_remainder = 0, minimum_source_ns = None,
     loss_run_start = None, unknown_loss_run = False, need_resync = False, ready_epoch = None,
     ready_audio = None, admission_open = False, stopped = False,
     dropped = \<lparr>dropped_frames = 0, dropped_samples = 0, dropped_saturated = False\<rparr>\<rparr>"

definition demo_events :: "timeline_event list" where
  "demo_events = [PlanCallback (demo_callback 480) 1000 10, DrainAdmission, DrainAdmission,
     PlanCallback (demo_callback 480) 0 10, DrainTerminal]"

lemma demo_new: "new_timeline 2 = Inr demo_timeline"
  by (simp add: new_timeline_def demo_timeline_def HAL_DESCRIPTOR_CAPACITY_def)

lemma demo_run:
  "map (\<lambda>d. (extent d, epochs_of [d] = [])) (fst (run_from timeline_step ([], demo_timeline) demo_events))
     = [(None, False), (Some (0, 480), True), (Some (480, 960), True)]"
  by (simp add: demo_events_def demo_timeline_def demo_callback_def plan_callback_def check_idle_def
      channels_def checked_add_def next_host_def host_offset_def same_source_rate_def
      plan_known_def prepare_callback_def open_epoch_def next_epoch_def queue_epoch_def
      push_pending_def time_at_def nanos_at_def slots_needed_def no_overflow_def admit_def
      stage_audio_def advance_def sample_frame_def HAL_DESCRIPTOR_CAPACITY_def admission_next_def
      pop_ready_def pop_queued_def pop_pending_def pop_overflow_def sample_delta_def host_delta_def
      change_reason_def reject_def queue_loss_def loss_run_exceeds_cap_def capture_loss_def
      known_time_def MAX_LOSS_FILL_SECONDS_def count_dropped_def sat_count_def finish_timeline_def
      terminal_next_def checked_mul_def checked_sub_def Let_def)

section \<open>The stream\<close>

lemma tiled_prefix: "tiled (xs @ ys) c n \<Longrightarrow> is_some_and (reach False 0 xs) (\<lambda>q. q \<le> n)"
  using reach_mono [of False _ ys]
  by (auto simp: tiled_def reach_append is_some_and_def split: option.splits intro: le_trans)

text \<open>C8. No source frame is described twice, and none is lost silently. Whatever sequence of
  callbacks, unknown formats, drains and finishes a timeline sees, the audio and loss intervals it
  emits are non-empty, in order, disjoint and inside the source counted so far; and once everything
  is drained, unless some emitted overflow summary says that source spans were omitted, they tile
  the source from frame zero to the last one without a gap.\<close>

theorem stream_tiles_source:
  assumes "new_timeline n = Inr t" and "run_from timeline_step ([], t) evs = (ds, t')"
  shows "is_some_and (reach False 0 ds) (\<lambda>q. q \<le> next_frame t')
    \<and> (if stream t' = [] \<and> acc_overflow t' = no_overflow \<and> \<not> list_ex counts_loss ds
       then reach True 0 ds = Some (next_frame t') else True)"
proof -
  have "tiled (ds @ stream t') (counted ds t') (next_frame t')"
    using timeline_run_inv [OF assms] by (simp add: timeline_inv_def core_inv_def)
  then show ?thesis
    using tiled_prefix [of ds "stream t'"]
    by (auto simp: tiled_def counted_def no_overflow_def)
qed

theorem stream_tiles_source_witness:
  "is_some_and (reach False 0 (fst (run_from timeline_step ([], demo_timeline) demo_events)))
     (\<lambda>q. q \<le> next_frame (snd (run_from timeline_step ([], demo_timeline) demo_events)))"
  using stream_tiles_source [OF demo_new, of demo_events] by (metis prod.collapse)

text \<open>C9. Audio is always interpretable: every emitted audio block carries the id and the format of
  the epoch emitted last before it, whose first source frame is not after the block's.\<close>

theorem audio_bound_to_epoch:
  assumes "new_timeline n = Inr t" and "run_from timeline_step ([], t) evs = (ds, t')"
  shows "bound_to None ds"
proof -
  have "bound_to None (ds @ stream t')"
    using timeline_run_inv [OF assms] by (simp add: timeline_inv_def core_inv_def)
  then show ?thesis by (simp add: bound_append)
qed

theorem audio_bound_to_epoch_witness:
  "bound_to None (fst (run_from timeline_step ([], demo_timeline) demo_events))"
  using audio_bound_to_epoch [OF demo_new, of demo_events] by (metis prod.collapse)

text \<open>The writer's mapping: every emitted epoch gets a retained base, at one retained rate.\<close>

fun retained_epochs :: "epoch_start list \<Rightarrow> u64 list \<Rightarrow> u32 \<Rightarrow> accounting_error + capture_epoch list"
where
  "retained_epochs (e # es) (b # bs) rate =
     rbind (with_retained_base e b rate) (\<lambda>c. map_sum id (Cons c) (retained_epochs es bs rate))"
| "retained_epochs _ _ rate = Inr []"

definition last_known :: "nat option \<Rightarrow> epoch_start \<Rightarrow> bool" where
  "last_known l e \<longleftrightarrow> is_none_or (opt_zip l (start_ns e)) (\<lambda>(x, y). x \<le> y)"

lemma channels_ok_iff: "is_ok (channels f) \<longleftrightarrow> format_rate_hz f \<noteq> 0
    \<and> is_some_and (checked_add 32 (format_mic_channels f) (format_tap_channels f)) (\<lambda>c. c \<noteq> 0)"
  by (auto simp: channels_def checked_add_def is_some_and_def)

lemma with_retained_ok:
  assumes "with_retained_base e b rate = Inr c"
  shows "is_ok (validate_epoch c)" and "epoch_id c = start_id e" and "reason c = start_reason e"
    and "source_start_ns c = start_ns e" and "retained_start_frame c = b" and "retained_rate_hz c = rate"
proof -
  have "is_ok (channels (start_format e))" using assms by (auto simp: with_retained_base_def)
  then show "is_ok (validate_epoch c)"
    using assms unfolding channels_ok_iff
    by (auto simp: with_retained_base_def validate_epoch_def is_none_or_def is_some_and_def
        split: option.splits if_splits)
qed (use assms in \<open>auto simp: with_retained_base_def split: if_splits\<close>)

lemma validate_retained:
  assumes "retained_epochs es bs rate = Inr cs" and "length bs = length es" and "sorted bs"
    and "sorted_wrt epoch_before es"
    and "case prev of
           None \<Rightarrow> es = [] \<or> start_reason (hd es) = EpochStarted
         | Some p \<Rightarrow> (\<forall>e \<in> set es. epoch_id p < start_id e \<and> start_reason e \<noteq> EpochStarted)
             \<and> retained_rate_hz p = rate \<and> (\<forall>b \<in> set bs. retained_start_frame p \<le> b)"
    and "\<forall>e \<in> set es. last_known l e"
  shows "is_ok (validate_epochs_from prev l cs)"
  using assms
proof (induction es bs rate arbitrary: cs prev l rule: retained_epochs.induct)
  case (1 e es b bs rate)
  obtain c cs' where c: "with_retained_base e b rate = Inr c"
    and rest: "retained_epochs es bs rate = Inr cs'" and cs: "cs = c # cs'"
    using "1.prems"(1) by (auto simp: map_sum_Inr)
  note w = with_retained_ok [OF c]
  have pair: "is_ok (case prev of
        None \<Rightarrow> if reason c \<noteq> EpochStarted then Inl InvalidEpochOrder else Inr ()
      | Some p \<Rightarrow> validate_epoch_pair p c)"
    using "1.prems"(5) w by (auto simp: validate_epoch_pair_def split: option.splits)
  have next_ok: "case Some c of
        None \<Rightarrow> es = [] \<or> start_reason (hd es) = EpochStarted
      | Some p \<Rightarrow> (\<forall>e \<in> set es. epoch_id p < start_id e \<and> start_reason e \<noteq> EpochStarted)
          \<and> retained_rate_hz p = rate \<and> (\<forall>b \<in> set bs. retained_start_frame p \<le> b)"
    using "1.prems"(3,4) w by (auto simp: epoch_before_def)
  have sub: "length bs = length es" "sorted bs" "sorted_wrt epoch_before es"
    using "1.prems"(2-4) by auto
  have rec: "is_ok (validate_epochs_from (Some c) l' cs')" if "\<forall>e \<in> set es. last_known l' e" for l'
    by (rule "1.IH" [OF rest sub next_ok that])
  show ?case
  proof (cases "start_ns e")
    case None
    then show ?thesis using w pair rec [of l] "1.prems"(6) by (simp add: cs)
  next
    case (Some off)
    have "\<forall>e' \<in> set es. last_known (Some off) e'"
      using "1.prems"(4) Some by (auto simp: epoch_before_def last_known_def is_none_or_def
          split: option.splits)
    moreover have "\<not> is_some_and l (\<lambda>x. off < x)"
      using "1.prems"(6) Some by (cases l) (auto simp: last_known_def)
    ultimately show ?thesis using w pair rec [of "Some off"] Some by (simp add: cs)
  qed
qed auto

lemma retained_epochs_ok:
  "list_all (\<lambda>e. is_ok (channels (start_format e))) es \<Longrightarrow> rate \<noteq> 0 \<Longrightarrow>
     is_ok (retained_epochs es bs rate)"
proof (induction es bs rate rule: retained_epochs.induct)
  case (1 e es b bs rate)
  then show ?case
    by (auto simp: with_retained_base_def is_ok_iff map_sum_Inr)
qed auto

text \<open>The epochs a timeline emits are fit for the quality record: whatever the run, once the
  writer gives them non-decreasing retained positions at one retained rate, they pass the record's
  epoch validation (first one a start, ids increasing, known source offsets never going back).\<close>

theorem emitted_epochs_valid:
  assumes "new_timeline n = Inr t" and "run_from timeline_step ([], t) evs = (ds, t')"
    and "length bases = length (epochs_of ds)" and "sorted bases" and "rate \<noteq> 0"
  shows "case retained_epochs (epochs_of ds) bases rate of
     Inl _ \<Rightarrow> False | Inr cs \<Rightarrow> is_ok (validate_epochs cs)"
proof -
  have "ordered_epochs (epochs_of (ds @ stream t'))"
    using timeline_run_inv [OF assms(1,2)] by (simp add: timeline_inv_def core_inv_def)
  then have o: "ordered_epochs (epochs_of ds)"
    by (cases "epochs_of ds") (auto simp: ordered_epochs_def sorted_wrt_append)
  then obtain cs where cs: "retained_epochs (epochs_of ds) bases rate = Inr cs"
    using retained_epochs_ok [of "epochs_of ds" rate bases] assms(5)
    by (auto simp: ordered_epochs_def is_ok_iff)
  have "is_ok (validate_epochs_from None None cs)"
    by (rule validate_retained [OF cs assms(3,4)])
       (use o in \<open>auto simp: ordered_epochs_def last_known_def\<close>)
  then show ?thesis by (simp add: cs validate_epochs_def)
qed

theorem emitted_epochs_valid_witness:
  "case retained_epochs (epochs_of (fst (run_from timeline_step ([], demo_timeline) demo_events)))
       (replicate (length (epochs_of (fst (run_from timeline_step ([], demo_timeline) demo_events)))) 0)
       48000 of
     Inl _ \<Rightarrow> False | Inr cs \<Rightarrow> is_ok (validate_epochs cs)"
  by (rule emitted_epochs_valid [OF demo_new prod.collapse [symmetric]]) simp_all

section \<open>Admission\<close>

text \<open>Calling \<open>next\<close> on an accepted admission a number of times.\<close>

fun drain :: "nat \<Rightarrow> capture_timeline \<Rightarrow> capture_descriptor list \<times> capture_timeline" where
  "drain 0 t = ([], t)"
| "drain (Suc n) t =
     (case admission_next True t of
        (None, t') \<Rightarrow> ([], t')
      | (Some d, t') \<Rightarrow> (case drain n t' of (ds, t'') \<Rightarrow> (d # ds, t'')))"

definition staged :: "capture_timeline \<Rightarrow> capture_descriptor list" where
  "staged t = pending t @ (if acc_overflow t = no_overflow then [] else [Overflow (acc_overflow t)])
     @ (case ready_epoch t of None \<Rightarrow> [] | Some e \<Rightarrow> [Epoch e])
     @ (case ready_audio t of None \<Rightarrow> [] | Some a \<Rightarrow> [Audio a])"

definition emptied :: "capture_timeline \<Rightarrow> capture_timeline" where
  "emptied t = t\<lparr>pending := [], acc_overflow := no_overflow, ready_epoch := None,
     ready_audio := None, admission_open := False\<rparr>"

lemma drain_staged:
  assumes "admission_open t" and "ready_audio t = Some a"
  shows "drain (length (staged t)) t = (staged t, emptied t)"
  using assms
proof (induction "pending t" arbitrary: t)
  case Nil
  then show ?case
    by (cases "acc_overflow t = no_overflow"; cases "ready_epoch t")
       (simp_all add: staged_def emptied_def admission_next_def pop_ready_def pop_queued_def
          pop_pending_def pop_overflow_def)
next
  case (Cons d ds)
  let ?t = "t\<lparr>pending := ds\<rparr>"
  have p: "pending t = d # ds" using Cons.hyps(2) by simp
  have "drain (length (staged ?t)) ?t = (staged ?t, emptied ?t)"
    using Cons.hyps(1) [of ?t] Cons.prems by simp
  moreover have "staged t = d # staged ?t" "emptied t = emptied ?t"
    using p by (simp_all add: staged_def emptied_def)
  ultimately show ?case
    using Cons.prems p
    by (simp add: admission_next_def pop_ready_def pop_queued_def pop_pending_def)
qed

lemma plan_known_Inr:
  assumes "plan_known t0 inp samples host pcm slots = (Inr adm, t')"
  obtains t c fin src where "prepare_callback t0 inp = (Inr (), t)" "current_epoch t = Some c"
    "fin = next_frame t + cb_frames inp" "time_at c fin = Inr src" "pcm_samples adm = samples"
    "if accepted adm
     then samples \<le> pcm \<and> slots_needed t \<le> slots \<and> slots_needed t \<le> HAL_DESCRIPTOR_CAPACITY
       \<and> descriptor_slots adm = slots_needed t
       \<and> (\<exists>end u. admit t inp samples c fin src = (Inr end, u)
            \<and> t' = advance u inp (same_source_rate t0 inp) fin end host)
     else descriptor_slots adm = 0
       \<and> \<not> (samples \<le> pcm \<and> slots_needed t \<le> slots \<and> slots_needed t \<le> HAL_DESCRIPTOR_CAPACITY)
       \<and> t' = advance (reject t inp samples c fin) inp (same_source_rate t0 inp) fin src host"
proof -
  obtain res t where p: "prepare_callback t0 inp = (res, t)" by fastforce
  note d = checked_add_None checked_add_Some
  obtain u where u: "res = Inr u" using assms p by (cases res) (auto simp: plan_known_def)
  obtain fin where fin: "checked_add 64 (next_frame t) (cb_frames inp) = Some fin"
    using assms p u by (cases "checked_add 64 (next_frame t) (cb_frames inp)")
      (auto simp: plan_known_def simp del: d)
  obtain c where c: "current_epoch t = Some c"
    using assms p u fin by (cases "current_epoch t") (auto simp: plan_known_def simp del: d)
  obtain src where src: "time_at c fin = Inr src"
    using assms p u fin c by (cases "time_at c fin") (auto simp: plan_known_def simp del: d)
  let ?ok = "samples \<le> pcm \<and> slots_needed t \<le> min slots HAL_DESCRIPTOR_CAPACITY"
  have fin': "fin = next_frame t + cb_frames inp" using fin by simp
  have e: "(if ?ok
      then (case admit t inp samples c fin src of
              (Inl e, t') \<Rightarrow> (Inl e, t')
            | (Inr end, t') \<Rightarrow>
                (Inr \<lparr>accepted = ?ok, pcm_samples = samples,
                   descriptor_slots = (if ?ok then slots_needed t else 0)\<rparr>,
                 advance t' inp (same_source_rate t0 inp) fin end host))
      else (Inr \<lparr>accepted = ?ok, pcm_samples = samples,
              descriptor_slots = (if ?ok then slots_needed t else 0)\<rparr>,
            advance (reject t inp samples c fin) inp (same_source_rate t0 inp) fin src host))
      = (Inr adm, t')"
    using assms p u fin c src unfolding plan_known_def Let_def by (simp del: d)
  show ?thesis
  proof (cases ?ok)
    case True
    then obtain end' v where ad: "admit t inp samples c fin src = (Inr end', v)"
      using e by (auto split: prod.splits sum.splits)
    then show ?thesis
      using that [OF _ c fin' src] p u e True by auto
  next
    case False
    then show ?thesis using that [OF _ c fin' src] p u e by auto
  qed
qed

lemma plan_known_accepted:
  assumes p: "plan_known t0 inp samples host pcm slots = (Inr adm, t')" and "accepted adm"
    and inv: "ready_inv ds t0" and f: "is_ok (channels (cb_format inp))"
  shows "admission_open t' \<and> length (staged t') = descriptor_slots adm
    \<and> pcm_samples adm = samples \<and> samples \<le> pcm \<and> descriptor_slots adm \<le> slots
    \<and> (\<exists>a. ready_audio t' = Some a \<and> audio_frames a = cb_frames inp \<and> audio_samples a = samples
          \<and> audio_format a = cb_format inp)"
  using p
proof (cases rule: plan_known_Inr)
  case (1 t c fin src)
  have idle: "idle t" using prepare_inv [OF inv f 1(1)] by simp
  obtain end' u where ad: "admit t inp samples c fin src = (Inr end', u)"
    and t': "t' = advance u inp (same_source_rate t0 inp) fin end' host"
    using 1(6) assms(2) by auto
  have "pending u = pending t" "acc_overflow u = acc_overflow t" "admission_open u"
    "(ready_epoch u \<noteq> None) = need_resync t"
    "\<exists>a. ready_audio u = Some a \<and> audio_frames a = cb_frames inp \<and> audio_samples a = samples
       \<and> audio_format a = cb_format inp"
    using ad idle
    by (auto simp: admit_def idle_def split: if_splits sum.splits prod.splits)
  then show ?thesis
    using 1(5,6) assms(2) by (auto simp: t' staged_def slots_needed_def)
qed

lemma rejected_idle:
  assumes p: "plan_known t0 inp samples host pcm slots = (Inr adm, t')" and "\<not> accepted adm"
    and inv: "ready_inv ds t0" and f: "is_ok (channels (cb_format inp))"
  shows "\<not> admission_open t' \<and> descriptor_slots adm = 0 \<and> pcm_samples adm = samples"
  using p
proof (cases rule: plan_known_Inr)
  case (1 t c fin src)
  have "idle t" using prepare_inv [OF inv f 1(1)] by simp
  then show ?thesis using 1(5,6) assms(2) by (simp add: reject_def idle_def)
qed

lemma plan_callback_Inr:
  assumes "plan_callback t inp pcm slots = (Inr adm, t')"
  obtains n samples host where "is_ok (check_idle t)" "channels (cb_format inp) = Inr n"
    "samples = cb_frames inp * n" "0 < cb_frames inp"
    "plan_known t inp samples host pcm slots = (Inr adm, t')"
proof -
  obtain u where u: "check_idle t = Inr u"
    using assms by (cases "check_idle t") (auto simp: plan_callback_def)
  have pos: "0 < cb_frames inp" using assms u by (auto simp: plan_callback_def split: if_splits)
  obtain n where n: "channels (cb_format inp) = Inr n"
    using assms u pos by (cases "channels (cb_format inp)")
      (auto simp: plan_callback_def split: option.splits)
  obtain samples where s: "checked_mul 64 (cb_frames inp) n = Some samples"
    using assms u pos n by (cases "checked_mul 64 (cb_frames inp) n")
      (auto simp: plan_callback_def simp del: checked_mul_None checked_mul_Some)
  obtain host where h: "next_host t inp = Inr host"
    using assms u pos n s by (cases "next_host t inp")
      (auto simp: plan_callback_def simp del: checked_mul_None checked_mul_Some)
  have "plan_known t inp samples host pcm slots = (Inr adm, t')"
    using assms u pos n s h by (simp add: plan_callback_def del: checked_mul_None checked_mul_Some)
  then show ?thesis using that u n s pos by simp
qed

text \<open>An admission is exact. For every timeline reached by a run, an accepted callback needs no
  more PCM samples and descriptor slots than were available, and calling \<open>next\<close> exactly
  \<open>descriptor_slots\<close> times yields that many descriptors, the last one the callback's own audio block,
  and leaves the timeline empty and ready for the next callback. A rejected callback reserves no
  slot and leaves no admission open.\<close>

theorem admission_exact:
  assumes "new_timeline n = Inr t0" and "run_from timeline_step ([], t0) evs = (ds, t)"
    and "plan_callback t inp pcm slots = (Inr adm, t')"
  shows "if accepted adm
     then pcm_samples adm \<le> pcm \<and> descriptor_slots adm \<le> slots
       \<and> (case drain (descriptor_slots adm) t' of (out, t'') \<Rightarrow>
            length out = descriptor_slots adm
            \<and> (\<exists>a. last out = Audio a \<and> audio_frames a = cb_frames inp
                  \<and> audio_samples a = pcm_samples adm \<and> audio_format a = cb_format inp)
            \<and> stream t'' = [] \<and> acc_overflow t'' = no_overflow \<and> \<not> admission_open t'')
     else descriptor_slots adm = 0 \<and> \<not> admission_open t'"
  using assms(3)
proof (cases rule: plan_callback_Inr)
  case (1 k samples host)
  have inv: "ready_inv ds t"
    by (rule timeline_ready [OF timeline_run_inv [OF assms(1,2)] 1(1)])
  have f: "is_ok (channels (cb_format inp))" using 1(2) by simp
  show ?thesis
  proof (cases "accepted adm")
    case True
    note a = plan_known_accepted [OF 1(5) True inv f]
    then obtain b where b: "ready_audio t' = Some b" "audio_frames b = cb_frames inp"
      "audio_samples b = samples" "audio_format b = cb_format inp" by blast
    have d: "drain (descriptor_slots adm) t' = (staged t', emptied t')"
      using drain_staged [of t' b] a b by simp
    have "last (staged t') = Audio b" using b by (simp add: staged_def)
    then show ?thesis
      using True a b by (simp add: d stream_def) (simp add: emptied_def)
  next
    case False
    then show ?thesis using rejected_idle [OF 1(5) False inv f] by simp
  qed
qed

lemma demo_plan:
  "plan_callback demo_timeline (demo_callback 480) 1000 10
     = (Inr \<lparr>accepted = True, pcm_samples = 960, descriptor_slots = 2\<rparr>,
        snd (plan_callback demo_timeline (demo_callback 480) 1000 10))"
  by (simp add: demo_timeline_def demo_callback_def plan_callback_def check_idle_def
      channels_def checked_add_def next_host_def host_offset_def same_source_rate_def
      plan_known_def prepare_callback_def open_epoch_def next_epoch_def queue_epoch_def
      push_pending_def time_at_def nanos_at_def slots_needed_def no_overflow_def admit_def
      HAL_DESCRIPTOR_CAPACITY_def checked_mul_def checked_sub_def Let_def)

theorem admission_exact_witness:
  "case drain 2 (snd (plan_callback demo_timeline (demo_callback 480) 1000 10)) of
     (out, t'') \<Rightarrow> length out = 2 \<and> stream t'' = []"
  using admission_exact [OF demo_new _ demo_plan, of "[]" "[]"] by (simp add: case_prod_beta)

section \<open>The overflow summary reaches the record\<close>

text \<open>What the timeline could not describe stays visible in the persisted record: applying an
  overflow summary keeps the record well-formed; a summary with omitted source spans leaves the source
  incomplete, and any non-empty summary leaves it short of complete.\<close>

theorem overflow_reaches_record:
  assumes "well_formed r" and "fits64 (acc_omitted_epochs ov)" and "apply_to ov r = (res, r')"
  shows "res = Inr () \<and> well_formed r'
    \<and> (if 0 < acc_omitted_spans ov then source_completeness r' = Incomplete else True)
    \<and> (if ov \<noteq> no_overflow then source_completeness r' \<noteq> Complete else True)"
proof -
  let ?q = "omit_span_own (overflow r) SourceLoss Outstanding (acc_omitted_spans ov)"
  let ?r1 = "r\<lparr>overflow := ?q\<rparr>"
  let ?r2 = "record_omitted_epochs ?r1 (acc_omitted_epochs ov)"
  obtain u where u: "validate r = Inr u" using assms(1) by (auto simp: well_formed_def is_ok_iff)
  have r1: "record_omitted_spans r SourceLoss Outstanding (acc_omitted_spans ov) = (Inr (), ?r1)"
    by (simp add: record_omitted_spans_def u validate_resolution_def)
  have r': "r' = ?r2\<lparr>overflow := (overflow ?r2)\<lparr>counter_saturated :=
      counter_saturated (overflow ?r2) \<or> acc_saturated ov\<rparr>\<rparr>" and res: "res = Inr ()"
    using assms(3) by (simp_all add: apply_to_def r1 Let_def)
  have w1: "well_formed ?r1" using wf_record_omitted_spans [OF assms(1), of SourceLoss Outstanding] r1
    by (metis snd_conv)
  have w2: "well_formed ?r2" by (rule wf_record_omitted_epochs [OF w1])
  have w: "well_formed r'"
    using w2 by (simp add: r' well_formed_def valid_iff record_fits_def overflow_fits_def
        overflow_consistent_def activity_counted_def)
  have loss: "source_completeness r' = Incomplete" if "0 < acc_omitted_spans ov"
  proof -
    have "has_loss ?r1 SourceLoss"
      using omit_span_own_counts [OF that, of "overflow r" SourceLoss Outstanding]
      by (simp add: has_loss_def any_loss_def)
    then have "has_loss r' SourceLoss"
      by (simp add: r' has_loss_def any_loss_def record_omitted_epochs_def split: prod.splits)
    then show ?thesis using w by (simp add: wf_incomplete)
  qed
  have "source_completeness r' \<noteq> Complete" if "ov \<noteq> no_overflow"
  proof (cases "0 < acc_omitted_spans ov")
    case True
    then show ?thesis using loss by simp
  next
    case False
    then have "0 < acc_omitted_epochs ov \<or> acc_saturated ov"
      using that by (cases ov) (auto simp: no_overflow_def)
    then have "omitted_epochs (overflow r') \<noteq> 0 \<or> counter_saturated (overflow r')"
      using sat_count_pos [of "acc_omitted_epochs ov" "omitted_epochs (overflow ?r1)"
          "counter_saturated (overflow ?r1)"]
      by (auto simp: r' record_omitted_epochs_def split_beta)
    then show ?thesis by (auto simp: source_completeness_def)
  qed
  then show ?thesis using res w loss by simp
qed

theorem overflow_reaches_record_witness:
  "source_completeness (snd (apply_to \<lparr>acc_omitted_epochs = 0, acc_omitted_spans = 2,
     acc_saturated = False\<rparr> observed_record)) = Incomplete"
  using overflow_reaches_record [OF well_formed_observed _ prod.collapse [symmetric],
      of "\<lparr>acc_omitted_epochs = 0, acc_omitted_spans = 2, acc_saturated = False\<rparr>"]
  by simp

section \<open>Frame mapping\<close>

definition mapper_push :: "frame_mapper \<Rightarrow> u64 \<Rightarrow> (nat \<times> frame_mapper) option" where
  "mapper_push m frames =
     (case push_frames m frames of (Inr n, m') \<Rightarrow> Some (n, m') | (Inl _, _) \<Rightarrow> None)"

definition mapper_inv :: "u32 \<Rightarrow> u32 \<Rightarrow> frame_mapper \<Rightarrow> bool" where
  "mapper_inv src ret m \<longleftrightarrow> 0 < src \<and> mapper_source_rate m = src \<and> mapper_retained_rate m = ret
     \<and> mapper_remainder m < src"

lemma push_frames_Inr:
  assumes "push_frames m frames = (Inr n, m')"
  shows "n = (frames * mapper_retained_rate m + mapper_remainder m) div mapper_source_rate m"
    and "m' = m\<lparr>mapped_source := mapped_source m + frames, mapped_retained := mapped_retained m + n,
          mapper_remainder :=
            (frames * mapper_retained_rate m + mapper_remainder m) mod mapper_source_rate m\<rparr>"
  using assms by (auto simp: push_frames_def Let_def split: sum.splits prod.splits)

interpretation mapper: exact_carry mapper_push "mapper_inv src ret"
    "\<lambda>m. of_nat (mapper_remainder m) / of_nat src" "\<lambda>f. of_nat f * of_nat ret / of_nat src"
  for src ret
proof
  fix m x n m'
  assume m: "mapper_inv src ret m" and p: "mapper_push m x = Some (n, m')"
  then have "push_frames m x = (Inr n, m')"
    by (auto simp: mapper_push_def split: sum.splits prod.splits)
  note f = push_frames_Inr [OF this]
  have i: "mapper_inv src ret m'" using m f(2) by (auto simp: mapper_inv_def)
  have "of_nat n + of_nat (mapper_remainder m') / of_nat src
      = (of_nat (x * ret + mapper_remainder m) / of_nat src :: rat)"
    using m f of_nat_div_mod [of src "x * ret + mapper_remainder m"] by (simp add: mapper_inv_def)
  then show "mapper_inv src ret m' \<and> of_nat n + of_nat (mapper_remainder m') / of_nat src
      = of_nat (mapper_remainder m) / of_nat src + of_nat x * of_nat ret / (of_nat src :: rat)"
    using i by (simp add: add_divide_distrib)
next
  fix m
  assume "mapper_inv src ret m"
  then show "0 \<le> (of_nat (mapper_remainder m) / of_nat src :: rat)
      \<and> of_nat (mapper_remainder m) / of_nat src < (1 :: rat)"
    by (simp add: mapper_inv_def)
qed

text \<open>The frame mapper is exact: however a stretch of source frames is cut into pushes, the
  retained frames they return add up to the rounded-down product of the whole stretch with the ratio
  of the rates, with no drift.\<close>

theorem frame_mapper_exact:
  assumes "new_mapper src ret = Inr m" and "push_all mapper_push m xs = Some (n, m')"
  shows "n = sum_list xs * ret div src"
proof -
  have i: "mapper_inv src ret m" and z: "mapper_remainder m = 0"
    using assms(1) by (auto simp: new_mapper_def mapper_inv_def split: if_splits)
  have "(\<Sum>x\<leftarrow>xs. of_nat x * of_nat ret / of_nat src) = (of_nat (sum_list xs * ret) / of_nat src :: rat)"
    by (induction xs) (simp_all add: add_divide_distrib distrib_right)
  then have "int n = \<lfloor>of_nat (sum_list xs * ret) / (of_nat src :: rat)\<rfloor>"
    using mapper.push_all_floor [OF i assms(2)] z by simp
  then show ?thesis by (metis floor_divide_of_nat_eq of_nat_eq_iff)
qed

lemma demo_push:
  "\<exists>n m'. push_all mapper_push \<lparr>mapper_source_rate = 44100, mapper_retained_rate = 16000,
     mapper_remainder = 0, mapped_source = 0, mapped_retained = 0\<rparr> [441, 1, 999] = Some (n, m')"
  by (simp add: mapper_push_def push_frames_def Let_def checked_add_def try_from_def)

theorem frame_mapper_exact_witness:
  "map_option fst (push_all mapper_push \<lparr>mapper_source_rate = 44100,
     mapper_retained_rate = 16000, mapper_remainder = 0, mapped_source = 0, mapped_retained = 0\<rparr>
     [441, 1, 999]) = Some 522"
proof -
  obtain n m' where p: "push_all mapper_push \<lparr>mapper_source_rate = 44100,
      mapper_retained_rate = 16000, mapper_remainder = 0, mapped_source = 0, mapped_retained = 0\<rparr>
      [441, 1, 999] = Some (n, m')"
    using demo_push by blast
  have "n = sum_list [441, 1, 999] * 16000 div 44100"
    by (rule frame_mapper_exact [OF _ p]) (simp add: new_mapper_def)
  then show ?thesis unfolding p by simp
qed

end
