(* ===== verification/BoundaryPolicy.thy ===== *)
theory BoundaryPolicy
  imports Prelude
begin

text \<open>
  The window-boundary policy of \<open>crates/corti-transcribe/src/boundary.rs\<close>: a deterministic,
  fixed-size policy that decides how many source frames a live window may still admit and where it
  ends. A duration is a number of nanoseconds; the array of two tracks is a pair.
\<close>

section \<open>Observations and decisions\<close>

definition MAX_ADMISSION_FRAMES :: u64 where "MAX_ADMISSION_FRAMES = 4096"
definition MAX_SPEECH_AND_SLACK :: nat where "MAX_SPEECH_AND_SLACK = 21 * 10 ^ 9"

datatype boundary_error =
    UnsupportedRate | EmptyWindow | BoundaryOverflow | InvalidObservation | EmptyTextCut

record source_interval =
  first :: u64
  final :: u64

datatype track_boundary =
    NeverPresent
  | Established (track_start: u64) (delivered_through: u64) (natural: "source_interval option")

fun validate_track :: "track_boundary \<Rightarrow> u64 \<Rightarrow> boundary_error + unit" where
  "validate_track NeverPresent received = Inr ()"
| "validate_track (Established start delivered own) received =
     (if delivered < start \<or> received < delivered \<or> is_some_and own (\<lambda>r. final r < first r)
      then Inl InvalidObservation else Inr ())"

fun covers :: "track_boundary \<Rightarrow> u64 \<Rightarrow> bool" where
  "covers NeverPresent frame = True"
| "covers (Established start delivered own) frame \<longleftrightarrow> frame \<le> start \<or> frame \<le> delivered"

datatype force_reason = Deadline | TextCap
datatype boundary_kind = Natural | Forced force_reason

record boundary_fence =
  fence_frame :: u64
  fence_kind :: boundary_kind

datatype boundary_step =
    Admit (admit_frames: u64)
  | Selected (fence: boundary_fence) (delivery_complete: bool) (reset_for_maintenance: bool)

record observation =
  received_through :: u64
  tracks :: "track_boundary \<times> track_boundary"
  text_full :: bool
  obs_maintenance :: bool

record boundary_policy =
  window_start :: u64
  nominal_end :: u64
  deferral_frames :: u64
  due_frame :: "u64 option"
  selected :: "boundary_fence option"
  maintenance_armed :: bool

text \<open>\<open>Duration::checked_add\<close> fails when the seconds leave \<open>u64\<close>.\<close>

definition duration_add :: "nat \<Rightarrow> nat \<Rightarrow> nat option" where
  "duration_add a b = (if a + b < 2 ^ 64 * 10 ^ 9 then Some (a + b) else None)"

definition new_policy :: "u64 \<Rightarrow> u64 \<Rightarrow> nat \<Rightarrow> nat \<Rightarrow> boundary_error + boundary_policy" where
  "new_policy start nominal rate min_silence =
     (if \<not> (8000 \<le> rate \<and> rate \<le> 192000) then Inl UnsupportedRate
      else if nominal = 0 then Inl EmptyWindow
      else rbind (ok_or (duration_add min_silence MAX_SPEECH_AND_SLACK) BoundaryOverflow) (\<lambda>nanos.
           rbind (ok_or (checked_mul 128 nanos rate) BoundaryOverflow) (\<lambda>product.
           rbind (ok_or (try_from 64 (div_ceil product 1000000000)) BoundaryOverflow) (\<lambda>deferral.
           rbind (ok_or (checked_add 64 start nominal) BoundaryOverflow) (\<lambda>fin.
           rbind (ok_or (checked_add 64 fin deferral) BoundaryOverflow) (\<lambda>_.
             Inr \<lparr>window_start = start, nominal_end = fin, deferral_frames = deferral,
               due_frame = None, selected = None, maintenance_armed = False\<rparr>))))))"

definition maximum_owned_frames :: "boundary_policy \<Rightarrow> u64" where
  "maximum_owned_frames p = nominal_end p - window_start p + deferral_frames p"

section \<open>Choosing a cut\<close>

text \<open>One track of the loop: the running range is narrowed, or the search ends.\<close>

fun narrow :: "track_boundary \<Rightarrow> u64 \<times> u64 \<Rightarrow> (u64 \<times> u64) option" where
  "narrow NeverPresent (a, b) = Some (a, b)"
| "narrow (Established start delivered None) (a, b) = None"
| "narrow (Established start delivered (Some r)) (a, b) =
     Some (max (max a start) (first r), min (min b delivered) (final r))"

definition common_natural_cut ::
    "u64 \<Rightarrow> u64 \<Rightarrow> u64 \<Rightarrow> track_boundary \<times> track_boundary \<Rightarrow> u64 option" where
  "common_natural_cut start due received ts =
     (case checked_add 64 start 1 of
        None \<Rightarrow> None
      | Some after \<Rightarrow>
          (case narrow (fst ts) (max due after, received) of
             None \<Rightarrow> None
           | Some bounds \<Rightarrow>
               (case narrow (snd ts) bounds of
                  None \<Rightarrow> None
                | Some (a, b) \<Rightarrow> if a \<le> b then Some a else None)))"

definition selected_step ::
    "boundary_fence \<Rightarrow> track_boundary \<times> track_boundary \<Rightarrow> bool \<Rightarrow> boundary_step" where
  "selected_step f ts reset =
     Selected f (covers (fst ts) (fence_frame f) \<and> covers (snd ts) (fence_frame f)) reset"

text \<open>When the window becomes due, and the deadline this implies.\<close>

definition due_of :: "boundary_policy \<Rightarrow> observation \<Rightarrow> u64 option" where
  "due_of p obs =
     opt_or (due_frame p)
       (if nominal_end p \<le> received_through obs then Some (nominal_end p)
        else if text_full obs then Some (received_through obs) else None)"

definition deadline_of :: "boundary_policy \<Rightarrow> u64 option \<Rightarrow> boundary_error + u64 option" where
  "deadline_of p due =
     transpose_result (map_option (\<lambda>d.
       ok_or (checked_add 64 d (deferral_frames p)) BoundaryOverflow) due)"

definition fence_of ::
    "boundary_policy \<Rightarrow> observation \<Rightarrow> u64 option \<Rightarrow> u64 option
       \<Rightarrow> boundary_error + boundary_fence option" where
  "fence_of p obs due deadline =
     (let received = received_through obs
      in case (case due of None \<Rightarrow> None
               | Some d \<Rightarrow> common_natural_cut (window_start p) d received (tracks obs)) of
           Some f \<Rightarrow> Inr (Some \<lparr>fence_frame = f, fence_kind = Natural\<rparr>)
         | None \<Rightarrow>
             if text_full obs
             then (if received = window_start p then Inl EmptyTextCut
                   else Inr (Some \<lparr>fence_frame = received, fence_kind = Forced TextCap\<rparr>))
             else if deadline = Some received
             then Inr (Some \<lparr>fence_frame = received, fence_kind = Forced Deadline\<rparr>)
             else Inr None)"

definition observe_open ::
    "boundary_policy \<Rightarrow> observation \<Rightarrow> boundary_error + boundary_step \<times> boundary_policy" where
  "observe_open p obs =
     (let received = received_through obs;
          armed = (maintenance_armed p \<or> obs_maintenance obs);
          due = due_of p obs
      in rbind (deadline_of p due) (\<lambda>deadline.
         if is_some_and deadline (\<lambda>d. d < received) \<or> is_some_and (due_frame p) (\<lambda>d. received < d)
         then Inl InvalidObservation
         else rbind (fence_of p obs due deadline) (\<lambda>chosen.
              rbind (case chosen of
                       Some f \<Rightarrow> Inr (selected_step f (tracks obs) armed)
                     | None \<Rightarrow>
                         rbind (ok_or (opt_filter (\<lambda>n. n \<noteq> 0)
                           (checked_sub (case deadline of None \<Rightarrow> nominal_end p | Some d \<Rightarrow> d)
                              received)) InvalidObservation)
                           (\<lambda>n. Inr (Admit (min n MAX_ADMISSION_FRAMES)))) (\<lambda>step.
                Inr (step, p\<lparr>due_frame := due, selected := chosen,
                       maintenance_armed := armed\<rparr>)))))"

definition observe_boundary ::
    "boundary_policy \<Rightarrow> observation \<Rightarrow> (boundary_error + boundary_step) \<times> boundary_policy" where
  "observe_boundary p obs =
     (case (if received_through obs < window_start p then Inl InvalidObservation
            else rbind (validate_track (fst (tracks obs)) (received_through obs)) (\<lambda>_.
                 rbind (validate_track (snd (tracks obs)) (received_through obs)) (\<lambda>_.
                   case selected p of
                     Some f \<Rightarrow>
                       if received_through obs < fence_frame f then Inl InvalidObservation
                       else Inr (selected_step f (tracks obs) (maintenance_armed p), p)
                   | None \<Rightarrow> observe_open p obs))) of
        Inl e \<Rightarrow> (Inl e, p)
      | Inr (step, p') \<Rightarrow> (Inr step, p'))"

section \<open>Invariant\<close>

definition policy_inv :: "boundary_policy \<Rightarrow> bool" where
  "policy_inv p \<longleftrightarrow> window_start p < nominal_end p \<and> 0 < deferral_frames p
     \<and> fits64 (nominal_end p + deferral_frames p)
     \<and> is_none_or (due_frame p) (\<lambda>d. window_start p \<le> d \<and> d \<le> nominal_end p)
     \<and> is_none_or (selected p) (\<lambda>f. window_start p < fence_frame f
         \<and> fence_frame f \<le> nominal_end p + deferral_frames p)"

definition policy_step :: "boundary_policy \<Rightarrow> observation \<Rightarrow> boundary_policy" where
  "policy_step p obs = snd (observe_boundary p obs)"

text \<open>A cut at \<open>x\<close> that every established track's native region certifies.\<close>

fun certifies :: "u64 \<Rightarrow> track_boundary \<Rightarrow> bool" where
  "certifies x NeverPresent = True"
| "certifies x (Established start delivered own) \<longleftrightarrow>
     start \<le> x \<and> x \<le> delivered \<and> is_some_and own (\<lambda>r. first r \<le> x \<and> x \<le> final r)"

definition certified :: "u64 \<Rightarrow> u64 \<Rightarrow> u64 \<Rightarrow> track_boundary \<times> track_boundary \<Rightarrow> u64 \<Rightarrow> bool" where
  "certified start due received ts x \<longleftrightarrow>
     start < x \<and> due \<le> x \<and> x \<le> received \<and> certifies x (fst ts) \<and> certifies x (snd ts)"

lemma narrow_None: "narrow t ab = None \<Longrightarrow> \<not> certifies x t"
  by (cases "(t, ab)" rule: narrow.cases) auto

lemma narrow_Some:
  "narrow t (a, b) = Some (c, d) \<Longrightarrow> (c \<le> x \<and> x \<le> d) = (a \<le> x \<and> x \<le> b \<and> certifies x t)"
  by (cases "(t, (a, b))" rule: narrow.cases) auto

text \<open>The chosen cut is the least certified one, and one is chosen whenever one exists.\<close>

lemma common_natural_cut_least:
  assumes "fits64 (start + 1)"
  shows "common_natural_cut start due received ts = Some x \<longleftrightarrow>
      certified start due received ts x \<and> (\<forall>y. certified start due received ts y \<longrightarrow> x \<le> y)"
    and "common_natural_cut start due received ts = None \<longleftrightarrow>
      (\<forall>y. \<not> certified start due received ts y)"
proof -
  let ?a = "max due (start + 1)"
  have "checked_add 64 start 1 = Some (start + 1)" using assms by simp
  then have s: "common_natural_cut start due received ts =
      (case narrow (fst ts) (?a, received) of
         None \<Rightarrow> None
       | Some bounds \<Rightarrow>
           (case narrow (snd ts) bounds of
              None \<Rightarrow> None
            | Some (a, b) \<Rightarrow> if a \<le> b then Some a else None))"
    by (simp only: common_natural_cut_def option.case)
  have bounds: "(?a \<le> y \<and> y \<le> received) = (start < y \<and> due \<le> y \<and> y \<le> received)" for y by auto
  consider (n1) "narrow (fst ts) (?a, received) = None"
    | (n2) c d where "narrow (fst ts) (?a, received) = Some (c, d)" "narrow (snd ts) (c, d) = None"
    | (s2) c d e f where "narrow (fst ts) (?a, received) = Some (c, d)"
        "narrow (snd ts) (c, d) = Some (e, f)"
    by (cases "narrow (fst ts) (?a, received)"; force)
  then have "(common_natural_cut start due received ts = Some x \<longleftrightarrow>
      certified start due received ts x \<and> (\<forall>y. certified start due received ts y \<longrightarrow> x \<le> y))
    \<and> (common_natural_cut start due received ts = None \<longleftrightarrow>
      (\<forall>y. \<not> certified start due received ts y))"
  proof cases
    case n1
    then have "\<not> certified start due received ts y" for y
      using narrow_None [OF n1] by (simp add: certified_def)
    then show ?thesis using n1 by (simp add: s)
  next
    case n2
    then have "\<not> certified start due received ts y" for y
      using narrow_None [OF n2(2)] by (simp add: certified_def)
    then show ?thesis using n2 by (simp add: s)
  next
    case s2
    have m: "certified start due received ts y \<longleftrightarrow> e \<le> y \<and> y \<le> f" for y
      using narrow_Some [OF s2(1), of y] narrow_Some [OF s2(2), of y] bounds [of y]
      by (auto simp: certified_def)
    have "common_natural_cut start due received ts = (if e \<le> f then Some e else None)"
      using s2 by (simp add: s)
    then show ?thesis unfolding m by (auto intro: antisym)
  qed
  then show "common_natural_cut start due received ts = Some x \<longleftrightarrow>
      certified start due received ts x \<and> (\<forall>y. certified start due received ts y \<longrightarrow> x \<le> y)"
    and "common_natural_cut start due received ts = None \<longleftrightarrow>
      (\<forall>y. \<not> certified start due received ts y)"
    by blast+
qed

lemma observe_cases:
  obtains (err) e where "observe_boundary p obs = (Inl e, p)"
  | (final) f where "selected p = Some f"
      "observe_boundary p obs = (Inr (selected_step f (tracks obs) (maintenance_armed p)), p)"
      "fence_frame f \<le> received_through obs"
  | (open_) s p' where "selected p = None" "window_start p \<le> received_through obs"
      "observe_open p obs = Inr (s, p')" "observe_boundary p obs = (Inr s, p')"
proof -
  let ?r = "if received_through obs < window_start p then Inl InvalidObservation
      else rbind (validate_track (fst (tracks obs)) (received_through obs)) (\<lambda>_.
           rbind (validate_track (snd (tracks obs)) (received_through obs)) (\<lambda>_.
             case selected p of
               Some f \<Rightarrow> if received_through obs < fence_frame f then Inl InvalidObservation
                         else Inr (selected_step f (tracks obs) (maintenance_armed p), p)
             | None \<Rightarrow> observe_open p obs))"
  show ?thesis
  proof (cases ?r)
    case (Inl e)
    then show ?thesis by (intro err [of e]) (simp only: observe_boundary_def Inl sum.case)
  next
    case (Inr x)
    then obtain s p' where x: "x = (s, p')" by fastforce
    have o: "observe_boundary p obs = (Inr s, p')"
      by (simp only: observe_boundary_def Inr x sum.case prod.case)
    show ?thesis
    proof (cases "selected p")
      case None
      then show ?thesis using Inr x o open_ by (auto split: if_splits)
    next
      case (Some f)
      then show ?thesis using Inr x o final by (auto split: if_splits)
    qed
  qed
qed

lemma observe_open_Inr:
  assumes "observe_open p obs = Inr (s, p')"
  obtains deadline chosen where "deadline_of p (due_of p obs) = Inr deadline"
    "fence_of p obs (due_of p obs) deadline = Inr chosen"
    "is_none_or deadline (\<lambda>d. received_through obs \<le> d)"
    "p' = p\<lparr>due_frame := due_of p obs, selected := chosen,
       maintenance_armed := maintenance_armed p \<or> obs_maintenance obs\<rparr>"
    "case chosen of
       Some f \<Rightarrow> s = selected_step f (tracks obs) (maintenance_armed p \<or> obs_maintenance obs)
     | None \<Rightarrow> received_through obs < (case deadline of None \<Rightarrow> nominal_end p | Some d \<Rightarrow> d)
         \<and> s = Admit (min ((case deadline of None \<Rightarrow> nominal_end p | Some d \<Rightarrow> d)
               - received_through obs) MAX_ADMISSION_FRAMES)"
proof -
  obtain deadline where d: "deadline_of p (due_of p obs) = Inr deadline"
    and c1: "\<not> is_some_and deadline (\<lambda>d. d < received_through obs)"
    and rest: "rbind (fence_of p obs (due_of p obs) deadline) (\<lambda>chosen.
              rbind (case chosen of
                       Some f \<Rightarrow> Inr (selected_step f (tracks obs) (maintenance_armed p \<or> obs_maintenance obs))
                     | None \<Rightarrow>
                         rbind (ok_or (opt_filter (\<lambda>n. n \<noteq> 0)
                           (checked_sub (case deadline of None \<Rightarrow> nominal_end p | Some d \<Rightarrow> d)
                              (received_through obs))) InvalidObservation)
                           (\<lambda>n. Inr (Admit (min n MAX_ADMISSION_FRAMES)))) (\<lambda>step.
                Inr (step, p\<lparr>due_frame := due_of p obs, selected := chosen,
                       maintenance_armed := maintenance_armed p \<or> obs_maintenance obs\<rparr>))) = Inr (s, p')"
    using assms unfolding observe_open_def Let_def by (auto split: if_splits)
  then obtain chosen where ch: "fence_of p obs (due_of p obs) deadline = Inr chosen" by auto
  have le: "is_none_or deadline (\<lambda>d. received_through obs \<le> d)"
    using c1 by (cases deadline) auto
  show ?thesis
    by (rule that [OF d ch le]) (use rest ch in \<open>auto split: option.splits\<close>)
qed

lemma deadline_of_Inr:
  "deadline_of p due = Inr dl \<longleftrightarrow>
     (case due of None \<Rightarrow> dl = None
      | Some d \<Rightarrow> dl = Some (d + deferral_frames p) \<and> fits64 (d + deferral_frames p))"
  by (auto simp: deadline_of_def ok_or_def transpose_result_def checked_add_def split: option.splits)

lemma due_of_range:
  assumes "policy_inv p" and "window_start p \<le> received_through obs"
  shows "is_none_or (due_of p obs) (\<lambda>d. window_start p \<le> d \<and> d \<le> nominal_end p)"
  using assms by (auto simp: due_of_def policy_inv_def opt_or_def is_none_or_def split: option.splits)

lemma fence_of_range:
  assumes inv: "policy_inv p" and start: "window_start p \<le> received_through obs"
    and dl: "deadline_of p (due_of p obs) = Inr dl"
    and le: "is_none_or dl (\<lambda>d. received_through obs \<le> d)"
    and f: "fence_of p obs (due_of p obs) dl = Inr (Some f)"
  shows "window_start p < fence_frame f \<and> fence_frame f \<le> received_through obs
    \<and> fence_frame f \<le> nominal_end p + deferral_frames p"
proof -
  let ?r = "received_through obs"
  have fit: "fits64 (window_start p + 1)" using inv by (auto simp: policy_inv_def)
  have bound: "?r \<le> nominal_end p + deferral_frames p"
    using due_of_range [OF inv start] dl le
    by (cases "due_of p obs") (auto simp: deadline_of_Inr due_of_def opt_or_def split: if_splits option.splits)
  show ?thesis
  proof (cases "case due_of p obs of None \<Rightarrow> None
      | Some d \<Rightarrow> common_natural_cut (window_start p) d ?r (tracks obs)")
    case (Some x)
    then obtain d where "common_natural_cut (window_start p) d ?r (tracks obs) = Some x"
      by (auto split: option.splits)
    then have "certified (window_start p) d ?r (tracks obs) x"
      using common_natural_cut_least(1) [OF fit] by simp
    moreover have "fence_frame f = x" using f Some by (auto simp: fence_of_def Let_def)
    ultimately show ?thesis using bound by (simp add: certified_def)
  next
    case None
    have "fence_frame f = ?r \<and> window_start p < ?r"
    proof (cases "text_full obs")
      case True
      then show ?thesis using f None start by (auto simp: fence_of_def Let_def split: if_splits)
    next
      case False
      then have "dl = Some ?r" "fence_frame f = ?r"
        using f None by (auto simp: fence_of_def Let_def split: if_splits)
      moreover have "0 < deferral_frames p" using inv by (simp add: policy_inv_def)
      ultimately show ?thesis
        using dl due_of_range [OF inv start]
        by (cases "due_of p obs") (auto simp: deadline_of_Inr)
    qed
    then show ?thesis using bound by simp
  qed
qed

lemma observe_inv:
  assumes inv: "policy_inv p" and o: "observe_boundary p obs = (res, p')"
  shows "policy_inv p' \<and> window_start p' = window_start p \<and> nominal_end p' = nominal_end p
    \<and> deferral_frames p' = deferral_frames p
    \<and> (case res of
         Inl _ \<Rightarrow> p' = p
       | Inr (Admit n) \<Rightarrow> 1 \<le> n \<and> n \<le> MAX_ADMISSION_FRAMES \<and> selected p' = None
           \<and> window_start p \<le> received_through obs
           \<and> received_through obs + n \<le> nominal_end p + deferral_frames p
       | Inr (Selected f _ _) \<Rightarrow> selected p' = Some f \<and> window_start p < fence_frame f
           \<and> fence_frame f \<le> received_through obs
           \<and> fence_frame f \<le> nominal_end p + deferral_frames p)"
proof (cases rule: observe_cases [of p obs])
  case (err e)
  then show ?thesis using o inv by auto
next
  case (final f)
  then show ?thesis using o inv by (auto simp: selected_step_def policy_inv_def)
next
  case (open_ s q)
  then have q: "res = Inr s" "p' = q" using o by auto
  show ?thesis
    using open_(3)
  proof (cases rule: observe_open_Inr)
    case (1 dl chosen)
    note due = due_of_range [OF inv open_(2)]
    show ?thesis
    proof (cases chosen)
      case None
      let ?limit = "case dl of None \<Rightarrow> nominal_end p | Some d \<Rightarrow> d"
      have "?limit \<le> nominal_end p + deferral_frames p"
        using 1(1) due by (cases "due_of p obs") (auto simp: deadline_of_Inr)
      then show ?thesis
        using 1(4,5) None q inv due open_(2)
        by (auto simp: policy_inv_def MAX_ADMISSION_FRAMES_def)
    next
      case (Some f)
      have "window_start p < fence_frame f \<and> fence_frame f \<le> received_through obs
          \<and> fence_frame f \<le> nominal_end p + deferral_frames p"
        using fence_of_range [OF inv open_(2) 1(1,3)] 1(2) Some by simp
      then show ?thesis
        using 1(4,5) Some q inv due by (auto simp: policy_inv_def selected_step_def)
    qed
  qed
qed

lemma new_policy_inv:
  assumes "new_policy start nominal rate silence = Inr p"
  shows "policy_inv p" and "window_start p = start" and "nominal_end p = start + nominal"
    and "selected p = None" and "maintenance_armed p = False"
proof -
  obtain nanos product deferral where n: "duration_add silence MAX_SPEECH_AND_SLACK = Some nanos"
    and pr: "checked_mul 128 nanos rate = Some product"
    and d: "try_from 64 (div_ceil product 1000000000) = Some deferral"
    and e: "fits64 (start + nominal + deferral)" and r: "8000 \<le> rate" "nominal \<noteq> 0"
    and p: "p = \<lparr>window_start = start, nominal_end = start + nominal, deferral_frames = deferral,
               due_frame = None, selected = None, maintenance_armed = False\<rparr>"
    using assms
    by (auto simp: new_policy_def simp del: checked_mul_Some try_from_Some split: if_splits)
  have "0 < nanos" using n by (auto simp: duration_add_def MAX_SPEECH_AND_SLACK_def split: if_splits)
  then have "0 < product" using pr r by auto
  then have "0 < div_ceil product 1000000000"
    using div_ceil_upper [of 1000000000 product] by (intro gr0I) auto
  then show "policy_inv p" "window_start p = start" "nominal_end p = start + nominal"
    "selected p = None" "maintenance_armed p = False"
    using d e r by (auto simp: p policy_inv_def)
qed

lemma policy_step_inv:
  "policy_inv p \<Longrightarrow> policy_inv (policy_step p obs) \<and> window_start (policy_step p obs) = window_start p
     \<and> nominal_end (policy_step p obs) = nominal_end p
     \<and> deferral_frames (policy_step p obs) = deferral_frames p"
  using observe_inv [of p obs "fst (observe_boundary p obs)" "policy_step p obs"]
  by (simp add: policy_step_def)

interpretation boundary: component policy_step "\<lambda>_. True" policy_inv
  by unfold_locales (simp add: policy_step_inv)

lemma boundary_run:
  assumes "policy_inv p"
  shows "policy_inv (run_from policy_step p os)
    \<and> window_start (run_from policy_step p os) = window_start p
    \<and> nominal_end (run_from policy_step p os) = nominal_end p
    \<and> deferral_frames (run_from policy_step p os) = deferral_frames p"
  using assms
proof (induction os arbitrary: p)
  case (Cons x os)
  have "policy_inv (policy_step p x) \<and> window_start (policy_step p x) = window_start p
      \<and> nominal_end (policy_step p x) = nominal_end p
      \<and> deferral_frames (policy_step p x) = deferral_frames p"
    using policy_step_inv [OF Cons.prems] .
  then show ?case using Cons.IH [of "policy_step p x"] by simp
qed simp

section \<open>Properties\<close>

text \<open>Window ownership is bounded. In every policy reached from its constructor, an observation
  either fails without changing anything, or admits between 1 and 4096 frames that stay within the
  announced maximum of owned frames, or selects a fence strictly after the window's start, not
  beyond the received source, and within that same maximum.\<close>

theorem admission_bounded:
  assumes "new_policy start nominal rate silence = Inr p0"
  shows "case observe_boundary (run_from policy_step p0 os) obs of
     (Inl _, p') \<Rightarrow> p' = run_from policy_step p0 os
   | (Inr (Admit n), _) \<Rightarrow>
       1 \<le> n \<and> n \<le> 4096 \<and> received_through obs + n \<le> start + maximum_owned_frames p0
   | (Inr (Selected f _ _), p') \<Rightarrow>
       selected p' = Some f \<and> start < fence_frame f \<and> fence_frame f \<le> received_through obs
       \<and> fence_frame f \<le> start + maximum_owned_frames p0"
proof -
  let ?p = "run_from policy_step p0 os"
  obtain res p' where o: "observe_boundary ?p obs = (res, p')" by fastforce
  have r: "policy_inv ?p" "window_start ?p = start" "nominal_end ?p = start + nominal"
    "deferral_frames ?p = deferral_frames p0"
    using boundary_run [of p0 os] new_policy_inv [OF assms] by simp_all
  have "start + maximum_owned_frames p0 = nominal_end ?p + deferral_frames ?p"
    using new_policy_inv [OF assms] r by (simp add: maximum_owned_frames_def)
  then show ?thesis
    using observe_inv [OF r(1) o] o r
    by (auto simp: MAX_ADMISSION_FRAMES_def split: sum.splits boundary_step.splits)
qed

definition demo_policy :: boundary_policy where
  "demo_policy = \<lparr>window_start = 0, nominal_end = 48000, deferral_frames = 352000,
     due_frame = None, selected = None, maintenance_armed = False\<rparr>"

lemma demo_policy_new: "new_policy 0 48000 16000 (10 ^ 9) = Inr demo_policy"
  by (simp add: new_policy_def duration_add_def MAX_SPEECH_AND_SLACK_def checked_mul_def
      checked_add_def try_from_def div_ceil_def demo_policy_def)

definition quiet :: "u64 \<Rightarrow> bool \<Rightarrow> observation" where
  "quiet n arm = \<lparr>received_through = n, tracks = (NeverPresent, NeverPresent), text_full = False,
     obs_maintenance = arm\<rparr>"

theorem admission_bounded_witness:
  "case observe_boundary demo_policy (quiet 1000 False) of
     (Inr (Admit n), _) \<Rightarrow> 1 \<le> n \<and> n \<le> 4096 \<and> 1000 + n \<le> 400000
   | _ \<Rightarrow> False"
proof -
  have "fst (observe_boundary demo_policy (quiet 1000 False)) = Inr (Admit 4096)"
    by (simp add: observe_boundary_def observe_open_def quiet_def demo_policy_def Let_def due_of_def
        deadline_of_def fence_of_def checked_sub_def MAX_ADMISSION_FRAMES_def)
  then show ?thesis
    using admission_bounded [OF demo_policy_new, of "[]" "quiet 1000 False"]
    by (auto simp: maximum_owned_frames_def demo_policy_def quiet_def split: prod.splits)
qed

text \<open>C11. A selected fence is final: once a window has a fence, no further observation changes the
  policy in any way, and every accepted one reports exactly that fence.\<close>

theorem fence_is_final:
  assumes "selected p = Some f"
  shows "run_from policy_step p os = p
    \<and> (case observe_boundary (run_from policy_step p os) obs of
         (Inl _, _) \<Rightarrow> True
       | (Inr s, _) \<Rightarrow> (\<exists>delivered. s = Selected f delivered (maintenance_armed p)))"
proof -
  have step: "policy_step p x = p" for x
    by (cases rule: observe_cases [of p x]) (use assms in \<open>auto simp: policy_step_def\<close>)
  have "run_from policy_step p os = p" by (induction os) (simp_all add: step)
  moreover have "case observe_boundary p obs of (Inl _, _) \<Rightarrow> True
      | (Inr s, _) \<Rightarrow> (\<exists>delivered. s = Selected f delivered (maintenance_armed p))"
    by (cases rule: observe_cases [of p obs]) (use assms in \<open>auto simp: selected_step_def\<close>)
  ultimately show ?thesis by simp
qed

theorem fence_is_final_witness:
  "run_from policy_step (demo_policy\<lparr>selected := Some \<lparr>fence_frame = 5, fence_kind = Natural\<rparr>\<rparr>)
     [quiet 4 True, quiet 9 False]
   = demo_policy\<lparr>selected := Some \<lparr>fence_frame = 5, fence_kind = Natural\<rparr>\<rparr>"
  by (rule fence_is_final [THEN conjunct1]) simp



section \<open>Maintenance is only an annotation\<close>

definition unarmed :: "boundary_policy \<Rightarrow> boundary_policy" where
  "unarmed p = p\<lparr>maintenance_armed := False\<rparr>"

definition unarmed_obs :: "observation \<Rightarrow> observation" where
  "unarmed_obs obs = obs\<lparr>obs_maintenance := False\<rparr>"

fun unarmed_step :: "boundary_step \<Rightarrow> boundary_step" where
  "unarmed_step (Admit n) = Admit n"
| "unarmed_step (Selected f d r) = Selected f d False"

lemma unarmed_sel [simp]:
  "received_through (unarmed_obs obs) = received_through obs" "tracks (unarmed_obs obs) = tracks obs"
  "text_full (unarmed_obs obs) = text_full obs" "\<not> obs_maintenance (unarmed_obs obs)"
  "window_start (unarmed p) = window_start p" "nominal_end (unarmed p) = nominal_end p"
  "deferral_frames (unarmed p) = deferral_frames p" "due_frame (unarmed p) = due_frame p"
  "selected (unarmed p) = selected p" "\<not> maintenance_armed (unarmed p)"
  by (simp_all add: unarmed_def unarmed_obs_def)

lemma unarmed_open:
  "observe_open (unarmed p) (unarmed_obs obs)
     = map_sum id (\<lambda>(s, q). (unarmed_step s, unarmed q)) (observe_open p obs)"
proof -
  have d: "due_of (unarmed p) (unarmed_obs obs) = due_of p obs" by (simp add: due_of_def)
  have l: "deadline_of (unarmed p) x = deadline_of p x" for x by (simp add: deadline_of_def)
  have f: "fence_of (unarmed p) (unarmed_obs obs) x y = fence_of p obs x y" for x y
    by (simp add: fence_of_def Let_def cong: option.case_cong)
  have m: "map_sum id g (rbind r h) = rbind r (\<lambda>x. map_sum id g (h x))"
    for g :: "'x \<Rightarrow> 'y" and r :: "'e + 'z" and h
    by (cases r) auto
  show ?thesis
    unfolding observe_open_def Let_def d l f
    by (auto simp: m rbind_assoc unarmed_def selected_step_def split: option.splits
        intro!: arg_cong [where f = "rbind (deadline_of p (due_of p obs))"]
          arg_cong [where f = "rbind (fence_of p obs (due_of p obs) _)"] ext)
qed

text \<open>Arming maintenance never moves a boundary: a policy that has forgotten every maintenance
  request, given the same observation without the request, decides the same (the same error, the same
  admission, the same fence and kind, the same delivery status) and keeps the same state; only the
  reset flag of a selected fence can differ.\<close>

theorem maintenance_never_moves_cut:
  "observe_boundary (unarmed p) (unarmed_obs obs)
     = (map_sum id unarmed_step (fst (observe_boundary p obs)), unarmed (snd (observe_boundary p obs)))"
  by (cases "validate_track (fst (tracks obs)) (received_through obs)";
      cases "validate_track (snd (tracks obs)) (received_through obs)";
      cases "selected p"; cases "observe_open p obs")
     (auto simp: observe_boundary_def unarmed_open selected_step_def)

section \<open>Every window closes\<close>

fun all_admitted :: "boundary_policy \<Rightarrow> observation list \<Rightarrow> bool" where
  "all_admitted p [] = True"
| "all_admitted p (obs # os) =
     (case observe_boundary p obs of
        (Inr (Admit _), p') \<Rightarrow> all_admitted p' os
      | _ \<Rightarrow> False)"

lemma all_admitted_range:
  "policy_inv p \<Longrightarrow> all_admitted p os \<Longrightarrow>
     set (map received_through os) \<subseteq> {window_start p..<nominal_end p + deferral_frames p}"
proof (induction p os rule: all_admitted.induct)
  case (2 p obs os)
  obtain n p' where o: "observe_boundary p obs = (Inr (Admit n), p')" and rest: "all_admitted p' os"
    using "2.prems"(2) by (auto split: prod.splits sum.splits boundary_step.splits)
  note i = observe_inv [OF "2.prems"(1) o]
  have "set (map received_through os) \<subseteq> {window_start p'..<nominal_end p' + deferral_frames p'}"
    by (rule "2.IH" [OF o [symmetric] refl refl _ rest]) (use i in simp)
  then show ?case using i by auto
qed simp

text \<open>A window closes: while the received source keeps advancing, at most
  \<open>maximum_owned_frames\<close> observations in a row can be answered with an admission. So a live window
  always gets its fence (or an error) after a bounded number of observations.\<close>

theorem window_closes:
  assumes "policy_inv p" and "all_admitted p os" and "sorted_wrt (<) (map received_through os)"
  shows "length os \<le> maximum_owned_frames p"
proof -
  let ?S = "{window_start p..<nominal_end p + deferral_frames p}"
  have "distinct (map received_through os)"
    using assms(3) strict_sorted_iff by blast
  then have "length os = card (set (map received_through os))"
    by (metis distinct_card length_map)
  also have "\<dots> \<le> card ?S"
    by (rule card_mono) (use all_admitted_range [OF assms(1,2)] in simp_all)
  also have "\<dots> = maximum_owned_frames p"
    using assms(1) by (simp add: policy_inv_def maximum_owned_frames_def)
  finally show ?thesis .
qed

theorem window_closes_witness:
  "length [quiet 0 False, quiet 4096 False] \<le> maximum_owned_frames demo_policy"
proof (rule window_closes)
  show "policy_inv demo_policy" by (rule new_policy_inv(1) [OF demo_policy_new])
  show "all_admitted demo_policy [quiet 0 False, quiet 4096 False]"
    by (simp add: observe_boundary_def observe_open_def quiet_def demo_policy_def Let_def due_of_def
        deadline_of_def fence_of_def checked_sub_def MAX_ADMISSION_FRAMES_def)
qed (simp add: quiet_def)

end
