(* ===== verification/InputClock.thy ===== *)
theory InputClock
  imports Carry
begin

text \<open>
  The bounded mapping of \<open>crates/corti-transcribe-local/src/input_clock.rs\<close> from native 16 kHz
  regions back to the channel's own input frames, and the exact fractional clock of skipped input.
  The double-ended queue of rate epochs is a list, oldest first.
\<close>

section \<open>Rates\<close>

definition MAX_RATE_EPOCHS :: nat where "MAX_RATE_EPOCHS = 256"

function euclid :: "nat \<Rightarrow> nat \<Rightarrow> nat" where
  "euclid left right = (if right = 0 then left else euclid right (left mod right))"
  by pat_completeness auto
termination
  by (relation "measure snd") auto

declare euclid.simps [simp del]

lemma euclid_gcd: "euclid a b = gcd a b"
proof (induction a b rule: euclid.induct)
  case (1 a b)
  show ?case
  proof (cases "b = 0")
    case True
    then show ?thesis by (simp add: euclid.simps [of a])
  next
    case False
    then show ?thesis using 1 by (simp add: euclid.simps [of a] gcd_red_nat [of a b])
  qed
qed

definition boundary_tick_frequency :: "u32 \<Rightarrow> u32 option" where
  "boundary_tick_frequency rate =
     (if \<not> (8000 \<le> rate \<and> rate \<le> 192000) then None
      else let divisor = euclid rate 16000
           in case checked_mul 128 rate 16000 of
                None \<Rightarrow> None
              | Some product \<Rightarrow>
                  if divisor = 0 then None
                  else if product div divisor \<le> 2 ^ 31 - 1 then Some (product div divisor) else None)"

section \<open>Epochs and the clock\<close>

record rate_epoch =
  input_start :: u64
  input_end :: u64
  output_start :: u64
  rate :: u32

definition output_end :: "rate_epoch \<Rightarrow> u64 option" where
  "output_end e =
     (case checked_sub (input_end e) (input_start e) of
        None \<Rightarrow> None
      | Some n \<Rightarrow>
          (case try_from 64 (div_ceil (n * 16000) (rate e)) of
             None \<Rightarrow> None
           | Some count \<Rightarrow> checked_add 64 (output_start e) count))"

datatype mapping_error = EvictedHistory | InvalidMapping

record evicted_prefix =
  prefix_output_start :: u64
  prefix_output_end :: u64
  prefix_input_end :: u64

record clock_span =
  span_start :: u64
  span_end :: u64

record input_clock =
  clock_frames :: u64
  rate_epochs :: "rate_epoch list"
  extend_epoch :: bool
  overflowed :: bool
  evicted :: "evicted_prefix option"
  evicted_unextendable :: bool

definition new_clock :: input_clock where
  "new_clock = \<lparr>clock_frames = 0, rate_epochs = [], extend_epoch = False, overflowed = False,
     evicted = None, evicted_unextendable = False\<rparr>"

definition reset_vad :: "input_clock \<Rightarrow> input_clock" where
  "reset_vad c = c\<lparr>rate_epochs := [], extend_epoch := False, evicted := None,
     evicted_unextendable := False\<rparr>"

definition admit_input :: "input_clock \<Rightarrow> nat \<Rightarrow> clock_span option \<times> input_clock" where
  "admit_input c frames =
     (if overflowed c then (None, c)
      else case checked_add 64 (clock_frames c) frames of
        None \<Rightarrow> (None, reset_vad (c\<lparr>overflowed := True\<rparr>))
      | Some fin \<Rightarrow>
          (Some \<lparr>span_start = clock_frames c, span_end = fin\<rparr>, c\<lparr>clock_frames := fin\<rparr>))"

definition remember_evicted :: "input_clock \<Rightarrow> rate_epoch \<Rightarrow> input_clock" where
  "remember_evicted c e =
     (if evicted_unextendable c then c
      else case opt_filter (\<lambda>_. input_end e \<le> clock_frames c) (output_end e) of
        None \<Rightarrow> c\<lparr>evicted_unextendable := True\<rparr>
      | Some out_end \<Rightarrow>
          if input_start e = input_end e then c
          else (case evicted c of
                  Some prefix \<Rightarrow>
                    if prefix_output_end prefix \<noteq> output_start e
                       \<or> prefix_input_end prefix \<noteq> input_start e
                    then c\<lparr>evicted_unextendable := True\<rparr>
                    else c\<lparr>evicted := Some (prefix\<lparr>prefix_output_end := out_end,
                           prefix_input_end := input_end e\<rparr>)\<rparr>
                | None \<Rightarrow>
                    c\<lparr>evicted := Some \<lparr>prefix_output_start = output_start e,
                        prefix_output_end = out_end, prefix_input_end = input_end e\<rparr>\<rparr>))"

definition push_epoch :: "input_clock \<Rightarrow> clock_span \<Rightarrow> u32 \<Rightarrow> u64 \<Rightarrow> bool \<times> input_clock" where
  "push_epoch c s r out =
     (let removed = (length (rate_epochs c) = MAX_RATE_EPOCHS);
          c' = (if removed
                then (case rate_epochs c of
                        [] \<Rightarrow> c
                      | e # es \<Rightarrow> remember_evicted (c\<lparr>rate_epochs := es\<rparr>) e)
                else c)
      in (removed, c'\<lparr>rate_epochs := rate_epochs c' @ [\<lparr>input_start = span_start s,
            input_end = span_end s, output_start = out, rate = r\<rparr>], extend_epoch := True\<rparr>))"

definition map_input :: "input_clock \<Rightarrow> clock_span \<Rightarrow> u32 \<Rightarrow> u64 \<Rightarrow> bool \<times> input_clock" where
  "map_input c s r out =
     (if r = 0 then (False, c\<lparr>extend_epoch := False\<rparr>)
      else if extend_epoch c \<and> rate_epochs c \<noteq> [] \<and> rate (last (rate_epochs c)) = r
              \<and> input_end (last (rate_epochs c)) = span_start s
      then (False, c\<lparr>rate_epochs := butlast (rate_epochs c)
              @ [(last (rate_epochs c))\<lparr>input_end := span_end s\<rparr>]\<rparr>)
      else push_epoch c s r out)"

definition end_epoch :: "input_clock \<Rightarrow> input_clock" where
  "end_epoch c = c\<lparr>extend_epoch := False\<rparr>"

definition mapped_input_end :: "input_clock \<Rightarrow> u64 option" where
  "mapped_input_end c =
     (if rate_epochs c = [] then None else Some (input_end (last (rate_epochs c))))"

section \<open>From input to canonical samples\<close>

text \<open>The canonical position of a cut inside an epoch.\<close>

definition canonical_in :: "rate_epoch \<Rightarrow> u64 \<Rightarrow> u64 \<Rightarrow> u64 option" where
  "canonical_in e pos out_end =
     (case try_from 64 (div_ceil ((pos - input_start e) * 16000) (rate e)) of
        None \<Rightarrow> None
      | Some count \<Rightarrow>
          opt_filter (\<lambda>c. output_start e \<le> c \<and> c \<le> out_end) (checked_add 64 (output_start e) count))"

fun fence_scan ::
    "input_clock \<Rightarrow> u64 \<Rightarrow> (u64 \<times> u64) option \<Rightarrow> u64 option \<Rightarrow> rate_epoch list
       \<Rightarrow> mapping_error + u64 option" where
  "fence_scan c pos previous selected [] = Inr selected"
| "fence_scan c pos previous selected (e # es) =
     (if boundary_tick_frequency (rate e) = None \<or> input_end e < input_start e
         \<or> clock_frames c < input_end e
      then Inl InvalidMapping
      else rbind (ok_or (output_end e) InvalidMapping) (\<lambda>out_end.
        if is_some_and previous (\<lambda>(i, o'). i \<noteq> input_start e \<or> o' \<noteq> output_start e)
        then Inl InvalidMapping
        else if input_start e \<le> pos \<and> pos \<le> input_end e
        then rbind (ok_or (canonical_in e pos out_end) InvalidMapping) (\<lambda>canonical.
               if is_some_and selected (\<lambda>old. old \<noteq> canonical) then Inl InvalidMapping
               else fence_scan c pos (Some (input_end e, out_end)) (Some canonical) es)
        else fence_scan c pos (Some (input_end e, out_end)) selected es))"

definition canonical_fence :: "input_clock \<Rightarrow> u64 \<Rightarrow> mapping_error + u64" where
  "canonical_fence c pos =
     (if overflowed c \<or> clock_frames c < pos then Inl InvalidMapping
      else rbind (fence_scan c pos None None (rate_epochs c)) (\<lambda>selected.
        case selected of
          Some s \<Rightarrow> Inr s
        | None \<Rightarrow>
            if is_some_and (evicted c) (\<lambda>p. pos \<le> prefix_input_end p)
            then Inl EvictedHistory else Inl InvalidMapping))"

section \<open>From canonical samples back to input\<close>

definition input_first :: "rate_epoch \<Rightarrow> u64 \<Rightarrow> mapping_error + u64" where
  "input_first e cursor =
     rbind (ok_or (try_from 64 ((cursor - output_start e) * rate e div 16000)) InvalidMapping) (\<lambda>n.
     rbind (ok_or (checked_add 64 (input_start e) n) InvalidMapping) (\<lambda>f.
       Inr (min f (input_end e))))"

definition input_last :: "rate_epoch \<Rightarrow> u64 \<Rightarrow> mapping_error + u64" where
  "input_last e piece_end =
     rbind (ok_or (try_from 64 (div_ceil ((piece_end - output_start e) * rate e) 16000))
       InvalidMapping) (\<lambda>n.
     rbind (ok_or (checked_add 64 (input_start e) n) InvalidMapping) (\<lambda>f.
       Inr (min f (input_end e))))"

fun span_scan ::
    "input_clock \<Rightarrow> u64 \<Rightarrow> bool \<Rightarrow> u64 \<Rightarrow> u64 option \<Rightarrow> u64 option \<Rightarrow> rate_epoch list
       \<Rightarrow> mapping_error + clock_span" where
  "span_scan c final was_evicted cursor start previous [] = Inl InvalidMapping"
| "span_scan c final was_evicted cursor start previous (e # es) =
     rbind (ok_or (output_end e) InvalidMapping) (\<lambda>out_end.
       if out_end \<le> cursor then span_scan c final was_evicted cursor start previous es
       else if cursor < output_start e \<or> clock_frames c < input_end e then Inl InvalidMapping
       else let piece_end = min final out_end
            in rbind (input_first e cursor) (\<lambda>first.
               rbind (input_last e piece_end) (\<lambda>last.
                 if is_some_and previous (\<lambda>p. p \<noteq> first) then Inl InvalidMapping
                 else let s = (case start of None \<Rightarrow> first | Some f \<Rightarrow> f)
                      in if piece_end = final
                         then (if was_evicted then Inl EvictedHistory
                               else if s < last then Inr \<lparr>span_start = s, span_end = last\<rparr>
                               else Inl InvalidMapping)
                         else span_scan c final was_evicted piece_end (Some s) (Some last) es)))"

definition input_span :: "input_clock \<Rightarrow> u64 \<Rightarrow> u64 \<Rightarrow> mapping_error + clock_span" where
  "input_span c start final =
     (if final \<le> start \<or> overflowed c then Inl InvalidMapping
      else case opt_filter (\<lambda>p. prefix_output_start p \<le> start \<and> start < prefix_output_end p)
                  (evicted c) of
        None \<Rightarrow> span_scan c final False start None None (rate_epochs c)
      | Some p \<Rightarrow>
          (let cursor = min final (prefix_output_end p)
           in if cursor = final then Inl EvictedHistory
              else span_scan c final True cursor None (Some (prefix_input_end p)) (rate_epochs c)))"

section \<open>The skipped clock\<close>

record skipped_clock =
  numerator :: u128
  denominator :: u128

definition new_skipped :: skipped_clock where
  "new_skipped = \<lparr>numerator = 0, denominator = 1\<rparr>"

definition advance_skipped ::
    "skipped_clock \<Rightarrow> u64 \<Rightarrow> u32 \<Rightarrow> u64 option \<times> skipped_clock" where
  "advance_skipped s frames r =
     (if r = 0 then (None, s)
      else
        (let divisor = euclid (denominator s) r; scale = r div divisor
         in case Option.bind (checked_mul 128 (denominator s) scale) (\<lambda>den.
                 Option.bind (checked_mul 128 (numerator s) scale) (\<lambda>scaled.
                 Option.bind (checked_mul 128 frames 16000) (\<lambda>ticks.
                 Option.bind (checked_mul 128 ticks (denominator s div divisor)) (\<lambda>added.
                 Option.bind (checked_add 128 scaled added) (\<lambda>num.
                 Option.bind (try_from 64 (num div den)) (\<lambda>whole.
                   Some (num, den, whole))))))) of
              None \<Rightarrow> (None, s)
            | Some (num, den, whole) \<Rightarrow>
                (let remainder = num mod den; common = euclid remainder den
                 in (Some whole, \<lparr>numerator = remainder div common,
                                  denominator = den div common\<rparr>))))"

section \<open>Fences are exact and ordered\<close>

text \<open>Consecutive epochs share their boundaries, in input and in canonical frames.\<close>

fun chained :: "(u64 \<times> u64) option \<Rightarrow> rate_epoch list \<Rightarrow> bool" where
  "chained previous [] = True"
| "chained previous (e # es) \<longleftrightarrow>
     is_none_or previous (\<lambda>(i, o'). i = input_start e \<and> o' = output_start e)
     \<and> input_start e \<le> input_end e \<and> 0 < rate e
     \<and> is_some_and (output_end e) (\<lambda>out_end. chained (Some (input_end e, out_end)) es)"

definition fences :: "rate_epoch \<Rightarrow> u64 \<Rightarrow> u64 \<Rightarrow> bool" where
  "fences e pos x \<longleftrightarrow> input_start e \<le> pos \<and> pos \<le> input_end e
     \<and> is_some_and (output_end e) (\<lambda>out_end. canonical_in e pos out_end = Some x)"

lemma tick_frequency_pos: "boundary_tick_frequency r \<noteq> None \<Longrightarrow> 0 < r"
  by (auto simp: boundary_tick_frequency_def split: if_splits)

lemma fence_scan_facts:
  "fence_scan c pos previous sel es = Inr res \<Longrightarrow>
     chained previous es \<and> list_all (\<lambda>e. input_end e \<le> clock_frames c) es
     \<and> (res = sel \<or> (\<exists>e \<in> set es. \<exists>x. res = Some x \<and> fences e pos x))"
proof (induction es arbitrary: previous sel)
  case (Cons e es)
  obtain out_end where oe: "output_end e = Some out_end"
    and basic: "boundary_tick_frequency (rate e) \<noteq> None" "input_start e \<le> input_end e"
      "input_end e \<le> clock_frames c"
    and prev: "is_none_or previous (\<lambda>(i, o'). i = input_start e \<and> o' = output_start e)"
    using Cons.prems by (cases previous) (auto simp: not_less split: if_splits)
  show ?case
  proof (cases "input_start e \<le> pos \<and> pos \<le> input_end e")
    case True
    then obtain x where x: "canonical_in e pos out_end = Some x"
      and rest: "fence_scan c pos (Some (input_end e, out_end)) (Some x) es = Inr res"
      using Cons.prems oe basic prev by (cases previous) (auto split: if_splits)
    have "fences e pos x" using True x oe by (simp add: fences_def)
    then show ?thesis
      using Cons.IH [OF rest] oe basic prev tick_frequency_pos by (auto simp: list_all_iff)
  next
    case False
    then have rest: "fence_scan c pos (Some (input_end e, out_end)) sel es = Inr res"
      using Cons.prems oe basic prev by (cases previous) (auto split: if_splits)
    then show ?thesis
      using Cons.IH [OF rest] oe basic prev tick_frequency_pos by auto
  qed
qed auto

lemma canonical_fence_Inr:
  assumes "canonical_fence c pos = Inr x"
  obtains e where "e \<in> set (rate_epochs c)" "fences e pos x" "chained None (rate_epochs c)"
  using assms fence_scan_facts [of c pos None None "rate_epochs c"]
  by (fastforce simp: canonical_fence_def split: if_splits option.splits)

lemma fences_exact:
  assumes "fences e pos x" and "0 < rate e"
  shows "x = output_start e + div_ceil ((pos - input_start e) * 16000) (rate e)"
    and "\<exists>out_end. output_end e = Some out_end \<and> output_start e \<le> x \<and> x \<le> out_end"
  using assms by (auto simp: fences_def canonical_in_def is_some_and_def try_from_def checked_add_def
      split: option.splits if_splits)

lemma chained_rate: "chained previous es \<Longrightarrow> e \<in> set es \<Longrightarrow> 0 < rate e"
  by (induction es arbitrary: previous) (auto simp: is_some_and_def split: option.splits)

text \<open>Later epochs of a chain lie after earlier ones.\<close>

lemma chained_start:
  "chained (Some (i, out)) es \<Longrightarrow> e \<in> set es \<Longrightarrow> i \<le> input_start e \<and> out \<le> output_start e"
proof (induction es arbitrary: i out)
  case (Cons f es)
  obtain fe where fe: "output_end f = Some fe" "chained (Some (input_end f, fe)) es"
    "i = input_start f" "out = output_start f" "input_start f \<le> input_end f"
    using Cons.prems(1) by (auto simp: is_some_and_def split: option.splits)
  have "output_start f \<le> fe" using fe(1) by (auto simp: output_end_def split: option.splits)
  then show ?case using Cons.IH [OF fe(2)] Cons.prems(2) fe by auto
qed simp

lemma fences_mono:
  assumes "chained previous es" and "e \<in> set es" "fences e p x" and "f \<in> set es" "fences f q y"
    and "p < q"
  shows "x \<le> y"
  using assms
proof (induction es arbitrary: previous)
  case (Cons g es)
  obtain ge where g: "output_end g = Some ge" "chained (Some (input_end g, ge)) es" "0 < rate g"
    using Cons.prems(1) by (auto simp: is_some_and_def split: option.splits)
  consider (same) "e = g" "f = g" | (before) "e = g" "f \<in> set es" | (after) "e \<in> set es" "f = g"
    | (rest) "e \<in> set es" "f \<in> set es"
    using Cons.prems(2,4) by auto
  then show ?case
  proof cases
    case same
    have "(p - input_start g) * 16000 \<le> (q - input_start g) * 16000" using Cons.prems(6) by simp
    then show ?thesis
      using fences_exact(1) [of g p x] fences_exact(1) [of g q y] Cons.prems(3,5) same g(3)
        div_ceil_mono [OF g(3)] by simp
  next
    case before
    have "x \<le> ge" using fences_exact(2) [of g p x] Cons.prems(3) before g by auto
    also have "ge \<le> output_start f" using chained_start [OF g(2) before(2)] by simp
    also have "\<dots> \<le> y"
      using fences_exact(2) [OF Cons.prems(5)] chained_rate [OF g(2) before(2)] by auto
    finally show ?thesis .
  next
    case after
    have "input_end g \<le> input_start e" using chained_start [OF g(2) after(1)] by simp
    then have "q \<le> p" using Cons.prems(3,5) after by (auto simp: fences_def)
    then show ?thesis using Cons.prems(6) by simp
  next
    case rest
    then show ?thesis using Cons.IH [OF g(2)] Cons.prems(3,5,6) by simp
  qed
qed simp

text \<open>C12. A source fence is projected by exact left edges: when a cut is accepted, some rate epoch
  contains it and a canonical sample of that epoch belongs to the closed side of the fence exactly
  when its left edge, measured in input frames, lies before the cut.\<close>

theorem fence_assigns_left_edges:
  assumes "canonical_fence c pos = Inr x"
  shows "\<exists>e \<in> set (rate_epochs c). input_start e \<le> pos \<and> pos \<le> input_end e
    \<and> output_start e \<le> x
    \<and> (\<forall>k. k < x - output_start e \<longleftrightarrow> k * rate e < (pos - input_start e) * 16000)"
proof -
  obtain e where e: "e \<in> set (rate_epochs c)" "fences e pos x" "chained None (rate_epochs c)"
    using canonical_fence_Inr [OF assms] .
  have r: "0 < rate e" by (rule chained_rate [OF e(3,1)])
  note x = fences_exact [OF e(2) r]
  have "k < x - output_start e \<longleftrightarrow> k * rate e < (pos - input_start e) * 16000" for k
    using div_ceil_least [OF r, of "(pos - input_start e) * 16000" k] x(1) by (auto simp: not_le)
  then show ?thesis using e(1,2) x(2) by (auto simp: fences_def)
qed

text \<open>Fences keep their order: a later cut of the same clock is never projected before an
  earlier one, across changes of rate included.\<close>

theorem fence_monotone:
  assumes "canonical_fence c p = Inr x" and "canonical_fence c q = Inr y" and "p \<le> q"
  shows "x \<le> y"
proof (cases "p = q")
  case True
  then show ?thesis using assms by simp
next
  case False
  obtain e where e: "e \<in> set (rate_epochs c)" "fences e p x" "chained None (rate_epochs c)"
    using canonical_fence_Inr [OF assms(1)] .
  obtain f where f: "f \<in> set (rate_epochs c)" "fences f q y"
    using canonical_fence_Inr [OF assms(2)] by metis
  show ?thesis by (rule fences_mono [OF e(3,1,2) f]) (use False assms(3) in simp)
qed

definition demo_clock :: input_clock where
  "demo_clock = new_clock\<lparr>clock_frames := 96000, rate_epochs :=
     [\<lparr>input_start = 0, input_end = 48000, output_start = 0, rate = 48000\<rparr>,
      \<lparr>input_start = 48000, input_end = 96000, output_start = 16000, rate = 44100\<rparr>]\<rparr>"

lemma euclid_demo: "boundary_tick_frequency 48000 = Some 48000" "boundary_tick_frequency 44100 = Some 7056000"
  by (simp_all add: boundary_tick_frequency_def euclid_gcd checked_mul_def gcd_non_0_nat)

lemma demo_fences: "canonical_fence demo_clock 47999 = Inr 16000"
  "canonical_fence demo_clock 90000 = Inr 31239"
  by (simp_all add: canonical_fence_def demo_clock_def new_clock_def output_end_def canonical_in_def
      checked_add_def checked_sub_def try_from_def div_ceil_def euclid_demo)

theorem fence_assigns_left_edges_witness:
  "\<exists>e \<in> set (rate_epochs demo_clock). input_start e \<le> 47999 \<and> 47999 \<le> input_end e"
  using fence_assigns_left_edges [OF demo_fences(1)] by blast

theorem fence_monotone_witness: "(16000::nat) \<le> 31239"
  by (rule fence_monotone [OF demo_fences]) simp

section \<open>Spans of canonical samples\<close>

definition holds_sample :: "rate_epoch \<Rightarrow> u64 \<Rightarrow> bool" where
  "holds_sample e k \<longleftrightarrow> output_start e \<le> k \<and> is_some_and (output_end e) (\<lambda>out_end. k < out_end)"

lemma if_InlD: "(if b then Inl e else r) = Inr x \<Longrightarrow> r = Inr x"
  by (cases b) auto

lemma input_last_le: "input_last e k = Inr n \<Longrightarrow> n \<le> input_end e"
  and input_first_le: "input_first e k = Inr n \<Longrightarrow> n \<le> input_end e"
  by (auto simp: input_last_def input_first_def)

lemma span_scan_facts:
  "span_scan c final w cursor start previous es = Inr sp \<Longrightarrow> cursor < final \<Longrightarrow>
     \<not> w \<and> span_start sp < span_end sp
     \<and> (\<exists>f \<in> set es. holds_sample f (final - 1) \<and> input_last f final = Inr (span_end sp)
          \<and> input_end f \<le> clock_frames c)
     \<and> (case start of
          Some s \<Rightarrow> span_start sp = s
        | None \<Rightarrow> \<exists>e \<in> set es. holds_sample e cursor \<and> input_first e cursor = Inr (span_start sp))"
proof (induction es arbitrary: cursor start previous)
  case (Cons e es)
  obtain out_end where oe: "output_end e = Some out_end"
    using Cons.prems(1) by (cases "output_end e") auto
  show ?case
  proof (cases "out_end \<le> cursor")
    case True
    then have "span_scan c final w cursor start previous es = Inr sp" using Cons.prems(1) oe by simp
    from Cons.IH [OF this Cons.prems(2)] show ?thesis by (auto split: option.splits)
  next
    case False
    let ?fin = "min final out_end"
    have ok: "output_start e \<le> cursor" "input_end e \<le> clock_frames c"
      using Cons.prems(1) oe False by (auto simp: not_less split: if_splits)
    then have go: "\<not> (cursor < output_start e \<or> clock_frames c < input_end e)" by simp
    obtain a where a: "input_first e cursor = Inr a"
      using Cons.prems(1) oe False go by (cases "input_first e cursor") auto
    obtain b where b: "input_last e ?fin = Inr b"
      using Cons.prems(1) oe False go a
      by (cases "input_last e ?fin") (simp_all only: span_scan.simps ok_or_simps rbind_simps if_False Let_def sum.distinct)
    have rest: "(if ?fin = final
           then (if w then Inl EvictedHistory
                 else if (case start of None \<Rightarrow> a | Some f \<Rightarrow> f) < b
                 then Inr \<lparr>span_start = (case start of None \<Rightarrow> a | Some f \<Rightarrow> f), span_end = b\<rparr>
                 else Inl InvalidMapping)
           else span_scan c final w ?fin (Some (case start of None \<Rightarrow> a | Some f \<Rightarrow> f)) (Some b) es)
           = Inr sp"
      using Cons.prems(1)
      unfolding span_scan.simps oe ok_or_simps rbind_simps if_not_P [OF False] if_not_P [OF go] a b Let_def
      by (rule if_InlD)
    have here: "holds_sample e cursor" using ok(1) oe False by (simp add: holds_sample_def)
    show ?thesis
    proof (cases "?fin = final")
      case True
      then have sp: "\<not> w" "sp = \<lparr>span_start = (case start of None \<Rightarrow> a | Some f \<Rightarrow> f), span_end = b\<rparr>"
        "(case start of None \<Rightarrow> a | Some f \<Rightarrow> f) < b"
        using rest by (auto split: if_splits)
      have "holds_sample e (final - 1)"
        using True ok(1) oe False Cons.prems(2) by (auto simp: holds_sample_def)
      then show ?thesis using sp a b ok(2) here True by (auto split: option.splits)
    next
      case False
      then have lt: "?fin < final" by auto
      have "span_scan c final w ?fin (Some (case start of None \<Rightarrow> a | Some f \<Rightarrow> f)) (Some b) es = Inr sp"
        using rest unfolding if_not_P [OF False] .
      from Cons.IH [OF this lt] show ?thesis using a here by (auto split: option.splits)
    qed
  qed
qed simp

text \<open>A region of canonical samples maps back to real input. When \<open>input_span\<close> succeeds the
  result is a non-empty stretch of admitted input; its start is the rounded-down position of the
  first sample in the rate epoch that holds it, its end the rounded-up position after the last
  sample in the epoch that holds that one, clamped to the epoch's actual input.\<close>

theorem input_span_sound:
  assumes "input_span c start final = Inr sp"
  shows "span_start sp < span_end sp \<and> span_end sp \<le> clock_frames c
    \<and> (\<exists>e \<in> set (rate_epochs c). holds_sample e start
          \<and> span_start sp = min (input_start e + (start - output_start e) * rate e div 16000) (input_end e))
    \<and> (\<exists>f \<in> set (rate_epochs c). holds_sample f (final - 1)
          \<and> span_end sp = min (input_start f + div_ceil ((final - output_start f) * rate f) 16000)
              (input_end f))"
proof -
  have lt: "start < final" using assms by (auto simp: input_span_def split: if_splits)
  have "span_scan c final False start None None (rate_epochs c) = Inr sp"
  proof (cases "opt_filter (\<lambda>p. prefix_output_start p \<le> start \<and> start < prefix_output_end p) (evicted c)")
    case None
    then show ?thesis using assms by (auto simp: input_span_def split: if_splits)
  next
    case (Some p)
    then have "span_scan c final True (min final (prefix_output_end p)) None (Some (prefix_input_end p))
        (rate_epochs c) = Inr sp" "min final (prefix_output_end p) < final"
      using assms by (auto simp: input_span_def Let_def min_def split: if_splits)
    from span_scan_facts [OF this] show ?thesis by simp
  qed
  from span_scan_facts [OF this lt]
  obtain e f where e: "e \<in> set (rate_epochs c)" "holds_sample e start"
      "input_first e start = Inr (span_start sp)"
    and f: "f \<in> set (rate_epochs c)" "holds_sample f (final - 1)"
      "input_last f final = Inr (span_end sp)" "input_end f \<le> clock_frames c"
    and ne: "span_start sp < span_end sp"
    by auto
  have "span_end sp \<le> clock_frames c" using input_last_le [OF f(3)] f(4) by simp
  then show ?thesis
    using e f ne by (auto simp: input_first_def input_last_def)
qed

lemma demo_span: "input_span demo_clock 15999 16002 = Inr \<lparr>span_start = 47997, span_end = 48006\<rparr>"
  by (simp add: input_span_def demo_clock_def new_clock_def output_end_def checked_sub_def
      try_from_def checked_add_def div_ceil_def input_first_def input_last_def Let_def)

theorem input_span_sound_witness:
  "\<exists>e \<in> set (rate_epochs demo_clock). holds_sample e 15999
     \<and> 47997 = min (input_start e + (15999 - output_start e) * rate e div 16000) (input_end e)"
  using input_span_sound [OF demo_span] by simp

section \<open>The skipped clock is exact\<close>

definition skip :: "skipped_clock \<Rightarrow> u64 \<times> u32 \<Rightarrow> (nat \<times> skipped_clock) option" where
  "skip s x = (case advance_skipped s (fst x) (snd x) of
     (None, _) \<Rightarrow> None | (Some n, s') \<Rightarrow> Some (n, s'))"

definition skipped_inv :: "skipped_clock \<Rightarrow> bool" where
  "skipped_inv s \<longleftrightarrow> 0 < denominator s \<and> numerator s < denominator s"

definition skipped_rest :: "skipped_clock \<Rightarrow> rat" where
  "skipped_rest s = of_nat (numerator s) / of_nat (denominator s)"

lemma skip_Some:
  assumes "skip s (frames, r) = Some (n, s')"
  shows "0 < r" and "n = (numerator s * (r div gcd (denominator s) r)
        + frames * 16000 * (denominator s div gcd (denominator s) r))
        div (denominator s * (r div gcd (denominator s) r))"
    and "s' = (let den = denominator s * (r div gcd (denominator s) r);
                 rem = (numerator s * (r div gcd (denominator s) r)
                   + frames * 16000 * (denominator s div gcd (denominator s) r)) mod den
               in \<lparr>numerator = rem div gcd rem den, denominator = den div gcd rem den\<rparr>)"
proof -
  let ?g = "gcd (denominator s) r"
  let ?scale = "r div ?g"
  show r: "0 < r" using assms by (cases "r = 0") (simp_all add: skip_def advance_skipped_def)
  obtain num den whole where v: "Option.bind (checked_mul 128 (denominator s) ?scale) (\<lambda>den.
                 Option.bind (checked_mul 128 (numerator s) ?scale) (\<lambda>scaled.
                 Option.bind (checked_mul 128 frames 16000) (\<lambda>ticks.
                 Option.bind (checked_mul 128 ticks (denominator s div ?g)) (\<lambda>added.
                 Option.bind (checked_add 128 scaled added) (\<lambda>num.
                 Option.bind (try_from 64 (num div den)) (\<lambda>whole.
                   Some (num, den, whole))))))) = Some (num, den, whole)"
    and o: "n = whole" "s' = \<lparr>numerator = num mod den div gcd (num mod den) den,
        denominator = den div gcd (num mod den) den\<rparr>"
    using assms r
    by (simp add: skip_def advance_skipped_def euclid_gcd Let_def split: option.splits prod.splits)
  have "den = denominator s * ?scale"
    "num = numerator s * ?scale + frames * 16000 * (denominator s div ?g)" "whole = num div den"
    using v by (auto simp: bind_eq_Some_conv)
  then show "n = (numerator s * ?scale + frames * 16000 * (denominator s div ?g))
        div (denominator s * ?scale)"
    "s' = (let den = denominator s * ?scale;
             rem = (numerator s * ?scale + frames * 16000 * (denominator s div ?g)) mod den
           in \<lparr>numerator = rem div gcd rem den, denominator = den div gcd rem den\<rparr>)"
    using o by (simp_all add: Let_def)
qed

lemma reduced_fraction:
  fixes a b :: nat
  assumes "0 < b"
  shows "of_nat (a div gcd a b) / (of_nat (b div gcd a b) :: rat) = of_nat a / of_nat b"
proof -
  have g: "gcd a b \<noteq> 0" using assms by auto
  have "a = (a div gcd a b) * gcd a b" "b = (b div gcd a b) * gcd a b" by simp_all
  then have "of_nat a / (of_nat b :: rat)
      = (of_nat (a div gcd a b) * of_nat (gcd a b)) / (of_nat (b div gcd a b) * of_nat (gcd a b))"
    by (metis of_nat_mult)
  then show ?thesis using g by simp
qed

text \<open>Adding two fractions over the common denominator the clock uses.\<close>

lemma common_denominator:
  fixes d r :: nat
  assumes "0 < d" and "0 < r"
  shows "of_nat (a * (r div gcd d r) + b * (d div gcd d r)) / of_nat (d * (r div gcd d r))
     = (of_nat a / of_nat d + of_nat b / of_nat r :: rat)"
proof -
  let ?g = "gcd d r"
  have g: "0 < ?g" using assms by simp
  have d: "d = d div ?g * ?g" and r: "r = r div ?g * ?g" by simp_all
  have rg: "0 < r div ?g" using assms by (simp add: div_greater_zero_iff gcd_le2_nat)
  have dg: "0 < d div ?g" using assms by (simp add: div_greater_zero_iff gcd_le1_nat)
  have "d * (r div ?g) = (d div ?g) * r" by (metis d r mult.assoc mult.commute mult.left_commute)
  then have "of_nat (b * (d div ?g)) / of_nat (d * (r div ?g))
      = (of_nat b * of_nat (d div ?g)) / (of_nat (d div ?g) * of_nat r :: rat)"
    by (metis of_nat_mult)
  also have "\<dots> = of_nat b / of_nat r" using dg by simp
  finally have 1: "of_nat (b * (d div ?g)) / of_nat (d * (r div ?g)) = (of_nat b / of_nat r :: rat)" .
  have "of_nat (a * (r div ?g)) / of_nat (d * (r div ?g)) = (of_nat a / of_nat d :: rat)"
    using rg by simp
  with 1 show ?thesis by (simp add: add_divide_distrib)
qed

lemma div_common_less:
  fixes a b g :: nat
  assumes "a < b" and "0 < g" and "g dvd a" and "g dvd b"
  shows "a div g < b div g"
proof -
  obtain x y where "a = g * x" "b = g * y" using assms(3,4) by (auto elim!: dvdE)
  then show ?thesis using assms(1,2) by simp
qed

interpretation skipped: exact_carry skip skipped_inv skipped_rest
    "\<lambda>(frames, r). of_nat (frames * 16000) / of_nat r"
proof
  fix s x n s'
  assume s: "skipped_inv s" and p: "skip s x = Some (n, s')"
  obtain frames r where x: "x = (frames, r)" by fastforce
  note f = skip_Some [OF p [unfolded x]]
  let ?g = "gcd (denominator s) r"
  let ?den = "denominator s * (r div ?g)"
  let ?num = "numerator s * (r div ?g) + frames * 16000 * (denominator s div ?g)"
  have d: "0 < denominator s" using s by (simp add: skipped_inv_def)
  have den: "0 < ?den" using d f(1) by (simp add: div_greater_zero_iff gcd_le2_nat)
  let ?rem = "?num mod ?den"
  have s': "s' = \<lparr>numerator = ?rem div gcd ?rem ?den, denominator = ?den div gcd ?rem ?den\<rparr>"
    using f(3) by (simp add: Let_def)
  have gpos: "0 < gcd ?rem ?den" using den by simp
  have inv: "skipped_inv s'"
  proof -
    have "?rem < ?den" using den by simp
    then have "?rem div gcd ?rem ?den < ?den div gcd ?rem ?den"
      by (rule div_common_less) (use gpos in simp_all)
    then show ?thesis by (simp add: s' skipped_inv_def)
  qed
  have "skipped_rest s' = of_nat ?rem / of_nat ?den"
    unfolding s' skipped_rest_def skipped_clock.simps by (rule reduced_fraction [OF den])
  then have "of_nat n + skipped_rest s' = of_nat ?num / of_nat ?den"
    using of_nat_div_mod [OF den, of ?num] f(2) by simp
  also have "\<dots> = skipped_rest s + of_nat (frames * 16000) / of_nat r"
    unfolding skipped_rest_def by (rule common_denominator [OF d f(1)])
  finally show "skipped_inv s' \<and> of_nat n + skipped_rest s'
      = skipped_rest s + (case x of (frames, r) \<Rightarrow> of_nat (frames * 16000) / of_nat r)"
    using inv x by simp
next
  fix s
  assume "skipped_inv s"
  then show "0 \<le> skipped_rest s \<and> skipped_rest s < 1"
    by (simp add: skipped_inv_def skipped_rest_def)
qed

text \<open>Skipped input is counted without rounding drift: over any sequence of skipped stretches,
  at any mixture of rates, the whole canonical samples reported add up to the rounded-down exact sum
  of the stretches' durations, so cutting a stretch into pieces never changes the count.\<close>

theorem skipped_clock_exact:
  assumes "push_all skip new_skipped xs = Some (n, s)"
  shows "int n = \<lfloor>(\<Sum>(frames, r)\<leftarrow>xs. of_nat (frames * 16000) / of_nat r) :: rat\<rfloor>"
proof -
  have "skipped_inv new_skipped" by (simp add: skipped_inv_def new_skipped_def)
  from skipped.push_all_floor [OF this assms] show ?thesis
    by (simp add: skipped_rest_def new_skipped_def)
qed

lemma demo_skips:
  "push_all skip new_skipped [(441, 44100), (1, 48000), (2, 48000)]
     = Some (161, \<lparr>numerator = 0, denominator = 1\<rparr>)"
  by (simp add: skip_def advance_skipped_def new_skipped_def euclid_gcd gcd_red_nat [of 1]
      checked_mul_def checked_add_def try_from_def Let_def)

theorem skipped_clock_exact_witness:
  "int 161 = \<lfloor>(\<Sum>(frames, r)\<leftarrow>[(441, 44100), (1, 48000), (2, 48000)].
      of_nat (frames * 16000) / of_nat r) :: rat\<rfloor>"
  using skipped_clock_exact [OF demo_skips] by simp

end
