(* ===== verification/JobPayload.thy ===== *)
theory JobPayload
  imports QualityMerge "HOL-Library.List_Lexorder" "HOL-Library.Char_ord"
begin

text \<open>
  The payload half of \<open>crates/corti-jobs/src/lib.rs\<close>: JSON objects as the code reads and writes
  them, the settled quality record a recording payload carries, and the monotone merge of two
  payloads of the same recording.

  The text encoding of JSON and the derived decoding of a quality record's fields are serde's. They
  enter as a \<open>codec\<close>, with \<open>codec_ok\<close> stating what the code relies on.
\<close>

section \<open>JSON values\<close>

text \<open>\<open>serde_json::Value\<close>. An object keeps its keys sorted; numbers are only ever carried.\<close>

datatype json =
    JNull
  | JBool bool
  | JNumber string
  | JString string
  | JArray "json list"
  | JObject "(string \<times> json) list"

datatype job_error =
    InvalidPayload | InvalidQuality | ConflictingQuality | ConflictingIdentity | MissingIdentity
  | ConflictingActive | StaleClaim | ClaimGone | NotInTransaction
  | ConstraintViolation | ColumnRange | UnreadablePayload | Panicked

fun json_get :: "json \<Rightarrow> string \<Rightarrow> json option" where
  "json_get (JObject kvs) k = map_of kvs k"
| "json_get _ k = None"

definition json_index :: "json \<Rightarrow> string \<Rightarrow> json" where
  "json_index v k = (case json_get v k of None \<Rightarrow> JNull | Some x \<Rightarrow> x)"

fun as_str :: "json \<Rightarrow> string option" where
  "as_str (JString s) = Some s"
| "as_str _ = None"

fun as_bool :: "json \<Rightarrow> bool option" where
  "as_bool (JBool b) = Some b"
| "as_bool _ = None"

fun is_object :: "json \<Rightarrow> bool" where
  "is_object (JObject _) = True"
| "is_object _ = False"

fun key_insert :: "string \<Rightarrow> json \<Rightarrow> (string \<times> json) list \<Rightarrow> (string \<times> json) list" where
  "key_insert k v [] = [(k, v)]"
| "key_insert k v ((k', v') # kvs) =
     (if k < k' then (k, v) # (k', v') # kvs
      else if k = k' then (k, v) # kvs
      else (k', v') # key_insert k v kvs)"

text \<open>Assignment \<open>v[k] = x\<close>: a null becomes an object, any other non-object panics.\<close>

fun json_set :: "json \<Rightarrow> string \<Rightarrow> json \<Rightarrow> job_error + json" where
  "json_set (JObject kvs) k x = Inr (JObject (key_insert k x kvs))"
| "json_set JNull k x = Inr (JObject [(k, x)])"
| "json_set _ k x = Inl Panicked"

definition get_str :: "json \<Rightarrow> string \<Rightarrow> string option" where
  "get_str v k = Option.bind (json_get v k) as_str"

section \<open>The codec\<close>

record 't codec =
  to_text :: "json \<Rightarrow> 't"
  from_text :: "'t \<Rightarrow> json option"
  empty_text :: 't
  read_record :: "json \<Rightarrow> quality_record option"
  write_record :: "quality_record \<Rightarrow> json option"

text \<open>
  Printed JSON parses back to the same value; \<open>{}\<close> is the printed empty object; every decoded
  record has fields of their machine types; a written record reads back and is not null.
\<close>

definition codec_ok :: "'t codec \<Rightarrow> bool" where
  "codec_ok c \<longleftrightarrow>
     (\<forall>v. from_text c (to_text c v) = Some v) \<and> empty_text c = to_text c (JObject [])
     \<and> (\<forall>v r. read_record c v = Some r \<longrightarrow> record_fits r)
     \<and> (\<forall>r v. write_record c r = Some v \<longrightarrow> read_record c v = Some r \<and> v \<noteq> JNull)"

text \<open>\<open>QualityRecord::deserialize\<close> validates what the derived decoder produced.\<close>

definition quality_from_value :: "'t codec \<Rightarrow> json \<Rightarrow> quality_record option" where
  "quality_from_value c v =
     (case read_record c v of
        None \<Rightarrow> None
      | Some r \<Rightarrow> if is_ok (validate r) then Some r else None)"

definition settled_quality :: "'t codec \<Rightarrow> json \<Rightarrow> job_error + quality_record option" where
  "settled_quality c payload =
     (case json_get payload ''settled_quality'' of
        None \<Rightarrow> Inr None
      | Some JNull \<Rightarrow> Inr None
      | Some v \<Rightarrow> (case quality_from_value c v of
                    None \<Rightarrow> Inl InvalidQuality | Some r \<Rightarrow> Inr (Some r)))"

definition merge_settled_quality ::
    "'t codec \<Rightarrow> json \<Rightarrow> quality_record \<Rightarrow> job_error + json" where
  "merge_settled_quality c payload incoming =
     (if \<not> is_object payload then Inl InvalidPayload
      else if \<not> is_ok (validate incoming) then Inl InvalidQuality
      else rbind (settled_quality c payload) (\<lambda>settled.
           rbind (case settled of
                    Some previous \<Rightarrow>
                      (case merge_snapshot previous incoming of
                         (Inl _, _) \<Rightarrow> Inl ConflictingQuality
                       | (Inr _, merged) \<Rightarrow> Inr merged)
                  | None \<Rightarrow> Inr incoming) (\<lambda>merged.
           rbind (ok_or (write_record c merged) InvalidQuality) (\<lambda>v.
             json_set payload ''settled_quality'' v))))"

text \<open>Whether the incoming note takes over: the first note, or a canonical one over a partial one.\<close>

definition promotes :: "json \<Rightarrow> json \<Rightarrow> bool" where
  "promotes existing incoming \<longleftrightarrow>
     get_str incoming ''preferred_note'' \<noteq> None
     \<and> (get_str existing ''preferred_note'' = None
        \<or> as_bool (json_index incoming ''note_canonical'') = Some True
          \<and> as_bool (json_index existing ''note_canonical'') \<noteq> Some True)"

definition merge_recording_payload :: "'t codec \<Rightarrow> json \<Rightarrow> json \<Rightarrow> job_error + json" where
  "merge_recording_payload c existing incoming =
     rbind (ok_or (opt_filter (\<lambda>i. i \<noteq> '''') (get_str existing ''id'')) InvalidPayload) (\<lambda>i.
       if get_str incoming ''id'' \<noteq> Some i then Inl ConflictingIdentity
       else rbind (settled_quality c existing) (\<lambda>_.
            rbind (settled_quality c incoming) (\<lambda>quality.
            rbind (case quality of
                     Some q \<Rightarrow> merge_settled_quality c existing q
                   | None \<Rightarrow> Inr existing) (\<lambda>merged.
              if promotes existing incoming
              then rbind (json_set merged ''preferred_note'' (json_index incoming ''preferred_note''))
                     (\<lambda>m. json_set m ''note_canonical''
                            (JBool (case as_bool (json_index incoming ''note_canonical'') of
                                      None \<Rightarrow> False | Some b \<Rightarrow> b)))
              else Inr merged))))"

section \<open>Reading back what was written\<close>

lemma map_of_key_insert [simp]: "map_of (key_insert k v kvs) = (map_of kvs)(k \<mapsto> v)"
  by (induction k v kvs rule: key_insert.induct) (auto simp: fun_upd_twist)

lemma json_set_get:
  "json_set v k x = Inr w \<Longrightarrow> json_get w j = (if j = k then Some x else json_get v j)"
  by (cases "(v, k, x)" rule: json_set.cases) auto

lemma json_set_object: "json_set v k x = Inr w \<Longrightarrow> is_object w"
  by (cases "(v, k, x)" rule: json_set.cases) auto

lemma get_str_object: "get_str v k = Some s \<Longrightarrow> is_object v"
  by (cases v) (auto simp: get_str_def)

lemma settled_quality_cong:
  "json_get v ''settled_quality'' = json_get w ''settled_quality'' \<Longrightarrow>
     settled_quality c v = settled_quality c w"
  by (simp add: settled_quality_def)

lemma settled_quality_None:
  "json_get v ''settled_quality'' = None \<Longrightarrow> settled_quality c v = Inr None"
  by (simp add: settled_quality_def)

lemma settled_quality_well_formed:
  assumes "codec_ok c" and "settled_quality c v = Inr (Some q)"
  shows "well_formed q"
proof -
  obtain w where "read_record c w = Some q" "is_ok (validate q)"
    using assms(2)
    by (auto simp: settled_quality_def quality_from_value_def split: option.splits json.splits if_splits)
  moreover from this have "record_fits q" using assms(1) by (auto simp: codec_ok_def)
  ultimately show ?thesis by (simp add: well_formed_def)
qed

lemma settled_quality_written:
  assumes "codec_ok c" and "write_record c q = Some w" and "is_ok (validate q)"
    and "json_set v ''settled_quality'' w = Inr v'"
  shows "settled_quality c v' = Inr (Some q)"
proof -
  have "json_get v' ''settled_quality'' = Some w" using json_set_get [OF assms(4)] by simp
  moreover have "read_record c w = Some q" "w \<noteq> JNull" using assms(1,2) by (auto simp: codec_ok_def)
  ultimately show ?thesis using assms(3)
    by (cases w) (simp_all add: settled_quality_def quality_from_value_def)
qed

section \<open>Merging is monotone\<close>

text \<open>The payload's settled record knows of lost source audio.\<close>

definition source_lost :: "'t codec \<Rightarrow> json \<Rightarrow> bool" where
  "source_lost c v =
     (case settled_quality c v of
        Inr (Some q) \<Rightarrow> source_completeness q = Incomplete | _ \<Rightarrow> False)"

lemma outstanding_loss: "well_formed q \<Longrightarrow> source_completeness q = Incomplete \<longleftrightarrow> has_loss q SourceLoss"
  by (simp add: source_completeness_def has_outstanding_source well_formed_def)

lemma merge_settled_facts:
  assumes c: "codec_ok c" and q: "well_formed q"
    and m: "merge_settled_quality c v q = Inr v'"
  shows "j \<noteq> ''settled_quality'' \<Longrightarrow> json_get v' j = json_get v j"
    and "source_lost c v' \<longleftrightarrow> source_lost c v \<or> source_completeness q = Incomplete"
    and "is_object v'"
proof -
  obtain settled merged w where st: "settled_quality c v = Inr settled"
    and mg: "(case settled of
        Some previous \<Rightarrow>
          (case merge_snapshot previous q of
             (Inl _, _) \<Rightarrow> Inl ConflictingQuality | (Inr _, merged) \<Rightarrow> Inr merged)
      | None \<Rightarrow> Inr q) = Inr merged"
    and w: "write_record c merged = Some w" and set: "json_set v ''settled_quality'' w = Inr v'"
    and ob: "is_object v"
    using m by (auto simp: merge_settled_quality_def split: if_splits)
  show "j \<noteq> ''settled_quality'' \<Longrightarrow> json_get v' j = json_get v j" using json_set_get [OF set] by simp
  show "is_object v'" using set by (rule json_set_object)
  have "well_formed merged \<and> (source_completeness merged = Incomplete
      \<longleftrightarrow> source_lost c v \<or> source_completeness q = Incomplete)"
  proof (cases settled)
    case None
    then show ?thesis using mg q st by (simp add: source_lost_def)
  next
    case (Some previous)
    then have wp: "well_formed previous" using settled_quality_well_formed [OF c] st by simp
    obtain u where ms: "merge_snapshot previous q = (Inr u, merged)"
      using mg Some by (auto split: prod.splits sum.splits)
    have "record_fits q" using q by (simp add: well_formed_def)
    from merge_snapshot_facts [OF wp this ms] have "well_formed merged"
      "has_loss merged SourceLoss = (has_loss previous SourceLoss \<or> has_loss q SourceLoss)"
      by simp_all
    then show ?thesis using wp q st Some by (simp add: outstanding_loss source_lost_def)
  qed
  then show "source_lost c v' \<longleftrightarrow> source_lost c v \<or> source_completeness q = Incomplete"
    using settled_quality_written [OF c w _ set] by (simp add: source_lost_def well_formed_def)
qed

lemma merge_payload_facts:
  assumes c: "codec_ok c" and m: "merge_recording_payload c existing incoming = Inr v"
  shows "\<exists>i. i \<noteq> '''' \<and> get_str existing ''id'' = Some i \<and> get_str incoming ''id'' = Some i"
    and "j \<notin> {''settled_quality'', ''preferred_note'', ''note_canonical''} \<Longrightarrow>
      json_get v j = json_get existing j"
    and "source_lost c v \<longleftrightarrow> source_lost c existing \<or> source_lost c incoming"
    and "\<not> promotes existing incoming \<Longrightarrow>
      j \<noteq> ''settled_quality'' \<Longrightarrow> json_get v j = json_get existing j"
    and "promotes existing incoming \<Longrightarrow>
      json_get v ''preferred_note'' = json_get incoming ''preferred_note''
      \<and> (as_bool (json_index v ''note_canonical'') = Some True
          \<longleftrightarrow> as_bool (json_index incoming ''note_canonical'') = Some True)"
    and "is_object v"
proof -
  let ?canon = "JBool (case as_bool (json_index incoming ''note_canonical'') of
      None \<Rightarrow> False | Some b \<Rightarrow> b)"
  obtain i settled quality merged where i: "get_str existing ''id'' = Some i" "i \<noteq> ''''"
      "get_str incoming ''id'' = Some i"
    and q: "settled_quality c existing = Inr settled" "settled_quality c incoming = Inr quality"
    and mg: "(case quality of Some q \<Rightarrow> merge_settled_quality c existing q | None \<Rightarrow> Inr existing)
        = Inr merged"
    and fin: "(if promotes existing incoming
        then rbind (json_set merged ''preferred_note'' (json_index incoming ''preferred_note''))
               (\<lambda>m. json_set m ''note_canonical'' ?canon)
        else Inr merged) = Inr v"
    using m unfolding merge_recording_payload_def by (auto split: if_splits)
  show "\<exists>i. i \<noteq> '''' \<and> get_str existing ''id'' = Some i \<and> get_str incoming ''id'' = Some i"
    using i by blast
  have old: "(\<forall>j. j \<noteq> ''settled_quality'' \<longrightarrow> json_get merged j = json_get existing j)
      \<and> (source_lost c merged \<longleftrightarrow> source_lost c existing \<or> source_lost c incoming) \<and> is_object merged"
  proof (cases quality)
    case None
    then show ?thesis using mg q get_str_object [OF i(1)] by (simp add: source_lost_def)
  next
    case (Some q')
    then have ms: "merge_settled_quality c existing q' = Inr merged" using mg by simp
    have "well_formed q'" using settled_quality_well_formed [OF c] q Some by simp
    from merge_settled_facts [OF c this ms] show ?thesis using q Some by (simp add: source_lost_def)
  qed
  have new: "(\<forall>j. j \<notin> {''preferred_note'', ''note_canonical''} \<longrightarrow> json_get v j = json_get merged j)
      \<and> is_object v \<and> (if promotes existing incoming
          then json_get v ''preferred_note'' = Some (json_index incoming ''preferred_note'')
             \<and> json_get v ''note_canonical'' = Some ?canon else v = merged)"
  proof (cases "promotes existing incoming")
    case True
    then obtain n where n: "json_set merged ''preferred_note'' (json_index incoming ''preferred_note'') = Inr n"
      and v: "json_set n ''note_canonical'' ?canon = Inr v"
      using fin by auto
    have "is_object v" using v by (rule json_set_object)
    then show ?thesis using True json_set_get [OF n] json_set_get [OF v] by simp
  next
    case False
    then show ?thesis using fin old by simp
  qed
  show "j \<notin> {''settled_quality'', ''preferred_note'', ''note_canonical''} \<Longrightarrow>
      json_get v j = json_get existing j"
    using old new by simp
  show "\<not> promotes existing incoming \<Longrightarrow> j \<noteq> ''settled_quality'' \<Longrightarrow> json_get v j = json_get existing j"
    using old new by simp
  show "promotes existing incoming \<Longrightarrow>
      json_get v ''preferred_note'' = json_get incoming ''preferred_note''
      \<and> (as_bool (json_index v ''note_canonical'') = Some True
          \<longleftrightarrow> as_bool (json_index incoming ''note_canonical'') = Some True)"
  proof -
    assume pr: "promotes existing incoming"
    then have "json_get incoming ''preferred_note'' \<noteq> None"
      by (cases "json_get incoming ''preferred_note''") (simp_all add: promotes_def get_str_def)
    then have "Some (json_index incoming ''preferred_note'') = json_get incoming ''preferred_note''"
      by (auto simp: json_index_def)
    moreover have "as_bool (json_index v ''note_canonical'') = Some True
        \<longleftrightarrow> as_bool (json_index incoming ''note_canonical'') = Some True"
    proof -
      have "json_index v ''note_canonical'' = ?canon" using new pr by (simp add: json_index_def [of v])
      then show ?thesis by (simp split: option.split)
    qed
    ultimately show ?thesis using new pr by simp
  qed
  show "is_object v" using new by simp
  have "json_get v ''settled_quality'' = json_get merged ''settled_quality''" using new by simp
  then have "source_lost c v = source_lost c merged"
    unfolding source_lost_def by (subst settled_quality_cong [of v merged]) simp_all
  then show "source_lost c v \<longleftrightarrow> source_lost c existing \<or> source_lost c incoming" using old by simp
qed

end
