(* ===== verification/Jobs.thy ===== *)
theory Jobs
  imports JobPayload "HOL-Library.Multiset"
begin

text \<open>
  The durable job table of \<open>crates/corti-jobs/src/lib.rs\<close>: enqueueing, claiming, settling and
  recovering background jobs.

  The table is a list of rows in the order of their ids. An operation that is one statement or one
  transaction returns either an error, the table being what it was, or its result with the new
  table. The clock is read by the caller and passed in: an instant is a number of nanoseconds, a
  stored timestamp a number of milliseconds, since the stored text keeps milliseconds and its lexical
  order is the order of time. The bounds of chrono's instants and durations are parameters; leaving
  them is a panic. SQLite may return any of several rows with the same due time, so the choice is a
  parameter too. Failures of the database file itself are not modelled.
\<close>

section \<open>Time\<close>

type_synonym instant = int

definition fmt_utc :: "instant \<Rightarrow> int" where "fmt_utc t = t div 10 ^ 6"
definition parse_utc :: "int \<Rightarrow> instant" where "parse_utc m = m * 10 ^ 6"

record time_limits =
  earliest :: int
  latest :: int
  longest :: int

definition add_delta :: "time_limits \<Rightarrow> instant \<Rightarrow> int \<Rightarrow> job_error + instant" where
  "add_delta l t d = (if earliest l \<le> t + d \<and> t + d \<le> latest l then Inr (t + d) else Inl Panicked)"

definition secs_delta :: "time_limits \<Rightarrow> int \<Rightarrow> job_error + int" where
  "secs_delta l s = (if \<bar>s * 10 ^ 9\<bar> \<le> longest l then Inr (s * 10 ^ 9) else Inl Panicked)"

definition std_delta :: "time_limits \<Rightarrow> nat \<Rightarrow> int" where
  "std_delta l d = (if int d \<le> longest l then int d else longest l)"

text \<open>\<open>as i64\<close> and \<open>as u64\<close>.\<close>

definition as_i64 :: "u64 \<Rightarrow> int" where
  "as_i64 n = (if n < 2 ^ 63 then int n else int n - 2 ^ 64)"

definition as_u64 :: "int \<Rightarrow> u64" where
  "as_u64 i = nat (i mod 2 ^ 64)"

section \<open>Backoff\<close>

record backoff =
  base :: nat
  cap :: nat

definition saturating_pow :: "nat \<Rightarrow> nat \<Rightarrow> nat \<Rightarrow> nat" where
  "saturating_pow w b e = min (b ^ e) (2 ^ w - 1)"

definition delay :: "backoff \<Rightarrow> u32 \<Rightarrow> nat" where
  "delay b attempts =
     (let factor = saturating_pow 64 2 (saturating_sub attempts 1)
      in min (cap b) (saturating_mul 64 (base b div 10 ^ 9) factor * 10 ^ 9))"

section \<open>The table\<close>

datatype job_state = JobPending | JobRunning | JobFailed

record 't job_row =
  row_id :: nat
  row_kind :: string
  row_payload :: 't
  row_state :: job_state
  row_attempts :: nat
  row_max_attempts :: nat
  row_due :: int
  row_period :: "int option"
  row_error :: "string option"
  row_created :: int
  row_updated :: int

record claimed_job =
  job_id :: nat
  job_kind :: string
  job_payload :: json
  job_attempts :: u32
  job_max_attempts :: u32
  job_period :: "u64 option"

datatype fail_outcome = Rescheduled instant | Exhausted

definition active :: "'t job_row \<Rightarrow> bool" where
  "active r \<longleftrightarrow> row_state r \<noteq> JobFailed"

text \<open>The partial unique index over \<open>(kind, payload)\<close> of active rows.\<close>

definition dedupe_ok :: "'t job_row list \<Rightarrow> bool" where
  "dedupe_ok rows \<longleftrightarrow> distinct (map (\<lambda>r. (row_kind r, row_payload r)) (filter active rows))"

definition update_where ::
    "('t job_row \<Rightarrow> bool) \<Rightarrow> ('t job_row \<Rightarrow> 't job_row) \<Rightarrow> 't job_row list
       \<Rightarrow> job_error + 't job_row list" where
  "update_where p f rows =
     (let rows' = map (\<lambda>r. if p r then f r else r) rows
      in if dedupe_ok rows' then Inr rows' else Inl ConstraintViolation)"

definition fresh_id :: "'t job_row list \<Rightarrow> nat" where
  "fresh_id rows = (if rows = [] then 1 else Max (set (map row_id rows)) + 1)"

definition new_row ::
    "nat \<Rightarrow> string \<Rightarrow> 't \<Rightarrow> u32 \<Rightarrow> int \<Rightarrow> int option \<Rightarrow> int \<Rightarrow> 't job_row" where
  "new_row i kind payload max_attempts due period now =
     \<lparr>row_id = i, row_kind = kind, row_payload = payload, row_state = JobPending, row_attempts = 0,
      row_max_attempts = max_attempts, row_due = due, row_period = period, row_error = None,
      row_created = now, row_updated = now\<rparr>"

definition insert_row ::
    "'t job_row list \<Rightarrow> string \<Rightarrow> 't \<Rightarrow> u32 \<Rightarrow> int \<Rightarrow> int option \<Rightarrow> int
       \<Rightarrow> job_error + nat \<times> 't job_row list" where
  "insert_row rows kind payload max_attempts due period now =
     (let i = fresh_id rows;
          rows' = rows @ [new_row i kind payload max_attempts due period now]
      in if dedupe_ok rows' then Inr (i, rows') else Inl ConstraintViolation)"

section \<open>Enqueueing\<close>

definition enqueue ::
    "'t codec \<Rightarrow> 't job_row list \<Rightarrow> string \<Rightarrow> json \<Rightarrow> u32 \<Rightarrow> instant \<Rightarrow> instant
       \<Rightarrow> nat option \<times> 't job_row list" where
  "enqueue c rows kind payload max_attempts run_at now =
     (case insert_row rows kind (to_text c payload) max_attempts (fmt_utc run_at) None (fmt_utc now) of
        Inl _ \<Rightarrow> (None, rows)
      | Inr (i, rows') \<Rightarrow> (Some i, rows'))"

definition enqueue_periodic ::
    "'t codec \<Rightarrow> 't job_row list \<Rightarrow> string \<Rightarrow> nat \<Rightarrow> instant \<Rightarrow> job_error + 't job_row list" where
  "enqueue_periodic c rows kind period now =
     (let secs = as_i64 (period div 10 ^ 9);
          rows' = (case insert_row rows kind (empty_text c) 1 (fmt_utc now) (Some secs) (fmt_utc now) of
                     Inl _ \<Rightarrow> rows | Inr (_, inserted) \<Rightarrow> inserted)
      in update_where
           (\<lambda>r. row_kind r = kind \<and> row_payload r = empty_text c \<and> row_state r = JobPending)
           (\<lambda>r. r\<lparr>row_due := fmt_utc now, row_period := Some secs, row_updated := fmt_utc now\<rparr>) rows')"

text \<open>Rows of a kind, active ones first, newest first.\<close>

definition recording_rows :: "'t job_row list \<Rightarrow> string \<Rightarrow> 't job_row list" where
  "recording_rows rows kind =
     sort_key (\<lambda>r. - int (row_id r)) (filter (\<lambda>r. row_kind r = kind \<and> active r) rows)
     @ sort_key (\<lambda>r. - int (row_id r)) (filter (\<lambda>r. row_kind r = kind \<and> \<not> active r) rows)"

fun find_recording ::
    "'t codec \<Rightarrow> string \<Rightarrow> ('t job_row \<times> json) option \<Rightarrow> 't job_row list
       \<Rightarrow> job_error + ('t job_row \<times> json) option" where
  "find_recording c i found [] = Inr found"
| "find_recording c i found (r # rs) =
     rbind (ok_or (from_text c (row_payload r)) InvalidPayload) (\<lambda>candidate.
       if get_str candidate ''id'' = Some i
       then (if found \<noteq> None
             then (if row_state r = JobFailed then find_recording c i found rs
                   else Inl ConflictingActive)
             else find_recording c i (Some (r, candidate)) rs)
       else find_recording c i found rs)"

definition spent :: "bool \<Rightarrow> json \<Rightarrow> job_error + json" where
  "spent rearm payload =
     (if rearm then json_set payload ''first_batch'' (JBool False) else Inr payload)"

definition enqueue_recording_in_transaction ::
    "'t codec \<Rightarrow> 't job_row list \<Rightarrow> string \<Rightarrow> json \<Rightarrow> u32 \<Rightarrow> instant \<Rightarrow> instant \<Rightarrow> bool
       \<Rightarrow> job_error + nat option \<times> 't job_row list" where
  "enqueue_recording_in_transaction c rows kind payload max_attempts run_at now rearm =
     rbind (settled_quality c payload) (\<lambda>_.
     rbind (ok_or (opt_filter (\<lambda>i. i \<noteq> '''') (get_str payload ''id'')) MissingIdentity) (\<lambda>i.
     rbind (find_recording c i None (recording_rows rows kind)) (\<lambda>existing.
       case existing of
         Some (r, old) \<Rightarrow>
           rbind (merge_recording_payload c old payload) (\<lambda>combined.
           rbind (spent rearm combined) (\<lambda>merged.
             if rearm \<and> row_state r = JobFailed
             then map_sum id (Pair None) (update_where (\<lambda>q. row_id q = row_id r)
               (\<lambda>q. q\<lparr>row_payload := to_text c merged, row_state := JobPending, row_attempts := 0,
                 row_max_attempts := max_attempts, row_due := fmt_utc run_at, row_error := None,
                 row_updated := fmt_utc now\<rparr>) rows)
             else if merged \<noteq> old
             then map_sum id (Pair None) (update_where (\<lambda>q. row_id q = row_id r)
               (\<lambda>q. q\<lparr>row_payload := to_text c merged\<rparr>) rows)
             else Inr (None, rows)))
       | None \<Rightarrow>
           rbind (spent rearm payload) (\<lambda>p.
             map_sum id (\<lambda>(i, rows'). (Some i, rows'))
               (insert_row rows kind (to_text c p) max_attempts (fmt_utc run_at) None
                 (fmt_utc now))))))"

definition enqueue_recording ::
    "'t codec \<Rightarrow> 't job_row list \<Rightarrow> string \<Rightarrow> json \<Rightarrow> u32 \<Rightarrow> instant \<Rightarrow> instant
       \<Rightarrow> job_error + nat option \<times> 't job_row list" where
  "enqueue_recording c rows kind payload max_attempts run_at now =
     enqueue_recording_in_transaction c rows kind payload max_attempts run_at now False"

definition rearm_failed_recording ::
    "'t codec \<Rightarrow> 't job_row list \<Rightarrow> string \<Rightarrow> json \<Rightarrow> u32 \<Rightarrow> instant \<Rightarrow> instant
       \<Rightarrow> job_error + nat option \<times> 't job_row list" where
  "rearm_failed_recording c rows kind payload max_attempts run_at now =
     enqueue_recording_in_transaction c rows kind payload max_attempts run_at now True"

definition rearm_recording_in_transaction ::
    "bool \<Rightarrow> 't codec \<Rightarrow> 't job_row list \<Rightarrow> string \<Rightarrow> json \<Rightarrow> u32 \<Rightarrow> instant \<Rightarrow> instant
       \<Rightarrow> job_error + nat option \<times> 't job_row list" where
  "rearm_recording_in_transaction autocommit c rows kind payload max_attempts run_at now =
     (if autocommit then Inl NotInTransaction
      else enqueue_recording_in_transaction c rows kind payload max_attempts run_at now True)"

fun first_recording :: "'t codec \<Rightarrow> string \<Rightarrow> 't job_row list \<Rightarrow> job_error + json option" where
  "first_recording c i [] = Inr None"
| "first_recording c i (r # rs) =
     rbind (ok_or (from_text c (row_payload r)) InvalidPayload) (\<lambda>payload.
       if get_str payload ''id'' = Some i then Inr (Some payload) else first_recording c i rs)"

definition recording_payload ::
    "'t codec \<Rightarrow> 't job_row list \<Rightarrow> string \<Rightarrow> string \<Rightarrow> job_error + json option" where
  "recording_payload c rows kind i = first_recording c i (recording_rows rows kind)"

section \<open>Claiming\<close>

text \<open>The due pending rows with the least due time.\<close>

definition earliest_due :: "'t job_row list \<Rightarrow> instant \<Rightarrow> 't job_row list" where
  "earliest_due rows now =
     (let due = filter (\<lambda>r. row_state r = JobPending \<and> row_due r \<le> fmt_utc now) rows
      in filter (\<lambda>r. list_all (\<lambda>q. row_due r \<le> row_due q) due) due)"

definition claim_due ::
    "'t codec \<Rightarrow> ('t job_row list \<Rightarrow> nat) \<Rightarrow> 't job_row list \<Rightarrow> instant \<Rightarrow> instant
       \<Rightarrow> (job_error + claimed_job option) \<times> 't job_row list" where
  "claim_due c tie rows now stamp =
     (let ready = earliest_due rows now
      in if ready = [] then (Inr None, rows)
         else let r = ready ! (tie ready mod length ready)
              in if \<not> fits32 (row_attempts r) \<or> \<not> fits32 (row_max_attempts r)
                 then (Inl ColumnRange, rows)
                 else case update_where (\<lambda>q. row_id q = row_id r)
                        (\<lambda>q. q\<lparr>row_state := JobRunning, row_attempts := row_attempts q + 1,
                          row_updated := fmt_utc stamp\<rparr>) rows of
                        Inl err \<Rightarrow> (Inl err, rows)
                      | Inr rows' \<Rightarrow>
                          (case from_text c (row_payload r) of
                             None \<Rightarrow> (Inl UnreadablePayload, rows')
                           | Some payload \<Rightarrow>
                               (Inr (Some \<lparr>job_id = row_id r, job_kind = row_kind r,
                                  job_payload = payload,
                                  job_attempts = (row_attempts r + 1) mod 2 ^ 32,
                                  job_max_attempts = row_max_attempts r,
                                  job_period = map_option as_u64 (row_period r)\<rparr>), rows')))"

section \<open>Settling\<close>

definition complete_job ::
    "time_limits \<Rightarrow> 't job_row list \<Rightarrow> claimed_job \<Rightarrow> instant \<Rightarrow> instant
       \<Rightarrow> job_error + 't job_row list" where
  "complete_job l rows j now stamp =
     (case job_period j of
        None \<Rightarrow> Inr (filter (\<lambda>r. row_id r \<noteq> job_id j) rows)
      | Some period \<Rightarrow>
          rbind (secs_delta l (as_i64 period)) (\<lambda>d.
          rbind (add_delta l now d) (\<lambda>next_run.
            update_where (\<lambda>r. row_id r = job_id j)
              (\<lambda>r. r\<lparr>row_state := JobPending, row_attempts := 0, row_error := None,
                row_due := fmt_utc next_run, row_updated := fmt_utc stamp\<rparr>) rows)))"

definition put_back ::
    "'t codec \<Rightarrow> 't job_row list \<Rightarrow> claimed_job \<Rightarrow> string \<Rightarrow> instant \<Rightarrow> instant \<Rightarrow> nat option
       \<Rightarrow> job_error + 't job_row list" where
  "put_back c rows j error next_run now attempts =
     update_where (\<lambda>r. row_id r = job_id j)
       (\<lambda>r. r\<lparr>row_state := JobPending,
         row_attempts := (case attempts of None \<Rightarrow> row_attempts r | Some a \<Rightarrow> a),
         row_error := Some error, row_due := fmt_utc next_run, row_updated := fmt_utc now,
         row_payload := to_text c (job_payload j)\<rparr>) rows"

definition fail ::
    "'t codec \<Rightarrow> time_limits \<Rightarrow> 't job_row list \<Rightarrow> claimed_job \<Rightarrow> string \<Rightarrow> backoff \<Rightarrow> instant
       \<Rightarrow> job_error + fail_outcome \<times> 't job_row list" where
  "fail c l rows j error b now =
     (case job_period j of
        Some period \<Rightarrow>
          rbind (secs_delta l (as_i64 period)) (\<lambda>d.
          rbind (add_delta l now d) (\<lambda>next_run.
            map_sum id (Pair (Rescheduled next_run)) (put_back c rows j error next_run now (Some 0))))
      | None \<Rightarrow>
          if job_attempts j < job_max_attempts j
          then rbind (add_delta l now (std_delta l (delay b (job_attempts j)))) (\<lambda>next_run.
                 map_sum id (Pair (Rescheduled next_run)) (put_back c rows j error next_run now None))
          else map_sum id (Pair Exhausted) (update_where (\<lambda>r. row_id r = job_id j)
                 (\<lambda>r. r\<lparr>row_state := JobFailed, row_error := Some error, row_updated := fmt_utc now,
                   row_payload := to_text c (job_payload j)\<rparr>) rows))"

definition reschedule ::
    "'t codec \<Rightarrow> time_limits \<Rightarrow> 't job_row list \<Rightarrow> claimed_job \<Rightarrow> string \<Rightarrow> backoff \<Rightarrow> instant
       \<Rightarrow> job_error + instant \<times> 't job_row list" where
  "reschedule c l rows j error b now =
     rbind (add_delta l now (std_delta l (delay b (job_attempts j)))) (\<lambda>next_run.
       map_sum id (Pair next_run) (put_back c rows j error next_run now None))"

definition recording_claim ::
    "'t codec \<Rightarrow> 't job_row list \<Rightarrow> claimed_job \<Rightarrow> job_error + claimed_job" where
  "recording_claim c rows j =
     rbind (ok_or (find (\<lambda>r. row_id r = job_id j \<and> row_kind r = job_kind j) rows) ClaimGone) (\<lambda>r.
       if \<not> fits32 (row_attempts r) \<or> \<not> fits32 (row_max_attempts r) then Inl ClaimGone
       else if \<not> (job_period j = None \<and> row_state r = JobRunning \<and> row_attempts r = job_attempts j)
       then Inl StaleClaim
       else rbind (ok_or (from_text c (row_payload r)) InvalidPayload) (\<lambda>existing.
            rbind (merge_recording_payload c existing (job_payload j)) (\<lambda>payload.
              Inr (j\<lparr>job_payload := payload, job_max_attempts := row_max_attempts r\<rparr>))))"

definition fail_recording ::
    "'t codec \<Rightarrow> time_limits \<Rightarrow> 't job_row list \<Rightarrow> claimed_job \<Rightarrow> string \<Rightarrow> backoff \<Rightarrow> instant
       \<Rightarrow> job_error + fail_outcome \<times> 't job_row list" where
  "fail_recording c l rows j error b now =
     rbind (recording_claim c rows j) (\<lambda>merged. fail c l rows merged error b now)"

definition reschedule_recording ::
    "'t codec \<Rightarrow> time_limits \<Rightarrow> 't job_row list \<Rightarrow> claimed_job \<Rightarrow> string \<Rightarrow> backoff \<Rightarrow> instant
       \<Rightarrow> job_error + instant \<times> 't job_row list" where
  "reschedule_recording c l rows j error b now =
     rbind (recording_claim c rows j) (\<lambda>merged. reschedule c l rows merged error b now)"

section \<open>Recovery, wake-up and collection\<close>

definition recover_running :: "'t job_row list \<Rightarrow> instant \<Rightarrow> nat \<times> 't job_row list" where
  "recover_running rows now =
     (length (filter (\<lambda>r. row_state r = JobRunning) rows),
      map (\<lambda>r. if row_state r = JobRunning
               then r\<lparr>row_state := JobPending, row_due := fmt_utc now, row_updated := fmt_utc now\<rparr>
               else r) rows)"

definition next_due_at :: "'t job_row list \<Rightarrow> instant option" where
  "next_due_at rows =
     (let due = map row_due (filter (\<lambda>r. row_state r = JobPending) rows)
      in if due = [] then None else Some (parse_utc (Min (set due))))"

definition delete_failed ::
    "'t codec \<Rightarrow> 't job_row list \<Rightarrow> string \<Rightarrow> json \<Rightarrow> nat \<times> 't job_row list" where
  "delete_failed c rows kind payload =
     (let gone = (\<lambda>r. row_kind r = kind \<and> row_payload r = to_text c payload
                      \<and> row_state r = JobFailed)
      in (length (filter gone rows), filter (\<lambda>r. \<not> gone r) rows))"

definition delete_terminal_older_than :: "'t job_row list \<Rightarrow> instant \<Rightarrow> nat \<times> 't job_row list" where
  "delete_terminal_older_than rows cutoff =
     (let gone = (\<lambda>r. row_state r = JobFailed \<and> row_updated r < fmt_utc cutoff)
      in (length (filter gone rows), filter (\<lambda>r. \<not> gone r) rows))"

text \<open>The query names no order, so its answer is a multiset.\<close>

definition active_for ::
    "'t codec \<Rightarrow> 't job_row list \<Rightarrow> string \<Rightarrow> job_error + (json \<times> u32) multiset" where
  "active_for c rows kind =
     (let found = filter (\<lambda>r. row_kind r = kind \<and> active r) rows
      in if list_ex (\<lambda>r. \<not> fits32 (row_attempts r)) found then Inl ColumnRange
         else if list_ex (\<lambda>r. from_text c (row_payload r) = None) found then Inl UnreadablePayload
         else Inr (mset (map (\<lambda>r. (the (from_text c (row_payload r)), row_attempts r)) found)))"

end
