(* ===== verification/JobProps.thy ===== *)
theory JobProps
  imports Jobs QualityProps
begin

text \<open>
  What the job table promises: one active row per piece of work, the earliest due job first, a
  bounded number of runs, crash recovery that loses nothing, and recording payloads whose settled
  evidence only grows.
\<close>

section \<open>Well-formed tables\<close>

definition ids_ascend :: "'t job_row list \<Rightarrow> bool" where
  "ids_ascend rows \<longleftrightarrow> sorted_wrt (<) (map row_id rows)"

definition table_ok :: "'t job_row list \<Rightarrow> bool" where
  "table_ok rows \<longleftrightarrow> ids_ascend rows \<and> dedupe_ok rows"

lemma table_ok_Nil [simp]: "table_ok []"
  by (simp add: table_ok_def dedupe_ok_def ids_ascend_def)

lemma ids_ascend_map: "(\<And>r. row_id (g r) = row_id r) \<Longrightarrow> ids_ascend (map g rows) = ids_ascend rows"
  by (simp add: ids_ascend_def sorted_wrt_map)

lemma ids_ascend_append:
  "ids_ascend (us @ vs) \<longleftrightarrow> ids_ascend us \<and> ids_ascend vs
     \<and> (\<forall>u \<in> set us. \<forall>v \<in> set vs. row_id u < row_id v)"
  by (auto simp: ids_ascend_def sorted_wrt_append)

lemma ids_ascend_Cons:
  "ids_ascend (r # rows) \<longleftrightarrow> ids_ascend rows \<and> (\<forall>v \<in> set rows. row_id r < row_id v)"
  by (auto simp: ids_ascend_def)

lemma update_where_Inr:
  "update_where p f rows = Inr rows' \<longleftrightarrow>
     rows' = map (\<lambda>r. if p r then f r else r) rows \<and> dedupe_ok rows'"
  by (auto simp: update_where_def Let_def)

text \<open>Updates in this code never change a row's id.\<close>

lemma update_where_ok:
  assumes "update_where p f rows = Inr rows'" and "table_ok rows" and "\<And>r. row_id (f r) = row_id r"
  shows "table_ok rows'"
proof -
  have "ids_ascend rows'"
    unfolding conjunct1 [OF assms(1) [unfolded update_where_Inr]]
    by (subst ids_ascend_map) (use assms(2,3) in \<open>simp_all add: table_ok_def\<close>)
  moreover have "dedupe_ok rows'" using assms(1) unfolding update_where_Inr by (rule conjunct2)
  ultimately show ?thesis by (simp add: table_ok_def)
qed

lemma table_filter: "table_ok rows \<Longrightarrow> table_ok (filter p rows)"
proof -
  have "ids_ascend rows \<Longrightarrow> ids_ascend (filter p rows)"
    by (induction rows) (auto simp: ids_ascend_Cons)
  moreover have "filter active (filter p rows) = filter p (filter active rows)"
    by (simp add: conj_commute)
  ultimately show "table_ok rows \<Longrightarrow> ?thesis"
    by (simp only: table_ok_def dedupe_ok_def distinct_map_filter simp_thms)
qed

lemma fresh_id_above: "r \<in> set rows \<Longrightarrow> row_id r < fresh_id rows"
  by (auto simp: fresh_id_def less_Suc_eq_le)

lemma insert_row_Inr:
  "insert_row rows kind p m due per now = Inr (i, rows') \<longleftrightarrow>
     i = fresh_id rows \<and> rows' = rows @ [new_row i kind p m due per now] \<and> dedupe_ok rows'"
  by (auto simp: insert_row_def Let_def)

lemma insert_row_ok:
  assumes "table_ok rows" and "insert_row rows kind p m due per now = Inr (i, rows')"
  shows "table_ok rows'"
  using assms fresh_id_above [of _ rows]
  by (auto simp: insert_row_Inr table_ok_def ids_ascend_append ids_ascend_Cons new_row_def
      ids_ascend_def [of "[]"])

text \<open>A pending row and a running one are both active, so moving between them keeps the index.\<close>

lemma dedupe_map:
  assumes "\<And>r. row_kind (f r) = row_kind r \<and> row_payload (f r) = row_payload r
      \<and> active (f r) = active r"
  shows "dedupe_ok (map f rows) = dedupe_ok rows"
proof -
  have "map (\<lambda>r. (row_kind r, row_payload r)) (filter active (map f rows))
      = map (\<lambda>r. (row_kind r, row_payload r)) (filter active rows)"
    by (induction rows) (use assms in auto)
  then show ?thesis by (simp add: dedupe_ok_def)
qed

lemma unique_row:
  assumes "table_ok rows" and "r \<in> set rows" and "q \<in> set rows" and "row_id q = row_id r"
  shows "q = r"
proof -
  have "distinct (map row_id rows)"
    using assms(1) by (simp add: table_ok_def ids_ascend_def strict_sorted_iff)
  then show ?thesis using assms(2-4) by (auto simp: distinct_map inj_on_def)
qed

text \<open>Updating the row with a given id, seen in place.\<close>

lemma update_one:
  assumes "table_ok rows" and "r \<in> set rows"
  obtains us vs where "rows = us @ r # vs"
    and "map (\<lambda>q. if row_id q = row_id r then f q else q) rows = us @ f r # vs"
proof -
  obtain us vs where s: "rows = us @ r # vs" using assms(2) by (auto simp: in_set_conv_decomp)
  have "row_id q \<noteq> row_id r" if "q \<in> set us \<union> set vs" for q
    using assms(1) s that by (auto simp: table_ok_def ids_ascend_append ids_ascend_Cons)
  then have "map (\<lambda>q. if row_id q = row_id r then f q else q) us = us"
    "map (\<lambda>q. if row_id q = row_id r then f q else q) vs = vs"
    by (auto intro: map_idI)
  then have "map (\<lambda>q. if row_id q = row_id r then f q else q) rows = us @ f r # vs"
    by (simp add: s)
  with s show ?thesis by (rule that)
qed

lemma update_one_row:
  assumes "table_ok rows" and "r \<in> set rows"
  obtains us vs where "rows = us @ r # vs"
    and "update_where (\<lambda>q. row_id q = row_id r) f rows
      = (if dedupe_ok (us @ f r # vs) then Inr (us @ f r # vs) else Inl ConstraintViolation)"
proof -
  obtain us vs where s: "rows = us @ r # vs"
    and m: "map (\<lambda>q. if row_id q = row_id r then f q else q) rows = us @ f r # vs"
    by (rule update_one [OF assms, of f])
  show thesis by (rule that [OF s]) (simp only: update_where_def Let_def m)
qed

lemma dedupe_same_key:
  "table_ok (us @ r # vs) \<Longrightarrow> row_kind q = row_kind r \<Longrightarrow> row_payload q = row_payload r
     \<Longrightarrow> active q = active r \<Longrightarrow> dedupe_ok (us @ q # vs)"
  by (cases "active r") (simp_all add: table_ok_def dedupe_ok_def)

section \<open>The operations as one step relation\<close>

datatype 't job_op =
    Enqueue string json u32 instant instant
  | EnqueuePeriodic string nat instant
  | EnqueueRecording string json u32 instant instant
  | RearmRecording string json u32 instant instant
  | ClaimDue "'t job_row list \<Rightarrow> nat" instant instant
  | Complete claimed_job instant instant
  | Fail claimed_job string backoff instant
  | FailRecording claimed_job string backoff instant
  | Reschedule claimed_job string backoff instant
  | RescheduleRecording claimed_job string backoff instant
  | RecoverRunning instant
  | DeleteFailed string json
  | DeleteTerminal instant

text \<open>An operation that fails leaves the table as it was.\<close>

definition settle :: "'t job_row list \<Rightarrow> job_error + 'a \<times> 't job_row list \<Rightarrow> 't job_row list" where
  "settle rows res = (case res of Inl _ \<Rightarrow> rows | Inr (_, rows') \<Rightarrow> rows')"

fun job_step :: "'t codec \<Rightarrow> time_limits \<Rightarrow> 't job_row list \<Rightarrow> 't job_op \<Rightarrow> 't job_row list" where
  "job_step c l rows (Enqueue k p m t now) = snd (enqueue c rows k p m t now)"
| "job_step c l rows (EnqueuePeriodic k d now) =
     settle rows (map_sum id (Pair ()) (enqueue_periodic c rows k d now))"
| "job_step c l rows (EnqueueRecording k p m t now) = settle rows (enqueue_recording c rows k p m t now)"
| "job_step c l rows (RearmRecording k p m t now) =
     settle rows (rearm_failed_recording c rows k p m t now)"
| "job_step c l rows (ClaimDue tie now stamp) = snd (claim_due c tie rows now stamp)"
| "job_step c l rows (Complete j now stamp) =
     settle rows (map_sum id (Pair ()) (complete_job l rows j now stamp))"
| "job_step c l rows (Fail j e b now) = settle rows (fail c l rows j e b now)"
| "job_step c l rows (FailRecording j e b now) = settle rows (fail_recording c l rows j e b now)"
| "job_step c l rows (Reschedule j e b now) = settle rows (reschedule c l rows j e b now)"
| "job_step c l rows (RescheduleRecording j e b now) =
     settle rows (reschedule_recording c l rows j e b now)"
| "job_step c l rows (RecoverRunning now) = snd (recover_running rows now)"
| "job_step c l rows (DeleteFailed k p) = snd (delete_failed c rows k p)"
| "job_step c l rows (DeleteTerminal cutoff) = snd (delete_terminal_older_than rows cutoff)"

lemma settle_ok: "table_ok rows \<Longrightarrow> (\<And>x rows'. res = Inr (x, rows') \<Longrightarrow> table_ok rows') \<Longrightarrow>
    table_ok (settle rows res)"
  by (auto simp: settle_def split: sum.splits prod.splits)

lemma put_back_ok:
  "table_ok rows \<Longrightarrow> put_back c rows j e t now a = Inr rows' \<Longrightarrow> table_ok rows'"
  unfolding put_back_def by (erule update_where_ok) simp_all

lemma fail_ok: "table_ok rows \<Longrightarrow> fail c l rows j e b now = Inr (x, rows') \<Longrightarrow> table_ok rows'"
  by (auto simp: fail_def map_sum_Inr split: option.splits if_splits
      intro: put_back_ok elim: update_where_ok)

lemma reschedule_ok:
  "table_ok rows \<Longrightarrow> reschedule c l rows j e b now = Inr (x, rows') \<Longrightarrow> table_ok rows'"
  by (auto simp: reschedule_def map_sum_Inr intro: put_back_ok)

lemma complete_ok: "table_ok rows \<Longrightarrow> complete_job l rows j now stamp = Inr rows' \<Longrightarrow> table_ok rows'"
  by (auto simp: complete_job_def table_filter split: option.splits elim: update_where_ok)

lemma recover_ok: "table_ok rows \<Longrightarrow> table_ok (snd (recover_running rows now))"
proof -
  let ?f = "\<lambda>r. if row_state r = JobRunning
      then r\<lparr>row_state := JobPending, row_due := fmt_utc now, row_updated := fmt_utc now\<rparr> else r"
  have "dedupe_ok (map ?f rows) = dedupe_ok rows" by (rule dedupe_map) (simp add: active_def)
  moreover have "ids_ascend (map ?f rows) = ids_ascend rows" by (rule ids_ascend_map) simp
  ultimately show "table_ok rows \<Longrightarrow> ?thesis" by (simp add: recover_running_def table_ok_def)
qed

lemma claim_due_ok: "table_ok rows \<Longrightarrow> table_ok (snd (claim_due c tie rows now stamp))"
  by (auto simp: claim_due_def Let_def split: sum.splits option.splits
      elim: update_where_ok)

lemma enqueue_ok: "table_ok rows \<Longrightarrow> table_ok (snd (enqueue c rows k p m t now))"
  by (auto simp: enqueue_def split: sum.splits dest: insert_row_ok)

lemma enqueue_periodic_ok:
  "table_ok rows \<Longrightarrow> enqueue_periodic c rows k d now = Inr rows' \<Longrightarrow> table_ok rows'"
  by (auto simp: enqueue_periodic_def Let_def split: sum.splits
      elim!: update_where_ok dest: insert_row_ok)

lemma enqueue_recording_ok:
  assumes "table_ok rows"
    and "enqueue_recording_in_transaction c rows k p m t now rearm = Inr (x, rows')"
  shows "table_ok rows'"
  using assms
  by (auto simp: enqueue_recording_in_transaction_def map_sum_Inr
      split: option.splits if_splits elim!: update_where_ok dest: insert_row_ok)

lemma job_step_ok: "table_ok rows \<Longrightarrow> table_ok (job_step c l rows op)"
proof (induction c l rows op rule: job_step.induct)
  case (2 c l rows k d now)
  then show ?case
    unfolding job_step.simps
    by (rule settle_ok) (auto simp: map_sum_Inr intro: enqueue_periodic_ok [OF 2])
next
  case (3 c l rows k p m t now)
  then show ?case
    unfolding job_step.simps enqueue_recording_def by (rule settle_ok) (rule enqueue_recording_ok [OF 3])
next
  case (4 c l rows k p m t now)
  then show ?case
    unfolding job_step.simps rearm_failed_recording_def
    by (rule settle_ok) (rule enqueue_recording_ok [OF 4])
next
  case (6 c l rows j now stamp)
  then show ?case
    unfolding job_step.simps
    by (rule settle_ok) (auto simp: map_sum_Inr intro: complete_ok [OF 6])
next
  case (7 c l rows j e b now)
  then show ?case unfolding job_step.simps by (rule settle_ok) (rule fail_ok [OF 7])
next
  case (8 c l rows j e b now)
  then show ?case
    unfolding job_step.simps
    by (rule settle_ok) (auto simp: fail_recording_def intro: fail_ok [OF 8])
next
  case (9 c l rows j e b now)
  then show ?case unfolding job_step.simps by (rule settle_ok) (rule reschedule_ok [OF 9])
next
  case (10 c l rows j e b now)
  then show ?case
    unfolding job_step.simps
    by (rule settle_ok) (auto simp: reschedule_recording_def intro: reschedule_ok [OF 10])
qed (simp_all add: enqueue_ok claim_due_ok recover_ok delete_failed_def delete_terminal_older_than_def
       Let_def table_filter)

interpretation jobs: component "job_step c l" "\<lambda>_. True" table_ok for c l
  by unfold_locales (rule job_step_ok)

section \<open>Posting is idempotent\<close>

text \<open>The pending or running rows of a piece of work.\<close>

definition at_work :: "'t job_row list \<Rightarrow> string \<Rightarrow> 't \<Rightarrow> 't job_row list" where
  "at_work rows k p = filter (\<lambda>r. active r \<and> row_kind r = k \<and> row_payload r = p) rows"

lemma dedupe_at_work: "dedupe_ok rows \<Longrightarrow> at_work rows k p = [] \<or> (\<exists>r. at_work rows k p = [r])"
proof (induction rows)
  case (Cons r rows)
  have IH: "at_work rows k p = [] \<or> (\<exists>r. at_work rows k p = [r])"
    using Cons by (cases "active r") (simp_all add: dedupe_ok_def)
  show ?case
  proof (cases "active r \<and> row_kind r = k \<and> row_payload r = p")
    case True
    then have "(k, p) \<notin> (\<lambda>r. (row_kind r, row_payload r)) ` set (filter active rows)"
      using Cons.prems by (auto simp: dedupe_ok_def)
    then have "at_work rows k p = []" by (force simp: at_work_def filter_empty_conv)
    then show ?thesis using True by (simp add: at_work_def)
  next
    case False
    then show ?thesis using IH by (auto simp: at_work_def)
  qed
qed (simp add: at_work_def)

lemma dedupe_append:
  assumes "dedupe_ok rows" and "active r"
  shows "dedupe_ok (rows @ [r]) \<longleftrightarrow> at_work rows (row_kind r) (row_payload r) = []"
  using assms by (simp add: dedupe_ok_def at_work_def filter_empty_conv image_iff) metis

lemma insert_row_exact:
  assumes "table_ok rows"
  shows "insert_row rows k p m due per now =
     (if at_work rows k p = []
      then Inr (fresh_id rows, rows @ [new_row (fresh_id rows) k p m due per now]) else Inl ConstraintViolation)"
  using assms dedupe_append [of rows "new_row (fresh_id rows) k p m due per now"]
  by (simp add: insert_row_def Let_def table_ok_def new_row_def active_def)

text \<open>A row that keeps its key and stays active never meets the index.\<close>

lemma update_where_accepted:
  assumes "table_ok rows"
    and "\<And>r. p r \<Longrightarrow> row_kind (f r) = row_kind r \<and> row_payload (f r) = row_payload r \<and> active (f r) = active r"
  shows "update_where p f rows = Inr (map (\<lambda>r. if p r then f r else r) rows)"
proof -
  have "dedupe_ok (map (\<lambda>r. if p r then f r else r) rows)"
    using assms by (subst dedupe_map) (auto simp: table_ok_def)
  then show ?thesis by (simp add: update_where_def Let_def)
qed

text \<open>The rows a statement with a key in its condition leaves alone.\<close>

definition others :: "string \<Rightarrow> 't \<Rightarrow> 't job_row list \<Rightarrow> 't job_row list" where
  "others k p rows = filter (\<lambda>r. \<not> (active r \<and> row_kind r = k \<and> row_payload r = p)) rows"

lemma enqueue_periodic_exact:
  fixes rows :: "'t job_row list"
  assumes t: "table_ok rows"
  shows "\<exists>rows' r. enqueue_periodic c rows k d now = Inr rows' \<and> at_work rows' k (empty_text c) = [r]
    \<and> others k (empty_text c) rows' = others k (empty_text c) rows
    \<and> (case at_work rows k (empty_text c) of
         [] \<Rightarrow> r = new_row (fresh_id rows) k (empty_text c) 1 (fmt_utc now) (Some (as_i64 (d div 10 ^ 9))) (fmt_utc now)
       | q # _ \<Rightarrow> r = (if row_state q = JobRunning then q
           else q\<lparr>row_due := fmt_utc now, row_period := Some (as_i64 (d div 10 ^ 9)), row_updated := fmt_utc now\<rparr>))"
proof -
  let ?e = "empty_text c" and ?s = "as_i64 (d div 10 ^ 9)"
  let ?p = "\<lambda>r :: 't job_row. row_kind r = k \<and> row_payload r = ?e \<and> row_state r = JobPending"
  let ?f = "\<lambda>r :: 't job_row. r\<lparr>row_due := fmt_utc now, row_period := Some ?s, row_updated := fmt_utc now\<rparr>"
  let ?g = "\<lambda>r. if ?p r then ?f r else r"
  let ?new = "new_row (fresh_id rows) k ?e 1 (fmt_utc now) (Some ?s) (fmt_utc now)"
  let ?base = "if at_work rows k ?e = [] then rows @ [?new] else rows"
  have base: "table_ok ?base"
    using t insert_row_ok [OF t, of k ?e 1 "fmt_utc now" "Some ?s" "fmt_utc now"] by (auto simp: insert_row_exact)
  have run: "enqueue_periodic c rows k d now = Inr (map ?g ?base)"
  proof -
    have inserted: "(case insert_row rows k ?e 1 (fmt_utc now) (Some ?s) (fmt_utc now) of
        Inl _ \<Rightarrow> rows | Inr (_, ins) \<Rightarrow> ins) = ?base"
      by (simp add: insert_row_exact [OF t])
    have "update_where ?p ?f ?base = Inr (map ?g ?base)"
      by (rule update_where_accepted [OF base]) (simp add: active_def)
    then show ?thesis unfolding enqueue_periodic_def Let_def inserted .
  qed
  have g: "active (?g r) = active r \<and> row_kind (?g r) = row_kind r \<and> row_payload (?g r) = row_payload r" for r
    by (simp add: active_def)
  have work: "at_work (map ?g rs) k ?e = map ?g (at_work rs k ?e)" for rs
    by (simp add: at_work_def filter_map o_def g cong: map_cong)
  have rest: "others k ?e (map ?g rs) = others k ?e rs" for rs
    by (induction rs) (auto simp: others_def active_def)
  have new: "?g ?new = ?new" "active ?new" "row_kind ?new = k" "row_payload ?new = ?e"
    by (simp_all add: new_row_def active_def)
  show ?thesis
  proof (cases "at_work rows k ?e")
    case Nil
    then have b: "?base = rows @ [?new]" by simp
    have "at_work (rows @ [?new]) k ?e = [?new]"
      using Nil new(2-4) by (simp add: at_work_def)
    then have "at_work (map ?g ?base) k ?e = [?new]"
      unfolding work b by (simp only: list.map new(1))
    moreover have "others k ?e (map ?g ?base) = others k ?e rows"
      unfolding rest b using new(2-4) by (simp add: others_def)
    ultimately show ?thesis using run Nil by fastforce
  next
    case (Cons q qs)
    then have one: "at_work rows k ?e = [q]" using dedupe_at_work [of rows k ?e] t by (auto simp: table_ok_def)
    then have "q \<in> set (at_work rows k ?e)" by simp
    then have q: "active q" "row_kind q = k" "row_payload q = ?e" by (simp_all add: at_work_def)
    then have "?g q = (if row_state q = JobRunning then q else ?f q)"
      by (cases "row_state q") (simp_all add: active_def)
    moreover have "at_work (map ?g ?base) k ?e = [?g q]" unfolding work using one by simp
    moreover have "others k ?e (map ?g ?base) = others k ?e rows" unfolding rest using one by simp
    ultimately show ?thesis using run one by auto
  qed
qed

text \<open>C13. Posting work is idempotent, and the unique index never surfaces. In every job table reached by
  any operations, a piece of work (a kind with a payload) has at most one pending or running row, and
  then: enqueueing it answers with the id of one appended row, larger than every id of the table, when
  it has none, and otherwise answers with nothing and leaves the table as it is; re-arming a periodic
  job never fails and leaves exactly one active row of its key, which is a new row, or the pending row
  made due now with the new period, or the running row untouched, and no other row changes; and crash
  recovery keeps every row, moving exactly the running ones back to pending, due now, with their
  attempts and payload.\<close>

theorem posting_is_idempotent:
  fixes c :: "'t codec"
  assumes "rows = run_from (job_step c l) [] ops"
  shows "(case enqueue c rows k v m due now of
       (None, rows') \<Rightarrow> rows' = rows \<and> (\<exists>r. at_work rows k (to_text c v) = [r])
     | (Some i, rows') \<Rightarrow> at_work rows k (to_text c v) = [] \<and> list_all (\<lambda>r. row_id r < i) rows
         \<and> rows' = rows @ [\<lparr>row_id = i, row_kind = k, row_payload = to_text c v, row_state = JobPending,
              row_attempts = 0, row_max_attempts = m, row_due = fmt_utc due, row_period = None,
              row_error = None, row_created = fmt_utc now, row_updated = fmt_utc now\<rparr>])
    \<and> (\<exists>rows' r. enqueue_periodic c rows k d now = Inr rows' \<and> at_work rows' k (empty_text c) = [r]
         \<and> others k (empty_text c) rows' = others k (empty_text c) rows
         \<and> (case at_work rows k (empty_text c) of
              [] \<Rightarrow> r = new_row (fresh_id rows) k (empty_text c) 1 (fmt_utc now)
                (Some (as_i64 (d div 10 ^ 9))) (fmt_utc now)
            | q # _ \<Rightarrow> r = (if row_state q = JobRunning then q
                else q\<lparr>row_due := fmt_utc now, row_period := Some (as_i64 (d div 10 ^ 9)),
                  row_updated := fmt_utc now\<rparr>)))
    \<and> list_all2 (\<lambda>r r'. r' = (if row_state r = JobRunning
           then r\<lparr>row_state := JobPending, row_due := fmt_utc now, row_updated := fmt_utc now\<rparr> else r))
         rows (snd (recover_running rows now))"
proof -
  have t: "table_ok rows" unfolding assms by (rule jobs.run_inv) (simp_all add: list_all_iff)
  have "\<exists>r. at_work rows k p = [r]" if "at_work rows k p \<noteq> []" for p
    using dedupe_at_work [of rows k p] t that by (auto simp: table_ok_def)
  then show ?thesis
    using enqueue_periodic_exact [OF t, of c k d now] fresh_id_above [of _ rows]
    by (simp add: enqueue_def insert_row_exact [OF t] new_row_def [of _ k "to_text c v"] list_all_iff
        recover_running_def list_all2_conv_all_nth)
qed

section \<open>Claiming\<close>

lemma earliest_due_iff:
  "r \<in> set (earliest_due rows now) \<longleftrightarrow> r \<in> set rows \<and> row_state r = JobPending
     \<and> row_due r \<le> fmt_utc now
     \<and> (\<forall>q \<in> set rows. row_state q = JobPending \<longrightarrow> row_due r \<le> row_due q)"
  by (auto simp: earliest_due_def Let_def list_all_iff)

lemma earliest_due_Nil:
  "earliest_due rows now = [] \<longleftrightarrow>
     (\<forall>r \<in> set rows. row_state r = JobPending \<longrightarrow> fmt_utc now < row_due r)"
proof -
  let ?due = "filter (\<lambda>r. row_state r = JobPending \<and> row_due r \<le> fmt_utc now) rows"
  show ?thesis
  proof (cases "?due = []")
    case True
    then show ?thesis by (auto simp: earliest_due_def Let_def filter_empty_conv)
  next
    case False
    let ?m = "Min (row_due ` set ?due)"
    have "?m \<in> row_due ` set ?due" 
      by (rule Min_in) (use False in \<open>simp_all only: image_is_empty set_empty finite_imageI finite_set not_False_eq_True\<close>)
    then obtain r where r: "r \<in> set ?due" "row_due r = ?m" by auto
    then have "\<forall>q \<in> set ?due. row_due r \<le> row_due q" by simp
    then have "r \<in> set (earliest_due rows now)" using r(1)
      by (simp add: earliest_due_def Let_def list_all_iff)
    then have "earliest_due rows now \<noteq> []" by force
    moreover have "r \<in> set rows" "row_state r = JobPending" "row_due r \<le> fmt_utc now"
      using r(1) by simp_all
    ultimately show ?thesis by force
  qed
qed

text \<open>C14. Claiming hands out the earliest due work and nothing else. On a well-formed table
  \<open>claim_due\<close> answers with nothing exactly when no pending row is due, leaving the table alone;
  otherwise the row it takes is pending, due, and no pending row is due earlier, and the only change
  to the table is that this row is marked running with one more attempt, before the payload is even
  parsed, so that a crash cannot hide the attempt.\<close>

theorem claim_takes_earliest:
  assumes "table_ok rows" and "list_all (\<lambda>r. row_attempts r < 2 ^ 32 - 1 \<and> fits32 (row_max_attempts r)) rows"
  shows "if list_ex (\<lambda>r. row_state r = JobPending \<and> row_due r \<le> fmt_utc now) rows
     then \<exists>us r vs. rows = us @ r # vs \<and> row_state r = JobPending \<and> row_due r \<le> fmt_utc now
        \<and> list_all (\<lambda>q. row_state q \<noteq> JobPending \<or> row_due r \<le> row_due q) rows
        \<and> claim_due c tie rows now stamp =
            (case from_text c (row_payload r) of
               None \<Rightarrow> Inl UnreadablePayload
             | Some payload \<Rightarrow> Inr (Some \<lparr>job_id = row_id r, job_kind = row_kind r,
                 job_payload = payload, job_attempts = row_attempts r + 1,
                 job_max_attempts = row_max_attempts r,
                 job_period = map_option as_u64 (row_period r)\<rparr>),
             us @ r\<lparr>row_state := JobRunning, row_attempts := row_attempts r + 1,
                    row_updated := fmt_utc stamp\<rparr> # vs)
     else claim_due c tie rows now stamp = (Inr None, rows)"
proof (cases "earliest_due rows now = []")
  case True
  then show ?thesis by (auto simp: claim_due_def Let_def earliest_due_Nil list_ex_iff)
next
  case False
  let ?ready = "earliest_due rows now"
  define r where "r = ?ready ! (tie ?ready mod length ?ready)"
  have "r \<in> set ?ready" using False by (simp add: r_def)
  then have r: "r \<in> set rows" "row_state r = JobPending" "row_due r \<le> fmt_utc now"
    "\<forall>q \<in> set rows. row_state q = JobPending \<longrightarrow> row_due r \<le> row_due q"
    by (simp_all add: earliest_due_iff)
  have fit: "row_attempts r < 2 ^ 32 - 1" "fits32 (row_max_attempts r)"
    using assms(2) r(1) by (auto simp: list_all_iff)
  let ?f = "\<lambda>q. q\<lparr>row_state := JobRunning, row_attempts := row_attempts q + 1, row_updated := fmt_utc stamp\<rparr>"
  obtain us vs where s: "rows = us @ r # vs"
    and m: "update_where (\<lambda>q. row_id q = row_id r) ?f rows
      = (if dedupe_ok (us @ ?f r # vs) then Inr (us @ ?f r # vs) else Inl ConstraintViolation)"
    by (rule update_one_row [OF assms(1) r(1), of ?f])
  have "dedupe_ok (us @ ?f r # vs)"
    by (rule dedupe_same_key [OF assms(1) [unfolded s]]) (use r(2) in \<open>simp_all add: active_def\<close>)
  then have "update_where (\<lambda>q. row_id q = row_id r) ?f rows = Inr (us @ ?f r # vs)"
    unfolding m by (rule if_P)
  then have claim: "claim_due c tie rows now stamp =
      (case from_text c (row_payload r) of
         None \<Rightarrow> (Inl UnreadablePayload, us @ ?f r # vs)
       | Some payload \<Rightarrow> (Inr (Some \<lparr>job_id = row_id r, job_kind = row_kind r,
           job_payload = payload, job_attempts = row_attempts r + 1,
           job_max_attempts = row_max_attempts r,
           job_period = map_option as_u64 (row_period r)\<rparr>), us @ ?f r # vs))"
    using False fit
    by (cases "from_text c (row_payload r)") (simp_all add: claim_due_def Let_def r_def [symmetric])
  have ex: "list_ex (\<lambda>r. row_state r = JobPending \<and> row_due r \<le> fmt_utc now) rows"
    using r by (auto simp: list_ex_iff)
  show ?thesis
    unfolding if_P [OF ex]
    by (intro exI [of _ us] exI [of _ r] exI [of _ vs])
       (use s r claim in \<open>auto simp: list_all_iff split: option.split\<close>)
qed

section \<open>A concrete codec and table\<close>

text \<open>JSON printed as itself, and one settled record written as \<open>true\<close>.\<close>

definition lossy_record :: quality_record where
  "lossy_record = snd (record_omitted_spans observed_record SourceLoss Outstanding 1)"

definition demo_codec :: "json codec" where
  "demo_codec = \<lparr>to_text = (\<lambda>v. v), from_text = Some, empty_text = JObject [],
     read_record = (\<lambda>v. if v = JBool True then Some lossy_record else None),
     write_record = (\<lambda>r. if r = lossy_record then Some (JBool True) else None)\<rparr>"

lemma lossy_well_formed: "well_formed lossy_record" "source_completeness lossy_record = Incomplete"
  unfolding lossy_record_def by (rule example_loss)+

lemma demo_codec_text [simp]: "from_text demo_codec v = Some v" "to_text demo_codec v = v"
  by (simp_all add: demo_codec_def)

lemma demo_codec_ok: "codec_ok demo_codec"
  using lossy_well_formed(1) by (simp add: codec_ok_def demo_codec_def well_formed_def)

definition demo_job :: "nat \<Rightarrow> int \<Rightarrow> json job_row" where
  "demo_job i due = new_row i ''retry'' (JObject [(''id'', JString ''r'')]) 2 due None 0"

lemma demo_job_sel [simp]:
  "row_id (demo_job i due) = i" "row_kind (demo_job i due) = ''retry''"
  "row_payload (demo_job i due) = JObject [(''id'', JString ''r'')]"
  "row_state (demo_job i due) = JobPending" "row_attempts (demo_job i due) = 0"
  "row_max_attempts (demo_job i due) = 2" "row_due (demo_job i due) = due"
  "row_period (demo_job i due) = None"
  by (simp_all add: demo_job_def new_row_def)

lemma demo_table_ok: "table_ok [demo_job 1 due]"
  by (simp add: table_ok_def ids_ascend_def dedupe_ok_def)

definition no_time :: time_limits where
  "no_time = \<lparr>earliest = 0, latest = 0, longest = 0\<rparr>"

theorem posting_is_idempotent_witness:
  "enqueue demo_codec (run_from (job_step demo_codec no_time) []
       [Enqueue ''retry'' (JObject []) 2 0 0]) ''retry'' (JObject []) 2 0 0
     = (None, run_from (job_step demo_codec no_time) [] [Enqueue ''retry'' (JObject []) 2 0 0])"
proof -
  let ?rows = "run_from (job_step demo_codec no_time) [] [Enqueue ''retry'' (JObject []) 2 0 0]"
  have "at_work ?rows ''retry'' (to_text demo_codec (JObject [])) \<noteq> []"
    by (simp add: enqueue_def insert_row_exact at_work_def new_row_def active_def)
  with posting_is_idempotent [OF refl, THEN conjunct1, of demo_codec no_time "[Enqueue ''retry'' (JObject []) 2 0 0]"
      "''retry''" "JObject []" 2 0 0]
  show ?thesis
    by (cases "enqueue demo_codec ?rows ''retry'' (JObject []) 2 0 0"; cases "fst (enqueue demo_codec ?rows ''retry'' (JObject []) 2 0 0)")
       (simp_all del: run_from.simps)
qed

theorem claim_takes_earliest_witness:
  "\<exists>j. fst (claim_due demo_codec (\<lambda>_. 0) [demo_job 1 5] 7000000 7000000) = Inr (Some j)
     \<and> job_attempts j = 1 \<and> job_id j = 1"
proof -
  have "list_all (\<lambda>r. row_attempts r < 2 ^ 32 - 1 \<and> fits32 (row_max_attempts r)) [demo_job 1 5]" by simp
  from claim_takes_earliest [OF demo_table_ok this, of 7000000 demo_codec "\<lambda>_. 0" 7000000]
  obtain us r vs where "[demo_job 1 5] = us @ r # vs"
    and c: "claim_due demo_codec (\<lambda>_. 0) [demo_job 1 5] 7000000 7000000 =
        (case from_text demo_codec (row_payload r) of
           None \<Rightarrow> Inl UnreadablePayload
         | Some payload \<Rightarrow> Inr (Some \<lparr>job_id = row_id r, job_kind = row_kind r,
             job_payload = payload, job_attempts = row_attempts r + 1,
             job_max_attempts = row_max_attempts r,
             job_period = map_option as_u64 (row_period r)\<rparr>),
         us @ r\<lparr>row_state := JobRunning, row_attempts := row_attempts r + 1,
                row_updated := fmt_utc 7000000\<rparr> # vs)"
    by (auto simp: fmt_utc_def)
  then have "r = demo_job 1 5" by (auto simp: Cons_eq_append_conv)
  then show ?thesis unfolding c by simp
qed

section \<open>Backoff\<close>

text \<open>C15. The retry delay is exponential and capped. For a cap a \<open>Duration\<close> of whole seconds can hold,
  the delay after the \<open>n\<close>-th failure is the smaller of the cap and the base's whole seconds doubled
  \<open>n - 1\<close> times, however large \<open>n\<close> is: the saturation of the power and of the product never shows.
  The sub-second part of the base is dropped, so a base below one second means no delay at all.\<close>

theorem backoff_exact:
  assumes "cap b \<le> u64_max * 10 ^ 9"
  shows "delay b n = min (cap b) (base b div 10 ^ 9 * 2 ^ (n - 1) * 10 ^ 9)
    \<and> (if base b < 10 ^ 9 then delay b n = 0 else True)"
proof -
  let ?s = "base b div 10 ^ 9" and ?p = "2 ^ (n - 1) :: nat"
  have "min (?s * min ?p u64_max) u64_max = min (?s * ?p) u64_max"
  proof (cases "?s = 0 \<or> ?p \<le> u64_max")
    case True
    then show ?thesis by (auto simp: min_def)
  next
    case False
    then have "u64_max \<le> ?s * u64_max" "u64_max \<le> ?s * ?p"
      by (auto intro: order.trans [of _ ?p])
    then show ?thesis using False by (simp only: min_def) auto
  qed
  then have d: "delay b n = min (cap b) (min (?s * ?p) u64_max * 10 ^ 9)"
    by (simp only: delay_def Let_def saturating_mul_def saturating_pow_def saturating_sub_def)
  have "delay b n = min (cap b) (?s * ?p * 10 ^ 9)"
  proof (cases "?s * ?p \<le> u64_max")
    case True
    then show ?thesis by (simp only: d min_absorb1)
  next
    case False
    then have "u64_max \<le> ?s * ?p" by (simp only: not_le less_imp_le)
    then have "min (?s * ?p) u64_max = u64_max" "u64_max * 10 ^ 9 \<le> ?s * ?p * 10 ^ 9"
      by (simp_all only: min_absorb2 mult_le_mono1)
    then show ?thesis using assms by (simp only: d) simp
  qed
  then show ?thesis by simp
qed

theorem backoff_exact_witness:
  "delay \<lparr>base = 60 * 10 ^ 9, cap = 3600 * 10 ^ 9\<rparr> 3 = 240 * 10 ^ 9
   \<and> delay \<lparr>base = 60 * 10 ^ 9, cap = 3600 * 10 ^ 9\<rparr> 90 = 3600 * 10 ^ 9"
  by (simp add: backoff_exact)

end
