(* ===== verification/JobRuns.thy ===== *)
theory JobRuns
  imports JobProps
begin

text \<open>
  Properties of the job table over whole runs: settled evidence survives, a claim is honoured only
  while it is the latest one, and the attempt budget.
\<close>

section \<open>Settled evidence survives\<close>

text \<open>The row's payload carries a settled record that knows of lost source audio.\<close>

definition lossy :: "'t codec \<Rightarrow> 't job_row \<Rightarrow> bool" where
  "lossy c r \<longleftrightarrow> is_some_and (from_text c (row_payload r)) (source_lost c)"

definition carries_loss :: "'t codec \<Rightarrow> nat \<Rightarrow> 't job_row list \<Rightarrow> bool" where
  "carries_loss c n rows \<longleftrightarrow> list_ex (\<lambda>r. row_id r = n \<and> lossy c r) rows"

text \<open>The operations that never delete a row nor write back an unmerged payload.\<close>

fun preserving :: "'t job_op \<Rightarrow> bool" where
  "preserving (Complete j now stamp) = False"
| "preserving (Fail j e b now) = False"
| "preserving (Reschedule j e b now) = False"
| "preserving (DeleteFailed k p) = False"
| "preserving (DeleteTerminal cutoff) = False"
| "preserving _ = True"

lemma carries_append: "carries_loss c n rows \<Longrightarrow> carries_loss c n (rows @ extra)"
  by (auto simp: carries_loss_def)

lemma carries_map:
  assumes "carries_loss c n rows" and "\<And>r. row_id (g r) = row_id r"
    and "\<And>r. r \<in> set rows \<Longrightarrow> lossy c r \<Longrightarrow> lossy c (g r)"
  shows "carries_loss c n (map g rows)"
  using assms by (auto simp: carries_loss_def list_ex_iff)

lemma carries_update:
  assumes "update_where p f rows = Inr rows'" and "carries_loss c n rows"
    and "\<And>r. row_id (f r) = row_id r"
    and "\<And>r. r \<in> set rows \<Longrightarrow> p r \<Longrightarrow> lossy c r \<Longrightarrow> lossy c (f r)"
  shows "carries_loss c n rows'"
proof -
  have "rows' = map (\<lambda>r. if p r then f r else r) rows" using assms(1) by (simp only: update_where_Inr)
  moreover have "carries_loss c n (map (\<lambda>r. if p r then f r else r) rows)"
    by (rule carries_map [OF assms(2)]) (use assms(3,4) in auto)
  ultimately show ?thesis by simp
qed

lemma lossy_cong: "row_payload q = row_payload r \<Longrightarrow> lossy c q = lossy c r"
  by (simp add: lossy_def)

lemma lossy_written: "codec_ok c \<Longrightarrow> row_payload r = to_text c v \<Longrightarrow> lossy c r = source_lost c v"
  by (simp add: lossy_def codec_ok_def)

lemma find_recording_Some:
  "find_recording c i found rs = Inr (Some (r, v)) \<Longrightarrow>
     found = Some (r, v)
     \<or> (r \<in> set rs \<and> from_text c (row_payload r) = Some v \<and> get_str v ''id'' = Some i)"
  by (induction c i found rs rule: find_recording.induct) (auto split: if_splits)

lemma spent_lost: "spent rearm v = Inr w \<Longrightarrow> source_lost c w = source_lost c v"
  using json_set_get [of v "''first_batch''" "JBool False" w]
  by (auto simp: spent_def source_lost_def split: if_splits cong: settled_quality_cong
      intro!: arg_cong [where f = "case_sum _ _"] settled_quality_cong)

lemma enqueue_recording_Inr:
  assumes e: "enqueue_recording_in_transaction c rows k p m due now rearm = Inr (x, rows')"
  obtains (fresh) i q where "get_str p ''id'' = Some i" "i \<noteq> ''''"
      "find_recording c i None (recording_rows rows k) = Inr None" "spent rearm p = Inr q"
      "rows' = rows @ [new_row (fresh_id rows) k (to_text c q) m (fmt_utc due) None (fmt_utc now)]"
      "x = Some (fresh_id rows)"
  | (merged) i r old combined new_payload f where "get_str p ''id'' = Some i" "i \<noteq> ''''"
      "find_recording c i None (recording_rows rows k) = Inr (Some (r, old))"
      "merge_recording_payload c old p = Inr combined" "spent rearm combined = Inr new_payload"
      "x = None" "update_where (\<lambda>q. row_id q = row_id r) f rows = Inr rows'"
      "\<And>q. row_id (f q) = row_id q" "\<And>q. row_payload (f q) = to_text c new_payload"
      "f = (if rearm \<and> row_state r = JobFailed
        then (\<lambda>q. q\<lparr>row_payload := to_text c new_payload, row_state := JobPending,
               row_attempts := 0, row_max_attempts := m, row_due := fmt_utc due,
               row_error := None, row_updated := fmt_utc now\<rparr>)
        else (\<lambda>q. q\<lparr>row_payload := to_text c new_payload\<rparr>))"
  | (same) i r old combined where "get_str p ''id'' = Some i" "i \<noteq> ''''"
      "find_recording c i None (recording_rows rows k) = Inr (Some (r, old))"
      "merge_recording_payload c old p = Inr combined" "spent rearm combined = Inr old"
      "x = None" "rows' = rows" "\<not> (rearm \<and> row_state r = JobFailed)"
proof -
  obtain i existing where i: "get_str p ''id'' = Some i" "i \<noteq> ''''"
    and f: "find_recording c i None (recording_rows rows k) = Inr existing"
    and rest: "(case existing of
         Some (r, old) \<Rightarrow>
           rbind (merge_recording_payload c old p) (\<lambda>combined.
           rbind (spent rearm combined) (\<lambda>merged.
             if rearm \<and> row_state r = JobFailed
             then map_sum id (Pair None) (update_where (\<lambda>q. row_id q = row_id r)
               (\<lambda>q. q\<lparr>row_payload := to_text c merged, row_state := JobPending, row_attempts := 0,
                 row_max_attempts := m, row_due := fmt_utc due, row_error := None,
                 row_updated := fmt_utc now\<rparr>) rows)
             else if merged \<noteq> old
             then map_sum id (Pair None) (update_where (\<lambda>q. row_id q = row_id r)
               (\<lambda>q. q\<lparr>row_payload := to_text c merged\<rparr>) rows)
             else Inr (None, rows)))
       | None \<Rightarrow>
           rbind (spent rearm p) (\<lambda>q.
             map_sum id (\<lambda>(i, rows'). (Some i, rows'))
               (insert_row rows k (to_text c q) m (fmt_utc due) None (fmt_utc now)))) = Inr (x, rows')"
    using e unfolding enqueue_recording_in_transaction_def by (auto split: if_splits)
  show thesis
  proof (cases existing)
    case None
    then show thesis using rest i f by (auto simp: map_sum_Inr insert_row_Inr intro: fresh)
  next
    case (Some rv)
    obtain r old where rv: "rv = (r, old)" by fastforce
    obtain combined new_payload where mg: "merge_recording_payload c old p = Inr combined"
        "spent rearm combined = Inr new_payload"
      using rest Some rv by auto
    note known = i f [unfolded Some rv] mg
    show thesis
    proof (cases "rearm \<and> row_state r = JobFailed")
      case True
      show thesis by (rule merged [OF known]) (use True rest Some rv mg in \<open>auto simp: map_sum_Inr\<close>)
    next
      case False
      show thesis
      proof (cases "new_payload = old")
        case True
        then show thesis using False rest Some rv mg same [OF known(1-4)] by auto
      next
        case neq: False
        show thesis
          by (rule merged [OF known]) (use False neq rest Some rv mg in \<open>auto simp: map_sum_Inr\<close>)
      qed
    qed
  qed
qed

lemma enqueue_recording_carries:
  assumes t: "table_ok rows" and c: "codec_ok c" and n: "carries_loss c n rows"
    and e: "enqueue_recording_in_transaction c rows k p m due now rearm = Inr (x, rows')"
  shows "carries_loss c n rows'"
  using e
proof (cases rule: enqueue_recording_Inr)
  case (merged i r old combined new_payload f)
  have r: "r \<in> set rows" "from_text c (row_payload r) = Some old"
    using find_recording_Some [OF merged(3)] by (auto simp: recording_rows_def)
  show ?thesis
  proof (rule carries_update [OF merged(7) n merged(8)])
    fix q
    assume q: "q \<in> set rows" "row_id q = row_id r" "lossy c q"
    have "q = r" using unique_row [OF t r(1) q(1,2)] .
    then have "source_lost c old" using q(3) r(2) by (simp add: lossy_def)
    then have "source_lost c new_payload"
      using merge_payload_facts(3) [OF c merged(4)] spent_lost [OF merged(5), where c = c] by simp
    then show "lossy c (f q)" using lossy_written [OF c merged(9)] by simp
  qed
qed (simp_all add: n carries_append)

lemma recording_claim_Inr:
  assumes "recording_claim c rows j = Inr m"
  obtains r old where "r \<in> set rows" "row_id r = job_id j" "row_state r = JobRunning"
    "row_attempts r = job_attempts j" "job_period j = None"
    "from_text c (row_payload r) = Some old"
    "merge_recording_payload c old (job_payload j) = Inr (job_payload m)"
    "m = j\<lparr>job_payload := job_payload m, job_max_attempts := row_max_attempts r\<rparr>"
    "job_id m = job_id j"
proof -
  obtain r where "find (\<lambda>r. row_id r = job_id j \<and> row_kind r = job_kind j) rows = Some r"
    using assms by (auto simp: recording_claim_def)
  moreover from this have "r \<in> set rows" "row_id r = job_id j" by (auto simp: find_Some_iff)
  ultimately show ?thesis using assms that [of r] by (auto simp: recording_claim_def split: if_splits)
qed

lemma put_back_carries:
  assumes "table_ok rows" and c: "codec_ok c" and claim: "recording_claim c rows j = Inr m"
    and n: "carries_loss c n rows"
    and u: "update_where (\<lambda>r. row_id r = job_id m) f rows = Inr rows'"
    and f: "\<And>r. row_id (f r) = row_id r" "\<And>r. row_payload (f r) = to_text c (job_payload m)"
  shows "carries_loss c n rows'"
proof (rule carries_update [OF u n f(1)])
  fix q
  assume q: "q \<in> set rows" "row_id q = job_id m" "lossy c q"
  obtain r old where r: "r \<in> set rows" "row_id r = job_id j" "from_text c (row_payload r) = Some old"
    and m: "merge_recording_payload c old (job_payload j) = Inr (job_payload m)" "job_id m = job_id j"
    by (rule recording_claim_Inr [OF claim])
  have "q = r" using unique_row [OF assms(1) r(1) q(1)] r(2) q(2) m(2) by simp
  then have "source_lost c old" using q(3) r(3) by (simp add: lossy_def)
  then show "lossy c (f q)"
    using merge_payload_facts(3) [OF c m(1)] lossy_written [OF c f(2)] by simp
qed

lemma carries_settle:
  "carries_loss c n rows \<Longrightarrow> (\<And>x rows'. res = Inr (x, rows') \<Longrightarrow> carries_loss c n rows') \<Longrightarrow>
     carries_loss c n (settle rows res)"
  by (auto simp: settle_def split: sum.splits prod.splits)

lemma fail_recording_carries:
  assumes "table_ok rows" and "codec_ok c" and "carries_loss c n rows"
    and "fail_recording c l rows j e b now = Inr (x, rows')"
  shows "carries_loss c n rows'"
proof -
  obtain m where m: "recording_claim c rows j = Inr m" and f: "fail c l rows m e b now = Inr (x, rows')"
    using assms(4) by (auto simp: fail_recording_def)
  from f obtain g where "update_where (\<lambda>r. row_id r = job_id m) g rows = Inr rows'"
    "\<And>r. row_id (g r) = row_id r" "\<And>r. row_payload (g r) = to_text c (job_payload m)"
    by (fastforce simp: fail_def put_back_def map_sum_Inr split: option.splits if_splits)
  from put_back_carries [OF assms(1,2) m assms(3) this] show ?thesis .
qed

lemma reschedule_recording_carries:
  assumes "table_ok rows" and "codec_ok c" and "carries_loss c n rows"
    and "reschedule_recording c l rows j e b now = Inr (x, rows')"
  shows "carries_loss c n rows'"
proof -
  obtain m where m: "recording_claim c rows j = Inr m"
    and f: "reschedule c l rows m e b now = Inr (x, rows')"
    using assms(4) by (auto simp: reschedule_recording_def)
  from f obtain g where "update_where (\<lambda>r. row_id r = job_id m) g rows = Inr rows'"
    "\<And>r. row_id (g r) = row_id r" "\<And>r. row_payload (g r) = to_text c (job_payload m)"
    by (fastforce simp: reschedule_def put_back_def map_sum_Inr)
  from put_back_carries [OF assms(1,2) m assms(3) this] show ?thesis .
qed

lemma claim_carries: "carries_loss c n rows \<Longrightarrow> carries_loss c n (snd (claim_due c tie rows now stamp))"
  by (auto simp: claim_due_def Let_def lossy_def split: sum.splits option.splits
      elim!: carries_update)

lemma recover_carries: "carries_loss c n rows \<Longrightarrow> carries_loss c n (snd (recover_running rows now))"
  unfolding recover_running_def snd_conv by (erule carries_map) (simp_all add: lossy_def)

lemma enqueue_carries: "carries_loss c n rows \<Longrightarrow> carries_loss c n (snd (enqueue c rows k p m t now))"
  by (auto simp: enqueue_def insert_row_Inr carries_append split: sum.splits)

lemma enqueue_periodic_carries:
  assumes "carries_loss c n rows" and "enqueue_periodic c rows k d now = Inr rows'"
  shows "carries_loss c n rows'"
proof -
  let ?ins = "insert_row rows k (empty_text c) 1 (fmt_utc now) (Some (as_i64 (d div 10 ^ 9))) (fmt_utc now)"
  let ?rows = "case ?ins of Inl _ \<Rightarrow> rows | Inr (_, inserted) \<Rightarrow> inserted"
  have "carries_loss c n ?rows"
    using assms(1) by (auto simp: insert_row_Inr carries_append split: sum.splits)
  then show ?thesis
    using assms(2) unfolding enqueue_periodic_def Let_def
    by (elim carries_update) (simp_all add: lossy_def)
qed

lemma job_step_carries:
  assumes "table_ok rows" and "codec_ok c" and "preserving op" and "carries_loss c n rows"
  shows "carries_loss c n (job_step c l rows op)"
  using assms
proof (induction c l rows op rule: job_step.induct)
  case (2 c l rows k d now)
  then show ?case
    unfolding job_step.simps
    by (intro carries_settle) (auto simp: map_sum_Inr intro: enqueue_periodic_carries)
next
  case (3 c l rows k p m t now)
  then show ?case
    unfolding job_step.simps enqueue_recording_def
    by (intro carries_settle) (auto intro: enqueue_recording_carries)
next
  case (4 c l rows k p m t now)
  then show ?case
    unfolding job_step.simps rearm_failed_recording_def
    by (intro carries_settle) (auto intro: enqueue_recording_carries)
next
  case (8 c l rows j e b now)
  then show ?case
    unfolding job_step.simps by (intro carries_settle) (auto intro: fail_recording_carries)
next
  case (10 c l rows j e b now)
  then show ?case
    unfolding job_step.simps by (intro carries_settle) (auto intro: reschedule_recording_carries)
qed (simp_all add: enqueue_carries claim_carries recover_carries)

text \<open>The evidence is a permanent fact of the table, for every codec that keeps its promises.\<close>

definition known_codec :: "'t codec \<Rightarrow> 't job_row list \<Rightarrow> bool" where
  "known_codec c rows \<longleftrightarrow> codec_ok c \<and> table_ok rows"

interpretation evidence: monotone_component "job_step c l" preserving "known_codec c" "carries_loss c n"
  for c l n
  by unfold_locales (simp_all add: known_codec_def job_step_ok job_step_carries)

text \<open>C16. Evidence that source audio was lost survives in the job table. Once a row's payload holds a
  settled quality record that reports incomplete source audio, then after any sequence of enqueues,
  merges, manual rearms, claims, recording failures and reschedules by arbitrary (also stale) claims,
  and crash recoveries, the row with that id still exists and its payload still reports the loss.\<close>

theorem settled_loss_survives:
  assumes "codec_ok c" and "table_ok rows" and "list_all preserving ops" and "carries_loss c n rows"
  shows "carries_loss c n (run_from (job_step c l) rows ops)"
  by (rule evidence.fact_run) (use assms in \<open>simp_all add: known_codec_def\<close>)

definition demo_limits :: time_limits where
  "demo_limits = \<lparr>earliest = 0, latest = 10 ^ 18, longest = 10 ^ 18\<rparr>"

definition lossy_payload :: json where
  "lossy_payload = JObject [(''id'', JString ''r''), (''settled_quality'', JBool True)]"

definition lossy_job :: "json job_row" where
  "lossy_job = new_row 1 ''retry'' lossy_payload 2 0 None 0"

lemma lossy_job_carries: "carries_loss demo_codec 1 [lossy_job]" "table_ok [lossy_job]"
proof -
  have "quality_from_value demo_codec (JBool True) = Some lossy_record"
    using lossy_well_formed(1) by (simp add: quality_from_value_def demo_codec_def well_formed_def)
  then have "settled_quality demo_codec lossy_payload = Inr (Some lossy_record)"
    by (simp add: settled_quality_def lossy_payload_def)
  then show "carries_loss demo_codec 1 [lossy_job]"
    using lossy_well_formed(2)
    by (simp add: carries_loss_def lossy_def source_lost_def lossy_job_def new_row_def)
  show "table_ok [lossy_job]"
    by (simp add: table_ok_def ids_ascend_def dedupe_ok_def lossy_job_def)
qed

theorem settled_loss_survives_witness:
  "carries_loss demo_codec 1 (run_from (job_step demo_codec demo_limits) [lossy_job]
     [ClaimDue (\<lambda>_. 0) 0 0, RecoverRunning 1,
      EnqueueRecording ''retry'' (JObject [(''id'', JString ''r'')]) 5 0 0])"
  by (rule settled_loss_survives [OF demo_codec_ok lossy_job_carries(2) _ lossy_job_carries(1)]) simp

section \<open>Only the latest claim counts\<close>

lemma claim_due_Some:
  assumes "table_ok rows" and "claim_due c tie rows now stamp = (Inr (Some j), rows')"
  obtains us r vs where "rows = us @ r # vs" "row_state r = JobPending" "row_id r = job_id j"
    "row_kind r = job_kind j" "fits32 (row_attempts r)" "fits32 (row_max_attempts r)"
    "job_attempts j = (row_attempts r + 1) mod 2 ^ 32" "job_max_attempts j = row_max_attempts r" "job_period j = map_option as_u64 (row_period r)"
    "from_text c (row_payload r) = Some (job_payload j)" "row_due r \<le> fmt_utc now"
    "rows' = us @ r\<lparr>row_state := JobRunning, row_attempts := row_attempts r + 1,
                     row_updated := fmt_utc stamp\<rparr> # vs"
proof -
  let ?ready = "earliest_due rows now"
  define r where "r = ?ready ! (tie ?ready mod length ?ready)"
  let ?f = "\<lambda>q. q\<lparr>row_state := JobRunning, row_attempts := row_attempts q + 1, row_updated := fmt_utc stamp\<rparr>"
  have ne: "?ready \<noteq> []" using assms(2) by (auto simp: claim_due_def)
  have claim: "claim_due c tie rows now stamp =
      (if \<not> fits32 (row_attempts r) \<or> \<not> fits32 (row_max_attempts r) then (Inl ColumnRange, rows)
       else case update_where (\<lambda>q. row_id q = row_id r) ?f rows of
              Inl err \<Rightarrow> (Inl err, rows)
            | Inr rows1 \<Rightarrow>
                (case from_text c (row_payload r) of
                   None \<Rightarrow> (Inl UnreadablePayload, rows1)
                 | Some payload \<Rightarrow>
                     (Inr (Some \<lparr>job_id = row_id r, job_kind = row_kind r, job_payload = payload,
                        job_attempts = (row_attempts r + 1) mod 2 ^ 32,
                        job_max_attempts = row_max_attempts r,
                        job_period = map_option as_u64 (row_period r)\<rparr>), rows1)))"
    unfolding claim_due_def Let_def if_not_P [OF ne] r_def [symmetric] by (rule refl)
  have fit: "fits32 (row_attempts r)" "fits32 (row_max_attempts r)"
    using assms(2) unfolding claim by (rule_tac [!] ccontr) simp_all
  then have claim2: "claim_due c tie rows now stamp =
      (case update_where (\<lambda>q. row_id q = row_id r) ?f rows of
              Inl err \<Rightarrow> (Inl err, rows)
            | Inr rows1 \<Rightarrow>
                (case from_text c (row_payload r) of
                   None \<Rightarrow> (Inl UnreadablePayload, rows1)
                 | Some payload \<Rightarrow>
                     (Inr (Some \<lparr>job_id = row_id r, job_kind = row_kind r, job_payload = payload,
                        job_attempts = (row_attempts r + 1) mod 2 ^ 32,
                        job_max_attempts = row_max_attempts r,
                        job_period = map_option as_u64 (row_period r)\<rparr>), rows1)))"
    unfolding claim by (intro if_not_P) simp
  obtain rows1 payload where u: "update_where (\<lambda>q. row_id q = row_id r) ?f rows = Inr rows1"
    and p: "from_text c (row_payload r) = Some payload" and r1: "rows' = rows1"
    and j: "j = \<lparr>job_id = row_id r, job_kind = row_kind r, job_payload = payload,
        job_attempts = (row_attempts r + 1) mod 2 ^ 32, job_max_attempts = row_max_attempts r,
        job_period = map_option as_u64 (row_period r)\<rparr>"
    using assms(2) unfolding claim2 by (auto split: sum.splits option.splits)
  have "r \<in> set ?ready" using ne by (simp add: r_def)
  then have r: "r \<in> set rows" "row_state r = JobPending" "row_due r \<le> fmt_utc now"
    by (simp_all add: earliest_due_iff)
  obtain us vs where s: "rows = us @ r # vs"
    and m: "update_where (\<lambda>q. row_id q = row_id r) ?f rows
      = (if dedupe_ok (us @ ?f r # vs) then Inr (us @ ?f r # vs) else Inl ConstraintViolation)"
    by (rule update_one_row [OF assms(1) r(1), of ?f])
  have res: "rows' = us @ ?f r # vs" using u unfolding m r1 by (auto split: if_splits)
  have "row_id r = job_id j" "row_kind r = job_kind j" "job_attempts j = (row_attempts r + 1) mod 2 ^ 32"
    "job_max_attempts j = row_max_attempts r" "job_period j = map_option as_u64 (row_period r)"
    by (simp_all only: j claimed_job.select_convs)
  moreover have "from_text c (row_payload r) = Some (job_payload j)"
    by (simp only: p j claimed_job.select_convs)
  ultimately show ?thesis using that [OF s r(2)] fit r(3) res by blast
qed

lemma find_row:
  assumes "table_ok rows" and "r \<in> set rows"
  shows "find (\<lambda>q. row_id q = row_id r \<and> row_kind q = row_kind r) rows = Some r"
proof (cases "find (\<lambda>q. row_id q = row_id r \<and> row_kind q = row_kind r) rows")
  case None
  then show ?thesis using assms(2) by (auto simp: find_None_iff)
next
  case (Some p)
  then have "p \<in> set rows" "row_id p = row_id r" by (auto simp: find_Some_iff)
  then show ?thesis using unique_row [OF assms] Some by simp
qed

lemma filter_other_rows:
  assumes "table_ok (us @ q # vs)"
  shows "filter (\<lambda>p. row_id p \<noteq> row_id q) (us @ q # vs) = us @ vs"
proof -
  have "\<forall>p \<in> set us \<union> set vs. row_id p \<noteq> row_id q"
    using assms by (auto simp: table_ok_def ids_ascend_append ids_ascend_Cons)
  then have "filter (\<lambda>p. row_id p \<noteq> row_id q) us = us" "filter (\<lambda>p. row_id p \<noteq> row_id q) vs = vs"
    by (simp_all add: filter_id_conv)
  then show ?thesis by simp
qed

text \<open>C17. A recording's lost claim can no longer fail or reschedule it. Suppose a job is claimed, the process
  crashes, startup recovery requeues it, and it is claimed again. Settling the recording with the first
  claim, as a failure or as a reschedule, is refused as stale and so writes nothing, while the row keeps
  running for the second claim, with one attempt more. The guard is only in these two operations:
  completion goes by the id alone. Completing a one-shot job with the first claim still deletes
  exactly the running row of the second, like completing it with the second claim would.\<close>

theorem stale_claim_refused:
  assumes "table_ok rows" and "claim_due c tie rows now stamp = (Inr (Some j), rows1)"
    and "claim_due c tie' (snd (recover_running rows1 t)) now' stamp' = (Inr (Some j'), rows2)"
    and "job_id j' = job_id j" and "job_attempts j < 2 ^ 32 - 1" and "0 < job_attempts j"
  shows "fail_recording c l rows2 j e b t' = Inl StaleClaim
    \<and> reschedule_recording c l rows2 j e b t' = Inl StaleClaim
    \<and> (\<exists>us q vs. rows2 = us @ q # vs \<and> row_id q = job_id j \<and> row_state q = JobRunning
         \<and> row_attempts q = job_attempts j + 1 \<and> job_attempts j' = job_attempts j + 1
         \<and> (if job_period j = None
            then complete_job l rows2 j t' s' = Inr (us @ vs) \<and> complete_job l rows2 j' t' s' = Inr (us @ vs)
            else True))"
proof -
  obtain us r vs where r: "rows = us @ r # vs" "row_id r = job_id j" "row_kind r = job_kind j"
      "fits32 (row_attempts r)" "job_attempts j = (row_attempts r + 1) mod 2 ^ 32"
      "job_period j = map_option as_u64 (row_period r)"
    and rows1: "rows1 = us @ r\<lparr>row_state := JobRunning, row_attempts := row_attempts r + 1,
        row_updated := fmt_utc stamp\<rparr> # vs"
    by (rule claim_due_Some [OF assms(1,2)])
  have t1: "table_ok rows1" using claim_due_ok [OF assms(1), of c tie now stamp] assms(2) by simp
  have t2: "table_ok (snd (recover_running rows1 t))" by (rule recover_ok [OF t1])
  obtain us' q vs' where q: "snd (recover_running rows1 t) = us' @ q # vs'" "row_id q = job_id j'"
    and rows2: "rows2 = us' @ q\<lparr>row_state := JobRunning, row_attempts := row_attempts q + 1,
        row_updated := fmt_utc stamp'\<rparr> # vs'"
    and fit2: "fits32 (row_max_attempts q)" and per2: "job_period j' = map_option as_u64 (row_period q)"
    and att2: "job_attempts j' = (row_attempts q + 1) mod 2 ^ 32"
    by (rule claim_due_Some [OF t2 assms(3)])
  have t3: "table_ok rows2" using claim_due_ok [OF t2, of c tie' now' stamp'] assms(3) by simp
  have att: "row_attempts r + 1 = job_attempts j"
    using r(4,5) assms(6) by (cases "row_attempts r + 1 = 2 ^ 32") auto
  let ?r1 = "r\<lparr>row_state := JobPending, row_attempts := row_attempts r + 1,
      row_due := fmt_utc t, row_updated := fmt_utc t\<rparr>"
  have "?r1 \<in> set (snd (recover_running rows1 t))"
    by (simp add: recover_running_def rows1)
  moreover have "q \<in> set (snd (recover_running rows1 t))" using q(1) by simp
  ultimately have q1: "q = ?r1"
    using unique_row [OF t2, of ?r1 q] q(2) r(2) assms(4) by simp
  let ?q2 = "q\<lparr>row_state := JobRunning, row_attempts := row_attempts q + 1, row_updated := fmt_utc stamp'\<rparr>"
  have q2: "?q2 \<in> set rows2" "row_id ?q2 = job_id j" "row_kind ?q2 = job_kind j"
    "row_attempts ?q2 = job_attempts j + 1"
    using rows2 q1 r(2,3) att by simp_all
  have "find (\<lambda>r. row_id r = job_id j \<and> row_kind r = job_kind j) rows2 = Some ?q2"
    using find_row [OF t3 q2(1)] unfolding q2(2,3) .
  moreover have "fits32 (row_attempts ?q2)" "fits32 (row_max_attempts ?q2)"
    using q2(4) assms(5) fit2 by simp_all
  ultimately have stale: "recording_claim c rows2 j = Inl StaleClaim"
    using q2(4) by (simp add: recording_claim_def)
  have gone: "filter (\<lambda>p. row_id p \<noteq> job_id j) rows2 = us' @ vs'"
    using filter_other_rows [OF t3 [unfolded rows2]] q2(2) rows2 by simp
  have "job_attempts j' = job_attempts j + 1" using att2 q2(4) assms(5) by simp
  moreover have "job_period j' = job_period j" using per2 r(6) q1 by simp
  ultimately show ?thesis
    using stale q2(2,4) gone rows2 assms(4)
    by (simp add: fail_recording_def reschedule_recording_def complete_job_def)
       (intro exI [of _ us'] exI [of _ ?q2] exI [of _ vs'], simp)
qed

lemma earliest_demo:
  "row_state r = JobPending \<Longrightarrow> row_due r \<le> fmt_utc now \<Longrightarrow> earliest_due [r] now = [r]"
  by (simp add: earliest_due_def)

lemma claim_single:
  assumes "row_state r = JobPending" and "row_due r \<le> fmt_utc now"
    and "fits32 (row_attempts r)" and "fits32 (row_max_attempts r)"
  shows "claim_due c tie [r] now stamp =
      (case from_text c (row_payload r) of
         None \<Rightarrow> Inl UnreadablePayload
       | Some payload \<Rightarrow> Inr (Some \<lparr>job_id = row_id r, job_kind = row_kind r,
           job_payload = payload, job_attempts = (row_attempts r + 1) mod 2 ^ 32,
           job_max_attempts = row_max_attempts r, job_period = map_option as_u64 (row_period r)\<rparr>),
       [r\<lparr>row_state := JobRunning, row_attempts := row_attempts r + 1, row_updated := fmt_utc stamp\<rparr>])"
proof -
  have "tie [r] mod length [r] = 0" by simp
  moreover have "dedupe_ok [r\<lparr>row_state := JobRunning, row_attempts := row_attempts r + 1,
      row_updated := fmt_utc stamp\<rparr>]"
    by (simp add: dedupe_ok_def)
  ultimately show ?thesis
    using assms
    by (cases "from_text c (row_payload r)")
       (simp_all add: claim_due_def earliest_demo update_where_def Let_def)
qed

definition demo_claim :: "nat \<Rightarrow> claimed_job" where
  "demo_claim n = \<lparr>job_id = 1, job_kind = ''retry'', job_payload = JObject [(''id'', JString ''r'')],
     job_attempts = n, job_max_attempts = 2, job_period = None\<rparr>"

definition demo_running :: "nat \<Rightarrow> int \<Rightarrow> json job_row" where
  "demo_running n due = (demo_job 1 due)\<lparr>row_state := JobRunning, row_attempts := n\<rparr>"

lemma demo_claims:
  "claim_due demo_codec (\<lambda>_. 0) [demo_job 1 0] 0 0 = (Inr (Some (demo_claim 1)), [demo_running 1 0])"
  "claim_due demo_codec (\<lambda>_. 0) (snd (recover_running [demo_running 1 0] 0)) 0 0
     = (Inr (Some (demo_claim 2)), [demo_running 2 0])"
  by (simp_all add: claim_single recover_running_def demo_running_def demo_claim_def demo_job_def
      new_row_def fmt_utc_def)

theorem stale_claim_refused_witness:
  "fail_recording demo_codec demo_limits [demo_running 2 0] (demo_claim 1) ''timed out''
     \<lparr>base = 10 ^ 9, cap = 60 * 10 ^ 9\<rparr> 0 = Inl StaleClaim
   \<and> complete_job demo_limits [demo_running 2 0] (demo_claim 1) 0 0 = Inr []"
  using stale_claim_refused [OF demo_table_ok demo_claims, of demo_limits "''timed out''"
      "\<lparr>base = 10 ^ 9, cap = 60 * 10 ^ 9\<rparr>" 0 0]
  by (auto simp: demo_claim_def Cons_eq_append_conv)

section \<open>Crash loops\<close>

text \<open>One start of the process that claims the job and dies before settling it.\<close>

definition crash_round :: "'t codec \<Rightarrow> instant \<Rightarrow> 't job_row list \<Rightarrow> 't job_row list" where
  "crash_round c t rows = snd (recover_running (snd (claim_due c (\<lambda>_. 0) rows t t)) t)"

lemma crash_round_single:
  assumes "row_state r = JobPending" and "row_due r \<le> fmt_utc t"
    and "fits32 (row_attempts r)" and "fits32 (row_max_attempts r)"
  shows "crash_round c t [r] = [r\<lparr>row_attempts := row_attempts r + 1, row_due := fmt_utc t,
      row_updated := fmt_utc t\<rparr>]"
  using assms by (simp add: crash_round_def claim_single recover_running_def)

lemma crash_rounds:
  assumes "row_state r = JobPending" and "row_due r \<le> fmt_utc t"
    and "row_attempts r + n < 2 ^ 32" and "fits32 (row_max_attempts r)"
  shows "\<exists>q. (crash_round c t ^^ n) [r] = [q] \<and> row_state q = JobPending \<and> row_due q \<le> fmt_utc t
    \<and> row_attempts q = row_attempts r + n \<and> row_max_attempts q = row_max_attempts r
    \<and> row_id q = row_id r \<and> row_payload q = row_payload r"
  using assms(3)
proof (induction n)
  case 0
  then show ?case using assms by simp
next
  case (Suc n)
  then obtain q where q: "(crash_round c t ^^ n) [r] = [q]" "row_state q = JobPending"
    "row_due q \<le> fmt_utc t" "row_attempts q = row_attempts r + n"
    "row_max_attempts q = row_max_attempts r" "row_id q = row_id r" "row_payload q = row_payload r"
    by auto
  have "crash_round c t [q] = [q\<lparr>row_attempts := row_attempts q + 1, row_due := fmt_utc t,
      row_updated := fmt_utc t\<rparr>]"
    by (rule crash_round_single) (use q Suc.prems assms(4) in simp_all)
  then show ?case using q by simp
qed

text \<open>C24. The attempt counter alone does not stop a crash loop. However small a pending job's budget
  is, after any number of crash rounds (claimed, process died, recovered at the next start) the layer
  hands the job out once more, with its attempts at the number of rounds plus one: the counter goes
  on past \<open>max_attempts\<close>, and only a settled failure parks a job. A handler that can crash the
  process must compare the two itself.\<close>

theorem crash_loop_hands_out:
  assumes "row_state r = JobPending" and "row_due r \<le> fmt_utc t" and "row_attempts r = 0"
    and "n + 1 < 2 ^ 32" and "fits32 (row_max_attempts r)"
    and "from_text c (row_payload r) = Some v"
  shows "case fst (claim_due c (\<lambda>_. 0) ((crash_round c t ^^ n) [r]) t t) of
      Inr (Some j) \<Rightarrow> job_id j = row_id r \<and> job_attempts j = n + 1
        \<and> job_max_attempts j = row_max_attempts r
    | _ \<Rightarrow> False"
proof -
  have "row_attempts r + n < 2 ^ 32" using assms(3,4) by simp
  from crash_rounds [OF assms(1,2) this assms(5), of c]
  obtain q where q: "(crash_round c t ^^ n) [r] = [q]" "row_state q = JobPending"
    "row_due q \<le> fmt_utc t" "row_attempts q = n" "row_max_attempts q = row_max_attempts r"
    "row_id q = row_id r" "row_payload q = row_payload r"
    using assms(3) by auto
  show ?thesis
    unfolding q(1)
    by (subst claim_single) (use q assms in simp_all)
qed

theorem crash_loop_hands_out_witness:
  "case fst (claim_due demo_codec (\<lambda>_. 0) ((crash_round demo_codec 0 ^^ 7) [demo_job 1 0]) 0 0) of
      Inr (Some j) \<Rightarrow> job_attempts j = 8 \<and> job_max_attempts j = 2 | _ \<Rightarrow> False"
proof -
  have "case fst (claim_due demo_codec (\<lambda>_. 0) ((crash_round demo_codec 0 ^^ 7) [demo_job 1 0]) 0 0) of
      Inr (Some j) \<Rightarrow> job_id j = row_id (demo_job 1 0) \<and> job_attempts j = 7 + 1
        \<and> job_max_attempts j = row_max_attempts (demo_job 1 0) | _ \<Rightarrow> False"
    by (rule crash_loop_hands_out) (simp_all add: fmt_utc_def)
  then show ?thesis by (auto split: sum.splits option.splits)
qed

section \<open>The attempt budget\<close>

text \<open>
  The pipeline's use of the table: post and delete work, and, in rounds, claim a job, run it and
  settle it by its outcome. The run of the handler is its outcome; a round with no crash.
\<close>

datatype outcome = Succeeds | Fails string

datatype 't drain_op =
    Post "'t job_op"
  | Work "'t job_row list \<Rightarrow> nat" instant instant outcome backoff

fun drain_step :: "'t codec \<Rightarrow> time_limits \<Rightarrow> 't job_row list \<Rightarrow> 't drain_op \<Rightarrow> 't job_row list" where
  "drain_step c l rows (Post op) = job_step c l rows op"
| "drain_step c l rows (Work tie now t out b) =
     (case claim_due c tie rows now now of
        (Inr (Some j), rows') \<Rightarrow>
          (case out of
             Succeeds \<Rightarrow> settle rows' (map_sum id (Pair ()) (complete_job l rows' j t t))
           | Fails e \<Rightarrow> settle rows' (fail c l rows' j e b t))
      | (_, rows') \<Rightarrow> rows')"

fun posting :: "'t job_op \<Rightarrow> bool" where
  "posting (Enqueue k p m t now) = fits32 m"
| "posting (EnqueuePeriodic k d now) = True"
| "posting (EnqueueRecording k p m t now) = fits32 m"
| "posting (RearmRecording k p m t now) = fits32 m"
| "posting (DeleteFailed k p) = True"
| "posting (DeleteTerminal cutoff) = True"
| "posting _ = False"

fun drain_ok :: "'t drain_op \<Rightarrow> bool" where
  "drain_ok (Post op) = posting op"
| "drain_ok (Work tie now t out b) = True"

definition within_budget :: "'t job_row \<Rightarrow> bool" where
  "within_budget r \<longleftrightarrow> row_period r \<noteq> None
     \<or> (fits32 (row_max_attempts r) \<and> row_attempts r \<le> max 1 (row_max_attempts r)
        \<and> (row_state r = JobPending \<longrightarrow> row_attempts r < max 1 (row_max_attempts r)))"

definition drain_inv :: "'t job_row list \<Rightarrow> bool" where
  "drain_inv rows \<longleftrightarrow> table_ok rows \<and> list_all within_budget rows"

lemma budget_update:
  assumes "update_where p f rows = Inr rows'" and "list_all within_budget rows"
    and "\<And>r. r \<in> set rows \<Longrightarrow> p r \<Longrightarrow> within_budget r \<Longrightarrow> within_budget (f r)"
  shows "list_all within_budget rows'"
  using assms by (auto simp: update_where_Inr list_all_iff)

lemma budget_settle:
  "list_all within_budget rows \<Longrightarrow> (\<And>x rows'. res = Inr (x, rows') \<Longrightarrow> list_all within_budget rows') \<Longrightarrow>
     list_all within_budget (settle rows res)"
  by (auto simp: settle_def split: sum.splits prod.splits)

lemma within_budget_fresh: "row_attempts r = 0 \<Longrightarrow> fits32 (row_max_attempts r) \<Longrightarrow> within_budget r"
  by (auto simp: within_budget_def)

lemma within_budget_reset:
  "within_budget r \<Longrightarrow> row_attempts q = 0 \<Longrightarrow> row_period q = row_period r
     \<Longrightarrow> row_max_attempts q = row_max_attempts r \<Longrightarrow> within_budget q"
  by (auto simp: within_budget_def)

lemma within_budget_same:
  "within_budget r \<Longrightarrow> row_attempts q = row_attempts r \<Longrightarrow> row_period q = row_period r
     \<Longrightarrow> row_max_attempts q = row_max_attempts r \<Longrightarrow> row_state q = row_state r \<Longrightarrow> within_budget q"
  by (auto simp: within_budget_def)

lemma enqueue_recording_budget:
  assumes "fits32 m" and b: "list_all within_budget rows"
    and e: "enqueue_recording_in_transaction c rows k p m due now rearm = Inr (x, rows')"
  shows "list_all within_budget rows'"
  using e
proof (cases rule: enqueue_recording_Inr)
  case (fresh i q)
  then show ?thesis using assms by (simp add: within_budget_fresh new_row_def)
next
  case (merged i r old combined new_payload f)
  show ?thesis
  proof (rule budget_update [OF merged(7) b])
    fix q
    assume "within_budget (q :: 'a job_row)"
    then show "within_budget (f q)"
      using assms(1) merged(10)
      by (cases "rearm \<and> row_state r = JobFailed")
         (simp_all add: within_budget_fresh within_budget_same [of q])
  qed
qed (simp add: b)

lemma enqueue_periodic_budget:
  assumes "list_all within_budget rows" and "enqueue_periodic c rows k d now = Inr rows'"
  shows "list_all within_budget rows'"
proof -
  let ?ins = "insert_row rows k (empty_text c) 1 (fmt_utc now) (Some (as_i64 (d div 10 ^ 9))) (fmt_utc now)"
  let ?rows = "case ?ins of Inl _ \<Rightarrow> rows | Inr (_, inserted) \<Rightarrow> inserted"
  have "list_all within_budget ?rows"
    using assms(1) by (auto simp: insert_row_Inr within_budget_def new_row_def split: sum.splits)
  then show ?thesis
    using assms(2) unfolding enqueue_periodic_def Let_def
    by (elim budget_update) (simp_all add: within_budget_def)
qed

lemma posting_budget:
  assumes "posting op" and "list_all within_budget rows"
  shows "list_all within_budget (job_step c l rows op)"
  using assms
proof (induction c l rows op rule: job_step.induct)
  case (1 c l rows k p m t now)
  then show ?case
    by (auto simp: enqueue_def insert_row_Inr within_budget_fresh new_row_def split: sum.splits)
next
  case (2 c l rows k d now)
  then show ?case
    unfolding job_step.simps
    by (intro budget_settle) (auto simp: map_sum_Inr intro: enqueue_periodic_budget)
next
  case (3 c l rows k p m t now)
  then show ?case
    unfolding job_step.simps enqueue_recording_def
    by (intro budget_settle) (auto intro: enqueue_recording_budget)
next
  case (4 c l rows k p m t now)
  then show ?case
    unfolding job_step.simps rearm_failed_recording_def
    by (intro budget_settle) (auto intro: enqueue_recording_budget)
qed (auto simp: delete_failed_def delete_terminal_older_than_def Let_def list_all_iff)

lemma claim_budget:
  assumes "drain_inv rows"
  shows "list_all within_budget (snd (claim_due c tie rows now stamp))"
proof (cases "snd (claim_due c tie rows now stamp) = rows")
  case True
  then show ?thesis using assms by (simp add: drain_inv_def)
next
  case False
  let ?ready = "earliest_due rows now"
  define r where "r = ?ready ! (tie ?ready mod length ?ready)"
  let ?f = "\<lambda>q. q\<lparr>row_state := JobRunning, row_attempts := row_attempts q + 1, row_updated := fmt_utc stamp\<rparr>"
  have ne: "?ready \<noteq> []" using False by (auto simp: claim_due_def)
  have "r \<in> set ?ready" using ne by (simp add: r_def)
  then have r: "r \<in> set rows" "row_state r = JobPending" by (simp_all add: earliest_due_iff)
  have u: "update_where (\<lambda>q. row_id q = row_id r) ?f rows = Inr (snd (claim_due c tie rows now stamp))"
    using False unfolding claim_due_def Let_def if_not_P [OF ne] r_def [symmetric]
    by (cases "update_where (\<lambda>q. row_id q = row_id r) ?f rows")
       (auto simp del: not_less split: option.splits if_splits)
  show ?thesis
  proof (rule budget_update [OF u])
    fix q
    assume q: "q \<in> set rows" "row_id q = row_id r" "within_budget q"
    have "q = r" using unique_row [OF _ r(1) q(1,2)] assms by (simp add: drain_inv_def)
    then show "within_budget (?f q)" using q(3) r(2) by (auto simp: within_budget_def)
  qed (use assms in \<open>simp add: drain_inv_def\<close>)
qed

text \<open>The row a claim refers to, right after the claim.\<close>

lemma claimed_row:
  assumes inv: "drain_inv rows" and c: "claim_due c tie rows now stamp = (Inr (Some j), rows')"
    and q: "q \<in> set rows'" "row_id q = job_id j"
  shows "job_period j = map_option as_u64 (row_period q)"
    and "row_max_attempts q = job_max_attempts j"
    and "job_period j = None \<Longrightarrow> row_attempts q = job_attempts j"
    and "job_period j = None \<Longrightarrow> 1 \<le> job_attempts j \<and> job_attempts j \<le> max 1 (job_max_attempts j)"
proof -
  have t: "table_ok rows" using inv by (simp add: drain_inv_def)
  obtain us r vs where r: "rows = us @ r # vs" "row_state r = JobPending" "row_id r = job_id j"
    "job_attempts j = (row_attempts r + 1) mod 2 ^ 32" "job_max_attempts j = row_max_attempts r"
    "job_period j = map_option as_u64 (row_period r)"
    and rows': "rows' = us @ r\<lparr>row_state := JobRunning, row_attempts := row_attempts r + 1,
        row_updated := fmt_utc stamp\<rparr> # vs"
    by (rule claim_due_Some [OF t c])
  let ?r = "r\<lparr>row_state := JobRunning, row_attempts := row_attempts r + 1, row_updated := fmt_utc stamp\<rparr>"
  have t': "table_ok rows'" using claim_due_ok [OF t, of c tie now stamp] c by simp
  have "q = ?r" using unique_row [OF t' _ q(1), of ?r] q(2) r(3) rows' by simp
  then show "job_period j = map_option as_u64 (row_period q)" "row_max_attempts q = job_max_attempts j"
    using r(5,6) by simp_all
  have b: "within_budget r" using inv r(1) by (simp add: drain_inv_def)
  assume p: "job_period j = None"
  then have "row_period r = None" using r(6) by simp
  then have lt: "fits32 (row_max_attempts r)" "row_attempts r < max 1 (row_max_attempts r)"
    using b r(2) by (simp_all add: within_budget_def)
  then have "row_attempts r + 1 < 2 ^ 32" by (simp split: if_splits add: max_def)
  then have a: "job_attempts j = row_attempts r + 1" unfolding r(4) by (rule mod_less)
  then show "row_attempts q = job_attempts j" using \<open>q = ?r\<close> by simp
  show "1 \<le> job_attempts j \<and> job_attempts j \<le> max 1 (job_max_attempts j)"
    using a lt(2) r(5) by simp
qed

lemma complete_budget:
  assumes "drain_inv rows" and "claim_due c tie rows now stamp = (Inr (Some j), rows1)"
    and b: "list_all within_budget rows1" and "complete_job l rows1 j t t' = Inr rows'"
  shows "list_all within_budget rows'"
proof (cases "job_period j")
  case None
  then show ?thesis using b assms(4) by (auto simp: complete_job_def list_all_iff)
next
  case (Some period)
  then obtain f where "update_where (\<lambda>r. row_id r = job_id j) f rows1 = Inr rows'"
    and f: "\<And>r. row_attempts (f r) = 0 \<and> row_period (f r) = row_period r
      \<and> row_max_attempts (f r) = row_max_attempts r"
    using assms(4) by (fastforce simp: complete_job_def)
  from this(1) b show ?thesis by (rule budget_update) (use f within_budget_reset in blast)
qed

lemma fail_budget:
  assumes "drain_inv rows" and c: "claim_due c tie rows now stamp = (Inr (Some j), rows1)"
    and b: "list_all within_budget rows1" and f: "fail c l rows1 j e bo t = Inr (x, rows')"
  shows "list_all within_budget rows'"
proof (cases "job_period j")
  case None
  show ?thesis
  proof (cases "job_attempts j < job_max_attempts j")
    case True
    then obtain g where "update_where (\<lambda>r. row_id r = job_id j) g rows1 = Inr rows'"
      and g: "\<And>r. row_attempts (g r) = row_attempts r \<and> row_period (g r) = row_period r
        \<and> row_max_attempts (g r) = row_max_attempts r"
      using f None by (fastforce simp: fail_def put_back_def map_sum_Inr)
    from this(1) b show ?thesis
    proof (rule budget_update)
      fix q
      assume q: "q \<in> set rows1" "row_id q = job_id j" "within_budget q"
      note k = claimed_row [OF assms(1) c q(1,2)]
      show "within_budget (g q)"
        using q(3) g [of q] k(2) k(3) [OF None] True by (simp add: within_budget_def)
    qed
  next
    case False
    then obtain g where "update_where (\<lambda>r. row_id r = job_id j) g rows1 = Inr rows'"
      and g: "\<And>r. row_attempts (g r) = row_attempts r \<and> row_period (g r) = row_period r
        \<and> row_max_attempts (g r) = row_max_attempts r \<and> row_state (g r) = JobFailed"
      using f None by (fastforce simp: fail_def map_sum_Inr)
    from this(1) b show ?thesis
      by (rule budget_update) (use g in \<open>auto simp: within_budget_def\<close>)
  qed
next
  case (Some period)
  then obtain g where "update_where (\<lambda>r. row_id r = job_id j) g rows1 = Inr rows'"
    and g: "\<And>r. row_attempts (g r) = 0 \<and> row_period (g r) = row_period r
      \<and> row_max_attempts (g r) = row_max_attempts r"
    using f by (fastforce simp: fail_def put_back_def map_sum_Inr)
  from this(1) b show ?thesis by (rule budget_update) (use g within_budget_reset in blast)
qed

lemma drain_step_inv:
  assumes "drain_inv rows" and "drain_ok op"
  shows "drain_inv (drain_step c l rows op)"
proof (cases op)
  case (Post p)
  then show ?thesis using assms by (simp add: drain_inv_def job_step_ok posting_budget)
next
  case (Work tie now t out b)
  have t: "table_ok rows" using assms(1) by (simp add: drain_inv_def)
  obtain res rows1 where cl: "claim_due c tie rows now now = (res, rows1)" by fastforce
  have t1: "table_ok rows1" and b1: "list_all within_budget rows1"
    using claim_due_ok [OF t, of c tie now now] claim_budget [OF assms(1), of c tie now now] cl by simp_all
  show ?thesis
  proof (cases "\<exists>j. res = Inr (Some j)")
    case True
    then obtain j where j: "claim_due c tie rows now now = (Inr (Some j), rows1)" using cl by auto
    show ?thesis
    proof (cases out)
      case Succeeds
      then show ?thesis
        using Work j t1 b1
        by (auto simp: drain_inv_def map_sum_Inr intro!: settle_ok budget_settle
            intro: complete_ok complete_budget [OF assms(1) j])
    next
      case (Fails e)
      then show ?thesis
        using Work j t1 b1
        by (auto simp: drain_inv_def intro!: settle_ok budget_settle
            intro: fail_ok fail_budget [OF assms(1) j])
    qed
  next
    case False
    then have "drain_step c l rows op = rows1" using Work cl by (auto split: sum.split option.split)
    then show ?thesis using t1 b1 by (simp add: drain_inv_def)
  qed
qed

interpretation drain: component "drain_step c l" drain_ok drain_inv for c l
  by unfold_locales (rule drain_step_inv)

text \<open>C18. A one-shot job runs at most as often as its budget. Starting from an empty table, post and
  delete any work and drain it in any number of rounds, each claiming the earliest due job and
  settling it as succeeded or failed, with any timing and any backoff: every one-shot job handed out
  has had at least one and at most \<open>max 1 max_attempts\<close> attempts, this one included.\<close>

theorem attempts_bounded:
  assumes "list_all drain_ok ops"
    and "claim_due c tie (run_from (drain_step c l) [] ops) now stamp = (Inr (Some j), rows')"
    and "job_period j = None"
  shows "1 \<le> job_attempts j \<and> job_attempts j \<le> max 1 (job_max_attempts j)"
proof -
  have "drain_inv []" by (simp add: drain_inv_def)
  then have inv: "drain_inv (run_from (drain_step c l) [] ops)" by (rule drain.run_inv [OF _ assms(1)])
  then have "table_ok (run_from (drain_step c l) [] ops)" by (simp add: drain_inv_def)
  then obtain us r vs where "row_id r = job_id j"
    "rows' = us @ r\<lparr>row_state := JobRunning, row_attempts := row_attempts r + 1,
       row_updated := fmt_utc stamp\<rparr> # vs"
    by (rule claim_due_Some [OF _ assms(2)])
  then have "\<exists>q. q \<in> set rows' \<and> row_id q = job_id j" by auto
  then obtain q where "q \<in> set rows'" "row_id q = job_id j" by blast
  then show ?thesis by (rule claimed_row(4) [OF inv assms(2) _ _ assms(3)])
qed

lemma demo_drain:
  "run_from (drain_step demo_codec l) []
     [Post (Enqueue ''retry'' (JObject [(''id'', JString ''r'')]) 2 0 0)] = [demo_job 1 0]"
  by (simp add: enqueue_def insert_row_def Let_def fresh_id_def dedupe_ok_def demo_job_def fmt_utc_def)

theorem attempts_bounded_witness: "1 \<le> job_attempts (demo_claim 1) \<and> job_attempts (demo_claim 1) \<le> 2"
proof -
  have "claim_due demo_codec (\<lambda>_. 0) (run_from (drain_step demo_codec l) []
      [Post (Enqueue ''retry'' (JObject [(''id'', JString ''r'')]) 2 0 0)]) 0 0
    = (Inr (Some (demo_claim 1)), [demo_running 1 0])" for l
    unfolding demo_drain by (rule demo_claims(1))
  from attempts_bounded [OF _ this] show ?thesis by (simp add: demo_claim_def)
qed

section \<open>A failing job is parked\<close>

definition fail_round ::
    "'t codec \<Rightarrow> time_limits \<Rightarrow> string \<Rightarrow> backoff \<Rightarrow> 't job_row list \<Rightarrow> instant \<Rightarrow> 't job_row list" where
  "fail_round c l e b rows t = drain_step c l rows (Work (\<lambda>_. 0) t t (Fails e) b)"

text \<open>Rounds far enough apart for any backoff, inside the range of the clock.\<close>

fun spaced_rounds :: "time_limits \<Rightarrow> backoff \<Rightarrow> instant \<Rightarrow> instant list \<Rightarrow> bool" where
  "spaced_rounds l b due [] = True"
| "spaced_rounds l b due (t # ts) \<longleftrightarrow>
     due \<le> t \<and> earliest l \<le> t \<and> t + int (cap b) \<le> latest l \<and> spaced_rounds l b (t + int (cap b)) ts"

lemma delay_in_range:
  assumes "0 \<le> longest l" and "earliest l \<le> t" and "t + int (cap b) \<le> latest l"
  obtains d where "add_delta l t (std_delta l (delay b n)) = Inr (t + d)" "0 \<le> d" "d \<le> int (cap b)"
proof -
  have "delay b n \<le> cap b" by (simp add: delay_def Let_def)
  then have "0 \<le> std_delta l (delay b n)" "std_delta l (delay b n) \<le> int (cap b)"
    using assms(1) by (auto simp: std_delta_def)
  then show ?thesis using assms(2,3) by (intro that [of "std_delta l (delay b n)"]) (simp_all add: add_delta_def)
qed

lemma fmt_mono: "s \<le> t \<Longrightarrow> fmt_utc s \<le> fmt_utc t"
  by (simp add: fmt_utc_def zdiv_mono1)

lemma fail_round_single:
  assumes r: "row_state r = JobPending" "row_due r \<le> fmt_utc t" "row_period r = None"
    and m: "fits32 (row_max_attempts r)" "row_attempts r < max 1 (row_max_attempts r)"
    and v: "codec_ok c" "from_text c (row_payload r) = Some v"
    and l: "0 \<le> longest l" "earliest l \<le> t" "t + int (cap b) \<le> latest l"
  shows "\<exists>q. fail_round c l e b [r] t = [q] \<and> row_id q = row_id r \<and> row_period q = None
    \<and> row_attempts q = row_attempts r + 1 \<and> row_max_attempts q = row_max_attempts r
    \<and> from_text c (row_payload q) = Some v
    \<and> (if row_attempts r + 1 < row_max_attempts r
       then row_state q = JobPending \<and> row_due q \<le> fmt_utc (t + int (cap b))
       else row_state q = JobFailed)"
proof -
  have wide: "row_attempts r + 1 < 2 ^ 32" using m by (simp add: max_def split: if_splits)
  then have nowrap: "(row_attempts r + 1) mod 2 ^ 32 = row_attempts r + 1" by (rule mod_less)
  have fit: "fits32 (row_attempts r)" using wide by simp
  let ?j = "\<lparr>job_id = row_id r, job_kind = row_kind r, job_payload = v,
      job_attempts = row_attempts r + 1, job_max_attempts = row_max_attempts r, job_period = None\<rparr>"
  let ?run = "r\<lparr>row_state := JobRunning, row_attempts := row_attempts r + 1, row_updated := fmt_utc t\<rparr>"
  have cl: "claim_due c (\<lambda>_. 0) [r] t t = (Inr (Some ?j), [?run])"
    unfolding claim_single [OF r(1,2) fit m(1)] nowrap v(2) by (simp add: r(3))
  have again: "from_text c (to_text c v) = Some v" using v(1) by (simp add: codec_ok_def)
  have one: "dedupe_ok [q]" for q :: "'a job_row" by (simp add: dedupe_ok_def)
  show ?thesis
  proof (cases "row_attempts r + 1 < row_max_attempts r")
    case True
    obtain d where d: "add_delta l t (std_delta l (delay b (row_attempts r + 1))) = Inr (t + d)"
      "0 \<le> d" "d \<le> int (cap b)"
      by (rule delay_in_range [OF l])
    have "fmt_utc (t + d) \<le> fmt_utc (t + int (cap b))" by (rule fmt_mono) (use d(3) in simp)
    then show ?thesis
      using True r(3) d(1) again one
      by (simp add: fail_round_def cl fail_def put_back_def update_where_def Let_def settle_def)
  next
    case False
    then show ?thesis
      using r(3) again one
      by (simp add: fail_round_def cl fail_def update_where_def Let_def settle_def)
  qed
qed

lemma fail_round_parked: "row_state q = JobFailed \<Longrightarrow> fail_round c l e b [q] t = [q]"
  by (simp add: fail_round_def claim_due_def earliest_due_def)

lemma fail_rounds_parked: "row_state q = JobFailed \<Longrightarrow> foldl (fail_round c l e b) [q] ts = [q]"
  by (induction ts) (simp_all add: fail_round_parked)

lemma fail_rounds_park:
  assumes "row_state r = JobPending" and "row_due r \<le> fmt_utc due" and "row_period r = None"
    and "fits32 (row_max_attempts r)" and "row_attempts r < max 1 (row_max_attempts r)"
    and "codec_ok c" and "from_text c (row_payload r) = Some v" and "0 \<le> longest l"
    and "spaced_rounds l b due ts" and "max 1 (row_max_attempts r) \<le> row_attempts r + length ts"
  shows "\<exists>q. foldl (fail_round c l e b) [r] ts = [q] \<and> row_id q = row_id r
    \<and> row_state q = JobFailed \<and> row_attempts q = max 1 (row_max_attempts r)"
  using assms(1-5,7,9,10)
proof (induction ts arbitrary: r due)
  case Nil
  then show ?case by (auto simp: max_def split: if_splits)
next
  case (Cons t ts)
  have t: "due \<le> t" "earliest l \<le> t" "t + int (cap b) \<le> latest l"
    "spaced_rounds l b (t + int (cap b)) ts"
    using Cons.prems(7) by simp_all
  have "row_due r \<le> fmt_utc t" using Cons.prems(2) fmt_mono [OF t(1)] by simp
  from fail_round_single [OF Cons.prems(1) this Cons.prems(3,4,5) assms(6) Cons.prems(6) assms(8) t(2,3), of e]
  obtain q where q: "fail_round c l e b [r] t = [q]" "row_id q = row_id r" "row_period q = None"
    "row_attempts q = row_attempts r + 1" "row_max_attempts q = row_max_attempts r"
    "from_text c (row_payload q) = Some v"
    "if row_attempts r + 1 < row_max_attempts r
       then row_state q = JobPending \<and> row_due q \<le> fmt_utc (t + int (cap b))
       else row_state q = JobFailed" by blast
  show ?case
  proof (cases "row_attempts r + 1 < row_max_attempts r")
    case True
    then have "\<exists>q'. foldl (fail_round c l e b) [q] ts = [q'] \<and> row_id q' = row_id q
        \<and> row_state q' = JobFailed \<and> row_attempts q' = max 1 (row_max_attempts q)"
      by (intro Cons.IH [of q "t + int (cap b)"]) (use q t(4) Cons.prems(4,8) in simp_all)
    then show ?thesis using q by simp
  next
    case False
    then have "row_state q = JobFailed" using q(7) by simp
    moreover have "row_attempts q = max 1 (row_max_attempts r)"
      using False Cons.prems(5) q(4) by (simp add: max_def split: if_splits)
    ultimately show ?thesis using q(1,2) by (simp add: fail_rounds_parked)
  qed
qed

text \<open>C19. Retrying a job that always fails comes to an end. Take a fresh one-shot job and run it
  whenever it is due, each run failing, in rounds at least the backoff's cap apart: after
  \<open>max 1 max_attempts\<close> rounds it is parked as failed with exactly that many attempts, and stays so
  however many rounds follow.\<close>

theorem failing_job_parks:
  assumes "row_state r = JobPending" and "row_due r \<le> fmt_utc due" and "row_period r = None"
    and "fits32 (row_max_attempts r)" and "row_attempts r = 0"
    and "codec_ok c" and "from_text c (row_payload r) = Some v" and "0 \<le> longest l"
    and "spaced_rounds l b due ts" and "max 1 (row_max_attempts r) \<le> length ts"
  shows "\<exists>q. foldl (fail_round c l e b) [r] ts = [q] \<and> row_id q = row_id r
    \<and> row_state q = JobFailed \<and> row_attempts q = max 1 (row_max_attempts r)"
  by (rule fail_rounds_park) (use assms in simp_all)

theorem failing_job_parks_witness:
  "\<exists>q. foldl (fail_round demo_codec demo_limits ''timed out'' \<lparr>base = 10 ^ 9, cap = 60 * 10 ^ 9\<rparr>) [demo_job 1 0]
       [0, 60 * 10 ^ 9, 200 * 10 ^ 9] = [q] \<and> row_state q = JobFailed \<and> row_attempts q = 2"
proof -
  have "\<exists>q. foldl (fail_round demo_codec demo_limits ''timed out'' \<lparr>base = 10 ^ 9, cap = 60 * 10 ^ 9\<rparr>) [demo_job 1 0]
       [0, 60 * 10 ^ 9, 200 * 10 ^ 9] = [q] \<and> row_id q = row_id (demo_job 1 0)
     \<and> row_state q = JobFailed \<and> row_attempts q = max 1 (row_max_attempts (demo_job 1 0))"
    by (rule failing_job_parks [where due = 0])
       (simp_all add: demo_codec_ok fmt_utc_def demo_limits_def)
  then show ?thesis by (elim ex_forward) simp
qed

end
