(* ===== verification/Diff.thy ===== *)
theory Diff
  imports Prelude "HOL-Library.Sublist"
begin

text \<open>
  The text diff of \<open>crates/corti-postprocess/src/diff.rs\<close>: tokens, the table of longest common
  subsequences filled from the end, the walk over it, and the spans.

  A text is a list of code points. Unicode segmentation and the character classes are parameters;
  \<open>segmentation_ok\<close> says that cutting a text into pieces loses nothing, which is what the
  segmentation iterators promise.
\<close>

section \<open>Data\<close>

record segmentation =
  word_bounds :: "utext \<Rightarrow> utext list"
  graphemes :: "utext \<Rightarrow> utext list"
  alphanumeric :: "nat \<Rightarrow> bool"
  whitespace :: "nat \<Rightarrow> bool"

definition segmentation_ok :: "segmentation \<Rightarrow> bool" where
  "segmentation_ok g \<longleftrightarrow> (\<forall>t. concat (word_bounds g t) = t) \<and> (\<forall>t. concat (graphemes g t) = t)"

datatype diff_span =
    EqualSpan utext
  | InsertSpan utext
  | DeleteSpan utext
  | ReplaceSpan (deleted: utext) (inserted: utext)

datatype diff_error = TooLarge

definition DEFAULT_MAX_MATRIX_CELLS :: nat where "DEFAULT_MAX_MATRIX_CELLS = 4000000"

fun is_equal :: "diff_span \<Rightarrow> bool" where
  "is_equal (EqualSpan t) = True"
| "is_equal _ = False"

definition is_changed :: "diff_span list \<Rightarrow> bool" where
  "is_changed spans = list_ex (\<lambda>s. \<not> is_equal s) spans"

fun old_part :: "diff_span \<Rightarrow> utext" where
  "old_part (EqualSpan t) = t"
| "old_part (DeleteSpan t) = t"
| "old_part (ReplaceSpan d i) = d"
| "old_part (InsertSpan t) = []"

fun new_part :: "diff_span \<Rightarrow> utext" where
  "new_part (EqualSpan t) = t"
| "new_part (InsertSpan t) = t"
| "new_part (ReplaceSpan d i) = i"
| "new_part (DeleteSpan t) = []"

definition old_text :: "diff_span list \<Rightarrow> utext" where
  "old_text spans = foldl (\<lambda>acc s. acc @ old_part s) [] spans"

definition new_text :: "diff_span list \<Rightarrow> utext" where
  "new_text spans = foldl (\<lambda>acc s. acc @ new_part s) [] spans"

section \<open>Tokens\<close>

definition tokenize :: "segmentation \<Rightarrow> utext \<Rightarrow> utext list" where
  "tokenize g t =
     foldl (\<lambda>tokens boundary.
       if boundary = [] then tokens
       else if list_ex (alphanumeric g) boundary \<or> list_all (whitespace g) boundary
       then tokens @ [boundary]
       else tokens @ graphemes g boundary) [] (word_bounds g t)"

datatype token_operation = TokenEqual utext | TokenInsert utext | TokenDelete utext

section \<open>The table\<close>

definition fill_cell :: "utext list \<Rightarrow> utext list \<Rightarrow> nat \<Rightarrow> nat \<Rightarrow> u32 list \<Rightarrow> nat \<Rightarrow> u32 list" where
  "fill_cell old new columns i lcs j =
     lcs[i * columns + j :=
       if old ! i = new ! j
       then saturating_add 32 (lcs ! ((i + 1) * columns + j + 1)) 1
       else max (lcs ! ((i + 1) * columns + j)) (lcs ! (i * columns + j + 1))]"

definition fill_row :: "utext list \<Rightarrow> utext list \<Rightarrow> nat \<Rightarrow> u32 list \<Rightarrow> nat \<Rightarrow> u32 list" where
  "fill_row old new columns lcs i =
     foldl (fill_cell old new columns i) lcs (rev [0..<length new])"

definition fill_table :: "utext list \<Rightarrow> utext list \<Rightarrow> nat \<Rightarrow> u32 list \<Rightarrow> u32 list" where
  "fill_table old new columns lcs =
     foldl (fill_row old new columns) lcs (rev [0..<length old])"

section \<open>The walk\<close>

text \<open>The last-but-one branch would index past the new tokens; from \<open>(0, 0)\<close> it is never reached.\<close>

function walk ::
    "utext list \<Rightarrow> utext list \<Rightarrow> nat \<Rightarrow> u32 list \<Rightarrow> nat \<Rightarrow> nat \<Rightarrow> token_operation list" where
  "walk old new columns lcs i j =
     (if i < length old \<or> j < length new
      then if i < length old \<and> j < length new \<and> old ! i = new ! j
           then TokenEqual (old ! i) # walk old new columns lcs (i + 1) (j + 1)
           else if i < length old
                   \<and> (j = length new
                      \<or> lcs ! (i * columns + j + 1) \<le> lcs ! ((i + 1) * columns + j))
           then TokenDelete (old ! i) # walk old new columns lcs (i + 1) j
           else if j < length new
           then TokenInsert (new ! j) # walk old new columns lcs i (j + 1)
           else []
      else [])"
  by pat_completeness auto
termination
  by (relation "measure (\<lambda>(old, new, columns, lcs, i, j).
        Suc (length old) - i + (Suc (length new) - j))") auto

declare walk.simps [simp del]

section \<open>Spans\<close>

definition flush_change :: "diff_span list \<times> utext \<times> utext \<Rightarrow> diff_span list \<times> utext \<times> utext" where
  "flush_change st =
     (case st of (spans, del, ins) \<Rightarrow>
       if del = [] \<and> ins = [] then st
       else (spans @ [if del \<noteq> [] \<and> ins \<noteq> [] then ReplaceSpan del ins
                      else if del \<noteq> [] then DeleteSpan del else InsertSpan ins], [], []))"

fun push_equal :: "utext \<Rightarrow> diff_span list \<Rightarrow> diff_span list" where
  "push_equal t spans =
     (if spans = [] then [EqualSpan t]
      else case last spans of
        EqualSpan existing \<Rightarrow> butlast spans @ [EqualSpan (existing @ t)]
      | _ \<Rightarrow> spans @ [EqualSpan t])"

fun add_operation ::
    "diff_span list \<times> utext \<times> utext \<Rightarrow> token_operation \<Rightarrow> diff_span list \<times> utext \<times> utext" where
  "add_operation st (TokenEqual t) =
     (case flush_change st of (spans, del, ins) \<Rightarrow> (push_equal t spans, del, ins))"
| "add_operation (spans, del, ins) (TokenDelete t) = (spans, del @ t, ins)"
| "add_operation (spans, del, ins) (TokenInsert t) = (spans, del, ins @ t)"

definition coalesce_operations :: "token_operation list \<Rightarrow> diff_span list" where
  "coalesce_operations ops = fst (flush_change (foldl add_operation ([], [], []) ops))"

section \<open>The diff\<close>

definition diff_with_limit ::
    "segmentation \<Rightarrow> utext \<Rightarrow> utext \<Rightarrow> nat \<Rightarrow> diff_error + diff_span list" where
  "diff_with_limit g old new limit =
     (if old = new then Inr (if old = [] then [] else [EqualSpan old])
      else let old_tokens = tokenize g old; new_tokens = tokenize g new
           in rbind (ok_or (checked_add 64 (length old_tokens) 1) TooLarge) (\<lambda>rows.
              rbind (ok_or (checked_add 64 (length new_tokens) 1) TooLarge) (\<lambda>columns.
              rbind (ok_or (checked_mul 64 rows columns) TooLarge) (\<lambda>cells.
                if limit < cells then Inl TooLarge
                else let lcs = fill_table old_tokens new_tokens columns (replicate cells 0)
                     in Inr (coalesce_operations (walk old_tokens new_tokens columns lcs 0 0))))))"

definition text_diff :: "segmentation \<Rightarrow> utext \<Rightarrow> utext \<Rightarrow> diff_error + diff_span list" where
  "text_diff g old new = diff_with_limit g old new DEFAULT_MAX_MATRIX_CELLS"

section \<open>Nothing is lost\<close>

lemma foldl_parts: "foldl (\<lambda>acc s. acc @ f s) acc spans = acc @ concat (map f spans)"
  by (induction spans arbitrary: acc) simp_all

lemma old_text_concat: "old_text spans = concat (map old_part spans)"
  and new_text_concat: "new_text spans = concat (map new_part spans)"
  by (simp_all add: old_text_def new_text_def foldl_parts)

fun op_old :: "token_operation \<Rightarrow> utext" where
  "op_old (TokenEqual t) = t" | "op_old (TokenDelete t) = t" | "op_old (TokenInsert t) = []"

fun op_new :: "token_operation \<Rightarrow> utext" where
  "op_new (TokenEqual t) = t" | "op_new (TokenInsert t) = t" | "op_new (TokenDelete t) = []"

lemma concat_tokenize:
  assumes "segmentation_ok g"
  shows "concat (tokenize g t) = t"
proof -
  have "concat (foldl (\<lambda>tokens boundary.
       if boundary = [] then tokens
       else if list_ex (alphanumeric g) boundary \<or> list_all (whitespace g) boundary
       then tokens @ [boundary]
       else tokens @ graphemes g boundary) acc bs) = concat acc @ concat bs" for acc bs
    by (induction bs arbitrary: acc) (use assms in \<open>auto simp: segmentation_ok_def\<close>)
  then show ?thesis using assms by (simp add: tokenize_def segmentation_ok_def)
qed

lemma walk_old:
  "i \<le> length old \<Longrightarrow> j \<le> length new \<Longrightarrow> concat (map op_old (walk old new k lcs i j)) = concat (drop i old)"
proof (induction old new k lcs i j rule: walk.induct)
  case (1 old new k lcs i j)
  then show ?case
    by (subst walk.simps) (auto simp: Cons_nth_drop_Suc [symmetric] not_less)
qed

lemma walk_new:
  "i \<le> length old \<Longrightarrow> j \<le> length new \<Longrightarrow> concat (map op_new (walk old new k lcs i j)) = concat (drop j new)"
proof (induction old new k lcs i j rule: walk.induct)
  case (1 old new k lcs i j)
  then show ?case
    by (subst walk.simps) (auto simp: Cons_nth_drop_Suc [symmetric] not_less)
qed

definition pending_old :: "diff_span list \<times> utext \<times> utext \<Rightarrow> utext" where
  "pending_old st = concat (map old_part (fst st)) @ fst (snd st)"

definition pending_new :: "diff_span list \<times> utext \<times> utext \<Rightarrow> utext" where
  "pending_new st = concat (map new_part (fst st)) @ snd (snd st)"

lemmas pending_defs = pending_old_def pending_new_def

lemma flush_pending [simp]:
  "pending_old (flush_change st) = pending_old st"
  "pending_new (flush_change st) = pending_new st"
  "fst (snd (flush_change st)) = []" "snd (snd (flush_change st)) = []"
  by (auto simp: flush_change_def pending_defs split: prod.splits)

lemma push_equal_parts:
  "concat (map old_part (push_equal t spans)) = concat (map old_part spans) @ t"
  "concat (map new_part (push_equal t spans)) = concat (map new_part spans) @ t"
  by (cases spans rule: rev_cases; auto split: diff_span.split)+

lemma add_operation_pending:
  "pending_old (add_operation st x) = pending_old st @ op_old x"
  "pending_new (add_operation st x) = pending_new st @ op_new x"
proof -
  obtain spans del ins where f: "flush_change st = (spans, del, ins)" by (cases "flush_change st")
  have "del = []" "ins = []" using flush_pending(3,4) [of st] f by simp_all
  moreover have "pending_old st = concat (map old_part spans) @ del"
    "pending_new st = concat (map new_part spans) @ ins"
    using flush_pending(1,2) [of st] f by (simp_all add: pending_defs)
  ultimately show "pending_old (add_operation st x) = pending_old st @ op_old x"
    "pending_new (add_operation st x) = pending_new st @ op_new x"
    using f push_equal_parts [of _ spans]
    by (cases "(st, x)" rule: add_operation.cases; simp add: pending_defs del: push_equal.simps)+
qed

lemma coalesce_parts:
  "concat (map old_part (coalesce_operations ops)) = concat (map op_old ops)"
  "concat (map new_part (coalesce_operations ops)) = concat (map op_new ops)"
proof -
  have o: "pending_old (foldl add_operation st ops) = pending_old st @ concat (map op_old ops)"
    and n: "pending_new (foldl add_operation st ops) = pending_new st @ concat (map op_new ops)" for st
    by (induction ops arbitrary: st) (simp_all add: add_operation_pending)
  let ?st = "foldl add_operation ([], [], []) ops"
  have "pending_old (flush_change ?st) = concat (map op_old ops)"
    "pending_new (flush_change ?st) = concat (map op_new ops)"
    using o [of "([], [], [])"] n [of "([], [], [])"]
    by (simp_all add: pending_old_def [of "([], [], [])"] pending_new_def [of "([], [], [])"])
  moreover have "pending_old (flush_change ?st) = concat (map old_part (coalesce_operations ops))"
    "pending_new (flush_change ?st) = concat (map new_part (coalesce_operations ops))"
    unfolding pending_defs coalesce_operations_def by simp_all
  ultimately show "concat (map old_part (coalesce_operations ops)) = concat (map op_old ops)"
    "concat (map new_part (coalesce_operations ops)) = concat (map op_new ops)" by simp_all
qed

text \<open>C20. A diff loses nothing. Whenever the diff of two texts is produced, at any cell limit and for
  any lossless segmentation, the old text read off its spans is exactly the old input and the new text
  exactly the new input; and it is refused only for size, when the token table would exceed the limit
  or the address space, never for equal texts.\<close>

theorem diff_reconstructs:
  assumes "segmentation_ok g"
  shows "case diff_with_limit g old new limit of
      Inr spans \<Rightarrow> old_text spans = old \<and> new_text spans = new
    | Inl TooLarge \<Rightarrow> old \<noteq> new
        \<and> min limit (2 ^ 64 - 1) < (length (tokenize g old) + 1) * (length (tokenize g new) + 1)"
proof (cases "old = new")
  case True
  then show ?thesis by (simp add: diff_with_limit_def old_text_def new_text_def)
next
  case False
  let ?o = "tokenize g old" and ?n = "tokenize g new"
  let ?cells = "(length ?o + 1) * (length ?n + 1)"
  have le: "length ?o + 1 \<le> ?cells" "length ?n + 1 \<le> ?cells" by simp_all
  show ?thesis
  proof (cases "fits64 ?cells \<and> ?cells \<le> limit")
    case True
    then have "length ?o + 1 < 2 ^ 64" "length ?n + 1 < 2 ^ 64" using le by linarith+
    then have "diff_with_limit g old new limit = Inr (coalesce_operations (walk ?o ?n (length ?n + 1)
        (fill_table ?o ?n (length ?n + 1) (replicate ?cells 0)) 0 0))"
      using False True
      by (simp add: diff_with_limit_def Let_def checked_add_def checked_mul_def not_less)
    then show ?thesis
      by (simp add: old_text_concat new_text_concat coalesce_parts walk_old walk_new
          concat_tokenize [OF assms])
  next
    case big: False
    have "diff_with_limit g old new limit = Inl TooLarge"
    proof (cases "fits64 (length ?o + 1) \<and> fits64 (length ?n + 1) \<and> fits64 ?cells")
      case True
      then show ?thesis
        using False big by (simp add: diff_with_limit_def Let_def checked_add_def checked_mul_def not_less)
    next
      case wide: False
      then show ?thesis
        using False by (auto simp: diff_with_limit_def Let_def checked_add_def checked_mul_def not_less)
    qed
    moreover have "min limit (2 ^ 64 - 1) < ?cells"
      using big by (cases "fits64 ?cells") (simp_all add: not_less min_def)
    ultimately show ?thesis using False by simp
  qed
qed

definition demo_segmentation :: segmentation where
  "demo_segmentation = \<lparr>word_bounds = map (\<lambda>c. [c]), graphemes = map (\<lambda>c. [c]),
     alphanumeric = (\<lambda>c. 97 \<le> c), whitespace = (\<lambda>c. c = 32)\<rparr>"

lemma concat_singletons: "concat (map (\<lambda>c. [c]) t) = t"
  by (induction t) simp_all

lemma demo_segmentation_ok: "segmentation_ok demo_segmentation"
  by (simp add: segmentation_ok_def demo_segmentation_def concat_singletons)

lemma demo_tokens: "tokenize demo_segmentation [97, 98] = [[97], [98]]"
    "tokenize demo_segmentation [97] = [[97]]"
  by (simp_all add: tokenize_def demo_segmentation_def)

theorem diff_reconstructs_witness:
  "case diff_with_limit demo_segmentation [97, 98] [97] 5 of
     Inr _ \<Rightarrow> False | Inl TooLarge \<Rightarrow> min 5 (2 ^ 64 - 1) < (3 * 2 :: nat)"
proof -
  have "diff_with_limit demo_segmentation [97, 98] [97] 5 = Inl TooLarge"
    by (simp add: diff_with_limit_def demo_tokens Let_def checked_add_def checked_mul_def)
  then show ?thesis
    using diff_reconstructs [OF demo_segmentation_ok, of "[97, 98]" "[97]" 5] by (simp add: demo_tokens)
qed

section \<open>As much as possible is kept\<close>

fun lcs_len :: "'a list \<Rightarrow> 'a list \<Rightarrow> nat" where
  "lcs_len [] ys = 0"
| "lcs_len xs [] = 0"
| "lcs_len (x # xs) (y # ys) =
     (if x = y then lcs_len xs ys + 1 else max (lcs_len xs (y # ys)) (lcs_len (x # xs) ys))"

lemma lcs_len_Nil [simp]: "lcs_len xs [] = 0"
  by (cases xs) simp_all

lemma lcs_len_upper: "subseq zs xs \<Longrightarrow> subseq zs ys \<Longrightarrow> length zs \<le> lcs_len xs ys"
proof (induction xs ys arbitrary: zs rule: lcs_len.induct)
  case (3 x xs y ys)
  show ?case
  proof (cases "x = y")
    case True
    show ?thesis
    proof (cases zs)
      case (Cons z zs')
      have "subseq (tl zs) xs" "subseq (tl zs) ys"
        using "3.prems" Cons by (auto dest: subseq_Cons' split: if_splits)
      then have "length (tl zs) \<le> lcs_len xs ys" using "3.IH"(1) [OF True] by blast
      then show ?thesis using True Cons by simp
    qed simp
  next
    case False
    then have "subseq zs xs \<or> subseq zs ys"
      using "3.prems" by (cases zs) (auto simp: subseq_Cons2_iff split: if_splits)
    then show ?thesis
      using "3.IH"(2,3) [OF False] "3.prems" False by (auto simp: le_max_iff_disj)
  qed
qed (auto dest: list_emb_length)

lemma lcs_len_le: "lcs_len xs ys \<le> length xs \<and> lcs_len xs ys \<le> length ys"
  by (induction xs ys rule: lcs_len.induct) auto

lemma lcs_len_step:
  assumes "i < length xs" and "j < length ys"
  shows "lcs_len (drop i xs) (drop j ys) =
     (if xs ! i = ys ! j then lcs_len (drop (i + 1) xs) (drop (j + 1) ys) + 1
      else max (lcs_len (drop (i + 1) xs) (drop j ys)) (lcs_len (drop i xs) (drop (j + 1) ys)))"
  using assms by (simp add: Cons_nth_drop_Suc [symmetric, of i xs] Cons_nth_drop_Suc [symmetric, of j ys])

text \<open>Cells from row \<open>i0\<close>, column \<open>j0\<close> on hold the lengths for the remaining tokens.\<close>

definition filled :: "utext list \<Rightarrow> utext list \<Rightarrow> nat \<Rightarrow> nat \<Rightarrow> u32 list \<Rightarrow> bool" where
  "filled old new i0 j0 lcs \<longleftrightarrow> length lcs = (length old + 1) * (length new + 1)
     \<and> (\<forall>i \<le> length old. \<forall>j \<le> length new. i0 < i \<or> (i = i0 \<and> j0 \<le> j) \<or> j = length new \<longrightarrow>
          lcs ! (i * (length new + 1) + j) = lcs_len (drop i old) (drop j new))"

lemma index_inject:
  assumes "j < (k::nat)" and "j' < k"
  shows "i * k + j = i' * k + j' \<longleftrightarrow> i = i' \<and> j = j'"
proof
  assume e: "i * k + j = i' * k + j'"
  have "(i * k + j) div k = i" "(i' * k + j') div k = i'" using assms by simp_all
  then show "i = i' \<and> j = j'" using e by simp
qed simp

lemma index_bound: "i \<le> n \<Longrightarrow> j \<le> m \<Longrightarrow> i * (m + 1) + j < (n + 1) * (m + 1)" for i :: nat
proof -
  assume "i \<le> n" "j \<le> m"
  then have "i * (m + 1) \<le> n * (m + 1)" by (simp del: mult_Suc_right)
  then show ?thesis using \<open>j \<le> m\<close> by simp
qed

lemma filledD:
  "filled old new i0 j0 lcs \<Longrightarrow> i \<le> length old \<Longrightarrow> j \<le> length new \<Longrightarrow>
     i0 < i \<or> (i = i0 \<and> j0 \<le> j) \<or> j = length new \<Longrightarrow>
     lcs ! (i * (length new + 1) + j) = lcs_len (drop i old) (drop j new)"
  unfolding filled_def by blast

lemma filled_length: "filled old new i0 j0 lcs \<Longrightarrow> length lcs = (length old + 1) * (length new + 1)"
  unfolding filled_def by blast

lemma filled_row_start: "filled old new (Suc k) 0 lcs \<Longrightarrow> filled old new k (length new) lcs"
  unfolding filled_def by (metis Suc_lessI le_antisym le0)

lemma fill_cell_filled:
  assumes f: "filled old new i (Suc j) lcs" and i: "i < length old" and j: "j < length new"
    and small: "fits32 (min (length old) (length new))"
  shows "filled old new i j (fill_cell old new (length new + 1) i lcs j)"
proof -
  let ?k = "length new + 1"
  let ?L = "\<lambda>i j. lcs_len (drop i old) (drop j new)"
  have cell: "lcs ! (a * ?k + b) = ?L a b"
    if "a \<le> length old" "b \<le> length new" "i < a \<or> (a = i \<and> Suc j \<le> b)" for a b
    using filledD [OF f that(1,2)] that(3) by blast
  have c1: "lcs ! ((i + 1) * ?k + j + 1) = ?L (i + 1) (j + 1)"
    using cell [of "i + 1" "j + 1"] i j by simp
  have c2: "lcs ! ((i + 1) * ?k + j) = ?L (i + 1) j" using cell [of "i + 1" j] i j by simp
  have c3: "lcs ! (i * ?k + j + 1) = ?L i (j + 1)" using cell [of i "j + 1"] i j by simp
  have "?L (i + 1) (j + 1) + 1 \<le> min (length old) (length new)"
    using lcs_len_le [of "drop (i + 1) old" "drop (j + 1) new"] i j by auto
  then have sat: "saturating_add 32 (?L (i + 1) (j + 1)) 1 = ?L (i + 1) (j + 1) + 1"
    using small by (simp add: saturating_add_def min_def split: if_splits)
  have new_cell: "fill_cell old new ?k i lcs j = lcs[i * ?k + j := ?L i j]"
    unfolding fill_cell_def c1 c2 c3 sat lcs_len_step [OF i j] by (rule refl)
  show ?thesis
    unfolding filled_def new_cell
  proof (intro conjI allI impI)
    show "length (lcs[i * ?k + j := ?L i j]) = (length old + 1) * (length new + 1)"
      using filled_length [OF f] by simp
    fix a b
    assume ab: "a \<le> length old" "b \<le> length new" "i < a \<or> (a = i \<and> j \<le> b) \<or> b = length new"
    have len: "i * ?k + j < length lcs"
      using filled_length [OF f] i j index_bound [of i "length old" j "length new"] by simp
    show "lcs[i * ?k + j := ?L i j] ! (a * ?k + b) = ?L a b"
    proof (cases "a = i \<and> b = j")
      case True
      then show ?thesis using len by simp
    next
      case False
      then have ne: "i * ?k + j \<noteq> a * ?k + b" using index_inject [of j ?k b i a] j ab(2) by auto
      have "i < a \<or> (a = i \<and> Suc j \<le> b) \<or> b = length new" using ab(3) False by auto
      then have "lcs ! (a * ?k + b) = ?L a b" by (rule filledD [OF f ab(1,2)])
      then show ?thesis unfolding nth_list_update_neq [OF ne] .
    qed
  qed
qed

lemma fill_row_filled:
  assumes "i < length old" and "fits32 (min (length old) (length new))"
  shows "filled old new i (length new) lcs \<Longrightarrow>
     filled old new i 0 (fill_row old new (length new + 1) lcs i)"
proof -
  have "j \<le> length new \<Longrightarrow> filled old new i j lcs \<Longrightarrow>
     filled old new i 0 (foldl (fill_cell old new (length new + 1) i) lcs (rev [0..<j]))" for j
  proof (induction j arbitrary: lcs)
    case (Suc j)
    then show ?case using fill_cell_filled [OF Suc.prems(2) assms(1) _ assms(2)] by simp
  qed simp
  then show "filled old new i (length new) lcs \<Longrightarrow> ?thesis" by (simp add: fill_row_def)
qed

lemma fill_table_filled:
  assumes "fits32 (min (length old) (length new))"
  shows "filled old new 0 0 (fill_table old new (length new + 1)
     (replicate ((length old + 1) * (length new + 1)) 0))"
proof -
  have row: "k \<le> length old \<Longrightarrow> filled old new k 0 lcs \<Longrightarrow>
     filled old new 0 0 (foldl (fill_row old new (length new + 1)) lcs (rev [0..<k]))" for k lcs
  proof (induction k arbitrary: lcs)
    case (Suc k)
    have "filled old new k (length new) lcs" by (rule filled_row_start [OF Suc.prems(2)])
    then show ?case
      using Suc.IH [OF _ fill_row_filled [OF _ assms]] Suc.prems(1) by simp
  qed simp
  have "filled old new (length old) 0 (replicate ((length old + 1) * (length new + 1)) 0)"
    unfolding filled_def
  proof (intro conjI allI impI)
    fix i j
    assume "i \<le> length old" "j \<le> length new" "length old < i \<or> (i = length old \<and> 0 \<le> j) \<or> j = length new"
    then have "lcs_len (drop i old) (drop j new) = 0" by auto
    with \<open>i \<le> length old\<close> \<open>j \<le> length new\<close>
    show "replicate ((length old + 1) * (length new + 1)) 0 ! (i * (length new + 1) + j)
        = lcs_len (drop i old) (drop j new)"
      using nth_replicate [OF index_bound [of i "length old" j "length new"]] by simp
  qed simp
  from row [OF order.refl this] show ?thesis by (simp add: fill_table_def)
qed

text \<open>The tokens a list of operations keeps.\<close>

fun kept :: "token_operation list \<Rightarrow> utext list" where
  "kept [] = []"
| "kept (TokenEqual t # ops) = t # kept ops"
| "kept (_ # ops) = kept ops"

lemma walk_kept:
  assumes "filled old new 0 0 lcs" and "i \<le> length old" and "j \<le> length new"
  shows "subseq (kept (walk old new (length new + 1) lcs i j)) (drop i old)
    \<and> subseq (kept (walk old new (length new + 1) lcs i j)) (drop j new)
    \<and> length (kept (walk old new (length new + 1) lcs i j)) = lcs_len (drop i old) (drop j new)"
  using assms(2,3)
proof (induction "length old + length new - (i + j)" arbitrary: i j rule: less_induct)
  case less
  let ?k = "length new + 1"
  let ?L = "\<lambda>i j. lcs_len (drop i old) (drop j new)"
  let ?w = "\<lambda>i j. walk old new ?k lcs i j"
  have cell: "lcs ! (a * ?k + b) = ?L a b" if "a \<le> length old" "b \<le> length new" for a b
    using filledD [OF assms(1) that] by (cases a) auto
  consider (stop) "i = length old" "j = length new"
    | (eq) "i < length old" "j < length new" "old ! i = new ! j"
    | (del) "i < length old" "j = length new \<or> (j < length new \<and> old ! i \<noteq> new ! j
        \<and> ?L i (j + 1) \<le> ?L (i + 1) j)"
    | (ins) "j < length new" "i = length old \<or> (i < length old \<and> old ! i \<noteq> new ! j
        \<and> ?L (i + 1) j < ?L i (j + 1))"
    using less.prems by (meson le_neq_implies_less linorder_not_le)
  then show ?case
  proof cases
    case stop
    then show ?thesis by (simp add: walk.simps [of old new _ _ "length old"])
  next
    case eq
    have w: "?w i j = TokenEqual (old ! i) # ?w (i + 1) (j + 1)"
      using eq by (subst walk.simps) simp
    have "subseq (kept (?w (i + 1) (j + 1))) (drop (i + 1) old)
      \<and> subseq (kept (?w (i + 1) (j + 1))) (drop (j + 1) new)
      \<and> length (kept (?w (i + 1) (j + 1))) = ?L (i + 1) (j + 1)"
      by (rule less.hyps) (use eq in auto)
    then show ?thesis
      using eq lcs_len_step [OF eq(1,2)]
      unfolding w kept.simps
      by (simp add: Cons_nth_drop_Suc [symmetric, of i old] Cons_nth_drop_Suc [symmetric, of j new])
  next
    case del
    have "lcs ! (i * ?k + j + 1) \<le> lcs ! ((i + 1) * ?k + j)" if "j \<noteq> length new"
      using del cell [of i "j + 1"] cell [of "i + 1" j] that by auto
    then have w: "?w i j = TokenDelete (old ! i) # ?w (i + 1) j"
      using del by (subst walk.simps) (simp del: mult_Suc mult_Suc_right add_mult_distrib, auto)
    have "subseq (kept (?w (i + 1) j)) (drop (i + 1) old) \<and> subseq (kept (?w (i + 1) j)) (drop j new)
      \<and> length (kept (?w (i + 1) j)) = ?L (i + 1) j"
      by (rule less.hyps) (use del less.prems in auto)
    moreover have "?L i j = ?L (i + 1) j"
      using del lcs_len_step [of i old j new] by auto
    ultimately show ?thesis
      using del(1) unfolding w kept.simps
      by (simp add: Cons_nth_drop_Suc [symmetric, of i old] list_emb_Cons)
  next
    case ins
    have "\<not> lcs ! (i * ?k + j + 1) \<le> lcs ! ((i + 1) * ?k + j)" if "i \<noteq> length old"
      using ins cell [of i "j + 1"] cell [of "i + 1" j] that by auto
    then have w: "?w i j = TokenInsert (new ! j) # ?w i (j + 1)"
      using ins by (subst walk.simps) (simp del: mult_Suc mult_Suc_right add_mult_distrib, auto)
    have "subseq (kept (?w i (j + 1))) (drop i old) \<and> subseq (kept (?w i (j + 1))) (drop (j + 1) new)
      \<and> length (kept (?w i (j + 1))) = ?L i (j + 1)"
      by (rule less.hyps) (use ins less.prems in auto)
    moreover have "?L i j = ?L i (j + 1)"
      using ins lcs_len_step [of i old j new] by auto
    ultimately show ?thesis
      using ins(1) unfolding w kept.simps
      by (simp add: Cons_nth_drop_Suc [symmetric, of j new] list_emb_Cons)
  qed
qed

lemma diff_Inr:
  assumes "diff_with_limit g old new limit = Inr spans" and "old \<noteq> new"
  shows "fits64 ((length (tokenize g old) + 1) * (length (tokenize g new) + 1))"
    and "spans = coalesce_operations (walk (tokenize g old) (tokenize g new)
      (length (tokenize g new) + 1)
      (fill_table (tokenize g old) (tokenize g new) (length (tokenize g new) + 1)
        (replicate ((length (tokenize g old) + 1) * (length (tokenize g new) + 1)) 0)) 0 0)"
  using assms by (auto simp: diff_with_limit_def Let_def split: if_splits)

lemma fits32_min:
  assumes "fits64 ((n + 1) * (m + 1))"
  shows "fits32 (min n m)"
proof (rule ccontr)
  assume "\<not> fits32 (min n m)"
  then have "2 ^ 32 * 2 ^ 32 \<le> (n + 1) * (m + 1)" by (intro mult_le_mono) simp_all
  then show False using assms by simp
qed

text \<open>The diff keeps as much as any diff could. Its spans come from token operations whose kept
  tokens are a subsequence of both token lists, and no common subsequence of the two is longer: the
  table filled from the end, with its saturating 32-bit cells, is exact for every size the limit and
  the address space admit.\<close>

theorem diff_keeps_most:
  assumes "diff_with_limit g old new limit = Inr spans" and "old \<noteq> new"
  shows "\<exists>ops. spans = coalesce_operations ops
    \<and> concat (map op_old ops) = concat (tokenize g old)
    \<and> concat (map op_new ops) = concat (tokenize g new)
    \<and> subseq (kept ops) (tokenize g old) \<and> subseq (kept ops) (tokenize g new)
    \<and> (\<forall>zs. subseq zs (tokenize g old) \<and> subseq zs (tokenize g new) \<longrightarrow> length zs \<le> length (kept ops))"
proof -
  let ?o = "tokenize g old" and ?n = "tokenize g new"
  let ?lcs = "fill_table ?o ?n (length ?n + 1) (replicate ((length ?o + 1) * (length ?n + 1)) 0)"
  let ?ops = "walk ?o ?n (length ?n + 1) ?lcs 0 0"
  note d = diff_Inr [OF assms]
  have "filled ?o ?n 0 0 ?lcs" by (rule fill_table_filled [OF fits32_min [OF d(1)]])
  from walk_kept [OF this, of 0 0]
  have k: "subseq (kept ?ops) ?o" "subseq (kept ?ops) ?n" "length (kept ?ops) = lcs_len ?o ?n" by simp_all
  have "concat (map op_old ?ops) = concat ?o" "concat (map op_new ?ops) = concat ?n"
    using walk_old [of 0 ?o 0 ?n] walk_new [of 0 ?o 0 ?n] by simp_all
  with d(2) k lcs_len_upper [of _ ?o ?n] show ?thesis by (intro exI [of _ ?ops]) auto
qed

lemma demo_table: "fill_table [[97], [98]] [[97]] 2 [0, 0, 0, 0, 0, 0] = [1, 0, 0, 0, 0, 0]"
  by (simp add: fill_table_def fill_row_def fill_cell_def saturating_add_def)

lemma demo_walk: "walk [[97], [98]] [[97]] 2 [1, 0, 0, 0, 0, 0] 0 0 = [TokenEqual [97], TokenDelete [98]]"
  by (simp add: walk.simps)

lemma demo_diff:
  "diff_with_limit demo_segmentation [97, 98] [97] 6 = Inr [EqualSpan [97], DeleteSpan [98]]"
proof -
  have r: "replicate 6 0 = [0, 0, 0, 0, 0, 0 :: nat]" by (simp add: numeral_nat)
  have c: "checked_add 64 (length [[97 :: nat], [98]]) 1 = Some 3"
    "checked_add 64 (length [[97 :: nat]]) 1 = Some 2" "checked_mul 64 3 2 = Some 6" by simp_all
  have ne: "[97, 98] \<noteq> [97 :: nat]" by simp
  show ?thesis
    unfolding diff_with_limit_def if_not_P [OF ne] demo_tokens Let_def c ok_or_simps rbind_simps r
      demo_table demo_walk
    by (simp add: coalesce_operations_def flush_change_def)
qed

theorem diff_keeps_most_witness:
  "\<exists>ops. [EqualSpan [97], DeleteSpan [98]] = coalesce_operations ops \<and> kept ops \<noteq> []"
proof -
  have "[97, 98] \<noteq> [97 :: nat]" by simp
  then have "\<exists>ops. [EqualSpan [97], DeleteSpan [98]] = coalesce_operations ops
      \<and> (\<forall>zs. subseq zs [[97 :: nat], [98]] \<and> subseq zs [[97]] \<longrightarrow> length zs \<le> length (kept ops))"
    by (rule ex_forward [OF diff_keeps_most [OF demo_diff]]) (unfold demo_tokens, iprover)
  then obtain ops where ops: "[EqualSpan [97], DeleteSpan [98]] = coalesce_operations ops"
    "\<forall>zs. subseq zs [[97 :: nat], [98]] \<and> subseq zs [[97]] \<longrightarrow> length zs \<le> length (kept ops)"
    by iprover
  have "length [[97::nat]] \<le> length (kept ops)" using ops(2) [rule_format, of "[[97]]"] by simp
  then show ?thesis using ops(1) by auto
qed

end
