(* ===== verification/LiveBatch.thy ===== *)
theory LiveBatch
  imports Prelude
begin

text \<open>
  The live rewrite batcher of \<open>crates/corti-chat/src/batch.rs\<close>: finalized rows wait in a queue and
  leave it in transcript order, as dispatched batches, as rows released raw when the backlog grows,
  or drained at the end of the session.

  The deque is a list, front first; \<open>usize\<close> is 64 bits wide.
\<close>

section \<open>State\<close>

record batch_policy =
  quiet_micros :: u64
  max_wait_micros :: u64
  min_interval_micros :: u64
  max_rows :: nat
  max_bytes :: nat
  max_backlog_rows :: nat
  max_backlog_age_micros :: u64

definition default_batch_policy :: batch_policy where
  "default_batch_policy = \<lparr>quiet_micros = 400000, max_wait_micros = 2000000,
     min_interval_micros = 250000, max_rows = 8, max_bytes = 4 * 1024, max_backlog_rows = 32,
     max_backlog_age_micros = 45000000\<rparr>"

definition immediate_policy :: batch_policy where
  "immediate_policy = default_batch_policy\<lparr>quiet_micros := 0, max_wait_micros := 0,
     min_interval_micros := 0\<rparr>"

definition is_immediate :: "batch_policy \<Rightarrow> bool" where
  "is_immediate p \<longleftrightarrow> quiet_micros p = 0 \<and> max_wait_micros p = 0 \<and> min_interval_micros p = 0"

record 'a pending_row =
  row_item :: 'a
  row_bytes :: nat
  row_pushed_at :: u64

datatype release_reason = TooManyRows | TooOld

record 'a live_batcher =
  policy_of :: batch_policy
  pending_rows :: "'a pending_row list"
  last_push_at :: "u64 option"
  last_dispatch_at :: "u64 option"
  dispatched_batches :: u64
  released_rows :: u64

record 'a live_batch =
  batch_items :: "'a list"
  batch_bytes :: nat
  batch_pushed_at :: u64

definition new_batcher :: "batch_policy \<Rightarrow> 'a live_batcher" where
  "new_batcher p = \<lparr>policy_of = p, pending_rows = [], last_push_at = None,
     last_dispatch_at = None, dispatched_batches = 0, released_rows = 0\<rparr>"

section \<open>Operations\<close>

definition to_rows :: "('a \<times> nat) list \<Rightarrow> u64 \<Rightarrow> 'a pending_row list" where
  "to_rows items now =
     map (\<lambda>(item, bytes). \<lparr>row_item = item, row_bytes = bytes, row_pushed_at = now\<rparr>) items"

definition push_rows :: "'a live_batcher \<Rightarrow> ('a \<times> nat) list \<Rightarrow> u64 \<Rightarrow> 'a live_batcher" where
  "push_rows b items now =
     (let b' = b\<lparr>pending_rows := pending_rows b @ to_rows items now\<rparr>
      in if items \<noteq> [] then b'\<lparr>last_push_at := Some now\<rparr> else b')"

definition give_back :: "'a live_batcher \<Rightarrow> ('a \<times> nat) list \<Rightarrow> u64 \<Rightarrow> 'a live_batcher" where
  "give_back b items pushed_at =
     b\<lparr>pending_rows := foldl (\<lambda>queue r. r # queue) (pending_rows b) (rev (to_rows items pushed_at))\<rparr>"

fun take_rows ::
    "batch_policy \<Rightarrow> 'a pending_row list \<Rightarrow> 'a list \<Rightarrow> nat \<Rightarrow> 'a list \<times> nat \<times> 'a pending_row list" where
  "take_rows p [] items bytes = (items, bytes, [])"
| "take_rows p (r # rs) items bytes =
     (let next_bytes = saturating_add 64 bytes (row_bytes r)
      in if items \<noteq> [] \<and> (max_rows p \<le> length items \<or> max_bytes p < next_bytes)
         then (items, bytes, r # rs)
         else take_rows p rs (items @ [row_item r]) next_bytes)"

text \<open>The conditions of a dispatch; the byte sum wraps as release arithmetic does.\<close>

definition is_quiet :: "'a live_batcher \<Rightarrow> u64 \<Rightarrow> bool" where
  "is_quiet b now =
     is_none_or (last_push_at b) (\<lambda>t. quiet_micros (policy_of b) \<le> saturating_sub now t)"

definition is_full :: "'a live_batcher \<Rightarrow> bool" where
  "is_full b \<longleftrightarrow> max_rows (policy_of b) \<le> length (pending_rows b)
     \<or> max_bytes (policy_of b) \<le> sum_list (map row_bytes (pending_rows b)) mod 2 ^ 64"

definition is_spaced :: "'a live_batcher \<Rightarrow> u64 \<Rightarrow> bool" where
  "is_spaced b now =
     is_none_or (last_dispatch_at b) (\<lambda>t. min_interval_micros (policy_of b) \<le> saturating_sub now t)"

definition take_due ::
    "'a live_batcher \<Rightarrow> u64 \<Rightarrow> bool \<Rightarrow> 'a live_batch option \<times> 'a live_batcher" where
  "take_due b now outstanding =
     (case pending_rows b of
        [] \<Rightarrow> (None, b)
      | front # _ \<Rightarrow>
          (let oldest = row_pushed_at front;
               waited_max = (max_wait_micros (policy_of b) \<le> saturating_sub now oldest)
           in if outstanding then (None, b)
              else if \<not> (is_quiet b now \<or> waited_max \<or> is_full b) \<or> \<not> is_spaced b now then (None, b)
              else case take_rows (policy_of b) (pending_rows b) [] 0 of
                     (items, bytes, rest) \<Rightarrow>
                       (Some \<lparr>batch_items = items, batch_bytes = bytes, batch_pushed_at = oldest\<rparr>,
                        b\<lparr>pending_rows := rest, last_dispatch_at := Some now,
                          dispatched_batches := saturating_add 64 (dispatched_batches b) 1\<rparr>)))"

text \<open>The two release loops: while there are too many rows, then while the front is too old.\<close>

fun release_many :: "batch_policy \<Rightarrow> 'a pending_row list \<Rightarrow> 'a list \<times> 'a pending_row list" where
  "release_many p [] = ([], [])"
| "release_many p (r # rs) =
     (if max_backlog_rows p < length (r # rs)
      then (case release_many p rs of (items, rest) \<Rightarrow> (row_item r # items, rest))
      else ([], r # rs))"

fun release_old :: "batch_policy \<Rightarrow> u64 \<Rightarrow> 'a pending_row list \<Rightarrow> 'a list \<times> 'a pending_row list" where
  "release_old p now [] = ([], [])"
| "release_old p now (r # rs) =
     (if saturating_sub now (row_pushed_at r) < max_backlog_age_micros p then ([], r # rs)
      else (case release_old p now rs of (items, rest) \<Rightarrow> (row_item r # items, rest)))"

definition release_overdue ::
    "'a live_batcher \<Rightarrow> u64 \<Rightarrow> ('a list \<times> release_reason) option \<times> 'a live_batcher" where
  "release_overdue b now =
     (case release_many (policy_of b) (pending_rows b) of (many, rest) \<Rightarrow>
       (case release_old (policy_of b) now rest of (old, rest') \<Rightarrow>
         (let b' = b\<lparr>pending_rows := rest'\<rparr>
          in case (if many \<noteq> [] then Some TooManyRows else if old \<noteq> [] then Some TooOld else None) of
               None \<Rightarrow> (None, b')
             | Some reason \<Rightarrow>
                 (Some (many @ old, reason),
                  b'\<lparr>released_rows := saturating_add 64 (released_rows b) (length (many @ old))\<rparr>))))"

definition drain_all :: "'a live_batcher \<Rightarrow> 'a list \<times> 'a live_batcher" where
  "drain_all b = (map row_item (pending_rows b), b\<lparr>last_push_at := None, pending_rows := []\<rparr>)"

definition batch_due_at :: "'a live_batcher \<Rightarrow> u64 option" where
  "batch_due_at b =
     (case pending_rows b of
        [] \<Rightarrow> None
      | front # _ \<Rightarrow>
          (let oldest = row_pushed_at front;
               quiet_due = (case last_push_at b of
                  None \<Rightarrow> oldest | Some t \<Rightarrow> saturating_add 64 t (quiet_micros (policy_of b)));
               wait_due = saturating_add 64 oldest (max_wait_micros (policy_of b));
               spaced = (case last_dispatch_at b of
                  None \<Rightarrow> 0 | Some t \<Rightarrow> saturating_add 64 t (min_interval_micros (policy_of b)))
           in Some (max (min quiet_due wait_due) spaced)))"

section \<open>Nothing is dropped and nothing overtakes\<close>

definition waiting :: "'a live_batcher \<Rightarrow> 'a list" where
  "waiting b = map row_item (pending_rows b)"

text \<open>
  A batch is either taken over by the caller, or it could not be submitted and every row of it is
  given back with some byte size. An event yields the rows it hands out.
\<close>

datatype 'a batch_event =
    PushRows "('a \<times> nat) list" u64
  | TakeBatch u64 bool
  | RejectBatch u64 bool "'a \<Rightarrow> nat"
  | ReleaseOverdue u64
  | DrainAll

fun batch_step :: "'a live_batcher \<Rightarrow> 'a batch_event \<Rightarrow> 'a list \<times> 'a live_batcher" where
  "batch_step b (PushRows items now) = ([], push_rows b items now)"
| "batch_step b (TakeBatch now outstanding) =
     (case take_due b now outstanding of
        (None, b') \<Rightarrow> ([], b') | (Some batch, b') \<Rightarrow> (batch_items batch, b'))"
| "batch_step b (RejectBatch now outstanding weight) =
     (case take_due b now outstanding of
        (None, b') \<Rightarrow> ([], b')
      | (Some batch, b') \<Rightarrow>
          ([], give_back b' (map (\<lambda>x. (x, weight x)) (batch_items batch)) (batch_pushed_at batch)))"
| "batch_step b (ReleaseOverdue now) =
     (case release_overdue b now of (None, b') \<Rightarrow> ([], b') | (Some (items, _), b') \<Rightarrow> (items, b'))"
| "batch_step b DrainAll = drain_all b"

fun pushed :: "'a batch_event \<Rightarrow> 'a list" where
  "pushed (PushRows items now) = map fst items"
| "pushed _ = []"

primrec batch_run :: "'a live_batcher \<Rightarrow> 'a batch_event list \<Rightarrow> 'a list \<times> 'a live_batcher" where
  "batch_run b [] = ([], b)"
| "batch_run b (e # es) =
     (case batch_step b e of (out, b') \<Rightarrow>
       (case batch_run b' es of (outs, b'') \<Rightarrow> (out @ outs, b'')))"

lemma waiting_to_rows [simp]: "map row_item (to_rows items now) = map fst items"
  by (induction items) (auto simp: to_rows_def)

lemma waiting_give_back: "waiting (give_back b items t) = map fst items @ waiting b"
proof -
  have "foldl (\<lambda>queue r. r # queue) q (rev rs) = rs @ q" for q rs :: "'a pending_row list"
    by (induction rs arbitrary: q) simp_all
  then show ?thesis by (simp add: waiting_def give_back_def)
qed

lemma take_rows_conserves:
  "take_rows p rs items bytes = (items', bytes', rest) \<Longrightarrow>
     items' @ map row_item rest = items @ map row_item rs"
  by (induction p rs items bytes rule: take_rows.induct) (auto simp: Let_def split: if_splits)

lemma take_due_conserves:
  "take_due b now outstanding = (res, b') \<Longrightarrow>
     (case res of None \<Rightarrow> [] | Some batch \<Rightarrow> batch_items batch) @ waiting b' = waiting b"
  by (auto simp: take_due_def Let_def waiting_def split: list.splits if_splits prod.splits
      dest: take_rows_conserves)

lemma release_many_conserves:
  "release_many p rs = (items, rest) \<Longrightarrow> items @ map row_item rest = map row_item rs"
  by (induction p rs arbitrary: items rule: release_many.induct) (auto split: if_splits prod.splits)

lemma release_old_conserves:
  "release_old p now rs = (items, rest) \<Longrightarrow> items @ map row_item rest = map row_item rs"
  by (induction p now rs arbitrary: items rule: release_old.induct) (auto split: if_splits prod.splits)

lemma release_conserves:
  "release_overdue b now = (res, b') \<Longrightarrow>
     (case res of None \<Rightarrow> [] | Some (items, _) \<Rightarrow> items) @ waiting b' = waiting b"
  by (auto simp: release_overdue_def Let_def waiting_def split: prod.splits if_splits
      dest!: release_many_conserves release_old_conserves)

lemma batch_step_conserves:
  "batch_step b e = (out, b') \<Longrightarrow> out @ waiting b' = waiting b @ pushed e"
  by (cases "(b, e)" rule: batch_step.cases)
     (auto simp: push_rows_def Let_def waiting_give_back drain_all_def comp_def
        split: prod.splits option.splits if_splits
        dest!: take_due_conserves release_conserves, (simp_all add: waiting_def)?)

lemma batch_run_conserves:
  "batch_run b es = (outs, b') \<Longrightarrow> outs @ waiting b' = waiting b @ concat (map pushed es)"
proof (induction es arbitrary: b outs)
  case (Cons e es)
  obtain out b1 where s: "batch_step b e = (out, b1)" by fastforce
  obtain outs1 where r: "batch_run b1 es = (outs1, b')" and o: "outs = out @ outs1"
    using Cons.prems s by (auto split: prod.splits)
  have "outs @ waiting b' = out @ waiting b1 @ concat (map pushed es)"
    using Cons.IH [OF r] o by simp
  also have "\<dots> = (out @ waiting b1) @ concat (map pushed es)" by simp
  also have "\<dots> = waiting b @ concat (map pushed (e # es))"
    unfolding batch_step_conserves [OF s] by simp
  finally show ?case .
qed simp

text \<open>C21. No finalized row is dropped, duplicated or overtaken. For a fresh batcher under any policy,
  and any sequence of pushes, dispatches, dispatches that could not be submitted and were given back,
  backlog releases and drains at any times, the rows handed out so far, in order, followed by the rows
  still waiting, are exactly the rows pushed, in transcript order.\<close>

theorem batcher_keeps_every_row:
  "case batch_run (new_batcher p) es of (outs, b) \<Rightarrow> outs @ waiting b = concat (map pushed es)"
proof (cases "batch_run (new_batcher p) es")
  case (Pair outs b)
  then show ?thesis using batch_run_conserves [OF Pair] by (simp add: waiting_def new_batcher_def)
qed

section \<open>Dispatch is bounded and on time\<close>

lemma take_rows_bound:
  assumes "take_rows p rs items bytes = (items', bytes', rest)"
    and "items \<noteq> []" and "length items \<le> max 1 (max_rows p)"
    and "bytes \<le> max_bytes p \<or> length items = 1"
  shows "items' \<noteq> [] \<and> length items' \<le> max 1 (max_rows p) \<and> (bytes' \<le> max_bytes p \<or> length items' = 1)"
  using assms
proof (induction p rs items bytes rule: take_rows.induct)
  case (2 p r rs items bytes)
  let ?next = "saturating_add 64 bytes (row_bytes r)"
  show ?case
  proof (cases "max_rows p \<le> length items \<or> max_bytes p < ?next")
    case True
    then show ?thesis using 2 by (simp add: Let_def)
  next
    case False
    have "length (items @ [row_item r]) \<le> max 1 (max_rows p)" using False by simp
    moreover have "?next \<le> max_bytes p" using False by simp
    ultimately show ?thesis using 2 False by (auto simp: Let_def)
  qed
qed simp

text \<open>A dispatch is on time and within its bounds. At or after the time \<open>next_due_at\<close> announces
  (short of the very end of the \<open>u64\<close> clock), a batcher with nothing outstanding hands out a batch;
  while a call is outstanding, or with nothing pending, it hands out none. Every batch has at least
  the head row, at most \<open>max 1 max_rows\<close> rows, and stays within the byte budget unless it is the head
  row alone.\<close>

theorem batch_on_time:
  assumes "now < u64_max"
  shows "case take_due b now outstanding of
      (None, b') \<Rightarrow> b' = b \<and> (outstanding \<or> is_none_or (batch_due_at b) (\<lambda>t. now < t))
    | (Some batch, b') \<Rightarrow> \<not> outstanding \<and> pending_rows b \<noteq> [] \<and> batch_items batch \<noteq> []
        \<and> batch_pushed_at batch = row_pushed_at (hd (pending_rows b))
        \<and> last_dispatch_at b' = Some now
        \<and> length (batch_items batch) \<le> max 1 (max_rows (policy_of b))
        \<and> (batch_bytes batch \<le> max_bytes (policy_of b) \<or> length (batch_items batch) = 1)"
proof (cases "pending_rows b")
  case Nil
  then show ?thesis by (simp add: take_due_def batch_due_at_def)
next
  case (Cons r rs)
  let ?p = "policy_of b"
  let ?waited = "max_wait_micros ?p \<le> saturating_sub now (row_pushed_at r)"
  let ?go = "(is_quiet b now \<or> ?waited \<or> is_full b) \<and> is_spaced b now"
  obtain items bytes rest where t: "take_rows ?p (pending_rows b) [] 0 = (items, bytes, rest)"
    by (cases "take_rows ?p (pending_rows b) [] 0") auto
  have sat: "saturating_sub now a < d \<Longrightarrow> now < saturating_add 64 a d" for a d
    using assms by (auto simp: saturating_add_def saturating_sub_def)
  show ?thesis
  proof (cases "\<not> outstanding \<and> ?go")
    case True
    then have d: "take_due b now outstanding = (Some \<lparr>batch_items = items, batch_bytes = bytes,
        batch_pushed_at = row_pushed_at r\<rparr>, b\<lparr>pending_rows := rest, last_dispatch_at := Some now,
        dispatched_batches := saturating_add 64 (dispatched_batches b) 1\<rparr>)"
      using Cons t by (simp add: take_due_def Let_def)
    have t1: "take_rows ?p rs [row_item r] (saturating_add 64 0 (row_bytes r)) = (items, bytes, rest)"
      using t Cons by (simp add: Let_def)
    show ?thesis using d True Cons take_rows_bound [OF t1] by simp
  next
    case False
    then have d: "take_due b now outstanding = (None, b)"
      using Cons by (auto simp: take_due_def Let_def)
    have "\<not> ?go \<Longrightarrow> is_none_or (batch_due_at b) (\<lambda>t. now < t)"
      using Cons
      by (auto dest!: sat simp: batch_due_at_def Let_def is_quiet_def is_spaced_def is_none_or_def not_le
          min_less_iff_disj less_max_iff_disj not_less split: option.splits)
    then show ?thesis using d False by auto
  qed
qed

theorem batch_on_time_witness:
  "case take_due (push_rows (new_batcher default_batch_policy) [(''a'', 10), (''b'', 20)] 5) 400005 False of
     (None, _) \<Rightarrow> False | (Some batch, _) \<Rightarrow> length (batch_items batch) \<le> 8"
proof -
  let ?b = "push_rows (new_batcher default_batch_policy) [(''a'', 10), (''b'', 20)] 5"
  have "batch_due_at ?b = Some 400005"
    by (simp add: batch_due_at_def push_rows_def to_rows_def new_batcher_def
        default_batch_policy_def saturating_add_def)
  moreover have "max_rows (policy_of ?b) = 8"
    by (simp add: push_rows_def new_batcher_def default_batch_policy_def)
  ultimately show ?thesis
    using batch_on_time [of 400005 ?b False] by (auto split: prod.splits option.splits)
qed

end
