(* ===== verification/EventStream.thy ===== *)
theory EventStream
  imports Prelude "HOL-Library.Word"
begin

text \<open>
  The event-stream decoder of \<open>crates/corti-postprocess-providers/src/eventstream.rs\<close>: length- and
  checksum-framed messages that arrive in arbitrary chunks.

  A byte is an \<open>8 word\<close>; a string is its bytes, checked to be UTF-8. Every failure is the one error
  code the decoder reports.
\<close>

unbundle bit_operations_syntax

section \<open>Messages\<close>

type_synonym byte = "8 word"

definition PRELUDE_BYTES :: nat where "PRELUDE_BYTES = 12"
definition MESSAGE_OVERHEAD_BYTES :: nat where "MESSAGE_OVERHEAD_BYTES = 16"
definition MAX_MESSAGE_BYTES :: nat where "MAX_MESSAGE_BYTES = 16 * 1024 * 1024"
definition MAX_HEADER_BYTES :: nat where "MAX_HEADER_BYTES = 128 * 1024"

datatype stream_error = MalformedOutput

record stream_message =
  message_headers :: "(byte list \<times> byte list) list"
  message_payload :: "byte list"

definition header_of :: "stream_message \<Rightarrow> byte list \<Rightarrow> byte list option" where
  "header_of m name = map_option snd (find (\<lambda>(candidate, _). candidate = name) (message_headers m))"

record stream_decoder =
  stream_buffer :: "byte list"
  max_stream_bytes :: nat
  consumed :: nat

definition new_decoder :: "nat \<Rightarrow> stream_decoder" where
  "new_decoder limit = \<lparr>stream_buffer = [], max_stream_bytes = limit, consumed = 0\<rparr>"

section \<open>Primitives\<close>

text \<open>\<open>from_be_bytes\<close>.\<close>

definition from_be :: "byte list \<Rightarrow> nat" where
  "from_be bs = foldl (\<lambda>n b. n * 256 + unat b) 0 bs"

definition crc_bit :: "32 word \<Rightarrow> 32 word" where
  "crc_bit crc = (let mask = - (crc AND 1) in drop_bit 1 crc XOR (0xEDB88320 AND mask))"

definition crc_byte :: "32 word \<Rightarrow> byte \<Rightarrow> 32 word" where
  "crc_byte crc b = (crc_bit ^^ 8) (crc XOR ucast b)"

definition crc32 :: "byte list \<Rightarrow> 32 word" where
  "crc32 bs = NOT (foldl crc_byte (NOT 0) bs)"

text \<open>The well-formed byte sequences of \<open>str::from_utf8\<close>.\<close>

definition cont :: "nat \<Rightarrow> bool" where "cont b \<longleftrightarrow> 0x80 \<le> b \<and> b \<le> 0xBF"

fun utf8 :: "nat list \<Rightarrow> bool" where
  "utf8 [] = True"
| "utf8 (a # bs) =
     (if a < 0x80 then utf8 bs
      else case bs of
        [] \<Rightarrow> False
      | b # cs \<Rightarrow>
          if 0xC2 \<le> a \<and> a \<le> 0xDF then cont b \<and> utf8 cs
          else case cs of
            [] \<Rightarrow> False
          | c # ds \<Rightarrow>
              if a = 0xE0 then 0xA0 \<le> b \<and> b \<le> 0xBF \<and> cont c \<and> utf8 ds
              else if a = 0xED then 0x80 \<le> b \<and> b \<le> 0x9F \<and> cont c \<and> utf8 ds
              else if 0xE1 \<le> a \<and> a \<le> 0xEF then cont b \<and> cont c \<and> utf8 ds
              else case ds of
                [] \<Rightarrow> False
              | d # es \<Rightarrow>
                  if a = 0xF0 then 0x90 \<le> b \<and> b \<le> 0xBF \<and> cont c \<and> cont d \<and> utf8 es
                  else if a = 0xF4 then 0x80 \<le> b \<and> b \<le> 0x8F \<and> cont c \<and> cont d \<and> utf8 es
                  else 0xF1 \<le> a \<and> a \<le> 0xF3 \<and> cont b \<and> cont c \<and> cont d \<and> utf8 es)"

definition is_utf8 :: "byte list \<Rightarrow> bool" where
  "is_utf8 bs = utf8 (map unat bs)"

definition get_to :: "nat \<Rightarrow> byte list \<Rightarrow> byte list option" where
  "get_to n bs = (if n \<le> length bs then Some (take n bs) else None)"

definition get_from :: "nat \<Rightarrow> byte list \<Rightarrow> byte list option" where
  "get_from n bs = (if n \<le> length bs then Some (drop n bs) else None)"

section \<open>Headers\<close>

text \<open>The width of a header value by its type: fixed, length-prefixed (\<open>Some None\<close>), or unknown.\<close>

definition value_width :: "nat \<Rightarrow> nat option option" where
  "value_width t =
     (if t = 0 \<or> t = 1 then Some (Some 0) else if t = 2 then Some (Some 1)
      else if t = 3 then Some (Some 2) else if t = 4 then Some (Some 4)
      else if t = 5 \<or> t = 8 then Some (Some 8) else if t = 9 then Some (Some 16)
      else if t = 6 \<or> t = 7 then Some None else None)"

text \<open>
  One turn of the header loop: its length-prefixed name, then its value, which is projected if it is a
  string, and the bytes left.
\<close>

definition read_name :: "byte list \<Rightarrow> stream_error + byte list \<times> byte list" where
  "read_name bs =
     rbind (ok_or (get_to 1 bs) MalformedOutput) (\<lambda>first.
     rbind (ok_or (get_from 1 bs) MalformedOutput) (\<lambda>bs1.
     rbind (ok_or (get_to (from_be first) bs1) MalformedOutput) (\<lambda>name.
       if \<not> is_utf8 name then Inl MalformedOutput
       else rbind (ok_or (get_from (from_be first) bs1) MalformedOutput) (\<lambda>rest. Inr (name, rest)))))"

definition read_sized ::
    "byte list \<Rightarrow> nat \<Rightarrow> byte list \<Rightarrow> stream_error + (byte list \<times> byte list) option \<times> byte list" where
  "read_sized name kind bs =
     rbind (ok_or (get_to 2 bs) MalformedOutput) (\<lambda>len.
     rbind (ok_or (get_from 2 bs) MalformedOutput) (\<lambda>bs1.
     rbind (ok_or (get_to (from_be len) bs1) MalformedOutput) (\<lambda>text.
       if kind = 7 \<and> \<not> is_utf8 text then Inl MalformedOutput
       else rbind (ok_or (get_from (from_be len) bs1) MalformedOutput) (\<lambda>rest.
         Inr (if kind = 7 then Some (name, text) else None, rest)))))"

definition read_value ::
    "byte list \<Rightarrow> byte list \<Rightarrow> stream_error + (byte list \<times> byte list) option \<times> byte list" where
  "read_value name bs =
     rbind (ok_or (get_to 1 bs) MalformedOutput) (\<lambda>kind.
     rbind (ok_or (get_from 1 bs) MalformedOutput) (\<lambda>bs1.
     rbind (ok_or (value_width (from_be kind)) MalformedOutput) (\<lambda>width.
       case width of
         Some w \<Rightarrow> rbind (ok_or (get_from w bs1) MalformedOutput) (\<lambda>rest. Inr (None, rest))
       | None \<Rightarrow> read_sized name (from_be kind) bs1)))"

definition next_header ::
    "byte list \<Rightarrow> stream_error + (byte list \<times> byte list) option \<times> byte list" where
  "next_header bs = rbind (read_name bs) (\<lambda>(name, rest). read_value name rest)"

lemma get_from_length: "get_from n bs = Some rest \<longleftrightarrow> n \<le> length bs \<and> rest = drop n bs"
  by (auto simp: get_from_def)

lemma read_name_shrinks: "read_name bs = Inr (name, rest) \<Longrightarrow> length rest < length bs"
  by (auto simp: read_name_def get_from_length split: if_splits)

lemma read_sized_shrinks: "read_sized name k bs = Inr (h, rest) \<Longrightarrow> length rest \<le> length bs"
  by (auto simp: read_sized_def get_from_length split: if_splits)

lemma read_value_shrinks: "read_value name bs = Inr (h, rest) \<Longrightarrow> length rest < length bs"
  by (auto simp: read_value_def get_from_length split: option.splits dest!: read_sized_shrinks)

lemma next_header_shrinks: "next_header bs = Inr (h, rest) \<Longrightarrow> length rest < length bs"
  by (auto simp: next_header_def dest!: read_name_shrinks read_value_shrinks)

function decode_headers :: "byte list \<Rightarrow> stream_error + (byte list \<times> byte list) list" where
  "decode_headers bs =
     (if bs = [] then Inr []
      else case next_header bs of
        Inl e \<Rightarrow> Inl e
      | Inr (h, rest) \<Rightarrow>
          rbind (decode_headers rest) (\<lambda>hs. Inr (case h of None \<Rightarrow> hs | Some x \<Rightarrow> x # hs)))"
  by pat_completeness auto
termination
  by (relation "measure length") (auto dest: next_header_shrinks)

declare decode_headers.simps [simp del]

section \<open>Frames\<close>

datatype frame_step = NeedMore | Malformed | Frame stream_message "byte list"

definition next_frame :: "byte list \<Rightarrow> frame_step" where
  "next_frame b =
     (if length b < PRELUDE_BYTES then NeedMore
      else let total_length = from_be (take 4 b); headers_length = from_be (take 4 (drop 4 b))
           in if \<not> (MESSAGE_OVERHEAD_BYTES \<le> total_length \<and> total_length \<le> MAX_MESSAGE_BYTES)
                 \<or> MAX_HEADER_BYTES < headers_length
                 \<or> total_length - MESSAGE_OVERHEAD_BYTES < headers_length
              then Malformed
              else if unat (crc32 (take 8 b)) \<noteq> from_be (take 4 (drop 8 b)) then Malformed
              else if length b < total_length then NeedMore
              else if unat (crc32 (take (total_length - 4) b))
                        \<noteq> from_be (take 4 (drop (total_length - 4) b)) then Malformed
              else let headers_end = PRELUDE_BYTES + headers_length
                   in case decode_headers (take headers_length (drop PRELUDE_BYTES b)) of
                        Inl _ \<Rightarrow> Malformed
                      | Inr hs \<Rightarrow>
                          Frame \<lparr>message_headers = hs,
                             message_payload = take (total_length - 4 - headers_end) (drop headers_end b)\<rparr>
                            (drop total_length b))"

lemma next_frame_shrinks:
  assumes "next_frame b = Frame m rest"
  shows "length rest < length b"
proof -
  let ?total = "from_be (take 4 b)"
  have "PRELUDE_BYTES \<le> length b" and "MESSAGE_OVERHEAD_BYTES \<le> ?total" and "rest = drop ?total b"
    using assms unfolding next_frame_def Let_def
    by (simp_all only: not_less frame_step.distinct frame_step.inject de_Morgan_disj not_not simp_thms
        split: if_splits sum.splits)
  then show ?thesis by (auto simp: PRELUDE_BYTES_def MESSAGE_OVERHEAD_BYTES_def)
qed

text \<open>The loop of \<open>push\<close>, with the buffer it leaves.\<close>

function drain_frames :: "byte list \<Rightarrow> (stream_error + stream_message list) \<times> byte list" where
  "drain_frames b =
     (case next_frame b of
        NeedMore \<Rightarrow> (Inr [], b)
      | Malformed \<Rightarrow> (Inl MalformedOutput, b)
      | Frame m rest \<Rightarrow>
          (case drain_frames rest of
             (Inl e, b') \<Rightarrow> (Inl e, b')
           | (Inr ms, b') \<Rightarrow> (Inr (m # ms), b')))"
  by pat_completeness auto
termination
  by (relation "measure length") (auto dest: next_frame_shrinks)

declare drain_frames.simps [simp del]

definition push_chunk ::
    "stream_decoder \<Rightarrow> byte list \<Rightarrow> (stream_error + stream_message list) \<times> stream_decoder" where
  "push_chunk d chunk =
     (case checked_add 64 (consumed d) (length chunk) of
        None \<Rightarrow> (Inl MalformedOutput, d)
      | Some used \<Rightarrow>
          if max_stream_bytes d < used then (Inl MalformedOutput, d\<lparr>consumed := used\<rparr>)
          else case drain_frames (stream_buffer d @ chunk) of
                 (res, rest) \<Rightarrow> (res, d\<lparr>consumed := used, stream_buffer := rest\<rparr>))"

definition finish_stream :: "stream_decoder \<Rightarrow> stream_error + unit" where
  "finish_stream d = (if stream_buffer d = [] then Inr () else Inl MalformedOutput)"

end
