(* ===== verification/EventStreamProps.thy ===== *)
theory EventStreamProps
  imports EventStream
begin

text \<open>
  The decoder against the wire format: an encoder written from the format's layout, and the round
  trip through the decoder for every way of cutting the bytes into chunks.
\<close>

section \<open>The wire format\<close>

definition to_be4 :: "nat \<Rightarrow> byte list" where
  "to_be4 n = [of_nat (n div 2 ^ 24), of_nat (n div 2 ^ 16), of_nat (n div 2 ^ 8), of_nat n]"

definition to_be2 :: "nat \<Rightarrow> byte list" where
  "to_be2 n = [of_nat (n div 2 ^ 8), of_nat n]"

definition wire_header :: "byte list \<times> byte list \<Rightarrow> byte list" where
  "wire_header h = of_nat (length (fst h)) # fst h @ 7 # to_be2 (length (snd h)) @ snd h"

definition wire_headers :: "stream_message \<Rightarrow> byte list" where
  "wire_headers m = concat (map wire_header (message_headers m))"

definition wire_prelude :: "stream_message \<Rightarrow> byte list" where
  "wire_prelude m = to_be4 (16 + length (wire_headers m) + length (message_payload m))
     @ to_be4 (length (wire_headers m))"

definition wire_body :: "stream_message \<Rightarrow> byte list" where
  "wire_body m = wire_prelude m @ to_be4 (unat (crc32 (wire_prelude m))) @ wire_headers m
     @ message_payload m"

definition wire :: "stream_message \<Rightarrow> byte list" where
  "wire m = wire_body m @ to_be4 (unat (crc32 (wire_body m)))"

definition header_ok :: "byte list \<times> byte list \<Rightarrow> bool" where
  "header_ok h \<longleftrightarrow> length (fst h) < 256 \<and> length (snd h) < 65536 \<and> is_utf8 (fst h) \<and> is_utf8 (snd h)"

definition message_ok :: "stream_message \<Rightarrow> bool" where
  "message_ok m \<longleftrightarrow> list_all header_ok (message_headers m)
     \<and> length (wire_headers m) \<le> MAX_HEADER_BYTES
     \<and> 16 + length (wire_headers m) + length (message_payload m) \<le> MAX_MESSAGE_BYTES"

section \<open>Numbers\<close>

lemma length_to_be [simp]: "length (to_be4 n) = 4" "length (to_be2 n) = 2"
  by (simp_all add: to_be4_def to_be2_def)

lemma byte_digit: "unat (of_nat n :: byte) = n mod 256"
  by (simp add: unat_of_nat)

lemma digit_step: "n div (2 ^ (k + 8)) * 256 + (n div 2 ^ k) mod 256 = n div (2 ^ k :: nat)"
proof -
  have "n div 2 ^ (k + 8) = n div 2 ^ k div 256"
    by (simp add: power_add div_mult2_eq)
  then show ?thesis by simp
qed

lemma from_be_to_be4 [simp]: "n < 2 ^ 32 \<Longrightarrow> from_be (to_be4 n) = n"
proof -
  assume "n < 2 ^ 32"
  then have "n div 2 ^ 24 < 256" by (simp add: less_mult_imp_div_less)
  then have "n div 2 ^ 24 mod 256 = n div 2 ^ 24" by simp
  moreover have "n div 2 ^ 24 * 256 + n div 2 ^ 16 mod 256 = n div 2 ^ 16"
    using digit_step [of n 16] by simp
  moreover have "n div 2 ^ 16 * 256 + n div 2 ^ 8 mod 256 = n div 2 ^ 8"
    using digit_step [of n 8] by simp
  moreover have "n div 2 ^ 8 * 256 + n mod 256 = n" using digit_step [of n 0] by simp
  ultimately show ?thesis by (simp add: from_be_def to_be4_def byte_digit)
qed

lemma from_be_to_be2 [simp]: "n < 65536 \<Longrightarrow> from_be (to_be2 n) = n"
proof -
  assume "n < 65536"
  then have "n div 2 ^ 8 mod 256 = n div 2 ^ 8" by (simp add: less_mult_imp_div_less)
  moreover have "n div 2 ^ 8 * 256 + n mod 256 = n" using digit_step [of n 0] by simp
  ultimately show ?thesis by (simp add: from_be_def to_be2_def byte_digit)
qed

lemma from_be_single [simp]: "from_be [b] = unat b"
  by (simp add: from_be_def)

lemma crc_fits [simp]: "from_be (to_be4 (unat (crc32 bs))) = unat (crc32 bs)"
proof -
  have "unat (crc32 bs) < 2 ^ 32" by (rule order.strict_trans2 [OF unsigned_less]) simp
  then show ?thesis by (rule from_be_to_be4)
qed

section \<open>Headers\<close>

lemma next_header_wire:
  assumes "header_ok h"
  shows "next_header (wire_header h @ rest) = Inr (Some h, rest)"
proof -
  have n: "unat (of_nat (length (fst h)) :: byte) = length (fst h)"
    using assms by (simp add: byte_digit header_ok_def)
  have "read_name (wire_header h @ rest) = Inr (fst h, 7 # to_be2 (length (snd h)) @ snd h @ rest)"
    using assms by (simp add: read_name_def wire_header_def get_to_def get_from_def n header_ok_def)
  moreover have "read_value (fst h) (7 # to_be2 (length (snd h)) @ snd h @ rest) = Inr (Some h, rest)"
    using assms
    by (simp add: read_value_def read_sized_def get_to_def get_from_def value_width_def header_ok_def)
  ultimately show ?thesis by (simp add: next_header_def)
qed

lemma decode_wire_headers:
  "list_all header_ok hs \<Longrightarrow> decode_headers (concat (map wire_header hs)) = Inr hs"
proof (induction hs)
  case Nil
  then show ?case by (simp add: decode_headers.simps)
next
  case (Cons h hs)
  then have "next_header (wire_header h @ concat (map wire_header hs)) = Inr (Some h, concat (map wire_header hs))"
    by (intro next_header_wire) simp
  moreover have "wire_header h @ concat (map wire_header hs) \<noteq> []" by (simp add: wire_header_def)
  ultimately show ?case using Cons by (subst decode_headers.simps) simp
qed

section \<open>Frames\<close>

lemma length_wire: "length (wire m) = 16 + length (wire_headers m) + length (message_payload m)"
  by (simp add: wire_def wire_body_def wire_prelude_def)

lemma wire_parts:
  "take 4 (wire m) = to_be4 (length (wire m))"
  "take 4 (drop 4 (wire m)) = to_be4 (length (wire_headers m))"
  "take 8 (wire m) = wire_prelude m"
  "take 4 (drop 8 (wire m)) = to_be4 (unat (crc32 (wire_prelude m)))"
  unfolding length_wire by (simp_all add: wire_def wire_body_def wire_prelude_def)

lemma next_frame_started:
  assumes m: "message_ok m" and b: "12 \<le> length b" "take 12 b = take 12 (wire m)"
  shows "next_frame b =
     (if length b < length (wire m) then NeedMore
      else if unat (crc32 (take (length (wire m) - 4) b))
                \<noteq> from_be (take 4 (drop (length (wire m) - 4) b)) then Malformed
      else case decode_headers (take (length (wire_headers m)) (drop 12 b)) of
             Inl _ \<Rightarrow> Malformed
           | Inr hs \<Rightarrow>
               Frame \<lparr>message_headers = hs,
                  message_payload = take (length (message_payload m))
                    (drop (12 + length (wire_headers m)) b)\<rparr>
                 (drop (length (wire m)) b))"
proof -
  have same: "take k (drop l b) = take k (drop l (wire m))" if "k + l \<le> 12" for k l
  proof -
    have "take k (drop l (take 12 b)) = take k (drop l (take 12 (wire m)))" by (simp add: b(2))
    then show ?thesis using that by (simp add: drop_take min_def split: if_splits)
  qed
  have t: "take 4 b = to_be4 (length (wire m))" "take 4 (drop 4 b) = to_be4 (length (wire_headers m))"
    "take 8 b = wire_prelude m" "take 4 (drop 8 b) = to_be4 (unat (crc32 (wire_prelude m)))"
    using same [of 4 0] same [of 4 4] same [of 8 0] same [of 4 8] wire_parts [of m] by simp_all
  have small: "length (wire m) < 2 ^ 32" "length (wire_headers m) < 2 ^ 32"
    using m by (simp_all add: length_wire message_ok_def MAX_MESSAGE_BYTES_def MAX_HEADER_BYTES_def)
  have ok: "\<not> (\<not> (MESSAGE_OVERHEAD_BYTES \<le> length (wire m) \<and> length (wire m) \<le> MAX_MESSAGE_BYTES)
      \<or> MAX_HEADER_BYTES < length (wire_headers m)
      \<or> length (wire m) - MESSAGE_OVERHEAD_BYTES < length (wire_headers m))"
    using m by (simp add: length_wire message_ok_def MESSAGE_OVERHEAD_BYTES_def)
  have pl: "length (wire m) - 4 - (12 + length (wire_headers m)) = length (message_payload m)"
    by (simp add: length_wire)
  have nb: "\<not> length b < 12" using b(1) by simp
  show ?thesis
    unfolding next_frame_def if_not_P [OF nb] Let_def t from_be_to_be4 [OF small(1)]
      from_be_to_be4 [OF small(2)] if_not_P [OF ok] crc_fits PRELUDE_BYTES_def pl
    by simp
qed

lemma next_frame_partial:
  assumes "message_ok m" and "b = take k (wire m)" and "k < length (wire m)"
  shows "next_frame b = NeedMore"
proof (cases "length b < 12")
  case True
  then show ?thesis by (simp add: next_frame_def PRELUDE_BYTES_def)
next
  case False
  then have "12 \<le> k" using assms(2,3) by simp
  then have "take 12 b = take 12 (wire m)" by (simp add: assms(2) min_def)
  then show ?thesis using next_frame_started [OF assms(1), of b] False assms(2,3) by simp
qed

lemma next_frame_whole:
  assumes "message_ok m"
  shows "next_frame (wire m @ rest) = Frame m rest"
proof -
  let ?b = "wire m @ rest"
  have l: "12 \<le> length (wire m)" by (simp add: length_wire)
  then have b: "12 \<le> length ?b" "take 12 ?b = take 12 (wire m)" by simp_all
  have L: "length (wire m) - 4 = length (wire_body m)" by (simp add: wire_def)
  have c: "take (length (wire m) - 4) ?b = wire_body m"
    "take 4 (drop (length (wire m) - 4) ?b) = to_be4 (unat (crc32 (wire_body m)))"
    unfolding L by (simp_all add: wire_def)
  have p: "length (wire_prelude m @ to_be4 (unat (crc32 (wire_prelude m)))) = 12"
    by (simp add: wire_prelude_def)
  have d: "drop 12 ?b = wire_headers m @ message_payload m @ to_be4 (unat (crc32 (wire_body m))) @ rest"
  proof -
    have "?b = (wire_prelude m @ to_be4 (unat (crc32 (wire_prelude m))))
        @ wire_headers m @ message_payload m @ to_be4 (unat (crc32 (wire_body m))) @ rest"
      by (simp add: wire_def wire_body_def)
    then show ?thesis using p by (metis append_eq_conv_conj)
  qed
  have h: "take (length (wire_headers m)) (drop 12 ?b) = wire_headers m" unfolding d by simp
  have e: "drop (12 + length (wire_headers m)) ?b = drop (length (wire_headers m)) (drop 12 ?b)"
    by (simp only: drop_drop add.commute)
  have pl: "take (length (message_payload m)) (drop (12 + length (wire_headers m)) ?b) = message_payload m"
    unfolding e d by simp
  have nl: "\<not> length ?b < length (wire m)" by simp
  have dh: "decode_headers (wire_headers m) = Inr (message_headers m)"
    using assms unfolding wire_headers_def by (intro decode_wire_headers) (simp add: message_ok_def)
  show ?thesis
    unfolding next_frame_started [OF assms b] if_not_P [OF nl] c crc_fits h pl dh by simp
qed

section \<open>Chunks\<close>

lemma drain_Nil [simp]: "drain_frames [] = (Inr [], [])"
  by (subst drain_frames.simps) (simp add: next_frame_def PRELUDE_BYTES_def)

lemma drain_stream:
  assumes "list_all message_ok ms" and "b @ later = concat (map wire ms)"
  shows "\<exists>ms1 ms2 rest. ms = ms1 @ ms2 \<and> drain_frames b = (Inr ms1, rest)
    \<and> b = concat (map wire ms1) @ rest
    \<and> (if ms2 = [] then rest = [] else length rest < length (wire (hd ms2)))"
  using assms
proof (induction ms arbitrary: b)
  case Nil
  then show ?case by simp
next
  case (Cons m ms)
  have ok: "message_ok m" "list_all message_ok ms" using Cons.prems(1) by simp_all
  show ?case
  proof (cases "length b < length (wire m)")
    case True
    have "b = take (length b) (wire m)"
      using arg_cong [OF Cons.prems(2), of "take (length b)"] True by simp
    then have "next_frame b = NeedMore" using next_frame_partial [OF ok(1) _ True] by simp
    then have "drain_frames b = (Inr [], b)" by (subst drain_frames.simps) simp
    then show ?thesis using True by (intro exI [of _ "[]"] exI [of _ "m # ms"] exI [of _ b]) simp
  next
    case False
    have "take (length (wire m)) b = wire m"
      using arg_cong [OF Cons.prems(2), of "take (length (wire m))"] False by simp
    then obtain b1 where b1: "b = wire m @ b1" by (metis append_take_drop_id)
    then have "b1 @ later = concat (map wire ms)" using Cons.prems(2) by simp
    from Cons.IH [OF ok(2) this] obtain ms1 ms2 rest where r: "ms = ms1 @ ms2"
      "drain_frames b1 = (Inr ms1, rest)" "b1 = concat (map wire ms1) @ rest"
      "if ms2 = [] then rest = [] else length rest < length (wire (hd ms2))" by blast
    have "drain_frames b = (Inr (m # ms1), rest)"
      unfolding b1 by (subst drain_frames.simps) (simp add: next_frame_whole [OF ok(1)] r(2))
    then show ?thesis
      using r b1 by (intro exI [of _ "m # ms1"] exI [of _ ms2] exI [of _ rest]) simp
  qed
qed

text \<open>Pushing one chunk after the other, up to the first error.\<close>

primrec push_chunks ::
    "stream_decoder \<Rightarrow> byte list list \<Rightarrow> (stream_error + stream_message list) \<times> stream_decoder" where
  "push_chunks d [] = (Inr [], d)"
| "push_chunks d (c # cs) =
     (case push_chunk d c of
        (Inl e, d') \<Rightarrow> (Inl e, d')
      | (Inr ms, d') \<Rightarrow>
          (case push_chunks d' cs of
             (Inl e, d'') \<Rightarrow> (Inl e, d'') | (Inr ms', d'') \<Rightarrow> (Inr (ms @ ms'), d'')))"

lemma push_chunks_stream:
  assumes "list_all message_ok ms" and "stream_buffer d @ concat chunks @ later = concat (map wire ms)"
    and "if ms = [] then stream_buffer d = [] else length (stream_buffer d) < length (wire (hd ms))"
    and "consumed d + length (concat chunks) \<le> max_stream_bytes d" and "max_stream_bytes d < 2 ^ 64"
  shows "\<exists>ms1 ms2 d'. ms = ms1 @ ms2 \<and> push_chunks d chunks = (Inr ms1, d')
    \<and> stream_buffer d @ concat chunks = concat (map wire ms1) @ stream_buffer d'
    \<and> (if ms2 = [] then stream_buffer d' = []
       else length (stream_buffer d') < length (wire (hd ms2)))"
  using assms
proof (induction chunks arbitrary: d ms)
  case Nil
  then show ?case by (intro exI [of _ "[]"] exI [of _ ms] exI [of _ d]) simp
next
  case (Cons c cs)
  have "(stream_buffer d @ c) @ concat cs @ later = concat (map wire ms)" using Cons.prems(2) by simp
  from drain_stream [OF Cons.prems(1) this] obtain ms1 ms2 rest where r: "ms = ms1 @ ms2"
    "drain_frames (stream_buffer d @ c) = (Inr ms1, rest)"
    "stream_buffer d @ c = concat (map wire ms1) @ rest"
    "if ms2 = [] then rest = [] else length rest < length (wire (hd ms2))" by blast
  let ?d = "d\<lparr>consumed := consumed d + length c, stream_buffer := rest\<rparr>"
  have used: "checked_add 64 (consumed d) (length c) = Some (consumed d + length c)"
    "\<not> max_stream_bytes d < consumed d + length c"
    using Cons.prems(4,5) by simp_all
  have p: "push_chunk d c = (Inr ms1, ?d)"
    unfolding push_chunk_def used(1) option.case if_not_P [OF used(2)] r(2) prod.case by (rule refl)
  have "list_all message_ok ms2" using Cons.prems(1) r(1) by simp
  moreover have "stream_buffer ?d @ concat cs @ later = concat (map wire ms2)"
  proof -
    have "concat (map wire ms1) @ rest @ concat cs @ later = concat (map wire ms1) @ concat (map wire ms2)"
      using Cons.prems(2) r(1,3) by (metis append.assoc concat.simps(2) concat_append map_append)
    then show ?thesis by simp
  qed
  moreover have "if ms2 = [] then stream_buffer ?d = [] else length (stream_buffer ?d) < length (wire (hd ms2))"
    using r(4) by simp
  moreover have "consumed ?d + length (concat cs) \<le> max_stream_bytes ?d" "max_stream_bytes ?d < 2 ^ 64"
    using Cons.prems(4,5) by simp_all
  ultimately obtain ms3 ms4 d' where t: "ms2 = ms3 @ ms4" "push_chunks ?d cs = (Inr ms3, d')"
    "stream_buffer ?d @ concat cs = concat (map wire ms3) @ stream_buffer d'"
    "if ms4 = [] then stream_buffer d' = [] else length (stream_buffer d') < length (wire (hd ms4))"
    using Cons.IH [of ms2 ?d] by blast
  have "push_chunks d (c # cs) = (Inr (ms1 @ ms3), d')" by (simp add: p t(2))
  moreover have "stream_buffer d @ concat (c # cs) = concat (map wire (ms1 @ ms3)) @ stream_buffer d'"
    using r(3) t(3) by (metis append.assoc concat.simps(2) concat_append map_append stream_decoder.select_convs(1)
        stream_decoder.surjective stream_decoder.update_convs(1))
  ultimately show ?case
    using t(1,4) r(1) by (intro exI [of _ "ms1 @ ms3"] exI [of _ ms4] exI [of _ d']) simp
qed

text \<open>C22. Framing round-trips, however the transport cuts the bytes. For any well-formed messages and
  any way of cutting any beginning of their encoding into chunks, within the stream limit, the decoder
  hands out without error exactly the messages the bytes complete, in order, keeping only the started
  frame; and the stream ends cleanly if and only if it ends at a frame boundary.\<close>

theorem frames_roundtrip:
  assumes "list_all message_ok ms" and "concat chunks @ later = concat (map wire ms)"
    and "length (concat chunks) \<le> limit" and "limit < 2 ^ 64"
  shows "\<exists>ms1 ms2 d. ms = ms1 @ ms2 \<and> push_chunks (new_decoder limit) chunks = (Inr ms1, d)
    \<and> concat chunks = concat (map wire ms1) @ stream_buffer d
    \<and> (if ms2 = [] then stream_buffer d = [] else length (stream_buffer d) < length (wire (hd ms2)))
    \<and> (is_ok (finish_stream d) \<longleftrightarrow> concat chunks = concat (map wire ms1))"
proof -
  have "if ms = [] then stream_buffer (new_decoder limit) = []
      else length (stream_buffer (new_decoder limit)) < length (wire (hd ms))"
    by (simp add: new_decoder_def length_wire)
  with push_chunks_stream [OF assms(1), of "new_decoder limit" chunks later] assms(2-4)
  obtain ms1 ms2 d where "ms = ms1 @ ms2" "push_chunks (new_decoder limit) chunks = (Inr ms1, d)"
    "concat chunks = concat (map wire ms1) @ stream_buffer d"
    "if ms2 = [] then stream_buffer d = [] else length (stream_buffer d) < length (wire (hd ms2))"
    by (auto simp: new_decoder_def)
  then show ?thesis
    by (intro exI [of _ ms1] exI [of _ ms2] exI [of _ d]) (simp add: finish_stream_def)
qed

definition demo_message :: stream_message where
  "demo_message = \<lparr>message_headers = [([58], [97, 98])], message_payload = [1, 2, 3]\<rparr>"

lemma demo_message_ok: "message_ok demo_message"
  by (simp add: message_ok_def demo_message_def header_ok_def wire_headers_def wire_header_def
      is_utf8_def MAX_HEADER_BYTES_def MAX_MESSAGE_BYTES_def)

theorem frames_roundtrip_witness:
  "fst (push_chunks (new_decoder 1000) [take 9 (wire demo_message), drop 9 (wire demo_message)])
     = Inr [demo_message]"
proof -
  have ok: "list_all message_ok [demo_message]" using demo_message_ok by simp
  have len: "length (wire demo_message) = 26"
    by (simp add: length_wire demo_message_def wire_headers_def wire_header_def)
  let ?chunks = "[take 9 (wire demo_message), drop 9 (wire demo_message)]"
  have c: "concat ?chunks = wire demo_message" by simp
  then have cat: "concat ?chunks @ [] = concat (map wire [demo_message])" by simp
  have lim: "length (concat ?chunks) \<le> 1000" unfolding c len by simp
  have l64: "(1000 :: nat) < 2 ^ 64" by simp
  obtain ms1 ms2 d where r: "[demo_message] = ms1 @ ms2"
    "push_chunks (new_decoder 1000) ?chunks = (Inr ms1, d)"
    "concat ?chunks = concat (map wire ms1) @ stream_buffer d"
    "if ms2 = [] then stream_buffer d = [] else length (stream_buffer d) < length (wire (hd ms2))"
    using frames_roundtrip [OF ok cat lim l64] by blast
  have "ms2 = []"
  proof (rule ccontr)
    assume "ms2 \<noteq> []"
    then have "ms1 = []" "ms2 = [demo_message]" using r(1) by (cases ms1; simp)+
    then show False using r(3,4) unfolding c by simp
  qed
  then have "ms1 = [demo_message]" using r(1) by simp
  then show ?thesis unfolding r(2) fst_conv by simp
qed

end
