(* ===== verification/LexiconDocument.thy ===== *)
theory LexiconDocument
  imports Prelude "HOL-Library.List_Lexorder"
begin

text \<open>
  The persisted rule list of \<open>crates/corti-lexicon/src/document.rs\<close>: validated rules, a canonical
  order, one rule per spelling, and a digest. What rests on Unicode tables (case mapping, letter
  classes, normalisation), the hash and the JSON text are parameters, collected in \<open>text_ops\<close>;
  white space and control characters are written out.
\<close>

record text_ops =
  lowercase :: "nat \<Rightarrow> utext"
  uppercase :: "nat \<Rightarrow> utext"
  str_lowercase :: "utext \<Rightarrow> utext"
  is_alphanumeric :: "nat \<Rightarrow> bool"
  is_alphabetic :: "nat \<Rightarrow> bool"
  is_uppercase :: "nat \<Rightarrow> bool"
  is_lowercase :: "nat \<Rightarrow> bool"
  nfc :: "utext \<Rightarrow> utext"
  sha256 :: "nat list \<Rightarrow> nat list"

definition LEXICON_SCHEMA :: u32 where "LEXICON_SCHEMA = 1"
definition MAX_RULES :: nat where "MAX_RULES = 5000"
definition MAX_RULE_TEXT_CHARS :: nat where "MAX_RULE_TEXT_CHARS = 128"
definition MAX_LEXICON_BYTES :: nat where "MAX_LEXICON_BYTES = 512 * 1024"
definition MAX_NOTE_CHARS :: nat where "MAX_NOTE_CHARS = 256"
definition MAX_EXAMPLES :: nat where "MAX_EXAMPLES = 8"
definition MAX_EXAMPLE_CHARS :: nat where "MAX_EXAMPLE_CHARS = 512"

section \<open>Strings\<close>

text \<open>\<open>char::is_whitespace\<close> and \<open>char::is_control\<close>.\<close>

definition is_space :: "nat \<Rightarrow> bool" where
  "is_space c \<longleftrightarrow> 9 \<le> c \<and> c \<le> 13 \<or> c \<in> {0x20, 0x85, 0xA0, 0x1680, 0x2028, 0x2029, 0x202F, 0x205F, 0x3000}
     \<or> 0x2000 \<le> c \<and> c \<le> 0x200A"

definition is_control :: "nat \<Rightarrow> bool" where
  "is_control c \<longleftrightarrow> c < 0x20 \<or> 0x7F \<le> c \<and> c < 0xA0"

lemma dropWhile_shrinks [termination_simp]: "length (dropWhile P xs) < Suc (length xs)"
  using length_dropWhile_le [of P xs] by simp

fun split_whitespace :: "utext \<Rightarrow> utext list" where
  "split_whitespace [] = []"
| "split_whitespace (c # cs) =
     (if is_space c then split_whitespace cs
      else (c # takeWhile (\<lambda>x. \<not> is_space x) cs) # split_whitespace (dropWhile (\<lambda>x. \<not> is_space x) cs))"

fun join_words :: "utext list \<Rightarrow> utext" where
  "join_words [] = []"
| "join_words [w] = w"
| "join_words (w # ws) = w @ 0x20 # join_words ws"

definition ascii_lowercase :: "nat \<Rightarrow> nat" where
  "ascii_lowercase c = (if 0x41 \<le> c \<and> c \<le> 0x5A then c + 0x20 else c)"

definition eq_ignore_ascii_case :: "utext \<Rightarrow> utext \<Rightarrow> bool" where
  "eq_ignore_ascii_case s t \<longleftrightarrow> map ascii_lowercase s = map ascii_lowercase t"

text \<open>The UTF-8 bytes of a code point.\<close>

definition utf8_bytes :: "nat \<Rightarrow> nat list" where
  "utf8_bytes c =
     (if c < 0x80 then [c]
      else if c < 0x800 then [0xC0 + c div 0x40, 0x80 + c mod 0x40]
      else if c < 0x10000 then [0xE0 + c div 0x1000, 0x80 + c div 0x40 mod 0x40, 0x80 + c mod 0x40]
      else [0xF0 + c div 0x40000, 0x80 + c div 0x1000 mod 0x40, 0x80 + c div 0x40 mod 0x40,
            0x80 + c mod 0x40])"

definition as_bytes :: "utext \<Rightarrow> nat list" where
  "as_bytes t = concat (map utf8_bytes t)"

definition hex_digit :: "nat \<Rightarrow> nat" where
  "hex_digit n = (if n < 10 then 0x30 + n else 0x57 + n)"

definition hex_byte :: "nat \<Rightarrow> utext" where
  "hex_byte b = [hex_digit (b div 16), hex_digit (b mod 16)]"

definition ascii :: "string \<Rightarrow> utext" where
  "ascii s = map of_char s"

section \<open>Rules\<close>

text \<open>The message of a malformed document is left out.\<close>

datatype lexicon_error =
    InvalidText | NoOpRule | TooManyRules | MalformedLexicon | DigestMismatch
  | UnsupportedSchema u32 | SelfMatching utext | UnknownRule utext

datatype rule_kind = Word | Phrase
datatype rule_source = Review | Manual | Import

record lexicon_rule =
  rule_id :: utext
  rule_kind_of :: rule_kind
  rule_from :: utext
  rule_to :: utext
  whole_word :: bool
  case_insensitive :: bool
  rule_source_of :: rule_source
  rule_note :: "utext option"
  rule_examples :: "utext list"
  rule_created :: utext

definition normalize_text :: "text_ops \<Rightarrow> utext \<Rightarrow> lexicon_error + utext" where
  "normalize_text ops t =
     (let normalized = join_words (split_whitespace (nfc ops t))
      in if normalized = [] \<or> MAX_RULE_TEXT_CHARS < length normalized \<or> list_ex is_control normalized
         then Inl InvalidText else Inr normalized)"

definition derived_id :: "text_ops \<Rightarrow> utext \<Rightarrow> utext \<Rightarrow> utext" where
  "derived_id ops from to =
     ascii ''r-'' @ concat (map hex_byte (take 8 (sha256 ops
       (as_bytes (str_lowercase ops from) @ [0] @ as_bytes to))))"

definition new_rule ::
    "text_ops \<Rightarrow> utext \<Rightarrow> utext \<Rightarrow> rule_source \<Rightarrow> utext \<Rightarrow> lexicon_error + lexicon_rule" where
  "new_rule ops from0 to0 src created =
     rbind (normalize_text ops from0) (\<lambda>from.
     rbind (normalize_text ops to0) (\<lambda>to.
       if from = to then Inl NoOpRule
       else Inr \<lparr>rule_id = derived_id ops from to,
              rule_kind_of = (if 0x20 \<in> set from then Phrase else Word),
              rule_from = from, rule_to = to, whole_word = True, case_insensitive = True,
              rule_source_of = src, rule_note = None, rule_examples = [], rule_created = created\<rparr>))"

definition with_note :: "lexicon_rule \<Rightarrow> utext \<Rightarrow> lexicon_error + lexicon_rule" where
  "with_note r note =
     (if MAX_NOTE_CHARS < length note \<or> list_ex is_control note then Inl InvalidText
      else Inr (r\<lparr>rule_note := (if list_all is_space note then None else Some note)\<rparr>))"

definition with_example :: "lexicon_rule \<Rightarrow> utext \<Rightarrow> lexicon_error + lexicon_rule" where
  "with_example r example0 =
     (let example = join_words (split_whitespace example0)
      in if MAX_EXAMPLE_CHARS < length example \<or> list_ex is_control example then Inl InvalidText
         else Inr (if example \<noteq> [] \<and> length (rule_examples r) < MAX_EXAMPLES
                      \<and> example \<notin> set (rule_examples r)
                   then r\<lparr>rule_examples := rule_examples r @ [example]\<rparr> else r))"

definition case_sensitive :: "lexicon_rule \<Rightarrow> lexicon_rule" where
  "case_sensitive r = r\<lparr>case_insensitive := False\<rparr>"

definition validate_rule :: "text_ops \<Rightarrow> lexicon_rule \<Rightarrow> lexicon_error + unit" where
  "validate_rule ops r =
     rbind (normalize_text ops (rule_from r)) (\<lambda>from.
     rbind (normalize_text ops (rule_to r)) (\<lambda>to.
       if from \<noteq> rule_from r \<or> to \<noteq> rule_to r then Inl MalformedLexicon
       else if from = to then Inl NoOpRule
       else if rule_id r \<noteq> derived_id ops (rule_from r) (rule_to r) then Inl MalformedLexicon
       else if (rule_kind_of r = Phrase) \<noteq> (0x20 \<in> set (rule_from r)) then Inl MalformedLexicon
       else if \<not> whole_word r then Inl MalformedLexicon
       else if is_some_and (rule_note r) (\<lambda>n. MAX_NOTE_CHARS < length n \<or> list_ex is_control n)
       then Inl InvalidText
       else if MAX_EXAMPLES < length (rule_examples r)
               \<or> list_ex (\<lambda>x. MAX_EXAMPLE_CHARS < length x \<or> list_ex is_control x) (rule_examples r)
       then Inl InvalidText
       else Inr ()))"

section \<open>Documents\<close>

record lexicon_document =
  doc_schema :: u32
  doc_revision :: u64
  doc_rules :: "lexicon_rule list"
  doc_digest :: utext

definition digest_of :: "text_ops \<Rightarrow> lexicon_rule list \<Rightarrow> utext" where
  "digest_of ops rules =
     concat (map hex_byte (sha256 ops (ascii ''corti-lexicon-v1'' @ [0]
       @ concat (map (\<lambda>r. as_bytes (rule_id r) @ [0] @ as_bytes (rule_from r) @ [0]
           @ as_bytes (rule_to r) @ [0]
           @ [of_bool (case_insensitive r), of_bool (whole_word r)] @ [0]) rules))))"

definition same_from :: "text_ops \<Rightarrow> lexicon_rule \<Rightarrow> lexicon_rule \<Rightarrow> bool" where
  "same_from ops existing r \<longleftrightarrow>
     eq_ignore_ascii_case (rule_from existing) (rule_from r)
     \<or> str_lowercase ops (rule_from existing) = str_lowercase ops (rule_from r)"

text \<open>The validating and deduplicating loop: the last rule of a spelling is kept.\<close>

fun dedupe_rules ::
    "text_ops \<Rightarrow> lexicon_rule list \<Rightarrow> lexicon_rule list \<Rightarrow> lexicon_error + lexicon_rule list" where
  "dedupe_rules ops deduped [] = Inr deduped"
| "dedupe_rules ops deduped (r # rs) =
     rbind (validate_rule ops r) (\<lambda>_.
       dedupe_rules ops (filter (\<lambda>existing. \<not> same_from ops existing r) deduped @ [r]) rs)"

text \<open>Phrases first, then by spelling; the sort is stable.\<close>

definition rule_order :: "text_ops \<Rightarrow> lexicon_rule \<Rightarrow> utext" where
  "rule_order ops r = (case rule_kind_of r of Phrase \<Rightarrow> 0 | Word \<Rightarrow> 1) # str_lowercase ops (rule_from r)"

text \<open>\<open>json_len\<close> is the size of the serialised document; the serialiser itself does not fail on it.\<close>

definition from_rules ::
    "text_ops \<Rightarrow> (lexicon_document \<Rightarrow> nat) \<Rightarrow> u64 \<Rightarrow> lexicon_rule list \<Rightarrow> lexicon_error + lexicon_document" where
  "from_rules ops json_len revision rules =
     rbind (dedupe_rules ops [] rules) (\<lambda>deduped.
       if MAX_RULES < length deduped then Inl TooManyRules
       else let sorted = sort_key (rule_order ops) deduped;
                document = \<lparr>doc_schema = LEXICON_SCHEMA, doc_revision = revision, doc_rules = sorted,
                  doc_digest = digest_of ops sorted\<rparr>
            in if MAX_LEXICON_BYTES < json_len document then Inl TooManyRules else Inr document)"

fun first_rule_error :: "text_ops \<Rightarrow> lexicon_rule list \<Rightarrow> lexicon_error + unit" where
  "first_rule_error ops [] = Inr ()"
| "first_rule_error ops (r # rs) = rbind (validate_rule ops r) (\<lambda>_. first_rule_error ops rs)"

definition from_json ::
    "text_ops \<Rightarrow> (nat list \<Rightarrow> lexicon_document option) \<Rightarrow> nat list \<Rightarrow> lexicon_error + lexicon_document" where
  "from_json ops parse bytes =
     (if MAX_LEXICON_BYTES < length bytes then Inl TooManyRules
      else rbind (ok_or (parse bytes) MalformedLexicon) (\<lambda>document.
        if doc_schema document \<noteq> LEXICON_SCHEMA then Inl (UnsupportedSchema (doc_schema document))
        else rbind (first_rule_error ops (doc_rules document)) (\<lambda>_.
          if MAX_RULES < length (doc_rules document) then Inl TooManyRules
          else if digest_of ops (doc_rules document) \<noteq> doc_digest document then Inl DigestMismatch
          else Inr document)))"

definition find_rule :: "lexicon_document \<Rightarrow> utext \<Rightarrow> lexicon_rule option" where
  "find_rule d i = find (\<lambda>r. rule_id r = i) (doc_rules d)"

definition has_from :: "text_ops \<Rightarrow> lexicon_document \<Rightarrow> utext \<Rightarrow> bool" where
  "has_from ops d from =
     list_ex (\<lambda>r. str_lowercase ops (rule_from r) = str_lowercase ops from) (doc_rules d)"

definition with_rule ::
    "text_ops \<Rightarrow> (lexicon_document \<Rightarrow> nat) \<Rightarrow> lexicon_document \<Rightarrow> lexicon_rule
       \<Rightarrow> lexicon_error + lexicon_document" where
  "with_rule ops json_len d r =
     from_rules ops json_len (saturating_add 64 (doc_revision d) 1) (doc_rules d @ [r])"

definition without_rule ::
    "text_ops \<Rightarrow> (lexicon_document \<Rightarrow> nat) \<Rightarrow> lexicon_document \<Rightarrow> utext
       \<Rightarrow> lexicon_error + lexicon_document" where
  "without_rule ops json_len d i =
     (if find_rule d i = None then Inl (UnknownRule i)
      else from_rules ops json_len (saturating_add 64 (doc_revision d) 1)
             (filter (\<lambda>r. rule_id r \<noteq> i) (doc_rules d)))"

end
