(* ===== verification/Lexicon.thy ===== *)
theory Lexicon
  imports LexiconDocument
begin

text \<open>
  The substitution pass of \<open>crates/corti-lexicon/src/compiled.rs\<close> with the positioned edits of
  \<open>crates/corti-transcribe/src/segment/trace.rs\<close> it records: rules sorted longest-first are matched
  left to right at word boundaries, each match is replaced once.
\<close>

section \<open>Positioned edits\<close>

definition TEXT_TRACE_BYTES :: nat where "TEXT_TRACE_BYTES = 256 * 1024"

record text_edit =
  before_start :: nat
  before_end :: nat
  after_start :: nat
  after_end :: nat
  edit_rule :: utext

datatype trace_gap = UnsupportedRule | Capacity

record positioned_edits =
  edits_of :: "text_edit list"
  trace_gap_of :: "trace_gap option"
  rule_bytes :: nat

definition no_edits :: positioned_edits where
  "no_edits = \<lparr>edits_of = [], trace_gap_of = None, rule_bytes = 0\<rparr>"

definition unavailable :: "positioned_edits \<Rightarrow> trace_gap \<Rightarrow> positioned_edits" where
  "unavailable p cause =
     p\<lparr>trace_gap_of := (case trace_gap_of p of None \<Rightarrow> Some cause | Some g \<Rightarrow> Some g),
       edits_of := [], rule_bytes := 0\<rparr>"

text \<open>\<open>edit_size\<close> is the size of an edit in memory, which the compiler chooses.\<close>

definition room :: "nat \<Rightarrow> positioned_edits \<Rightarrow> nat \<Rightarrow> bool" where
  "room edit_size p extra \<longleftrightarrow>
     saturating_add 64 (saturating_add 64 (saturating_mul 64 (length (edits_of p) + 1) edit_size)
       (rule_bytes p)) extra \<le> TEXT_TRACE_BYTES"

text \<open>
  \<open>push\<close> for the lexicon's edits. Its second capacity check repeats the first one, for a vector that
  reserves exactly.
\<close>

definition push_edit :: "nat \<Rightarrow> positioned_edits \<Rightarrow> text_edit \<Rightarrow> positioned_edits" where
  "push_edit edit_size p e =
     (if trace_gap_of p \<noteq> None then p
      else let extra = length (as_bytes (edit_rule e))
           in if 2 ^ 32 - 1 < before_end e \<or> 2 ^ 32 - 1 < after_end e \<or> \<not> room edit_size p extra
              then unavailable p Capacity
              else p\<lparr>rule_bytes := rule_bytes p + extra, edits_of := edits_of p @ [e]\<rparr>)"

definition lexicon_edit :: "nat \<Rightarrow> positioned_edits \<Rightarrow> text_edit \<Rightarrow> positioned_edits" where
  "lexicon_edit edit_size p e =
     (if trace_gap_of p \<noteq> None then p
      else let len = length (as_bytes (edit_rule e))
           in if edit_rule e = [] \<or> 128 < len \<or> \<not> room edit_size p len
              then unavailable p Capacity
              else push_edit edit_size p e)"

section \<open>Compiled rules\<close>

record compiled_rule =
  compiled_id :: utext
  pattern :: utext
  compiled_to :: utext
  any_case :: bool

record compiled_lexicon =
  compiled_rules :: "compiled_rule list"
  compiled_revision :: u64
  compiled_digest :: utext

definition lower_char :: "text_ops \<Rightarrow> nat \<Rightarrow> nat" where
  "lower_char ops c = (case lowercase ops c of [] \<Rightarrow> c | l # _ \<Rightarrow> l)"

definition is_word_char :: "text_ops \<Rightarrow> nat \<Rightarrow> bool" where
  "is_word_char ops c \<longleftrightarrow> is_alphanumeric ops c \<or> c = 0x27 \<or> c = 0x2019"

definition adapt_case :: "text_ops \<Rightarrow> utext \<Rightarrow> utext \<Rightarrow> bool \<Rightarrow> utext" where
  "adapt_case ops to matched insensitive =
     (if \<not> insensitive then to
      else let letters = filter (is_alphabetic ops) matched
           in if 1 < length letters \<and> list_all (is_uppercase ops) letters
              then concat (map (uppercase ops) to)
              else let matched_capitalised = letters \<noteq> [] \<and> is_uppercase ops (hd letters)
                         \<and> list_all (\<lambda>c. \<not> is_uppercase ops c) (tl letters);
                       to_starts_lower = to \<noteq> [] \<and> is_lowercase ops (hd to)
                   in if matched_capitalised \<and> to_starts_lower
                      then (case to of first # chars \<Rightarrow> uppercase ops first @ chars | [] \<Rightarrow> [])
                      else to)"

section \<open>The pass\<close>

definition matches_at :: "text_ops \<Rightarrow> utext \<Rightarrow> utext \<Rightarrow> nat \<Rightarrow> compiled_rule \<Rightarrow> bool" where
  "matches_at ops chars lower index rule =
     (let end_at = index + length (pattern rule)
      in if length chars < end_at then False
         else let haystack = take (length (pattern rule)) (drop index (if any_case rule then lower else chars))
              in haystack = pattern rule \<and> (end_at = length chars \<or> \<not> is_word_char ops (chars ! end_at)))"

definition winning_rule ::
    "text_ops \<Rightarrow> compiled_rule list \<Rightarrow> utext \<Rightarrow> utext \<Rightarrow> nat \<Rightarrow> compiled_rule option" where
  "winning_rule ops rules chars lower index =
     (if index = 0 \<or> \<not> is_word_char ops (chars ! (index - 1))
      then find (matches_at ops chars lower index) rules else None)"

text \<open>
  The loop, from an index with the byte offset in the source, the output so far and the number of
  replacements. A rule with an empty pattern would match at the same index for ever; no document has
  one, and the value \<open>None\<close> stands for the loop that does not return.
\<close>

function pass_from ::
    "text_ops \<Rightarrow> nat \<Rightarrow> compiled_rule list \<Rightarrow> utext \<Rightarrow> nat \<Rightarrow> nat \<Rightarrow> utext \<Rightarrow> nat \<Rightarrow> positioned_edits option
       \<Rightarrow> (utext \<times> nat \<times> positioned_edits option) option" where
  "pass_from ops edit_size rules chars index source_byte out applied edits =
     (if index < length chars
      then (case winning_rule ops rules chars (map (lower_char ops) chars) index of
          Some rule \<Rightarrow>
            (if pattern rule = [] then None
             else let matched = take (length (pattern rule)) (drop index chars);
                      source_end = source_byte + length (as_bytes matched);
                      to = adapt_case ops (compiled_to rule) matched (any_case rule);
                      out' = out @ to;
                      edits' = (case edits of
                          None \<Rightarrow> None
                        | Some p \<Rightarrow> Some (if matched \<noteq> to
                            then lexicon_edit edit_size p \<lparr>before_start = source_byte,
                              before_end = source_end, after_start = length (as_bytes out),
                              after_end = length (as_bytes out'), edit_rule = compiled_id rule\<rparr>
                            else p))
                  in pass_from ops edit_size rules chars (index + length (pattern rule)) source_end
                       out' (applied + 1) edits')
        | None \<Rightarrow>
            pass_from ops edit_size rules chars (index + 1)
              (source_byte + length (utf8_bytes (chars ! index))) (out @ [chars ! index]) applied edits)
      else Some (out, applied, edits))"
  by pat_completeness auto
termination
  by (relation "measure (\<lambda>(ops, edit_size, rules, chars, index, source_byte, out, applied, edits).
        length chars - index)")
     (auto simp: length_greater_0_conv [symmetric] simp del: length_greater_0_conv)

declare pass_from.simps [simp del]

definition apply_counting_inner ::
    "text_ops \<Rightarrow> nat \<Rightarrow> compiled_rule list \<Rightarrow> utext \<Rightarrow> positioned_edits option
       \<Rightarrow> (utext \<times> nat \<times> positioned_edits option) option" where
  "apply_counting_inner ops edit_size rules t edits =
     (if rules = [] \<or> t = [] then Some (t, 0, edits)
      else pass_from ops edit_size rules t 0 0 [] 0 edits)"

definition apply_counting :: "text_ops \<Rightarrow> compiled_rule list \<Rightarrow> utext \<Rightarrow> (utext \<times> nat) option" where
  "apply_counting ops rules t =
     map_option (\<lambda>(out, applied, _). (out, applied)) (apply_counting_inner ops 0 rules t None)"

definition apply_rules :: "text_ops \<Rightarrow> compiled_rule list \<Rightarrow> utext \<Rightarrow> utext option option" where
  "apply_rules ops rules t =
     map_option (\<lambda>(out, applied). if 0 < applied \<and> out \<noteq> t then Some out else None)
       (apply_counting ops rules t)"

definition apply_traced ::
    "text_ops \<Rightarrow> nat \<Rightarrow> compiled_rule list \<Rightarrow> utext \<Rightarrow> (utext option \<times> positioned_edits) option" where
  "apply_traced ops edit_size rules t =
     map_option (\<lambda>(out, applied, edits).
         (if 0 < applied \<and> out \<noteq> t then Some out else None,
          case edits of Some p \<Rightarrow> p | None \<Rightarrow> no_edits))
       (apply_counting_inner ops edit_size rules t (Some no_edits))"

section \<open>Compilation\<close>

definition compile_rule :: "text_ops \<Rightarrow> lexicon_rule \<Rightarrow> compiled_rule" where
  "compile_rule ops r =
     \<lparr>compiled_id = rule_id r,
      pattern = (if case_insensitive r then map (lower_char ops) (rule_from r) else rule_from r),
      compiled_to = rule_to r, any_case = case_insensitive r\<rparr>"

text \<open>Longest pattern first; the sort is stable.\<close>

definition compile_rules :: "text_ops \<Rightarrow> lexicon_rule list \<Rightarrow> compiled_rule list" where
  "compile_rules ops rules = sort_key (\<lambda>r. - int (length (pattern r))) (map (compile_rule ops) rules)"

text \<open>The first rule whose own replacement some rule would rewrite, if any.\<close>

fun self_matching ::
    "text_ops \<Rightarrow> compiled_rule list \<Rightarrow> lexicon_rule list \<Rightarrow> (lexicon_error + unit) option" where
  "self_matching ops compiled [] = Some (Inr ())"
| "self_matching ops compiled (r # rs) =
     Option.bind (apply_rules ops compiled (rule_to r)) (\<lambda>rewritten.
       if rewritten \<noteq> None then Some (Inl (SelfMatching (rule_id r))) else self_matching ops compiled rs)"

definition compile :: "text_ops \<Rightarrow> lexicon_document \<Rightarrow> (lexicon_error + compiled_lexicon) option" where
  "compile ops d =
     (let compiled = compile_rules ops (doc_rules d)
      in map_option (map_sum id (\<lambda>_. \<lparr>compiled_rules = compiled, compiled_revision = doc_revision d,
           compiled_digest = doc_digest d\<rparr>)) (self_matching ops compiled (doc_rules d)))"

definition apply_lexicon :: "text_ops \<Rightarrow> compiled_lexicon \<Rightarrow> utext \<Rightarrow> utext option option" where
  "apply_lexicon ops l t = apply_rules ops (compiled_rules l) t"

definition corrections :: "compiled_lexicon \<Rightarrow> (utext \<times> utext) list" where
  "corrections l = map (\<lambda>r. (pattern r, compiled_to r)) (compiled_rules l)"

text \<open>The rules that alone would change a text.\<close>

fun rules_firing :: "text_ops \<Rightarrow> compiled_rule list \<Rightarrow> utext \<Rightarrow> utext list option" where
  "rules_firing ops [] t = Some []"
| "rules_firing ops (r # rs) t =
     Option.bind (apply_rules ops [r] t) (\<lambda>rewritten.
       map_option (\<lambda>ids. if rewritten \<noteq> None then compiled_id r # ids else ids) (rules_firing ops rs t))"

definition matching_rule_ids :: "text_ops \<Rightarrow> compiled_lexicon \<Rightarrow> utext \<Rightarrow> utext list option" where
  "matching_rule_ids ops l t = rules_firing ops (compiled_rules l) t"

end
