(* ===== verification/LexiconProps.thy ===== *)
theory LexiconProps
  imports Lexicon
begin

text \<open>
  What the correction lexicon promises: documents are canonical and survive a reload, a pass always
  returns and replaces exactly the longest match at each word boundary, and its complete traces locate
  every change. A second pass, however, can change the text again.
\<close>

section \<open>Documents\<close>

definition doc_ok :: "text_ops \<Rightarrow> lexicon_document \<Rightarrow> bool" where
  "doc_ok ops d \<longleftrightarrow> list_all (\<lambda>r. is_ok (validate_rule ops r)) (doc_rules d)"

lemma first_rule_error_ok: "is_ok (first_rule_error ops rs) \<longleftrightarrow> list_all (\<lambda>r. is_ok (validate_rule ops r)) rs"
  by (induction rs) (auto simp: is_ok_rbind)

text \<open>No two rules of a list share a spelling.\<close>

abbreviation separate_rules :: "text_ops \<Rightarrow> lexicon_rule list \<Rightarrow> bool" where
  "separate_rules ops rs \<equiv> distinct (map (\<lambda>r. str_lowercase ops (rule_from r)) rs)"

lemma dedupe_rules_facts:
  assumes "dedupe_rules ops acc rs = Inr ds"
    and "list_all (\<lambda>r. is_ok (validate_rule ops r)) acc" and "separate_rules ops acc"
  shows "list_all (\<lambda>r. is_ok (validate_rule ops r)) ds" and "separate_rules ops ds"
    and "set ds \<subseteq> set acc \<union> set rs"
    and "r \<in> set acc \<Longrightarrow> list_all (\<lambda>v. \<not> same_from ops r v) rs \<Longrightarrow> r \<in> set ds"
    and "rs = us @ r # vs \<Longrightarrow> list_all (\<lambda>v. \<not> same_from ops r v) vs \<Longrightarrow> r \<in> set ds"
proof -
  have "list_all (\<lambda>r. is_ok (validate_rule ops r)) ds \<and> separate_rules ops ds \<and> set ds \<subseteq> set acc \<union> set rs
    \<and> (\<forall>r \<in> set acc. list_all (\<lambda>v. \<not> same_from ops r v) rs \<longrightarrow> r \<in> set ds)
    \<and> (\<forall>us r vs. rs = us @ r # vs \<longrightarrow> list_all (\<lambda>v. \<not> same_from ops r v) vs \<longrightarrow> r \<in> set ds)"
    using assms
  proof (induction ops acc rs rule: dedupe_rules.induct)
    case (1 ops deduped)
    then show ?case by auto
  next
    case (2 ops deduped r rs)
    let ?acc = "filter (\<lambda>existing. \<not> same_from ops existing r) deduped @ [r]"
    obtain u where v: "validate_rule ops r = Inr u" and rest: "dedupe_rules ops ?acc rs = Inr ds"
      using 2(2) by auto
    have ok: "list_all (\<lambda>r. is_ok (validate_rule ops r)) ?acc" using 2(3) v by (auto simp: list_all_iff)
    have sep: "separate_rules ops ?acc"
      using 2(4) by (auto simp: same_from_def distinct_map inj_on_def)
    note ih = 2(1) [OF rest ok sep]
    have new: "r' \<in> set ds" if eq: "r # rs = us @ r' # vs" and later: "list_all (\<lambda>v. \<not> same_from ops r' v) vs"
      for us r' vs
    proof (cases us)
      case Nil
      then show ?thesis using ih eq later by auto
    next
      case (Cons u us')
      then have "rs = us' @ r' # vs" using eq by simp
      then show ?thesis using ih later by blast
    qed
    show ?case using ih new by auto
  qed
  then show "list_all (\<lambda>r. is_ok (validate_rule ops r)) ds" "separate_rules ops ds"
    "set ds \<subseteq> set acc \<union> set rs"
    "r \<in> set acc \<Longrightarrow> list_all (\<lambda>v. \<not> same_from ops r v) rs \<Longrightarrow> r \<in> set ds"
    "rs = us @ r # vs \<Longrightarrow> list_all (\<lambda>v. \<not> same_from ops r v) vs \<Longrightarrow> r \<in> set ds"
    by blast+
qed

lemma from_rules_facts:
  assumes "from_rules ops json_len revision rs = Inr d"
  shows "\<exists>ds. dedupe_rules ops [] rs = Inr ds \<and> doc_rules d = sort_key (rule_order ops) ds
    \<and> length ds \<le> MAX_RULES \<and> doc_schema d = LEXICON_SCHEMA \<and> doc_revision d = revision
    \<and> doc_digest d = digest_of ops (doc_rules d) \<and> json_len d \<le> MAX_LEXICON_BYTES"
  using assms by (auto simp: from_rules_def Let_def split: if_splits)

section \<open>Tiles\<close>

datatype tile = KeptTile nat | MatchTile compiled_rule utext

fun tile_source :: "tile \<Rightarrow> utext" where
  "tile_source (KeptTile c) = [c]"
| "tile_source (MatchTile r m) = m"

fun tile_output :: "text_ops \<Rightarrow> tile \<Rightarrow> utext" where
  "tile_output ops (KeptTile c) = [c]"
| "tile_output ops (MatchTile r m) = adapt_case ops (compiled_to r) m (any_case r)"

fun is_match :: "tile \<Rightarrow> bool" where
  "is_match (KeptTile c) = False"
| "is_match (MatchTile r m) = True"

abbreviation sources :: "tile list \<Rightarrow> utext" where
  "sources ts \<equiv> concat (map tile_source ts)"

text \<open>
  A rule occurs between what comes before and what is left of a text: both ends of its match are word
  boundaries, and the match is the pattern up to the rule's treatment of case.
\<close>

definition occurs :: "text_ops \<Rightarrow> compiled_rule \<Rightarrow> utext \<Rightarrow> utext \<Rightarrow> bool" where
  "occurs ops r before rest \<longleftrightarrow>
     length (pattern r) \<le> length rest
     \<and> (before = [] \<or> \<not> is_word_char ops (last before))
     \<and> map (if any_case r then lower_char ops else id) (take (length (pattern r)) rest) = pattern r
     \<and> (drop (length (pattern r)) rest = [] \<or> \<not> is_word_char ops (hd (drop (length (pattern r)) rest)))"

text \<open>
  The tiling of a text by the pass: a match is by a rule that occurs there and no longer rule does, and
  a character is kept only where no rule occurs.
\<close>

fun tiled :: "text_ops \<Rightarrow> compiled_rule list \<Rightarrow> utext \<Rightarrow> tile list \<Rightarrow> bool" where
  "tiled ops rules before [] = True"
| "tiled ops rules before (KeptTile c # ts) \<longleftrightarrow>
     list_all (\<lambda>r. \<not> occurs ops r before (c # sources ts)) rules \<and> tiled ops rules (before @ [c]) ts"
| "tiled ops rules before (MatchTile r m # ts) \<longleftrightarrow>
     r \<in> set rules \<and> occurs ops r before (m @ sources ts) \<and> length m = length (pattern r)
     \<and> list_all (\<lambda>r'. occurs ops r' before (m @ sources ts) \<longrightarrow> length (pattern r') \<le> length (pattern r)) rules
     \<and> tiled ops rules (before @ m) ts"

text \<open>The changes of a tiling, with their byte positions in both texts.\<close>

fun tile_edits :: "text_ops \<Rightarrow> nat \<Rightarrow> nat \<Rightarrow> tile list \<Rightarrow> text_edit list" where
  "tile_edits ops b a [] = []"
| "tile_edits ops b a (t # ts) =
     (let b' = b + length (as_bytes (tile_source t)); a' = a + length (as_bytes (tile_output ops t))
      in (case t of
            MatchTile r m \<Rightarrow>
              if m \<noteq> tile_output ops t
              then [\<lparr>before_start = b, before_end = b', after_start = a, after_end = a',
                     edit_rule = compiled_id r\<rparr>] else []
          | _ \<Rightarrow> []) @ tile_edits ops b' a' ts)"

section \<open>One step of the pass\<close>

lemma as_bytes_append [simp]: "as_bytes (s @ t) = as_bytes s @ as_bytes t"
  and as_bytes_single: "as_bytes [c] = utf8_bytes c"
  by (simp_all add: as_bytes_def)

lemma last_taken: "index < length chars \<Longrightarrow> take (Suc index) chars = take index chars @ [chars ! index]"
  by (rule take_Suc_conv_app_nth)

lemma matches_occurs:
  assumes "index < length chars" and "index = 0 \<or> \<not> is_word_char ops (chars ! (index - 1))"
  shows "matches_at ops chars (map (lower_char ops) chars) index r
    \<longleftrightarrow> occurs ops r (take index chars) (drop index chars)"
proof -
  let ?n = "length (pattern r)"
  have "take index chars = [] \<or> \<not> is_word_char ops (last (take index chars))"
    using assms by (cases index) (auto simp: last_taken)
  moreover have "?n \<le> length (drop index chars) \<longleftrightarrow> \<not> length chars < index + ?n"
    using assms(1) by auto
  moreover have "take ?n (drop index (if any_case r then map (lower_char ops) chars else chars))
      = map (if any_case r then lower_char ops else id) (take ?n (drop index chars))"
    by (simp add: take_map drop_map)
  moreover have "(drop ?n (drop index chars) = [] \<or> \<not> is_word_char ops (hd (drop ?n (drop index chars))))
      \<longleftrightarrow> index + ?n = length chars \<or> \<not> is_word_char ops (chars ! (index + ?n))"
    if "\<not> length chars < index + ?n"
  proof (cases "index + ?n = length chars")
    case False
    then have "index + ?n < length chars" using that by simp
    then show ?thesis using False by (simp add: hd_drop_conv_nth add.commute)
  qed (simp add: add.commute)
  ultimately show ?thesis by (simp only: matches_at_def occurs_def Let_def if_True if_False simp_thms) auto
qed

lemma unbounded_never_occurs:
  assumes "index < length chars" and "\<not> (index = 0 \<or> \<not> is_word_char ops (chars ! (index - 1)))"
  shows "\<not> occurs ops r (take index chars) (drop index chars)"
  using assms by (cases index) (auto simp: occurs_def last_taken)

definition longest_first :: "compiled_rule list \<Rightarrow> bool" where
  "longest_first rules \<longleftrightarrow> sorted_wrt (\<lambda>r s. length (pattern s) \<le> length (pattern r)) rules"

lemma find_first: "find P xs = Some x \<Longrightarrow> \<exists>us vs. xs = us @ x # vs \<and> P x \<and> list_all (\<lambda>y. \<not> P y) us"
proof (induction xs)
  case (Cons a xs)
  show ?case
  proof (cases "P a")
    case True
    then show ?thesis using Cons.prems by (intro exI [of _ "[]"] exI [of _ xs]) simp
  next
    case False
    then obtain us vs where "xs = us @ x # vs" "P x" "list_all (\<lambda>y. \<not> P y) us"
      using Cons by auto
    then show ?thesis using False by (intro exI [of _ "a # us"] exI [of _ vs]) simp
  qed
qed simp

lemma winning_rule_Some:
  assumes "winning_rule ops rules chars (map (lower_char ops) chars) index = Some r"
    and "index < length chars" and "longest_first rules"
  shows "r \<in> set rules" and "occurs ops r (take index chars) (drop index chars)"
    and "list_all (\<lambda>r'. occurs ops r' (take index chars) (drop index chars)
           \<longrightarrow> length (pattern r') \<le> length (pattern r)) rules"
proof -
  have b: "index = 0 \<or> \<not> is_word_char ops (chars ! (index - 1))"
    and f: "find (matches_at ops chars (map (lower_char ops) chars) index) rules = Some r"
    using assms(1) by (auto simp: winning_rule_def split: if_splits)
  obtain us vs where "rules = us @ r # vs" "matches_at ops chars (map (lower_char ops) chars) index r"
      "list_all (\<lambda>y. \<not> matches_at ops chars (map (lower_char ops) chars) index y) us"
    using find_first [OF f] by blast
  then show "r \<in> set rules" "occurs ops r (take index chars) (drop index chars)"
    "list_all (\<lambda>r'. occurs ops r' (take index chars) (drop index chars)
       \<longrightarrow> length (pattern r') \<le> length (pattern r)) rules"
    using assms(3) unfolding matches_occurs [OF assms(2) b]
    by (auto simp: longest_first_def sorted_wrt_append list_all_iff)
qed

lemma winning_rule_None:
  assumes "winning_rule ops rules chars (map (lower_char ops) chars) index = None"
    and "index < length chars"
  shows "list_all (\<lambda>r. \<not> occurs ops r (take index chars) (drop index chars)) rules"
proof (cases "index = 0 \<or> \<not> is_word_char ops (chars ! (index - 1))")
  case True
  then have "find (matches_at ops chars (map (lower_char ops) chars) index) rules = None"
    using assms(1) by (simp add: winning_rule_def)
  then show ?thesis
    using matches_occurs [OF assms(2) True] by (auto simp: find_None_iff list_all_iff)
next
  case False
  then show ?thesis using unbounded_never_occurs [OF assms(2) False] by (simp add: list_all_iff)
qed

text \<open>Recording an edit, when the trace is complete afterwards.\<close>

lemma lexicon_edit_complete:
  assumes "trace_gap_of (lexicon_edit n p e) = None"
  shows "trace_gap_of p = None" and "edits_of (lexicon_edit n p e) = edits_of p @ [e]"
  using assms by (auto simp: lexicon_edit_def push_edit_def unavailable_def Let_def split: if_splits option.splits)

section \<open>The whole pass\<close>

text \<open>What the pass does with the optional trace, for a given tiling.\<close>

definition traces ::
    "text_ops \<Rightarrow> positioned_edits option \<Rightarrow> nat \<Rightarrow> nat \<Rightarrow> tile list \<Rightarrow> positioned_edits option \<Rightarrow> bool" where
  "traces ops edits b a ts edits' \<longleftrightarrow>
     (case edits of
        None \<Rightarrow> edits' = None
      | Some p \<Rightarrow>
          (case edits' of
             None \<Rightarrow> False
           | Some p' \<Rightarrow> trace_gap_of p' = None \<longrightarrow>
               trace_gap_of p = None \<and> edits_of p' = edits_of p @ tile_edits ops b a ts))"

lemma traces_match:
  assumes "traces ops (case edits of None \<Rightarrow> None
      | Some p \<Rightarrow> Some (if m \<noteq> to then lexicon_edit n p \<lparr>before_start = b, before_end = b', after_start = a,
          after_end = a', edit_rule = compiled_id r\<rparr> else p)) b' a' ts edits'"
    and to: "tile_output ops (MatchTile r m) = to"
    and "b' = b + length (as_bytes m)" and "a' = a + length (as_bytes to)"
  shows "traces ops edits b a (MatchTile r m # ts) edits'"
proof (cases edits)
  case None
  then show ?thesis using assms(1) by (simp add: traces_def)
next
  case (Some p)
  show ?thesis
  proof (cases "to = m")
    case True
    then show ?thesis
      using assms Some by (simp add: traces_def Let_def split: option.splits del: tile_output.simps)
  next
    case False
    then show ?thesis
      using assms Some lexicon_edit_complete [of n p]
      by (auto simp: traces_def Let_def split: option.splits simp del: tile_output.simps)
  qed
qed

lemma pass_tiles:
  assumes "longest_first rules" and "list_all (\<lambda>r. pattern r \<noteq> []) rules"
  shows "\<exists>ts edits'. pass_from ops n rules chars index b out applied edits
      = Some (out @ concat (map (tile_output ops) ts), applied + length (filter is_match ts), edits')
    \<and> sources ts = drop index chars \<and> tiled ops rules (take index chars) ts
    \<and> traces ops edits b (length (as_bytes out)) ts edits'"
  using assms
proof (induction ops n rules chars index b out applied edits rule: pass_from.induct)
  case (1 ops n rules chars index b out applied edits)
  let ?w = "winning_rule ops rules chars (map (lower_char ops) chars) index"
  let ?goal = "\<lambda>res. \<exists>ts edits'. res
      = Some (out @ concat (map (tile_output ops) ts), applied + length (filter is_match ts), edits')
    \<and> sources ts = drop index chars \<and> tiled ops rules (take index chars) ts
    \<and> traces ops edits b (length (as_bytes out)) ts edits'"
  show ?case
  proof (cases "index < length chars")
    case False
    then have "pass_from ops n rules chars index b out applied edits = Some (out, applied, edits)"
      by (simp add: pass_from.simps)
    then show ?thesis
      using False by (intro exI [of _ "[]"] exI [of _ edits]) (simp add: traces_def split: option.splits)
  next
    case idx: True
    show ?thesis
    proof (cases ?w)
      case None
      let ?c = "chars ! index"
      obtain ts edits' where ih: "pass_from ops n rules chars (index + 1) (b + length (utf8_bytes ?c))
            (out @ [?c]) applied edits
          = Some ((out @ [?c]) @ concat (map (tile_output ops) ts), applied + length (filter is_match ts), edits')"
          "sources ts = drop (index + 1) chars" "tiled ops rules (take (index + 1) chars) ts"
          "traces ops edits (b + length (utf8_bytes ?c)) (length (as_bytes (out @ [?c]))) ts edits'"
        using 1(1) [OF idx None 1(3,4)] by blast
      have "pass_from ops n rules chars index b out applied edits
          = Some (out @ concat (map (tile_output ops) (KeptTile ?c # ts)),
              applied + length (filter is_match (KeptTile ?c # ts)), edits')"
        using idx None ih(1) by (subst pass_from.simps) simp
      moreover have src: "sources (KeptTile ?c # ts) = drop index chars"
        using ih(2) idx by (simp add: Cons_nth_drop_Suc)
      moreover have "tiled ops rules (take index chars) (KeptTile ?c # ts)"
        using winning_rule_None [OF None idx] ih(3) src last_taken [OF idx] by simp
      moreover have "traces ops edits b (length (as_bytes out)) (KeptTile ?c # ts) edits'"
        using ih(4) by (simp add: traces_def as_bytes_single split: option.splits)
      ultimately show ?thesis by blast
    next
      case (Some r)
      let ?k = "length (pattern r)"
      let ?m = "take ?k (drop index chars)"
      let ?b = "b + length (as_bytes ?m)"
      let ?to = "adapt_case ops (compiled_to r) ?m (any_case r)"
      let ?e = "\<lparr>before_start = b, before_end = ?b, after_start = length (as_bytes out),
         after_end = length (as_bytes (out @ ?to)), edit_rule = compiled_id r\<rparr>"
      let ?edits = "case edits of None \<Rightarrow> None | Some p \<Rightarrow> Some (if ?m \<noteq> ?to then lexicon_edit n p ?e else p)"
      note w = winning_rule_Some [OF Some idx 1(3)]
      have ne: "pattern r \<noteq> []" using 1(4) w(1) by (simp add: list_all_iff)
      have len: "length ?m = ?k" using w(2) by (simp add: occurs_def)
      obtain ts edits' where ih: "pass_from ops n rules chars (index + ?k) ?b (out @ ?to) (applied + 1) ?edits
          = Some ((out @ ?to) @ concat (map (tile_output ops) ts), applied + 1 + length (filter is_match ts), edits')"
          "sources ts = drop (index + ?k) chars" "tiled ops rules (take (index + ?k) chars) ts"
          "traces ops ?edits ?b (length (as_bytes (out @ ?to))) ts edits'"
        using 1(2) [OF idx Some ne refl refl refl refl refl 1(3,4)] by blast
      have "pass_from ops n rules chars index b out applied edits
          = Some (out @ concat (map (tile_output ops) (MatchTile r ?m # ts)),
              applied + length (filter is_match (MatchTile r ?m # ts)), edits')"
        using idx Some ne ih(1) by (subst pass_from.simps) (simp add: Let_def)
      moreover have src: "sources (MatchTile r ?m # ts) = drop index chars"
      proof -
        have "sources (MatchTile r ?m # ts) = ?m @ drop (index + ?k) chars" using ih(2) by simp
        also have "drop (index + ?k) chars = drop ?k (drop index chars)" by (simp add: add.commute)
        also have "?m @ \<dots> = drop index chars" by (rule append_take_drop_id)
        finally show ?thesis .
      qed
      moreover have "tiled ops rules (take index chars) (MatchTile r ?m # ts)"
      proof -
        have eq: "?m @ sources ts = drop index chars" using src by simp
        have "tiled ops rules (take index chars @ ?m) ts" using ih(3) unfolding take_add .
        then show ?thesis unfolding tiled.simps eq using w len by blast
      qed
      moreover have "traces ops edits b (length (as_bytes out)) (MatchTile r ?m # ts) edits'"
        by (rule traces_match [OF ih(4)]) simp_all
      ultimately show ?thesis by blast
    qed
  qed
qed

text \<open>The trace does not change what the pass does.\<close>

definition result_of :: "(utext \<times> nat \<times> positioned_edits option) option \<Rightarrow> (utext \<times> nat) option" where
  "result_of = map_option (\<lambda>(out, applied, _). (out, applied))"

lemma pass_ignores_trace:
  "result_of (pass_from ops n rules chars index b out applied edits)
     = result_of (pass_from ops n' rules chars index b' out applied edits')"
proof (induction ops n rules chars index b out applied edits arbitrary: n' b' edits' rule: pass_from.induct)
  case (1 ops n rules chars index b out applied edits)
  show ?case
  proof (cases "index < length chars")
    case idx: True
    show ?thesis
    proof (cases "winning_rule ops rules chars (map (lower_char ops) chars) index")
      case None
      then show ?thesis
        using 1(1) [OF idx None] idx
        by (subst (1 2) pass_from.simps) simp
    next
      case (Some r)
      show ?thesis
      proof (cases "pattern r = []")
        case True
        then show ?thesis using idx Some by (subst (1 2) pass_from.simps) simp
      next
        case False
        then show ?thesis
          using 1(2) [OF idx Some False refl refl refl refl refl] idx Some
          by (subst (1 2) pass_from.simps) (simp add: Let_def)
      qed
    qed
  qed (simp add: pass_from.simps result_of_def)
qed

lemma inner_ignores_trace:
  "result_of (apply_counting_inner ops n rules t edits) = apply_counting ops rules t"
  unfolding apply_counting_def result_of_def [symmetric]
  using pass_ignores_trace by (simp add: apply_counting_inner_def result_of_def)

lemma compile_rules_longest: "longest_first (compile_rules ops rules)"
proof -
  have "sorted (map (\<lambda>r. - int (length (pattern r))) (compile_rules ops rules))"
    unfolding compile_rules_def by (rule sorted_sort_key)
  then have "sorted_wrt (\<lambda>r s. - int (length (pattern r)) \<le> - int (length (pattern s))) (compile_rules ops rules)"
    by (simp only: sorted_map)
  then show ?thesis unfolding longest_first_def by (rule sorted_wrt_mono_rel [rotated]) simp
qed

lemma valid_rule_text: "is_ok (validate_rule ops r) \<Longrightarrow> rule_from r \<noteq> []"
proof -
  assume "is_ok (validate_rule ops r)"
  then have "normalize_text ops (rule_from r) = Inr (rule_from r)"
    by (cases "normalize_text ops (rule_from r)"; cases "normalize_text ops (rule_to r)")
       (auto simp: validate_rule_def split: if_splits)
  then show ?thesis by (auto simp: normalize_text_def Let_def split: if_splits)
qed

lemma compile_rules_patterns:
  assumes "doc_ok ops d"
  shows "list_all (\<lambda>r. pattern r \<noteq> []) (compile_rules ops (doc_rules d))"
  using assms valid_rule_text
  by (auto simp: doc_ok_def compile_rules_def compile_rule_def list_all_iff)

lemma inner_tiles:
  assumes "doc_ok ops d"
  shows "\<exists>ts edits'. apply_counting_inner ops n (compile_rules ops (doc_rules d)) t edits
      = Some (concat (map (tile_output ops) ts), length (filter is_match ts), edits')
    \<and> sources ts = t \<and> tiled ops (compile_rules ops (doc_rules d)) [] ts
    \<and> traces ops edits 0 0 ts edits'"
proof (cases "compile_rules ops (doc_rules d) = [] \<or> t = []")
  case True
  have kept: "concat (map (tile_output ops) (map KeptTile u)) = u" "sources (map KeptTile u) = u"
    "filter is_match (map KeptTile u) = []" for u by (induction u) auto
  have "compile_rules ops (doc_rules d) = [] \<Longrightarrow> tiled ops (compile_rules ops (doc_rules d)) p (map KeptTile u)" for p u
    by (induction u arbitrary: p) auto
  moreover have "tile_edits ops b a (map KeptTile u) = []" for a b u
    by (induction u arbitrary: a b) (auto simp: Let_def)
  ultimately show ?thesis
    using True kept [of t]
    by (intro exI [of _ "map KeptTile t"] exI [of _ edits])
       (auto simp: apply_counting_inner_def traces_def split: option.splits)
next
  case False
  then show ?thesis
    using pass_tiles [OF compile_rules_longest compile_rules_patterns [OF assms], where n = n and chars = t
        and index = 0 and b = 0 and out = "[]" and applied = 0 and edits = edits]
    by (auto simp: apply_counting_inner_def as_bytes_def)
qed

section \<open>An instance\<close>

text \<open>ASCII case mapping and letter classes, which agree with Unicode's on ASCII texts; any hash will do.\<close>

definition ascii_letter :: "nat \<Rightarrow> bool" where
  "ascii_letter c \<longleftrightarrow> 0x41 \<le> c \<and> c \<le> 0x5A \<or> 0x61 \<le> c \<and> c \<le> 0x7A"

definition ascii_ops :: text_ops where
  "ascii_ops = \<lparr>lowercase = (\<lambda>c. [ascii_lowercase c]),
     uppercase = (\<lambda>c. [if 0x61 \<le> c \<and> c \<le> 0x7A then c - 0x20 else c]),
     str_lowercase = map ascii_lowercase,
     is_alphanumeric = (\<lambda>c. ascii_letter c \<or> 0x30 \<le> c \<and> c \<le> 0x39), is_alphabetic = ascii_letter,
     is_uppercase = (\<lambda>c. 0x41 \<le> c \<and> c \<le> 0x5A), is_lowercase = (\<lambda>c. 0x61 \<le> c \<and> c \<le> 0x7A),
     nfc = id, sha256 = (\<lambda>_. replicate 32 0)\<rparr>"

text \<open>\<open>the\<close>, \<open>the the\<close> and \<open>the the the\<close>.\<close>

definition the1 :: utext where "the1 = [0x74, 0x68, 0x65]"
definition the2 :: utext where "the2 = [0x74, 0x68, 0x65, 0x20, 0x74, 0x68, 0x65]"
definition the3 :: utext where "the3 = [0x74, 0x68, 0x65, 0x20, 0x74, 0x68, 0x65, 0x20, 0x74, 0x68, 0x65]"

definition demo_rule :: lexicon_rule where
  "demo_rule = \<lparr>rule_id = derived_id ascii_ops the2 the1, rule_kind_of = Phrase,
     rule_from = the2, rule_to = the1, whole_word = True, case_insensitive = True,
     rule_source_of = Review, rule_note = None, rule_examples = [], rule_created = []\<rparr>"

definition demo_document :: lexicon_document where
  "demo_document = \<lparr>doc_schema = 1, doc_revision = 1, doc_rules = [demo_rule],
     doc_digest = digest_of ascii_ops [demo_rule]\<rparr>"

definition demo_compiled :: compiled_rule where
  "demo_compiled = \<lparr>compiled_id = derived_id ascii_ops the2 the1, pattern = the2, compiled_to = the1,
     any_case = True\<rparr>"

lemma demo_normalized: "normalize_text ascii_ops the2 = Inr the2" "normalize_text ascii_ops the1 = Inr the1"
  by (simp_all add: normalize_text_def ascii_ops_def the1_def the2_def is_space_def is_control_def
      MAX_RULE_TEXT_CHARS_def)

lemma demo_distinct: "the2 \<noteq> the1" "0x20 \<in> set the2"
  by (simp_all add: the1_def the2_def)

lemma demo_valid: "validate_rule ascii_ops demo_rule = Inr ()"
  by (simp add: validate_rule_def demo_rule_def demo_normalized demo_distinct)

lemma demo_rule_built: "new_rule ascii_ops the2 the1 Review [] = Inr demo_rule"
  by (simp add: new_rule_def demo_normalized demo_rule_def demo_distinct)

lemma demo_document_built: "from_rules ascii_ops (\<lambda>_. 100) 1 [demo_rule] = Inr demo_document"
  by (simp add: from_rules_def demo_valid MAX_RULES_def MAX_LEXICON_BYTES_def Let_def demo_document_def
      LEXICON_SCHEMA_def)

lemma demo_rules: "compile_rules ascii_ops [demo_rule] = [demo_compiled]"
  by (simp add: compile_rules_def compile_rule_def demo_rule_def demo_compiled_def)
     (simp add: the2_def lower_char_def ascii_ops_def ascii_lowercase_def)

lemma demo_chars:
  "map (lower_char ascii_ops) the3 = the3" "map (lower_char ascii_ops) the2 = the2"
  "map (lower_char ascii_ops) the1 = the1"
  "is_word_char ascii_ops 0x74" "is_word_char ascii_ops 0x68" "is_word_char ascii_ops 0x65"
  "\<not> is_word_char ascii_ops 0x20"
  by (simp_all add: the1_def the2_def the3_def lower_char_def ascii_ops_def ascii_lowercase_def
      is_word_char_def ascii_letter_def)

lemma demo_adapted: "adapt_case ascii_ops the1 the2 True = the1"
  by (simp add: adapt_case_def the1_def the2_def ascii_ops_def ascii_letter_def)

lemma demo_passes:
  "apply_counting ascii_ops [demo_compiled] the3 = Some (the2, 1)"
  "apply_counting ascii_ops [demo_compiled] the2 = Some (the1, 1)"
  "apply_counting ascii_ops [demo_compiled] the1 = Some (the1, 0)"
  by (simp_all add: apply_counting_def apply_counting_inner_def)
     (simp_all add: the1_def the2_def the3_def pass_from.simps winning_rule_def matches_at_def
        demo_compiled_def demo_chars lower_char_def adapt_case_def ascii_ops_def ascii_lowercase_def
        ascii_letter_def is_word_char_def)

section \<open>Properties\<close>

lemma from_rules_valid:
  assumes "from_rules ops json_len revision rs = Inr d"
  shows "doc_ok ops d"
proof -
  obtain ds where "dedupe_rules ops [] rs = Inr ds" "doc_rules d = sort_key (rule_order ops) ds"
    using from_rules_facts [OF assms] by blast
  then show ?thesis
    using dedupe_rules_facts(1) [of ops "[]" rs ds] by (simp add: doc_ok_def list_all_iff)
qed

text \<open>C30. A document built from rules is canonical and survives a reload. Every rule in it is valid and
  comes from the list, no two share a spelling up to case, phrases stand before words and both are in
  order of spelling, and the rules are at most the allowed number. The last rule given for a spelling is
  in it. Parsing its serialisation back, of the size that was allowed, accepts it unchanged.\<close>

theorem document_canonical:
  assumes "from_rules ops json_len revision rs = Inr d"
    and "parse bytes = Some d" and "length bytes = json_len d"
  shows "doc_ok ops d \<and> separate_rules ops (doc_rules d) \<and> set (doc_rules d) \<subseteq> set rs
    \<and> sorted (map (rule_order ops) (doc_rules d)) \<and> length (doc_rules d) \<le> MAX_RULES
    \<and> (\<forall>us r vs. rs = us @ r # vs \<longrightarrow> list_all (\<lambda>v. \<not> same_from ops r v) vs \<longrightarrow> r \<in> set (doc_rules d))
    \<and> from_json ops parse bytes = Inr d"
proof -
  obtain ds where ds: "dedupe_rules ops [] rs = Inr ds"
    and d: "doc_rules d = sort_key (rule_order ops) ds" "length ds \<le> MAX_RULES"
      "doc_schema d = LEXICON_SCHEMA" "doc_digest d = digest_of ops (doc_rules d)"
      "json_len d \<le> MAX_LEXICON_BYTES"
    using from_rules_facts [OF assms(1)] by blast
  note f = dedupe_rules_facts [OF ds]
  have ok: "doc_ok ops d" by (rule from_rules_valid [OF assms(1)])
  have "separate_rules ops (doc_rules d)" using f(2) d(1) by (simp add: distinct_map)
  moreover obtain u where "first_rule_error ops (doc_rules d) = Inr u"
    using ok first_rule_error_ok [of ops "doc_rules d"] by (auto simp: doc_ok_def is_ok_iff)
  then have "from_json ops parse bytes = Inr d"
    using assms(2,3) d by (simp add: from_json_def)
  ultimately show ?thesis
    using ok f(3,5) d by (auto simp: sorted_sort_key)
qed

theorem document_canonical_witness:
  "doc_ok ascii_ops demo_document
   \<and> from_json ascii_ops (\<lambda>_. Some demo_document) (replicate 100 0) = Inr demo_document"
  using document_canonical [OF demo_document_built, of "\<lambda>_. Some demo_document" "replicate 100 0"] by simp

text \<open>C29. A pass over a text is exactly the longest-match replacement. For every valid document the pass
  returns, and the text splits into tiles such that: each match is by one of its rules occurring there
  between word boundaries, and no longer rule occurs there; a character is kept only where no rule
  occurs; the output is the tiles with every match replaced and adapted in case; the count is the number
  of matches. A result is reported exactly if the text changed, and a trace without a gap lists exactly
  the changed matches with their byte positions in both texts.\<close>

theorem lexicon_pass_exact:
  assumes "doc_ok ops d"
  shows "\<exists>ts p. (let rules = compile_rules ops (doc_rules d); out = concat (map (tile_output ops) ts)
    in sources ts = t \<and> tiled ops rules [] ts
       \<and> apply_counting ops rules t = Some (out, length (filter is_match ts))
       \<and> apply_rules ops rules t = Some (if out \<noteq> t then Some out else None)
       \<and> apply_traced ops n rules t = Some (if out \<noteq> t then Some out else None, p)
       \<and> (if trace_gap_of p = None then edits_of p = tile_edits ops 0 0 ts else True))"
proof -
  let ?rules = "compile_rules ops (doc_rules d)"
  let ?out = "\<lambda>ts. concat (map (tile_output ops) ts)"
  have unchanged: "?out ts = sources ts" if "filter is_match ts = []" for ts
    using that by (induction ts rule: list.induct) (auto split: if_splits elim!: is_match.elims)
  obtain ts p where b: "apply_counting_inner ops n ?rules t (Some no_edits)
        = Some (?out ts, length (filter is_match ts), Some p)"
    and ts: "sources ts = t" "tiled ops ?rules [] ts"
    and p: "trace_gap_of p = None \<longrightarrow> edits_of p = tile_edits ops 0 0 ts"
    using inner_tiles [OF assms, where n = n and t = t and edits = "Some no_edits"]
    by (auto simp: traces_def no_edits_def split: option.splits)
  have count: "apply_counting ops ?rules t = Some (?out ts, length (filter is_match ts))"
    using inner_ignores_trace [where ops = ops and n = n and rules = ?rules and t = t
        and edits = "Some no_edits"] b by (simp add: result_of_def)
  have "0 < length (filter is_match ts) \<and> ?out ts \<noteq> t \<longleftrightarrow> ?out ts \<noteq> t"
    using unchanged ts(1) by auto
  then show ?thesis
    using ts p count b
    by (intro exI [of _ ts] exI [of _ p]) (simp add: apply_rules_def apply_traced_def Let_def)
qed

theorem lexicon_pass_exact_witness:
  "\<exists>ts. sources ts = the3 \<and> tiled ascii_ops [demo_compiled] [] ts \<and> length (filter is_match ts) = 1"
proof -
  obtain ts where "sources ts = the3" "tiled ascii_ops [demo_compiled] [] ts"
      "apply_counting ascii_ops [demo_compiled] the3
         = Some (concat (map (tile_output ascii_ops) ts), length (filter is_match ts))"
    using lexicon_pass_exact [OF from_rules_valid [OF demo_document_built], of the3 40]
    by (auto simp: demo_document_def demo_rules Let_def)
  then show ?thesis using demo_passes(1) by auto
qed

text \<open>C31. A second pass can change the text again. A lexicon with the single rule that turns
  \<open>the the\<close> into \<open>the\<close> compiles, as the check that no rule rewrites a replacement finds nothing; but it
  turns \<open>the the the\<close> into \<open>the the\<close>, and applied again that into \<open>the\<close>: the check looks at each
  replacement alone, while a match of the second pass may begin in a replacement and end in the text
  after it.\<close>

theorem second_pass_changes:
  "case rbind (new_rule ascii_ops the2 the1 Review []) (\<lambda>r. from_rules ascii_ops (\<lambda>_. 100) 1 [r]) of
     Inl _ \<Rightarrow> False
   | Inr d \<Rightarrow>
       (case compile ascii_ops d of
          Some (Inr l) \<Rightarrow> apply_lexicon ascii_ops l the3 = Some (Some the2)
            \<and> apply_lexicon ascii_ops l the2 = Some (Some the1)
        | _ \<Rightarrow> False)"
proof -
  have distinct: "the3 \<noteq> the2" "the2 \<noteq> the1" by (simp_all add: the1_def the2_def the3_def)
  have "compile ascii_ops demo_document = Some (Inr \<lparr>compiled_rules = [demo_compiled],
      compiled_revision = 1, compiled_digest = doc_digest demo_document\<rparr>)"
    by (simp add: compile_def demo_document_def demo_rules Let_def apply_rules_def demo_passes)
       (simp add: apply_rules_def demo_passes demo_rule_def)
  then show ?thesis
    using distinct
    by (simp add: demo_rule_built demo_document_built apply_lexicon_def apply_rules_def demo_passes
        del: One_nat_def)
qed

end
