(* ===== verification/ActivityTracker.thy ===== *)
theory ActivityTracker
  imports QualityMapping
begin

text \<open>
  The bounded observation of \<open>crates/corti-core/src/activity.rs\<close>: microphone and far-end samples are
  read in order, in one-second bins; five seconds of digital silence on the far end under an active
  microphone are a suspected run, published into the quality record together with the facts about the
  whole input. Samples and energies are of arbitrary types with the few floating-point operations the
  code uses collected in \<open>float_ops\<close>. The callback that emits a run is a function on a state \<open>'s\<close> of
  the caller.
\<close>

record ('f, 'e) float_ops =
  finite_sample :: "'f \<Rightarrow> bool"
  nonzero_sample :: "'f \<Rightarrow> bool"
  zero_peak :: 'f
  max_abs :: "'f \<Rightarrow> 'f \<Rightarrow> 'f"
  zero_energy :: 'e
  add_square :: "'e \<Rightarrow> 'f \<Rightarrow> 'e"
  mean_over :: "'e \<Rightarrow> nat \<Rightarrow> 'e"
  reaches_active :: "'e \<Rightarrow> bool"

definition UNCALIBRATED_SUSTAINED_SECONDS :: nat where "UNCALIBRATED_SUSTAINED_SECONDS = 5"
definition MAX_RETAINED_RATE_HZ :: u32 where "MAX_RETAINED_RATE_HZ = MAX_ACTIVITY_RATE_HZ"

section \<open>State\<close>

record act_epoch =
  act_id :: u32
  act_start :: u64
  act_rate :: u32
  mic_expected :: bool
  tap_expected :: bool

record 'f act_block =
  block_epoch :: act_epoch
  block_start :: u64
  block_mic :: "'f list"
  block_tap :: "'f list"
  block_unavailable :: "bool list"
  availability_known :: bool

record suspected_run =
  run_epoch :: act_epoch
  run_start :: u64
  run_end :: u64

record ('f, 'e) activity_levels =
  level_epoch :: "u32 option"
  level_start :: u64
  level_end :: u64
  complete_second :: bool
  level_mic_observed :: u32
  level_tap_observed :: u32
  mic_mean_square :: "'e option"
  tap_mean_square :: "'e option"
  level_mic_peak :: "'f option"
  level_tap_peak :: "'f option"

record act_facts =
  f_observed :: bool
  f_nonzero :: bool
  f_sustained :: bool
  f_absent :: bool
  f_suspected :: bool
  f_uncertain :: bool
  f_terminal :: bool
  f_saturated :: bool

record ('f, 'e) act_bin =
  bin_start :: u64
  bin_frames :: u32
  bin_mic_observed :: u32
  bin_tap_observed :: u32
  mic_energy :: 'e
  tap_energy :: 'e
  mic_peak :: 'f
  tap_peak :: 'f
  bin_nonzero :: bool

datatype activity_input_error =
    TrackerClosed | InvalidQuality | InvalidEpoch | InvalidAvailability | UnexpectedTrack
  | BackwardPosition | PositionOverflow

record ('f, 'e) activity_state =
  seen_epoch :: "act_epoch option"
  cursor :: u64
  bin :: "('f, 'e) act_bin"
  last_levels :: "('f, 'e) activity_levels option"
  zero_seconds :: nat
  candidate_seconds :: nat
  candidate_start :: u64
  active_run :: "suspected_run option"
  facts :: act_facts
  completed_bins :: u64
  closed_runs :: u64
  dropped_runs :: u64
  saw_frames :: bool
  tracker_closed :: bool
  halted :: bool

definition no_facts :: act_facts where
  "no_facts = \<lparr>f_observed = False, f_nonzero = False, f_sustained = False, f_absent = False,
     f_suspected = False, f_uncertain = False, f_terminal = False, f_saturated = False\<rparr>"

definition empty_bin :: "('f, 'e) float_ops \<Rightarrow> u64 \<Rightarrow> ('f, 'e) act_bin" where
  "empty_bin ops start = \<lparr>bin_start = start, bin_frames = 0, bin_mic_observed = 0, bin_tap_observed = 0,
     mic_energy = zero_energy ops, tap_energy = zero_energy ops, mic_peak = zero_peak ops,
     tap_peak = zero_peak ops, bin_nonzero = False\<rparr>"

definition new_activity :: "('f, 'e) float_ops \<Rightarrow> ('f, 'e) activity_state" where
  "new_activity ops = \<lparr>seen_epoch = None, cursor = 0, bin = empty_bin ops 0, last_levels = None,
     zero_seconds = 0, candidate_seconds = 0, candidate_start = 0, active_run = None, facts = no_facts,
     completed_bins = 0, closed_runs = 0, dropped_runs = 0, saw_frames = False, tracker_closed = False,
     halted = False\<rparr>"

section \<open>Runs and bins\<close>

definition increment :: "u64 \<Rightarrow> bool \<Rightarrow> u64 \<times> bool" where
  "increment counter saturated =
     (case checked_add 64 counter 1 of Some n \<Rightarrow> (n, saturated) | None \<Rightarrow> (counter, True))"

definition count_closed :: "('f, 'e) activity_state \<Rightarrow> ('f, 'e) activity_state" where
  "count_closed a =
     (case increment (closed_runs a) (f_saturated (facts a)) of
        (n, sat) \<Rightarrow> a\<lparr>closed_runs := n, facts := (facts a)\<lparr>f_saturated := sat\<rparr>\<rparr>)"

definition count_lost_run :: "('f, 'e) activity_state \<Rightarrow> ('f, 'e) activity_state" where
  "count_lost_run a =
     (case increment (dropped_runs a) (f_saturated (facts a)) of
        (n, sat) \<Rightarrow> a\<lparr>dropped_runs := n, facts := (facts a)\<lparr>f_saturated := sat\<rparr>\<rparr>)"

definition close_run ::
    "(suspected_run \<Rightarrow> 's \<Rightarrow> bool \<times> 's) \<Rightarrow> ('f, 'e) activity_state \<times> 's \<Rightarrow> ('f, 'e) activity_state \<times> 's" where
  "close_run emit st =
     (case st of (a, s) \<Rightarrow>
       (case active_run a of
          None \<Rightarrow> (a, s)
        | Some run \<Rightarrow>
            (let a1 = count_closed (a\<lparr>active_run := None\<rparr>)
             in case emit run s of
                  (accepted, s') \<Rightarrow> (if accepted then a1 else count_lost_run a1, s'))))"

text \<open>The source expects an epoch here; there is one whenever a bin holds frames.\<close>

definition levels :: "('f, 'e) float_ops \<Rightarrow> ('f, 'e) activity_state \<Rightarrow> bool \<Rightarrow> ('f, 'e) activity_levels" where
  "levels ops a whole =
     (let b = bin a
      in \<lparr>level_epoch = map_option act_id (seen_epoch a), level_start = bin_start b,
          level_end = cursor a, complete_second = whole,
          level_mic_observed = bin_mic_observed b, level_tap_observed = bin_tap_observed b,
          mic_mean_square = (if bin_mic_observed b \<noteq> 0
            then Some (mean_over ops (mic_energy b) (bin_mic_observed b)) else None),
          tap_mean_square = (if bin_tap_observed b \<noteq> 0
            then Some (mean_over ops (tap_energy b) (bin_tap_observed b)) else None),
          level_mic_peak = (if bin_mic_observed b \<noteq> 0 then Some (mic_peak b) else None),
          level_tap_peak = (if bin_tap_observed b \<noteq> 0 then Some (tap_peak b) else None)\<rparr>)"

definition seal_partial :: "('f, 'e) float_ops \<Rightarrow> ('f, 'e) activity_state \<Rightarrow> ('f, 'e) activity_state" where
  "seal_partial ops a =
     (let a1 = (if bin_frames (bin a) \<noteq> 0 then a\<lparr>last_levels := Some (levels ops a False)\<rparr> else a)
      in a1\<lparr>bin := empty_bin ops (cursor a1)\<rparr>)"

definition interrupt ::
    "('f, 'e) float_ops \<Rightarrow> (suspected_run \<Rightarrow> 's \<Rightarrow> bool \<times> 's) \<Rightarrow> ('f, 'e) activity_state \<times> 's
       \<Rightarrow> ('f, 'e) activity_state \<times> 's" where
  "interrupt ops emit st =
     (case st of (a, s) \<Rightarrow>
       (case close_run emit (seal_partial ops (a\<lparr>facts := (facts a)\<lparr>f_uncertain := True\<rparr>\<rparr>), s) of
          (a', s') \<Rightarrow> (a'\<lparr>zero_seconds := 0, candidate_seconds := 0\<rparr>, s')))"

text \<open>The end of a second: sustained silence, and a candidate that grows into a suspected run.\<close>

definition bin_zero :: "act_epoch \<Rightarrow> ('f, 'e) act_bin \<Rightarrow> bool" where
  "bin_zero e b \<longleftrightarrow> tap_expected e \<and> bin_tap_observed b = act_rate e \<and> \<not> bin_nonzero b"

definition bin_active :: "('f, 'e) float_ops \<Rightarrow> act_epoch \<Rightarrow> ('f, 'e) act_bin \<Rightarrow> bool" where
  "bin_active ops e b \<longleftrightarrow> mic_expected e \<and> bin_mic_observed b = act_rate e
     \<and> reaches_active ops (mean_over ops (mic_energy b) (act_rate e))"

definition count_second ::
    "('f, 'e) float_ops \<Rightarrow> act_epoch \<Rightarrow> ('f, 'e) activity_state \<Rightarrow> ('f, 'e) activity_state" where
  "count_second ops e a =
     (case increment (completed_bins a) (f_saturated (facts a)) of
        (n, sat) \<Rightarrow>
          (let zs = (if bin_zero e (bin a)
                     then min (zero_seconds a + 1) UNCALIBRATED_SUSTAINED_SECONDS else 0)
           in a\<lparr>last_levels := Some (levels ops a True), completed_bins := n, zero_seconds := zs,
                facts := (facts a)\<lparr>f_saturated := sat, f_sustained := f_sustained (facts a)
                  \<or> zs = UNCALIBRATED_SUSTAINED_SECONDS\<rparr>\<rparr>))"

definition extend_candidate ::
    "act_epoch \<Rightarrow> ('f, 'e) activity_state \<Rightarrow> ('f, 'e) activity_state" where
  "extend_candidate e a =
     (let a1 = (if candidate_seconds a = 0 then a\<lparr>candidate_start := bin_start (bin a)\<rparr> else a);
          cs = min (candidate_seconds a1 + 1) UNCALIBRATED_SUSTAINED_SECONDS;
          a2 = a1\<lparr>candidate_seconds := cs\<rparr>
      in if cs = UNCALIBRATED_SUSTAINED_SECONDS
         then a2\<lparr>facts := (facts a2)\<lparr>f_suspected := True\<rparr>,
                active_run := Some \<lparr>run_epoch = e, run_start = candidate_start a2, run_end = cursor a2\<rparr>\<rparr>
         else a2)"

definition complete_bin ::
    "('f, 'e) float_ops \<Rightarrow> (suspected_run \<Rightarrow> 's \<Rightarrow> bool \<times> 's) \<Rightarrow> act_epoch \<Rightarrow> ('f, 'e) activity_state \<times> 's
       \<Rightarrow> ('f, 'e) activity_state \<times> 's" where
  "complete_bin ops emit e st =
     (case st of (a, s) \<Rightarrow>
       (let a1 = count_second ops e a
        in case (if bin_zero e (bin a1) \<and> bin_active ops e (bin a1) then (extend_candidate e a1, s)
                 else (case close_run emit (a1, s) of (a2, s') \<Rightarrow> (a2\<lparr>candidate_seconds := 0\<rparr>, s'))) of
             (a3, s') \<Rightarrow> (a3\<lparr>bin := empty_bin ops (cursor a3)\<rparr>, s')))"

section \<open>One frame\<close>

text \<open>The samples of a frame that count: available, present and finite.\<close>

definition frame_available :: "'f act_block \<Rightarrow> nat \<Rightarrow> bool" where
  "frame_available b i \<longleftrightarrow> availability_known b \<and> (block_unavailable b = [] \<or> \<not> block_unavailable b ! i)"

definition sample_at :: "('f, 'e) float_ops \<Rightarrow> bool \<Rightarrow> 'f list \<Rightarrow> nat \<Rightarrow> 'f option" where
  "sample_at ops available xs i =
     (if i < length xs \<and> available \<and> finite_sample ops (xs ! i) then Some (xs ! i) else None)"

definition note_unknown ::
    "(suspected_run \<Rightarrow> 's \<Rightarrow> bool \<times> 's) \<Rightarrow> act_epoch \<Rightarrow> bool \<Rightarrow> 'f option \<Rightarrow> 'f option
       \<Rightarrow> ('f, 'e) activity_state \<times> 's \<Rightarrow> ('f, 'e) activity_state \<times> 's" where
  "note_unknown emit e available mic tap st =
     (let mic_unknown = (mic_expected e \<and> mic = None); tap_unknown = (tap_expected e \<and> tap = None);
          st1 = (if \<not> available \<or> mic_unknown \<or> tap_unknown
                 then (case close_run emit ((fst st)\<lparr>facts := (facts (fst st))\<lparr>f_uncertain := True\<rparr>\<rparr>, snd st) of
                         (a, s) \<Rightarrow> (a\<lparr>candidate_seconds := 0\<rparr>, s))
                 else st)
      in if \<not> available \<or> tap_unknown then ((fst st1)\<lparr>zero_seconds := 0\<rparr>, snd st1) else st1)"

definition note_mic :: "('f, 'e) float_ops \<Rightarrow> 'f option \<Rightarrow> ('f, 'e) act_bin \<Rightarrow> ('f, 'e) act_bin" where
  "note_mic ops mic b =
     (case mic of
        None \<Rightarrow> b
      | Some x \<Rightarrow> b\<lparr>bin_mic_observed := bin_mic_observed b + 1, mic_energy := add_square ops (mic_energy b) x,
                   mic_peak := max_abs ops (mic_peak b) x\<rparr>)"

definition note_tap ::
    "('f, 'e) float_ops \<Rightarrow> (suspected_run \<Rightarrow> 's \<Rightarrow> bool \<times> 's) \<Rightarrow> 'f option \<Rightarrow> ('f, 'e) activity_state \<times> 's
       \<Rightarrow> ('f, 'e) activity_state \<times> 's" where
  "note_tap ops emit tap st =
     (case tap of
        None \<Rightarrow> st
      | Some x \<Rightarrow>
          (case st of (a, s) \<Rightarrow>
            (let b = bin a;
                 a1 = a\<lparr>facts := (facts a)\<lparr>f_observed := True\<rparr>,
                        bin := b\<lparr>bin_tap_observed := bin_tap_observed b + 1,
                          tap_energy := add_square ops (tap_energy b) x,
                          tap_peak := max_abs ops (tap_peak b) x\<rparr>\<rparr>
             in if nonzero_sample ops x
                then (case close_run emit (a1\<lparr>facts := (facts a1)\<lparr>f_nonzero := True\<rparr>,
                                              bin := (bin a1)\<lparr>bin_nonzero := True\<rparr>\<rparr>, s) of
                        (a2, s') \<Rightarrow> (a2\<lparr>zero_seconds := 0, candidate_seconds := 0\<rparr>, s'))
                else (a1, s))))"

definition count_frame ::
    "('f, 'e) float_ops \<Rightarrow> (suspected_run \<Rightarrow> 's \<Rightarrow> bool \<times> 's) \<Rightarrow> 'f act_block \<Rightarrow> nat
       \<Rightarrow> ('f, 'e) activity_state \<times> 's \<Rightarrow> ('f, 'e) activity_state \<times> 's" where
  "count_frame ops emit b i st =
     (let e = block_epoch b;
          available = frame_available b i;
          mic = sample_at ops available (block_mic b) i;
          tap = sample_at ops available (block_tap b) i
      in case note_unknown emit e available mic tap st of
           (a1, s1) \<Rightarrow>
             (case note_tap ops emit tap (a1\<lparr>bin := note_mic ops mic (bin a1)\<rparr>, s1) of
                (a2, s2) \<Rightarrow> (a2\<lparr>bin := (bin a2)\<lparr>bin_frames := bin_frames (bin a2) + 1\<rparr>,
                               cursor := cursor a2 + 1\<rparr>, s2)))"

definition observe_frame ::
    "('f, 'e) float_ops \<Rightarrow> (suspected_run \<Rightarrow> 's \<Rightarrow> bool \<times> 's) \<Rightarrow> 'f act_block \<Rightarrow> nat
       \<Rightarrow> ('f, 'e) activity_state \<times> 's \<Rightarrow> ('f, 'e) activity_state \<times> 's" where
  "observe_frame ops emit b i st =
     (case count_frame ops emit b i st of
        (a, s) \<Rightarrow> if bin_frames (bin a) = act_rate (block_epoch b)
                  then complete_bin ops emit (block_epoch b) (a, s) else (a, s))"

section \<open>Blocks\<close>

definition block_frames :: "'f act_block \<Rightarrow> nat" where
  "block_frames b = max (length (block_mic b)) (length (block_tap b))"

definition block_error :: "('f, 'e) activity_state \<Rightarrow> 'f act_block \<Rightarrow> activity_input_error option" where
  "block_error a b =
     (let e = block_epoch b
      in if act_rate e = 0 \<or> MAX_RETAINED_RATE_HZ < act_rate e \<or> (\<not> mic_expected e \<and> \<not> tap_expected e)
            \<or> block_start b < act_start e
            \<or> is_some_and (seen_epoch a) (\<lambda>old. act_id e < act_id old \<or> (act_id e = act_id old \<and> e \<noteq> old))
         then Some InvalidEpoch
         else if block_unavailable b \<noteq> [] \<and> length (block_unavailable b) \<noteq> block_frames b
         then Some InvalidAvailability
         else if (\<not> mic_expected e \<and> block_mic b \<noteq> []) \<or> (\<not> tap_expected e \<and> block_tap b \<noteq> [])
         then Some UnexpectedTrack
         else if seen_epoch a \<noteq> None
                 \<and> (block_start b < cursor a \<or> (seen_epoch a \<noteq> Some e \<and> act_start e < cursor a))
         then Some BackwardPosition
         else None)"

text \<open>Before the frames of an admitted block: a change of epoch, or a gap inside one.\<close>

definition enter_block ::
    "('f, 'e) float_ops \<Rightarrow> (suspected_run \<Rightarrow> 's \<Rightarrow> bool \<times> 's) \<Rightarrow> 'f act_block \<Rightarrow> ('f, 'e) activity_state \<times> 's
       \<Rightarrow> ('f, 'e) activity_state \<times> 's" where
  "enter_block ops emit b st =
     (case st of (a, s) \<Rightarrow>
       (let e = block_epoch b
        in if seen_epoch a \<noteq> Some e
           then (case close_run emit (seal_partial ops a, s) of
                   (a1, s1) \<Rightarrow>
                     (let gap = (block_start b \<noteq> act_start e
                            \<or> (seen_epoch a1 = None \<and> block_start b \<noteq> 0)
                            \<or> (seen_epoch a1 \<noteq> None \<and> block_start b \<noteq> cursor a1))
                      in (a1\<lparr>zero_seconds := 0, candidate_seconds := 0,
                             facts := (facts a1)\<lparr>f_uncertain := f_uncertain (facts a1) \<or> gap\<rparr>,
                             seen_epoch := Some e, cursor := block_start b,
                             bin := empty_bin ops (block_start b)\<rparr>, s1)))
           else if block_start b \<noteq> cursor a
           then (case interrupt ops emit (a, s) of
                   (a1, s1) \<Rightarrow> (a1\<lparr>cursor := block_start b,
                                  bin := (bin a1)\<lparr>bin_start := block_start b\<rparr>\<rparr>, s1))
           else (a, s)))"

definition push_block ::
    "('f, 'e) float_ops \<Rightarrow> (suspected_run \<Rightarrow> 's \<Rightarrow> bool \<times> 's) \<Rightarrow> 'f act_block \<Rightarrow> ('f, 'e) activity_state \<times> 's
       \<Rightarrow> (activity_input_error + unit) \<times> ('f, 'e) activity_state \<times> 's" where
  "push_block ops emit b st =
     (let a = fst st
      in if tracker_closed a \<or> halted a then (Inl TrackerClosed, st)
         else case block_error a b of
           Some err \<Rightarrow> (Inl err, interrupt ops emit st)
         | None \<Rightarrow>
             if checked_add 64 (block_start b) (block_frames b) = None
             then (case interrupt ops emit st of (a', s') \<Rightarrow> (Inl PositionOverflow, a'\<lparr>halted := True\<rparr>, s'))
             else if block_frames b = 0 then (Inr (), st)
             else (case enter_block ops emit b st of
                     (a1, s1) \<Rightarrow>
                       (let a2 = a1\<lparr>saw_frames := True, facts := (facts a1)\<lparr>f_absent :=
                                    f_absent (facts a1) \<or> \<not> tap_expected (block_epoch b)\<rparr>\<rparr>
                        in (Inr (), foldl (\<lambda>st i. observe_frame ops emit b i st) (a2, s1)
                              [0..<block_frames b]))))"

definition finish_activity ::
    "('f, 'e) float_ops \<Rightarrow> (suspected_run \<Rightarrow> 's \<Rightarrow> bool \<times> 's) \<Rightarrow> u64 option \<Rightarrow> ('f, 'e) activity_state \<times> 's
       \<Rightarrow> ('f, 'e) activity_state \<times> 's" where
  "finish_activity ops emit expected_end st =
     (if tracker_closed (fst st) then st
      else case close_run emit (seal_partial ops (fst st), snd st) of
        (a, s) \<Rightarrow>
          (a\<lparr>facts := (facts a)\<lparr>
               f_terminal := saw_frames a \<and> \<not> halted a \<and> \<not> f_uncertain (facts a)
                 \<and> expected_end = Some (cursor a),
               f_uncertain := f_uncertain (facts a) \<or> expected_end \<noteq> Some (cursor a) \<or> halted a\<rparr>,
             tracker_closed := True\<rparr>, s))"

end
