(* ===== verification/ActivityProps.thy ===== *)
theory ActivityProps
  imports ActivityTracker
begin

text \<open>
  What the activity tracker's reports mean, over every sequence of calls. The frames of the accepted
  blocks are kept as a ghost history; a suspected run is shown to consist of whole seconds of observed
  digital silence under an active microphone, and a complete verdict to cover every frame of the input.
\<close>

section \<open>The observed frames\<close>

record 'f frame_obs =
  at_epoch :: act_epoch
  at_frame :: u64
  seen_available :: bool
  seen_mic :: "'f option"
  seen_tap :: "'f option"

definition frame_of :: "('f, 'e) float_ops \<Rightarrow> 'f act_block \<Rightarrow> nat \<Rightarrow> 'f frame_obs" where
  "frame_of ops b i = \<lparr>at_epoch = block_epoch b, at_frame = block_start b + i,
     seen_available = frame_available b i,
     seen_mic = sample_at ops (frame_available b i) (block_mic b) i,
     seen_tap = sample_at ops (frame_available b i) (block_tap b) i\<rparr>"

definition block_log :: "('f, 'e) float_ops \<Rightarrow> 'f act_block \<Rightarrow> 'f frame_obs set" where
  "block_log ops b = frame_of ops b ` {0..<block_frames b}"

text \<open>Every expected track delivered a sample.\<close>

definition whole_frame :: "'f frame_obs \<Rightarrow> bool" where
  "whole_frame x \<longleftrightarrow> seen_available x \<and> (mic_expected (at_epoch x) \<longrightarrow> seen_mic x \<noteq> None)
     \<and> (tap_expected (at_epoch x) \<longrightarrow> seen_tap x \<noteq> None)"

definition zero_tap :: "('f, 'e) float_ops \<Rightarrow> 'f frame_obs \<Rightarrow> bool" where
  "zero_tap ops x \<longleftrightarrow> is_none_or (seen_tap x) (\<lambda>v. \<not> nonzero_sample ops v)"

definition silent_at :: "('f, 'e) float_ops \<Rightarrow> 'f frame_obs set \<Rightarrow> act_epoch \<Rightarrow> u64 \<Rightarrow> 'f \<Rightarrow> bool" where
  "silent_at ops H e p m \<longleftrightarrow> (\<exists>x\<in>H. at_epoch x = e \<and> at_frame x = p \<and> seen_mic x = Some m
     \<and> seen_tap x \<noteq> None \<and> zero_tap ops x)"

definition silent_from :: "('f, 'e) float_ops \<Rightarrow> 'f frame_obs set \<Rightarrow> act_epoch \<Rightarrow> u64 \<Rightarrow> 'f list \<Rightarrow> bool" where
  "silent_from ops H e p ms \<longleftrightarrow> (\<forall>i<length ms. silent_at ops H e (p + i) (ms ! i))"

definition energy_of :: "('f, 'e) float_ops \<Rightarrow> 'f list \<Rightarrow> 'e" where
  "energy_of ops ms = foldl (add_square ops) (zero_energy ops) ms"

definition silent_second :: "('f, 'e) float_ops \<Rightarrow> 'f frame_obs set \<Rightarrow> act_epoch \<Rightarrow> u64 \<Rightarrow> bool" where
  "silent_second ops H e p \<longleftrightarrow> (\<exists>ms. length ms = act_rate e \<and> silent_from ops H e p ms
     \<and> reaches_active ops (mean_over ops (energy_of ops ms) (act_rate e)))"

definition silent_seconds :: "('f, 'e) float_ops \<Rightarrow> 'f frame_obs set \<Rightarrow> act_epoch \<Rightarrow> u64 \<Rightarrow> nat \<Rightarrow> bool" where
  "silent_seconds ops H e p k \<longleftrightarrow> (\<forall>j<k. silent_second ops H e (p + j * act_rate e))"

text \<open>A run is at least five whole seconds of silence, all of one epoch and without a gap.\<close>

definition silent_run :: "('f, 'e) float_ops \<Rightarrow> 'f frame_obs set \<Rightarrow> suspected_run \<Rightarrow> bool" where
  "silent_run ops H r \<longleftrightarrow> (\<exists>k\<ge>UNCALIBRATED_SUSTAINED_SECONDS.
     run_end r = run_start r + k * act_rate (run_epoch r)
     \<and> silent_seconds ops H (run_epoch r) (run_start r) k)"

lemma silent_at_mono: "silent_at ops H e p m \<Longrightarrow> H \<subseteq> H' \<Longrightarrow> silent_at ops H' e p m"
  unfolding silent_at_def by blast

lemma silent_from_mono: "silent_from ops H e p ms \<Longrightarrow> H \<subseteq> H' \<Longrightarrow> silent_from ops H' e p ms"
  unfolding silent_from_def by (blast intro: silent_at_mono)

lemma silent_second_mono: "silent_second ops H e p \<Longrightarrow> H \<subseteq> H' \<Longrightarrow> silent_second ops H' e p"
  unfolding silent_second_def using silent_from_mono by metis

lemma silent_run_mono: "silent_run ops H r \<Longrightarrow> H \<subseteq> H' \<Longrightarrow> silent_run ops H' r"
  unfolding silent_run_def silent_seconds_def by (metis silent_second_mono)

lemma silent_seconds_Suc:
  "silent_seconds ops H e p k \<Longrightarrow> silent_second ops H e (p + k * act_rate e)
     \<Longrightarrow> silent_seconds ops H e p (Suc k)"
  by (auto simp: silent_seconds_def less_Suc_eq)

lemma silent_from_snoc:
  "silent_from ops H e p ms \<Longrightarrow> silent_at ops H e (p + length ms) m \<Longrightarrow> silent_from ops H e p (ms @ [m])"
  by (auto simp: silent_from_def nth_append less_Suc_eq)

section \<open>The invariant\<close>

definition bin_holds :: "('f, 'e) float_ops \<Rightarrow> 'f frame_obs set \<Rightarrow> act_epoch \<Rightarrow> ('f, 'e) act_bin \<Rightarrow> bool" where
  "bin_holds ops H e b \<longleftrightarrow>
     bin_mic_observed b \<le> bin_frames b \<and> bin_tap_observed b \<le> bin_frames b
     \<and> (bin_mic_observed b = bin_frames b \<and> bin_tap_observed b = bin_frames b \<and> \<not> bin_nonzero b
        \<longrightarrow> (\<exists>ms. length ms = bin_frames b \<and> silent_from ops H e (bin_start b) ms
              \<and> mic_energy b = energy_of ops ms))"

definition candidate_holds ::
    "('f, 'e) float_ops \<Rightarrow> 'f frame_obs set \<Rightarrow> act_epoch \<Rightarrow> ('f, 'e) activity_state \<Rightarrow> bool" where
  "candidate_holds ops H e a \<longleftrightarrow>
     (candidate_seconds a \<noteq> 0 \<longrightarrow> (\<exists>k\<ge>candidate_seconds a.
        candidate_start a + k * act_rate e = bin_start (bin a)
        \<and> silent_seconds ops H e (candidate_start a) k))"

definition epoch_holds :: "('f, 'e) float_ops \<Rightarrow> 'f frame_obs set \<Rightarrow> ('f, 'e) activity_state \<Rightarrow> bool" where
  "epoch_holds ops H a \<longleftrightarrow>
     (case seen_epoch a of
        None \<Rightarrow> bin a = empty_bin ops (cursor a) \<and> candidate_seconds a = 0 \<and> \<not> saw_frames a
      | Some e \<Rightarrow> saw_frames a \<and> 0 < act_rate e \<and> bin_frames (bin a) < act_rate e
          \<and> bin_start (bin a) + bin_frames (bin a) = cursor a
          \<and> bin_holds ops H e (bin a) \<and> candidate_holds ops H e a)"

text \<open>The facts that the evidence of the quality record is validated against.\<close>

definition facts_agree :: "('f, 'e) activity_state \<Rightarrow> bool" where
  "facts_agree a \<longleftrightarrow>
     (f_nonzero (facts a) \<or> f_sustained (facts a) \<or> bin_tap_observed (bin a) \<noteq> 0 \<longrightarrow> f_observed (facts a))
     \<and> (f_suspected (facts a) \<longrightarrow> f_sustained (facts a))
     \<and> candidate_seconds a \<le> zero_seconds a \<and> zero_seconds a \<le> UNCALIBRATED_SUSTAINED_SECONDS
     \<and> (bin_nonzero (bin a) \<longrightarrow> f_nonzero (facts a))"

text \<open>As long as nothing was uncertain, every frame up to the cursor was observed on every track.\<close>

definition observed_to :: "('f, 'e) float_ops \<Rightarrow> 'f frame_obs set \<Rightarrow> act_facts \<Rightarrow> u64 \<Rightarrow> bool" where
  "observed_to ops H f fin \<longleftrightarrow>
     (\<forall>p<fin. \<exists>x\<in>H. at_frame x = p \<and> whole_frame x \<and> (f_nonzero f \<or> zero_tap ops x)
        \<and> (f_observed f \<or> \<not> tap_expected (at_epoch x)) \<and> (f_absent f \<or> tap_expected (at_epoch x)))"

definition coverage_holds :: "('f, 'e) float_ops \<Rightarrow> 'f frame_obs set \<Rightarrow> ('f, 'e) activity_state \<Rightarrow> bool" where
  "coverage_holds ops H a \<longleftrightarrow>
     (saw_frames a \<and> \<not> f_uncertain (facts a) \<longrightarrow> observed_to ops H (facts a) (cursor a))
     \<and> (f_terminal (facts a) \<longrightarrow> tracker_closed a \<and> 0 < cursor a \<and> observed_to ops H (facts a) (cursor a))"

definition tracker_ok :: "('f, 'e) float_ops \<Rightarrow> 'f frame_obs set \<Rightarrow> ('f, 'e) activity_state \<Rightarrow> bool" where
  "tracker_ok ops H a \<longleftrightarrow>
     (tracker_closed a \<or> epoch_holds ops H a) \<and> facts_agree a \<and> coverage_holds ops H a
     \<and> (saw_frames a \<longrightarrow> 0 < cursor a)
     \<and> (case active_run a of None \<Rightarrow> True | Some r \<Rightarrow> silent_run ops H r)"

lemmas tracker_ok_defs = tracker_ok_def epoch_holds_def facts_agree_def coverage_holds_def

lemma observed_to_mono: "observed_to ops H f n \<Longrightarrow> H \<subseteq> H' \<Longrightarrow> observed_to ops H' f n"
  unfolding observed_to_def by blast

lemma bin_holds_mono: "bin_holds ops H e b \<Longrightarrow> H \<subseteq> H' \<Longrightarrow> bin_holds ops H' e b"
  unfolding bin_holds_def using silent_from_mono by blast

lemma candidate_holds_mono: "candidate_holds ops H e a \<Longrightarrow> H \<subseteq> H' \<Longrightarrow> candidate_holds ops H' e a"
  unfolding candidate_holds_def silent_seconds_def using silent_second_mono by blast

lemma tracker_ok_mono:
  assumes "tracker_ok ops H a" and "H \<subseteq> H'"
  shows "tracker_ok ops H' a"
proof -
  have "epoch_holds ops H' a" if "epoch_holds ops H a"
    using that bin_holds_mono [OF _ assms(2)] candidate_holds_mono [OF _ assms(2)]
    by (auto simp: epoch_holds_def split: option.splits)
  moreover have "coverage_holds ops H' a"
    using assms(1) observed_to_mono [OF _ assms(2)] unfolding tracker_ok_def coverage_holds_def by blast
  ultimately show ?thesis
    using assms silent_run_mono [OF _ assms(2)] by (auto simp: tracker_ok_def split: option.splits)
qed

lemma new_activity_ok: "tracker_ok ops H (new_activity ops)"
  by (simp add: tracker_ok_defs new_activity_def empty_bin_def no_facts_def)

section \<open>What a closing run leaves alone\<close>

text \<open>
  The tracker hands closed runs to its caller. The caller's side of that interface is a locale: given
  runs that really are silent, the sink keeps a property of its own state.
\<close>

locale run_sink =
  fixes ops :: "('f, 'e) float_ops"
    and H :: "'f frame_obs set"
    and emit :: "suspected_run \<Rightarrow> 's \<Rightarrow> bool \<times> 's"
    and keeps :: "'s \<Rightarrow> bool"
  assumes emit_keeps: "silent_run ops H r \<Longrightarrow> keeps s \<Longrightarrow> keeps (snd (emit r s))"

definition same_but_run :: "('f, 'e) activity_state \<Rightarrow> ('f, 'e) activity_state \<Rightarrow> bool" where
  "same_but_run a a' \<longleftrightarrow> (\<exists>n m sat. a' = a\<lparr>active_run := None, closed_runs := n, dropped_runs := m,
     facts := (facts a)\<lparr>f_saturated := sat\<rparr>\<rparr>)"

lemma close_run_same: "same_but_run a (fst (close_run emit (a, s)))"
  unfolding same_but_run_def
proof (intro exI)
  let ?a = "fst (close_run emit (a, s))"
  show "?a = a\<lparr>active_run := None, closed_runs := closed_runs ?a, dropped_runs := dropped_runs ?a,
      facts := (facts a)\<lparr>f_saturated := f_saturated (facts ?a)\<rparr>\<rparr>"
    by (cases a; cases "facts a"; cases "active_run a")
       (auto simp: close_run_def count_closed_def count_lost_run_def Let_def split: prod.splits)
qed

lemma same_but_run_sel:
  assumes "same_but_run a a'"
  shows "cursor a' = cursor a" "bin a' = bin a" "seen_epoch a' = seen_epoch a" "active_run a' = None"
    "candidate_seconds a' = candidate_seconds a" "candidate_start a' = candidate_start a"
    "zero_seconds a' = zero_seconds a" "saw_frames a' = saw_frames a" "halted a' = halted a"
    "tracker_closed a' = tracker_closed a"
    "f_nonzero (facts a') = f_nonzero (facts a)" "f_observed (facts a') = f_observed (facts a)"
    "f_sustained (facts a') = f_sustained (facts a)" "f_absent (facts a') = f_absent (facts a)"
    "f_suspected (facts a') = f_suspected (facts a)" "f_uncertain (facts a') = f_uncertain (facts a)"
    "f_terminal (facts a') = f_terminal (facts a)"
  using assms by (auto simp: same_but_run_def)

lemmas close_run_sel [simp] = same_but_run_sel [OF close_run_same]

lemma observed_to_facts:
  assumes "observed_to ops H f n"
    and "f_nonzero f \<Longrightarrow> f_nonzero g" and "f_observed f \<Longrightarrow> f_observed g" and "f_absent f \<Longrightarrow> f_absent g"
  shows "observed_to ops H g n"
  using assms unfolding observed_to_def by blast

lemma observed_to_same:
  "observed_to ops H (facts (fst (close_run emit (a, s)))) n \<longleftrightarrow> observed_to ops H (facts a) n"
  by (simp add: observed_to_def)

lemma candidate_holds_close [simp]:
  "candidate_holds ops H e (fst (close_run emit (a, s))) \<longleftrightarrow> candidate_holds ops H e a"
  by (simp add: candidate_holds_def)

lemma tracker_ok_close:
  "tracker_ok ops H a \<Longrightarrow> tracker_ok ops H (fst (close_run emit (a, s)))"
  by (auto simp: tracker_ok_defs observed_to_same split: option.splits)

lemma seal_partial_sel [simp]:
  "bin (seal_partial ops a) = empty_bin ops (cursor a)" "cursor (seal_partial ops a) = cursor a"
  "seen_epoch (seal_partial ops a) = seen_epoch a" "facts (seal_partial ops a) = facts a"
  "active_run (seal_partial ops a) = active_run a" "zero_seconds (seal_partial ops a) = zero_seconds a"
  "candidate_seconds (seal_partial ops a) = candidate_seconds a"
  "saw_frames (seal_partial ops a) = saw_frames a" "halted (seal_partial ops a) = halted a"
  "tracker_closed (seal_partial ops a) = tracker_closed a"
  by (auto simp: seal_partial_def Let_def)

lemma empty_bin_sel [simp]:
  "bin_start (empty_bin ops p) = p" "bin_frames (empty_bin ops p) = 0"
  "bin_mic_observed (empty_bin ops p) = 0" "bin_tap_observed (empty_bin ops p) = 0"
  "mic_energy (empty_bin ops p) = zero_energy ops" "\<not> bin_nonzero (empty_bin ops p)"
  by (auto simp: empty_bin_def)

lemma bin_holds_empty [simp]: "bin_holds ops H e (empty_bin ops p)"
  by (simp add: bin_holds_def silent_from_def energy_of_def)

section \<open>Interruptions and the start of a block\<close>

definition loop_ok ::
    "('f, 'e) float_ops \<Rightarrow> 'f frame_obs set \<Rightarrow> act_epoch \<Rightarrow> ('f, 'e) activity_state \<Rightarrow> bool" where
  "loop_ok ops H e a \<longleftrightarrow>
     seen_epoch a = Some e \<and> \<not> tracker_closed a \<and> \<not> f_terminal (facts a) \<and> saw_frames a
     \<and> 0 < act_rate e \<and> bin_start (bin a) + bin_frames (bin a) = cursor a
     \<and> bin_holds ops H e (bin a) \<and> candidate_holds ops H e a \<and> facts_agree a
     \<and> (f_absent (facts a) \<or> tap_expected e)
     \<and> (\<not> f_uncertain (facts a) \<longrightarrow> observed_to ops H (facts a) (cursor a))
     \<and> (case active_run a of None \<Rightarrow> True | Some r \<Rightarrow> silent_run ops H r)"

lemma loop_ok_tracker:
  "loop_ok ops H e a \<Longrightarrow> bin_frames (bin a) < act_rate e \<Longrightarrow> 0 < cursor a \<Longrightarrow> tracker_ok ops H a"
  by (simp add: loop_ok_def tracker_ok_def epoch_holds_def coverage_holds_def)

lemma interrupt_fst:
  "fst (interrupt ops emit (a, s))
     = (fst (close_run emit (seal_partial ops (a\<lparr>facts := (facts a)\<lparr>f_uncertain := True\<rparr>\<rparr>), s)))
         \<lparr>zero_seconds := 0, candidate_seconds := 0\<rparr>"
  "snd (interrupt ops emit (a, s))
     = snd (close_run emit (seal_partial ops (a\<lparr>facts := (facts a)\<lparr>f_uncertain := True\<rparr>\<rparr>), s))"
  by (auto simp: interrupt_def split: prod.splits)

lemma interrupt_sel [simp]:
  "bin (fst (interrupt ops emit (a, s))) = empty_bin ops (cursor a)"
  "cursor (fst (interrupt ops emit (a, s))) = cursor a"
  "seen_epoch (fst (interrupt ops emit (a, s))) = seen_epoch a"
  "f_uncertain (facts (fst (interrupt ops emit (a, s))))"
  "candidate_seconds (fst (interrupt ops emit (a, s))) = 0"
  "zero_seconds (fst (interrupt ops emit (a, s))) = 0"
  "active_run (fst (interrupt ops emit (a, s))) = None"
  "saw_frames (fst (interrupt ops emit (a, s))) = saw_frames a"
  "tracker_closed (fst (interrupt ops emit (a, s))) = tracker_closed a"
  "f_nonzero (facts (fst (interrupt ops emit (a, s)))) = f_nonzero (facts a)"
  "f_observed (facts (fst (interrupt ops emit (a, s)))) = f_observed (facts a)"
  "f_sustained (facts (fst (interrupt ops emit (a, s)))) = f_sustained (facts a)"
  "f_suspected (facts (fst (interrupt ops emit (a, s)))) = f_suspected (facts a)"
  "f_absent (facts (fst (interrupt ops emit (a, s)))) = f_absent (facts a)"
  "f_terminal (facts (fst (interrupt ops emit (a, s)))) = f_terminal (facts a)"
  by (simp_all add: interrupt_fst)

lemma interrupt_ok:
  assumes "tracker_ok ops H a"
  shows "tracker_ok ops H (fst (interrupt ops emit (a, s)))"
  using assms
  by (auto simp: tracker_ok_defs candidate_holds_def observed_to_def split: option.splits)

lemma enter_block_same:
  "seen_epoch a = Some (block_epoch b) \<Longrightarrow> block_start b = cursor a \<Longrightarrow> enter_block ops emit b (a, s) = (a, s)"
  "seen_epoch a = Some (block_epoch b) \<Longrightarrow> block_start b \<noteq> cursor a \<Longrightarrow>
     enter_block ops emit b (a, s) = ((fst (interrupt ops emit (a, s)))\<lparr>cursor := block_start b,
         bin := empty_bin ops (block_start b)\<rparr>, snd (interrupt ops emit (a, s)))"
proof -
  assume *: "seen_epoch a = Some (block_epoch b)" "block_start b \<noteq> cursor a"
  obtain a' s' where i: "interrupt ops emit (a, s) = (a', s')" by fastforce
  then have "bin a' = empty_bin ops (cursor a)" using interrupt_sel(1) [of ops emit a s] by simp
  then show "enter_block ops emit b (a, s) = ((fst (interrupt ops emit (a, s)))\<lparr>cursor := block_start b,
         bin := empty_bin ops (block_start b)\<rparr>, snd (interrupt ops emit (a, s)))"
    using * by (simp add: enter_block_def Let_def i empty_bin_def)
qed (simp add: enter_block_def)

lemma enter_block_change:
  assumes "seen_epoch a \<noteq> Some (block_epoch b)"
  shows "enter_block ops emit b (a, s) =
    ((fst (close_run emit (seal_partial ops a, s)))\<lparr>zero_seconds := 0, candidate_seconds := 0,
        facts := (facts (fst (close_run emit (seal_partial ops a, s))))\<lparr>f_uncertain := f_uncertain (facts a)
          \<or> block_start b \<noteq> act_start (block_epoch b) \<or> (seen_epoch a = None \<and> block_start b \<noteq> 0)
          \<or> (seen_epoch a \<noteq> None \<and> block_start b \<noteq> cursor a)\<rparr>,
        seen_epoch := Some (block_epoch b), cursor := block_start b,
        bin := empty_bin ops (block_start b)\<rparr>, snd (close_run emit (seal_partial ops a, s)))"
proof -
  obtain a' s' where i: "close_run emit (seal_partial ops a, s) = (a', s')" by fastforce
  have sel: "seen_epoch a' = seen_epoch a" "cursor a' = cursor a"
    using close_run_sel [of emit "seal_partial ops a" s] by (simp_all add: i)
  have "f_uncertain (facts a') = f_uncertain (facts a)"
    using close_run_sel(16) [of emit "seal_partial ops a" s] by (simp add: i)
  then show ?thesis
    using assms sel(1,2) by (simp add: enter_block_def Let_def i)
qed

text \<open>The state in which the frames of an admitted block are counted.\<close>

definition admit_block :: "'f act_block \<Rightarrow> ('f, 'e) activity_state \<Rightarrow> ('f, 'e) activity_state" where
  "admit_block b a = a\<lparr>saw_frames := True, facts := (facts a)\<lparr>f_absent :=
     f_absent (facts a) \<or> \<not> tap_expected (block_epoch b)\<rparr>\<rparr>"

lemma observed_to_zero [simp]: "observed_to ops H f 0"
  by (simp add: observed_to_def)

lemma observed_to_flags [simp]:
  "observed_to ops H (f\<lparr>f_uncertain := u\<rparr>) n \<longleftrightarrow> observed_to ops H f n"
  "observed_to ops H (f\<lparr>f_terminal := u\<rparr>) n \<longleftrightarrow> observed_to ops H f n"
  "observed_to ops H (f\<lparr>f_sustained := u\<rparr>) n \<longleftrightarrow> observed_to ops H f n"
  "observed_to ops H (f\<lparr>f_suspected := u\<rparr>) n \<longleftrightarrow> observed_to ops H f n"
  "observed_to ops H (f\<lparr>f_saturated := u\<rparr>) n \<longleftrightarrow> observed_to ops H f n"
  by (simp_all add: observed_to_def)

lemma observed_to_absent:
  "observed_to ops H f n \<Longrightarrow> observed_to ops H (f\<lparr>f_absent := f_absent f \<or> u\<rparr>) n"
  by (erule observed_to_facts) auto

declare observed_to_same [simp]

lemma enter_block_ok:
  assumes ok: "tracker_ok ops H a" and live: "\<not> tracker_closed a" and rate: "0 < act_rate (block_epoch b)"
  shows "loop_ok ops H (block_epoch b) (admit_block b (fst (enter_block ops emit b (a, s))))
    \<and> cursor (fst (enter_block ops emit b (a, s))) = block_start b
    \<and> bin_frames (bin (fst (enter_block ops emit b (a, s)))) < act_rate (block_epoch b)"
proof -
  have base: "\<not> f_terminal (facts a)" "facts_agree a" "epoch_holds ops H a"
    "saw_frames a \<Longrightarrow> \<not> f_uncertain (facts a) \<Longrightarrow> observed_to ops H (facts a) (cursor a)"
    "case active_run a of None \<Rightarrow> True | Some r \<Rightarrow> silent_run ops H r"
    using ok live by (auto simp: tracker_ok_def coverage_holds_def)
  show ?thesis
  proof (cases "seen_epoch a = Some (block_epoch b)")
    case same: True
    then have e: "saw_frames a" "bin_frames (bin a) < act_rate (block_epoch b)"
      "bin_start (bin a) + bin_frames (bin a) = cursor a"
      "bin_holds ops H (block_epoch b) (bin a)" "candidate_holds ops H (block_epoch b) a"
      using base(3) by (simp_all add: epoch_holds_def)
    show ?thesis
    proof (cases "block_start b = cursor a")
      case True
      then show ?thesis
        using rate live base(1,2,4,5) e same observed_to_absent [of ops H "facts a" "cursor a"]
        by (simp add: enter_block_same admit_block_def loop_ok_def facts_agree_def candidate_holds_def)
    next
      case False
      then show ?thesis
        using rate live base(1,2) e same
        by (simp add: enter_block_same admit_block_def loop_ok_def facts_agree_def candidate_holds_def)
    qed
  next
    case False
    have "seen_epoch a \<noteq> None \<Longrightarrow> saw_frames a"
      using base(3) by (auto simp: epoch_holds_def split: option.splits)
    then have "\<not> f_uncertain (facts a) \<and> (seen_epoch a = None \<longrightarrow> block_start b = 0)
        \<and> (seen_epoch a \<noteq> None \<longrightarrow> block_start b = cursor a) \<Longrightarrow> observed_to ops H (facts a) (block_start b)"
      using base(4) by (cases "seen_epoch a") auto
    moreover have "\<not> f_uncertain (facts (fst (enter_block ops emit b (a, s)))) \<Longrightarrow> \<not> f_uncertain (facts a)
        \<and> (seen_epoch a = None \<longrightarrow> block_start b = 0) \<and> (seen_epoch a \<noteq> None \<longrightarrow> block_start b = cursor a)"
      using False by (auto simp: enter_block_change)
    ultimately have o: "\<not> f_uncertain (facts (fst (enter_block ops emit b (a, s)))) \<Longrightarrow>
        observed_to ops H (facts a) (block_start b)"
      by blast
    have "\<not> f_uncertain (facts (fst (enter_block ops emit b (a, s)))) \<Longrightarrow>
        observed_to ops H (facts (admit_block b (fst (enter_block ops emit b (a, s))))) (block_start b)"
      by (rule observed_to_facts [OF o]) (simp_all add: enter_block_change False admit_block_def)
    then show ?thesis
      using rate live base(1,2) False
      by (simp add: enter_block_change admit_block_def loop_ok_def facts_agree_def candidate_holds_def)
  qed
qed

section \<open>One frame\<close>

definition tap_nonzero :: "('f, 'e) float_ops \<Rightarrow> 'f option \<Rightarrow> bool" where
  "tap_nonzero ops tap \<longleftrightarrow> is_some_and tap (nonzero_sample ops)"

definition frame_bad :: "act_epoch \<Rightarrow> bool \<Rightarrow> 'f option \<Rightarrow> 'f option \<Rightarrow> bool" where
  "frame_bad e available mic tap \<longleftrightarrow>
     \<not> available \<or> (mic_expected e \<and> mic = None) \<or> (tap_expected e \<and> tap = None)"

lemma note_unknown_sel:
  fixes emit :: "suspected_run \<Rightarrow> 's \<Rightarrow> bool \<times> 's"
  defines "f \<equiv> \<lambda>e available mic tap a s. fst (note_unknown emit e available mic tap (a, s))"
  shows "bin (f e v m t a s) = bin a" "cursor (f e v m t a s) = cursor a"
    "seen_epoch (f e v m t a s) = seen_epoch a" "saw_frames (f e v m t a s) = saw_frames a"
    "tracker_closed (f e v m t a s) = tracker_closed a"
    "f_nonzero (facts (f e v m t a s)) = f_nonzero (facts a)"
    "f_observed (facts (f e v m t a s)) = f_observed (facts a)"
    "f_sustained (facts (f e v m t a s)) = f_sustained (facts a)"
    "f_suspected (facts (f e v m t a s)) = f_suspected (facts a)"
    "f_absent (facts (f e v m t a s)) = f_absent (facts a)"
    "f_terminal (facts (f e v m t a s)) = f_terminal (facts a)"
    "f_uncertain (facts (f e v m t a s)) = (f_uncertain (facts a) \<or> frame_bad e v m t)"
    "candidate_seconds (f e v m t a s) = (if frame_bad e v m t then 0 else candidate_seconds a)"
    "candidate_start (f e v m t a s) = candidate_start a"
    "zero_seconds (f e v m t a s) = (if \<not> v \<or> (tap_expected e \<and> t = None) then 0 else zero_seconds a)"
    "active_run (f e v m t a s) = (if frame_bad e v m t then None else active_run a)"
  unfolding f_def note_unknown_def Let_def frame_bad_def
  by (auto simp: case_prod_beta)

lemma note_tap_sel:
  fixes emit :: "suspected_run \<Rightarrow> 's \<Rightarrow> bool \<times> 's"
  defines "f \<equiv> \<lambda>ops tap a s. fst (note_tap ops emit tap (a, s))"
  shows "cursor (f ops t a s) = cursor a"
    "seen_epoch (f ops t a s) = seen_epoch a" "saw_frames (f ops t a s) = saw_frames a"
    "tracker_closed (f ops t a s) = tracker_closed a"
    "f_nonzero (facts (f ops t a s)) = (f_nonzero (facts a) \<or> tap_nonzero ops t)"
    "f_observed (facts (f ops t a s)) = (f_observed (facts a) \<or> t \<noteq> None)"
    "f_sustained (facts (f ops t a s)) = f_sustained (facts a)"
    "f_suspected (facts (f ops t a s)) = f_suspected (facts a)"
    "f_absent (facts (f ops t a s)) = f_absent (facts a)"
    "f_terminal (facts (f ops t a s)) = f_terminal (facts a)"
    "f_uncertain (facts (f ops t a s)) = f_uncertain (facts a)"
    "candidate_seconds (f ops t a s) = (if tap_nonzero ops t then 0 else candidate_seconds a)"
    "candidate_start (f ops t a s) = candidate_start a"
    "zero_seconds (f ops t a s) = (if tap_nonzero ops t then 0 else zero_seconds a)"
    "active_run (f ops t a s) = (if tap_nonzero ops t then None else active_run a)"
    "bin_start (bin (f ops t a s)) = bin_start (bin a)"
    "bin_frames (bin (f ops t a s)) = bin_frames (bin a)"
    "bin_mic_observed (bin (f ops t a s)) = bin_mic_observed (bin a)"
    "mic_energy (bin (f ops t a s)) = mic_energy (bin a)"
    "bin_tap_observed (bin (f ops t a s)) = bin_tap_observed (bin a) + (if t = None then 0 else 1)"
    "bin_nonzero (bin (f ops t a s)) = (bin_nonzero (bin a) \<or> tap_nonzero ops t)"
  unfolding f_def note_tap_def Let_def tap_nonzero_def
  by (auto simp: case_prod_beta split: option.splits)

lemma note_mic_sel [simp]:
  "bin_start (note_mic ops m b) = bin_start b" "bin_frames (note_mic ops m b) = bin_frames b"
  "bin_tap_observed (note_mic ops m b) = bin_tap_observed b" "bin_nonzero (note_mic ops m b) = bin_nonzero b"
  "bin_mic_observed (note_mic ops m b) = bin_mic_observed b + (if m = None then 0 else 1)"
  "m = Some x \<Longrightarrow> mic_energy (note_mic ops m b) = add_square ops (mic_energy b) x"
  by (auto simp: note_mic_def split: option.splits)

abbreviation frame_ends_run :: "('f, 'e) float_ops \<Rightarrow> 'f frame_obs \<Rightarrow> bool" where
  "frame_ends_run ops x \<equiv>
     frame_bad (at_epoch x) (seen_available x) (seen_mic x) (seen_tap x) \<or> tap_nonzero ops (seen_tap x)"

lemma tap_nonzero_simps [simp]: "\<not> tap_nonzero ops None" "tap_nonzero ops (Some v) \<longleftrightarrow> nonzero_sample ops v"
  by (simp_all add: tap_nonzero_def)

lemma whole_frame_bad: "whole_frame x \<longleftrightarrow> \<not> frame_bad (at_epoch x) (seen_available x) (seen_mic x) (seen_tap x)"
  by (auto simp: whole_frame_def frame_bad_def)

lemma zero_tap_nonzero: "zero_tap ops x \<longleftrightarrow> \<not> tap_nonzero ops (seen_tap x)"
  by (cases "seen_tap x") (auto simp: zero_tap_def tap_nonzero_def)

lemma count_frame_parts:
  fixes emit :: "suspected_run \<Rightarrow> 's \<Rightarrow> bool \<times> 's"
  shows "\<exists>a1 s1 a2 s2. note_unknown emit (block_epoch b) (frame_available b i)
        (seen_mic (frame_of ops b i)) (seen_tap (frame_of ops b i)) (a, s) = (a1, s1)
     \<and> note_tap ops emit (seen_tap (frame_of ops b i))
         (a1\<lparr>bin := note_mic ops (seen_mic (frame_of ops b i)) (bin a1)\<rparr>, s1) = (a2, s2)
     \<and> count_frame ops emit b i (a, s) = (a2\<lparr>bin := (bin a2)\<lparr>bin_frames := bin_frames (bin a2) + 1\<rparr>,
          cursor := cursor a2 + 1\<rparr>, s2)"
proof -
  obtain a1 s1 where 1: "note_unknown emit (block_epoch b) (frame_available b i)
        (seen_mic (frame_of ops b i)) (seen_tap (frame_of ops b i)) (a, s) = (a1, s1)"
    by fastforce
  obtain a2 s2 where 2: "note_tap ops emit (seen_tap (frame_of ops b i))
         (a1\<lparr>bin := note_mic ops (seen_mic (frame_of ops b i)) (bin a1)\<rparr>, s1) = (a2, s2)"
    by fastforce
  show ?thesis using 1 2 by (simp add: count_frame_def frame_of_def Let_def)
qed

lemma count_frame_sel:
  fixes emit :: "suspected_run \<Rightarrow> 's \<Rightarrow> bool \<times> 's"
  assumes "x = frame_of ops b i" and "a' = fst (count_frame ops emit b i (a, s))"
  shows "cursor a' = cursor a + 1" "seen_epoch a' = seen_epoch a" "saw_frames a' = saw_frames a"
    "tracker_closed a' = tracker_closed a" "candidate_start a' = candidate_start a"
    "f_nonzero (facts a') = (f_nonzero (facts a) \<or> tap_nonzero ops (seen_tap x))"
    "f_observed (facts a') = (f_observed (facts a) \<or> seen_tap x \<noteq> None)"
    "f_sustained (facts a') = f_sustained (facts a)" "f_suspected (facts a') = f_suspected (facts a)"
    "f_absent (facts a') = f_absent (facts a)" "f_terminal (facts a') = f_terminal (facts a)"
    "f_uncertain (facts a') = (f_uncertain (facts a) \<or> \<not> whole_frame x)"
    "candidate_seconds a' = (if frame_ends_run ops x then 0 else candidate_seconds a)"
    "active_run a' = (if frame_ends_run ops x then None else active_run a)"
    "zero_seconds a' = (if \<not> seen_available x \<or> (tap_expected (block_epoch b) \<and> seen_tap x = None)
        \<or> tap_nonzero ops (seen_tap x) then 0 else zero_seconds a)"
    "bin_start (bin a') = bin_start (bin a)" "bin_frames (bin a') = bin_frames (bin a) + 1"
    "bin_mic_observed (bin a') = bin_mic_observed (bin a) + (if seen_mic x = None then 0 else 1)"
    "bin_tap_observed (bin a') = bin_tap_observed (bin a) + (if seen_tap x = None then 0 else 1)"
    "bin_nonzero (bin a') = (bin_nonzero (bin a) \<or> tap_nonzero ops (seen_tap x))"
    "seen_mic x = Some m \<Longrightarrow> mic_energy (bin a') = add_square ops (mic_energy (bin a)) m"
proof -
  let ?x = "frame_of ops b i"
  obtain a1 s1 a2 s2 where p:
    "note_unknown emit (block_epoch b) (frame_available b i) (seen_mic ?x) (seen_tap ?x) (a, s) = (a1, s1)"
    "note_tap ops emit (seen_tap ?x) (a1\<lparr>bin := note_mic ops (seen_mic ?x) (bin a1)\<rparr>, s1) = (a2, s2)"
    "count_frame ops emit b i (a, s) = (a2\<lparr>bin := (bin a2)\<lparr>bin_frames := bin_frames (bin a2) + 1\<rparr>,
          cursor := cursor a2 + 1\<rparr>, s2)"
    using count_frame_parts [of emit b i ops a s] by blast
  have e: "at_epoch ?x = block_epoch b" "seen_available ?x = frame_available b i"
    by (simp_all add: frame_of_def)
  note n = note_unknown_sel [of emit "block_epoch b" "frame_available b i" "seen_mic ?x" "seen_tap ?x" a s,
      unfolded p fst_conv]
  note t = note_tap_sel [of ops emit "seen_tap ?x" "a1\<lparr>bin := note_mic ops (seen_mic ?x) (bin a1)\<rparr>" s1,
      unfolded p fst_conv]
  show "cursor a' = cursor a + 1" "seen_epoch a' = seen_epoch a" "saw_frames a' = saw_frames a"
    "tracker_closed a' = tracker_closed a" "candidate_start a' = candidate_start a"
    "f_nonzero (facts a') = (f_nonzero (facts a) \<or> tap_nonzero ops (seen_tap x))"
    "f_observed (facts a') = (f_observed (facts a) \<or> seen_tap x \<noteq> None)"
    "f_sustained (facts a') = f_sustained (facts a)" "f_suspected (facts a') = f_suspected (facts a)"
    "f_absent (facts a') = f_absent (facts a)" "f_terminal (facts a') = f_terminal (facts a)"
    "f_uncertain (facts a') = (f_uncertain (facts a) \<or> \<not> whole_frame x)"
    "candidate_seconds a' = (if frame_ends_run ops x then 0 else candidate_seconds a)"
    "active_run a' = (if frame_ends_run ops x then None else active_run a)"
    "zero_seconds a' = (if \<not> seen_available x \<or> (tap_expected (block_epoch b) \<and> seen_tap x = None)
        \<or> tap_nonzero ops (seen_tap x) then 0 else zero_seconds a)"
    "bin_start (bin a') = bin_start (bin a)" "bin_frames (bin a') = bin_frames (bin a) + 1"
    "bin_mic_observed (bin a') = bin_mic_observed (bin a) + (if seen_mic x = None then 0 else 1)"
    "bin_tap_observed (bin a') = bin_tap_observed (bin a) + (if seen_tap x = None then 0 else 1)"
    "bin_nonzero (bin a') = (bin_nonzero (bin a) \<or> tap_nonzero ops (seen_tap x))"
    "seen_mic x = Some m \<Longrightarrow> mic_energy (bin a') = add_square ops (mic_energy (bin a)) m"
    using n t by (simp_all add: assms p(3) whole_frame_bad e)
qed

lemma observed_to_Suc:
  assumes "observed_to ops H f n" and "x \<in> H" "at_frame x = n" "whole_frame x"
    and "f_nonzero g = (f_nonzero f \<or> tap_nonzero ops (seen_tap x))"
    and "f_observed g = (f_observed f \<or> seen_tap x \<noteq> None)" and "f_absent g = f_absent f"
    and "f_absent f \<or> tap_expected (at_epoch x)"
  shows "observed_to ops H g (n + 1)"
proof -
  have "f_nonzero g \<or> zero_tap ops x" "f_observed g \<or> \<not> tap_expected (at_epoch x)"
    using assms(4-6) by (auto simp: zero_tap_nonzero whole_frame_def)
  then have "\<exists>x\<in>H. at_frame x = n \<and> whole_frame x \<and> (f_nonzero g \<or> zero_tap ops x)
      \<and> (f_observed g \<or> \<not> tap_expected (at_epoch x)) \<and> (f_absent g \<or> tap_expected (at_epoch x))"
    using assms(2,3,4,7,8) by blast
  moreover have "observed_to ops H g n"
    using assms(1,5,6,7) observed_to_facts [of ops H f n g] by simp
  ultimately show ?thesis by (auto simp: observed_to_def less_Suc_eq)
qed

lemma bin_holds_Suc:
  assumes "bin_holds ops H e b" and "x \<in> H" "at_epoch x = e" "at_frame x = bin_start b + bin_frames b"
    and "bin_start b' = bin_start b" "bin_frames b' = bin_frames b + 1"
    and "bin_mic_observed b' = bin_mic_observed b + (if seen_mic x = None then 0 else 1)"
    and "bin_tap_observed b' = bin_tap_observed b + (if seen_tap x = None then 0 else 1)"
    and "bin_nonzero b' = (bin_nonzero b \<or> tap_nonzero ops (seen_tap x))"
    and "\<And>m. seen_mic x = Some m \<Longrightarrow> mic_energy b' = add_square ops (mic_energy b) m"
  shows "bin_holds ops H e b'"
proof -
  have bd: "bin_mic_observed b \<le> bin_frames b" "bin_tap_observed b \<le> bin_frames b"
    using assms(1) by (simp_all add: bin_holds_def)
  have "\<exists>ms. length ms = bin_frames b' \<and> silent_from ops H e (bin_start b') ms \<and> mic_energy b' = energy_of ops ms"
    if full: "bin_mic_observed b' = bin_frames b'" "bin_tap_observed b' = bin_frames b'" "\<not> bin_nonzero b'"
  proof -
    obtain m t where m: "seen_mic x = Some m" and t: "seen_tap x = Some t"
      using full(1,2) bd assms(6,7,8) by (cases "seen_mic x"; cases "seen_tap x") auto
    then have "bin_mic_observed b = bin_frames b" "bin_tap_observed b = bin_frames b" "\<not> bin_nonzero b"
      "zero_tap ops x"
      using full assms(6-9) by (auto simp: zero_tap_nonzero)
    then obtain ms where ms: "length ms = bin_frames b" "silent_from ops H e (bin_start b) ms"
      "mic_energy b = energy_of ops ms"
      using assms(1) by (auto simp: bin_holds_def)
    have "silent_at ops H e (bin_start b + length ms) m"
      using assms(2,3,4) m t ms(1) \<open>zero_tap ops x\<close> by (auto simp: silent_at_def)
    then have "silent_from ops H e (bin_start b) (ms @ [m])"
      using ms(2) by (rule silent_from_snoc [rotated])
    then show ?thesis
      using ms m assms(5,6,10) by (intro exI [of _ "ms @ [m]"]) (simp add: energy_of_def)
  qed
  then show ?thesis using bd assms(6,7,8) by (simp add: bin_holds_def)
qed

lemma count_frame_ok:
  assumes ok: "loop_ok ops H (block_epoch b) a" and pos: "cursor a = block_start b + i"
    and seen: "frame_of ops b i \<in> H"
  shows "loop_ok ops H (block_epoch b) (fst (count_frame ops emit b i (a, s)))"
proof -
  let ?x = "frame_of ops b i" and ?a = "fst (count_frame ops emit b i (a, s))"
  note sel = count_frame_sel [OF refl refl, where ops = ops and b = b and i = i and emit = emit and a = a and s = s]
  have e: "at_epoch ?x = block_epoch b" "at_frame ?x = block_start b + i"
    by (simp_all add: frame_of_def)
  have l: "bin_holds ops H (block_epoch b) (bin a)" "bin_start (bin a) + bin_frames (bin a) = cursor a"
    "candidate_holds ops H (block_epoch b) a" "facts_agree a" "f_absent (facts a) \<or> tap_expected (block_epoch b)"
    "\<not> f_uncertain (facts a) \<Longrightarrow> observed_to ops H (facts a) (cursor a)"
    using ok by (simp_all add: loop_ok_def)
  have "bin_holds ops H (block_epoch b) (bin ?a)"
    by (rule bin_holds_Suc [OF l(1) seen]) (use sel e pos l(2) in simp_all)
  moreover have "candidate_holds ops H (block_epoch b) ?a"
    using l(3) by (simp add: candidate_holds_def sel)
  moreover have "facts_agree ?a"
    using l(4) e(1) by (auto simp: facts_agree_def sel frame_bad_def)
  moreover have "observed_to ops H (facts ?a) (cursor ?a)" if "\<not> f_uncertain (facts ?a)"
    using that pos e l(5,6) observed_to_Suc [OF _ seen, where ops = ops and f = "facts a" and n = "cursor a" and g = "facts ?a"]
    by (simp add: sel)
  moreover have "case active_run ?a of None \<Rightarrow> True | Some r \<Rightarrow> silent_run ops H r"
    using ok by (auto simp: loop_ok_def sel)
  ultimately show ?thesis
    using ok by (simp add: loop_ok_def sel)
qed

section \<open>The end of a second\<close>

lemma count_second_sel [simp]:
  "bin (count_second ops e a) = bin a" "cursor (count_second ops e a) = cursor a"
  "seen_epoch (count_second ops e a) = seen_epoch a" "saw_frames (count_second ops e a) = saw_frames a"
  "tracker_closed (count_second ops e a) = tracker_closed a" "active_run (count_second ops e a) = active_run a"
  "candidate_seconds (count_second ops e a) = candidate_seconds a"
  "candidate_start (count_second ops e a) = candidate_start a"
  "zero_seconds (count_second ops e a) =
     (if bin_zero e (bin a) then min (zero_seconds a + 1) UNCALIBRATED_SUSTAINED_SECONDS else 0)"
  "f_nonzero (facts (count_second ops e a)) = f_nonzero (facts a)"
  "f_observed (facts (count_second ops e a)) = f_observed (facts a)"
  "f_sustained (facts (count_second ops e a)) = (f_sustained (facts a)
     \<or> zero_seconds (count_second ops e a) = UNCALIBRATED_SUSTAINED_SECONDS)"
  "f_suspected (facts (count_second ops e a)) = f_suspected (facts a)"
  "f_absent (facts (count_second ops e a)) = f_absent (facts a)"
  "f_terminal (facts (count_second ops e a)) = f_terminal (facts a)"
  "f_uncertain (facts (count_second ops e a)) = f_uncertain (facts a)"
  by (simp_all add: count_second_def Let_def split: prod.split)

lemma extend_candidate_sel [simp]:
  "bin (extend_candidate e a) = bin a" "cursor (extend_candidate e a) = cursor a"
  "seen_epoch (extend_candidate e a) = seen_epoch a" "saw_frames (extend_candidate e a) = saw_frames a"
  "tracker_closed (extend_candidate e a) = tracker_closed a" "zero_seconds (extend_candidate e a) = zero_seconds a"
  "candidate_start (extend_candidate e a) =
     (if candidate_seconds a = 0 then bin_start (bin a) else candidate_start a)"
  "candidate_seconds (extend_candidate e a) = min (candidate_seconds a + 1) UNCALIBRATED_SUSTAINED_SECONDS"
  "active_run (extend_candidate e a) =
     (if candidate_seconds (extend_candidate e a) = UNCALIBRATED_SUSTAINED_SECONDS
      then Some \<lparr>run_epoch = e, run_start = candidate_start (extend_candidate e a), run_end = cursor a\<rparr>
      else active_run a)"
  "f_nonzero (facts (extend_candidate e a)) = f_nonzero (facts a)"
  "f_observed (facts (extend_candidate e a)) = f_observed (facts a)"
  "f_sustained (facts (extend_candidate e a)) = f_sustained (facts a)"
  "f_suspected (facts (extend_candidate e a)) = (f_suspected (facts a)
     \<or> candidate_seconds (extend_candidate e a) = UNCALIBRATED_SUSTAINED_SECONDS)"
  "f_absent (facts (extend_candidate e a)) = f_absent (facts a)"
  "f_terminal (facts (extend_candidate e a)) = f_terminal (facts a)"
  "f_uncertain (facts (extend_candidate e a)) = f_uncertain (facts a)"
  by (auto simp: extend_candidate_def Let_def)

lemma complete_bin_cases:
  "bin_zero e (bin a) \<and> bin_active ops e (bin a) \<Longrightarrow> complete_bin ops emit e (a, s) =
     ((extend_candidate e (count_second ops e a))\<lparr>bin := empty_bin ops (cursor a)\<rparr>, s)"
  "\<not> (bin_zero e (bin a) \<and> bin_active ops e (bin a)) \<Longrightarrow> complete_bin ops emit e (a, s) =
     ((fst (close_run emit (count_second ops e a, s)))\<lparr>candidate_seconds := 0, bin := empty_bin ops (cursor a)\<rparr>,
      snd (close_run emit (count_second ops e a, s)))"
proof -
  obtain a' s' where c: "close_run emit (count_second ops e a, s) = (a', s')" by fastforce
  then have "cursor a' = cursor a" using close_run_sel(1) [of emit "count_second ops e a" s] by simp
  with c show "\<not> (bin_zero e (bin a) \<and> bin_active ops e (bin a)) \<Longrightarrow> complete_bin ops emit e (a, s) =
     ((fst (close_run emit (count_second ops e a, s)))\<lparr>candidate_seconds := 0, bin := empty_bin ops (cursor a)\<rparr>,
      snd (close_run emit (count_second ops e a, s)))"
    by (auto simp: complete_bin_def Let_def)
qed (simp add: complete_bin_def Let_def)

lemma bin_silent_second:
  assumes "bin_holds ops H e b" "bin_frames b = act_rate e" "bin_zero e b" "bin_active ops e b"
  shows "silent_second ops H e (bin_start b)"
  using assms by (auto simp: bin_holds_def bin_zero_def bin_active_def silent_second_def)

lemma candidate_grows:
  assumes "candidate_holds ops H e a" and sec: "silent_second ops H e (bin_start (bin a))"
    and "candidate_start a' = (if candidate_seconds a = 0 then bin_start (bin a) else candidate_start a)"
  shows "\<exists>k\<ge>candidate_seconds a + 1. candidate_start a' + k * act_rate e = bin_start (bin a) + act_rate e
     \<and> silent_seconds ops H e (candidate_start a') k"
proof (cases "candidate_seconds a = 0")
  case True
  then show ?thesis using sec assms(3) by (intro exI [of _ 1]) (simp add: silent_seconds_def)
next
  case False
  then obtain k where k: "k \<ge> candidate_seconds a" "candidate_start a + k * act_rate e = bin_start (bin a)"
    "silent_seconds ops H e (candidate_start a) k"
    using assms(1) by (auto simp: candidate_holds_def)
  then show ?thesis
    using sec False assms(3) silent_seconds_Suc [OF k(3)] by (intro exI [of _ "Suc k"]) simp
qed

lemma facts_agree_second:
  assumes "facts_agree a" "0 < act_rate e"
    and "facts a' = facts (count_second ops e a) \<or> facts a' = facts (extend_candidate e (count_second ops e a))
         \<and> bin_zero e (bin a)"
  shows "f_nonzero (facts a') \<or> f_sustained (facts a') \<longrightarrow> f_observed (facts a')"
    "f_suspected (facts a') \<longrightarrow> f_sustained (facts a')"
  using assms by (auto simp: facts_agree_def bin_zero_def UNCALIBRATED_SUSTAINED_SECONDS_def split: if_splits)

lemma complete_bin_ok:
  assumes ok: "loop_ok ops H e a" and full: "bin_frames (bin a) = act_rate e"
  shows "loop_ok ops H e (fst (complete_bin ops emit e (a, s)))"
proof (cases "bin_zero e (bin a) \<and> bin_active ops e (bin a)")
  case grows: True
  let ?c = "extend_candidate e (count_second ops e a)"
  have l: "0 < act_rate e" "bin_start (bin a) + act_rate e = cursor a" "bin_holds ops H e (bin a)"
    "candidate_holds ops H e a" "facts_agree a"
    "\<not> f_uncertain (facts a) \<Longrightarrow> observed_to ops H (facts a) (cursor a)"
    using ok full by (simp_all add: loop_ok_def)
  have c0: "candidate_start ?c = (if candidate_seconds a = 0 then bin_start (bin a) else candidate_start a)"
    by simp
  obtain k where k: "candidate_seconds a + 1 \<le> k" "candidate_start ?c + k * act_rate e = cursor a"
    "silent_seconds ops H e (candidate_start ?c) k"
    using candidate_grows [OF l(4) bin_silent_second [OF l(3) full] c0] grows
    unfolding l(2) by blast
  have run: "case active_run ?c of None \<Rightarrow> True | Some r \<Rightarrow> silent_run ops H r"
  proof (cases "candidate_seconds ?c = UNCALIBRATED_SUSTAINED_SECONDS")
    case True
    then have "UNCALIBRATED_SUSTAINED_SECONDS \<le> k" using k(1) by simp
    then show ?thesis using True k(2,3) by (auto simp: silent_run_def intro!: exI [of _ k])
  next
    case False
    then have "active_run ?c = active_run a" by (simp del: extend_candidate_sel(8))
    then show ?thesis using ok by (simp add: loop_ok_def del: extend_candidate_sel)
  qed
  have cand: "candidate_seconds ?c \<le> k" using k(1) by simp
  have "facts_agree (?c\<lparr>bin := empty_bin ops (cursor a)\<rparr>)"
    using facts_agree_second [OF l(5,1), of ?c ops] grows l(5)
    by (simp add: facts_agree_def min.coboundedI1)
  moreover have "candidate_holds ops H e (?c\<lparr>bin := empty_bin ops (cursor a)\<rparr>)"
    using k(2,3) cand by (auto simp: candidate_holds_def simp del: extend_candidate_sel)
  moreover have "observed_to ops H (facts ?c) (cursor a)" if "\<not> f_uncertain (facts a)"
    by (rule observed_to_facts [OF l(6) [OF that]]) simp_all
  ultimately show ?thesis
    using ok run grows by (simp add: complete_bin_cases loop_ok_def del: extend_candidate_sel(9))
next
  case False
  let ?c = "count_second ops e a"
  let ?d = "(fst (close_run emit (?c, s)))\<lparr>candidate_seconds := 0, bin := empty_bin ops (cursor a)\<rparr>"
  have l: "0 < act_rate e" "facts_agree a" "\<not> f_uncertain (facts a) \<Longrightarrow> observed_to ops H (facts a) (cursor a)"
    using ok by (simp_all add: loop_ok_def)
  have "facts_agree ?d"
    using facts_agree_second [OF l(2,1), of ?c ops] l(2) by (simp add: facts_agree_def)
  moreover have "observed_to ops H (facts ?c) (cursor a)" if "\<not> f_uncertain (facts a)"
    by (rule observed_to_facts [OF l(3) [OF that]]) simp_all
  ultimately show ?thesis
    using ok False by (simp add: complete_bin_cases loop_ok_def candidate_holds_def)
qed

section \<open>The sink keeps its property\<close>

abbreviation run_known :: "('f, 'e) float_ops \<Rightarrow> 'f frame_obs set \<Rightarrow> ('f, 'e) activity_state \<Rightarrow> bool" where
  "run_known ops H a \<equiv> (case active_run a of None \<Rightarrow> True | Some r \<Rightarrow> silent_run ops H r)"

context run_sink
begin

lemma close_run_keeps:
  "run_known ops H a \<Longrightarrow> keeps s \<Longrightarrow> keeps (snd (close_run emit (a, s)))"
  using emit_keeps by (auto simp: close_run_def Let_def case_prod_beta split: option.splits)

lemma interrupt_keeps:
  "run_known ops H a \<Longrightarrow> keeps s \<Longrightarrow> keeps (snd (interrupt ops' emit (a, s)))"
  by (simp add: interrupt_fst close_run_keeps)

lemma enter_block_keeps:
  assumes "run_known ops H a" "keeps s"
  shows "keeps (snd (enter_block ops emit b (a, s)))"
proof (cases "seen_epoch a = Some (block_epoch b)")
  case True
  then show ?thesis
    using assms by (cases "block_start b = cursor a") (simp_all add: enter_block_same interrupt_keeps)
qed (use assms in \<open>simp add: enter_block_change close_run_keeps\<close>)

lemma note_unknown_keeps:
  "run_known ops H a \<Longrightarrow> keeps s \<Longrightarrow> keeps (snd (note_unknown emit e v m t (a, s)))"
  by (auto simp: note_unknown_def Let_def case_prod_beta close_run_keeps)

lemma note_tap_keeps:
  "run_known ops H a \<Longrightarrow> keeps s \<Longrightarrow> keeps (snd (note_tap ops' emit t (a, s)))"
  by (auto simp: note_tap_def Let_def case_prod_beta close_run_keeps split: option.split)

lemma count_frame_keeps:
  assumes "run_known ops H a" "keeps s"
  shows "keeps (snd (count_frame ops emit b i (a, s)))"
proof -
  let ?x = "frame_of ops b i"
  obtain a1 s1 a2 s2 where p:
    "note_unknown emit (block_epoch b) (frame_available b i) (seen_mic ?x) (seen_tap ?x) (a, s) = (a1, s1)"
    "note_tap ops emit (seen_tap ?x) (a1\<lparr>bin := note_mic ops (seen_mic ?x) (bin a1)\<rparr>, s1) = (a2, s2)"
    "count_frame ops emit b i (a, s) = (a2\<lparr>bin := (bin a2)\<lparr>bin_frames := bin_frames (bin a2) + 1\<rparr>,
          cursor := cursor a2 + 1\<rparr>, s2)"
    using count_frame_parts [of emit b i ops a s] by blast
  have "run_known ops H a1"
    using assms(1) note_unknown_sel(16) [of emit "block_epoch b" "frame_available b i" "seen_mic ?x" "seen_tap ?x" a s]
    by (simp add: p(1))
  moreover have "keeps s1"
    using note_unknown_keeps [OF assms, of "block_epoch b" "frame_available b i" "seen_mic ?x" "seen_tap ?x"]
    by (simp add: p(1))
  ultimately have "keeps s2"
    using note_tap_keeps [of "a1\<lparr>bin := note_mic ops (seen_mic ?x) (bin a1)\<rparr>" s1 ops "seen_tap ?x"] by (simp add: p(2))
  then show ?thesis by (simp add: p(3))
qed

lemma complete_bin_keeps:
  "run_known ops H a \<Longrightarrow> keeps s \<Longrightarrow> keeps (snd (complete_bin ops emit e (a, s)))"
  by (cases "bin_zero e (bin a) \<and> bin_active ops e (bin a)")
     (simp_all add: complete_bin_cases close_run_keeps)

lemma observe_frame_ok:
  assumes "loop_ok ops H (block_epoch b) a" "bin_frames (bin a) < act_rate (block_epoch b)"
    and "cursor a = block_start b + i" "frame_of ops b i \<in> H" "keeps s"
    and "observe_frame ops emit b i (a, s) = (a', s')"
  shows "loop_ok ops H (block_epoch b) a'" "bin_frames (bin a') < act_rate (block_epoch b)"
    "cursor a' = block_start b + Suc i" "keeps s'"
proof -
  let ?e = "block_epoch b"
  obtain a1 s1 where c: "count_frame ops emit b i (a, s) = (a1, s1)" by fastforce
  have run: "run_known ops H x" if "loop_ok ops H ?e x" for x using that by (simp add: loop_ok_def)
  have 1: "loop_ok ops H ?e a1" "keeps s1"
    using count_frame_ok [OF assms(1,3,4), of emit s] count_frame_keeps [OF run [OF assms(1)] assms(5), of b i]
    by (simp_all add: c)
  have f: "bin_frames (bin a1) = bin_frames (bin a) + 1" "cursor a1 = block_start b + Suc i"
    using count_frame_sel(1,17) [OF refl refl, where ops = ops and b = b and i = i and emit = emit and a = a and s = s] assms(3)
    by (simp_all add: c)
  have "loop_ok ops H ?e a' \<and> bin_frames (bin a') < act_rate ?e \<and> cursor a' = block_start b + Suc i \<and> keeps s'"
  proof (cases "bin_frames (bin a1) = act_rate ?e")
    case False
    then show ?thesis using assms(2,6) 1 f c by (simp add: observe_frame_def)
  next
    case True
    have "0 < act_rate ?e" using assms(1) by (simp add: loop_ok_def)
    moreover have "bin (fst (complete_bin ops emit ?e (a1, s1))) = empty_bin ops (cursor a1)
        \<and> cursor (fst (complete_bin ops emit ?e (a1, s1))) = cursor a1"
      by (cases "bin_zero ?e (bin a1) \<and> bin_active ops ?e (bin a1)") (simp_all add: complete_bin_cases)
    ultimately show ?thesis
      using assms(6) True c f complete_bin_ok [OF 1(1) True, of emit s1] complete_bin_keeps [OF run [OF 1(1)] 1(2), of ?e]
      by (simp add: observe_frame_def)
  qed
  then show "loop_ok ops H ?e a'" "bin_frames (bin a') < act_rate ?e" "cursor a' = block_start b + Suc i" "keeps s'"
    by simp_all
qed

lemma observe_frames_ok:
  assumes "loop_ok ops H (block_epoch b) a" "bin_frames (bin a) < act_rate (block_epoch b)"
    and "cursor a = block_start b" "\<forall>i<n. frame_of ops b i \<in> H" "keeps s"
    and "foldl (\<lambda>st i. observe_frame ops emit b i st) (a, s) [0..<n] = (a', s')"
  shows "loop_ok ops H (block_epoch b) a' \<and> bin_frames (bin a') < act_rate (block_epoch b)
    \<and> cursor a' = block_start b + n \<and> keeps s'"
  using assms(4,6)
proof (induction n arbitrary: a' s')
  case 0
  then show ?case using assms by simp
next
  case (Suc n)
  obtain a1 s1 where p: "foldl (\<lambda>st i. observe_frame ops emit b i st) (a, s) [0..<n] = (a1, s1)" by fastforce
  then have o: "observe_frame ops emit b n (a1, s1) = (a', s')" using Suc.prems(2) by simp
  show ?case
    using Suc.IH [OF _ p] Suc.prems(1) observe_frame_ok [OF _ _ _ _ _ o] by simp
qed

lemma tracker_ok_run: "tracker_ok ops H a \<Longrightarrow> run_known ops H a"
  by (simp add: tracker_ok_def)

lemma push_block_ok:
  assumes ok: "tracker_ok ops H a" and k: "keeps s" and p: "push_block ops emit b (a, s) = (res, a', s')"
    and seen: "res = Inr () \<Longrightarrow> block_log ops b \<subseteq> H"
  shows "tracker_ok ops H a' \<and> keeps s'"
proof (cases "tracker_closed a \<or> halted a")
  case True
  then show ?thesis using ok k p by (simp add: push_block_def)
next
  case live: False
  note int = interrupt_ok [OF ok, where emit = emit and s = s] interrupt_keeps [OF tracker_ok_run [OF ok] k, of ops]
  show ?thesis
  proof (cases "block_error a b")
    case (Some err)
    then show ?thesis using live p int by (auto simp: push_block_def)
  next
    case None
    then have rate: "0 < act_rate (block_epoch b)" by (auto simp: block_error_def Let_def split: if_splits)
    show ?thesis
    proof (cases "checked_add 64 (block_start b) (block_frames b) = None \<or> block_frames b = 0")
      case True
      have "tracker_ok ops H (x\<lparr>halted := True\<rparr>)" if "tracker_ok ops H x" for x
        using that by (simp add: tracker_ok_def epoch_holds_def facts_agree_def coverage_holds_def candidate_holds_def
            split: option.splits)
      then show ?thesis
        using True live None p int ok k
        by (cases "interrupt ops emit (a, s)")
           (auto simp: push_block_def split: if_splits)
    next
      case False
      obtain a1 s1 where e: "enter_block ops emit b (a, s) = (a1, s1)" by fastforce
      have res: "res = Inr ()"
        and fold: "foldl (\<lambda>st i. observe_frame ops emit b i st) (admit_block b a1, s1) [0..<block_frames b] = (a', s')"
        using False live None p e
        by (simp_all add: push_block_def admit_block_def Let_def)
      have seen': "\<forall>i<block_frames b. frame_of ops b i \<in> H"
        using seen [OF res] by (auto simp: block_log_def)
      have 1: "loop_ok ops H (block_epoch b) (admit_block b a1)" "cursor a1 = block_start b"
        "bin_frames (bin a1) < act_rate (block_epoch b)"
        using enter_block_ok [OF ok _ rate, where emit = emit and s = s] live e by auto
      have "keeps s1" using enter_block_keeps [OF tracker_ok_run [OF ok] k, of b] e by simp
      then have "loop_ok ops H (block_epoch b) a' \<and> bin_frames (bin a') < act_rate (block_epoch b)
          \<and> cursor a' = block_start b + block_frames b \<and> keeps s'"
        using observe_frames_ok [OF 1(1) _ _ seen' _ fold] 1(2,3) by (simp add: admit_block_def)
      then show ?thesis using loop_ok_tracker [of ops H "block_epoch b" a'] False by auto
    qed
  qed
qed

lemma finish_activity_ok:
  assumes ok: "tracker_ok ops H a" and k: "keeps s"
    and f: "finish_activity ops emit authoritative (a, s) = (a', s')"
  shows "tracker_ok ops H a' \<and> keeps s'"
proof (cases "tracker_closed a")
  case True
  then show ?thesis using ok k f by (simp add: finish_activity_def)
next
  case False
  obtain a1 s1 where c: "close_run emit (seal_partial ops a, s) = (a1, s1)" by fastforce
  note sel = close_run_sel [of emit "seal_partial ops a" s, unfolded c fst_conv]
  have "facts_agree a" "\<not> f_terminal (facts a)" "saw_frames a \<longrightarrow> 0 < cursor a"
    "saw_frames a \<and> \<not> f_uncertain (facts a) \<longrightarrow> observed_to ops H (facts a) (cursor a)"
    using ok False by (simp_all add: tracker_ok_def coverage_holds_def)
  then have o: "saw_frames a \<and> \<not> f_uncertain (facts a) \<longrightarrow> observed_to ops H (facts a1) (cursor a)"
    and g: "facts_agree a" "saw_frames a \<longrightarrow> 0 < cursor a"
    by (simp_all add: observed_to_def sel)
  have a': "a' = a1\<lparr>facts := (facts a1)\<lparr>
         f_terminal := saw_frames a \<and> \<not> halted a \<and> \<not> f_uncertain (facts a) \<and> authoritative = Some (cursor a),
         f_uncertain := f_uncertain (facts a) \<or> authoritative \<noteq> Some (cursor a) \<or> halted a\<rparr>,
       tracker_closed := True\<rparr>"
    using f False c by (simp add: finish_activity_def sel)
  have "facts_agree a'" using g(1) by (simp add: a' facts_agree_def sel)
  moreover have "coverage_holds ops H a'"
    using o g(2) by (simp add: a' coverage_holds_def sel)
  ultimately have "tracker_ok ops H a'"
    using g(2) by (simp add: a' tracker_ok_def sel)
  moreover have "keeps s1"
    using close_run_keeps [of "seal_partial ops a" s] tracker_ok_run [OF ok] k by (simp add: c)
  ultimately show ?thesis using f False c by (auto simp: finish_activity_def)
qed

end

section \<open>Sequences of calls\<close>

datatype 'f activity_call = PushCall "'f act_block" | InterruptCall | FinishCall "u64 option"

primrec activity_step ::
    "('f, 'e) float_ops \<Rightarrow> (suspected_run \<Rightarrow> 's \<Rightarrow> bool \<times> 's) \<Rightarrow> 'f activity_call
       \<Rightarrow> ('f, 'e) activity_state \<times> 's \<Rightarrow> ('f, 'e) activity_state \<times> 's" where
  "activity_step ops emit (PushCall b) st = snd (push_block ops emit b st)"
| "activity_step ops emit InterruptCall st = interrupt ops emit st"
| "activity_step ops emit (FinishCall n) st = finish_activity ops emit n st"

text \<open>The frames that a call adds to the observed input: those of an accepted block.\<close>

primrec accepted_frames ::
    "('f, 'e) float_ops \<Rightarrow> (suspected_run \<Rightarrow> 's \<Rightarrow> bool \<times> 's) \<Rightarrow> 'f activity_call
       \<Rightarrow> ('f, 'e) activity_state \<times> 's \<Rightarrow> 'f frame_obs set" where
  "accepted_frames ops emit (PushCall b) st =
     (if fst (push_block ops emit b st) = Inr () then block_log ops b else {})"
| "accepted_frames ops emit InterruptCall st = {}"
| "accepted_frames ops emit (FinishCall n) st = {}"

fun activity_run ::
    "('f, 'e) float_ops \<Rightarrow> (suspected_run \<Rightarrow> 's \<Rightarrow> bool \<times> 's) \<Rightarrow> 'f activity_call list
       \<Rightarrow> ('f, 'e) activity_state \<times> 's \<Rightarrow> ('f, 'e) activity_state \<times> 's" where
  "activity_run ops emit [] st = st"
| "activity_run ops emit (c # cs) st = activity_run ops emit cs (activity_step ops emit c st)"

fun observed_frames ::
    "('f, 'e) float_ops \<Rightarrow> (suspected_run \<Rightarrow> 's \<Rightarrow> bool \<times> 's) \<Rightarrow> 'f activity_call list
       \<Rightarrow> ('f, 'e) activity_state \<times> 's \<Rightarrow> 'f frame_obs set" where
  "observed_frames ops emit [] st = {}"
| "observed_frames ops emit (c # cs) st =
     accepted_frames ops emit c st \<union> observed_frames ops emit cs (activity_step ops emit c st)"

context run_sink
begin

lemma activity_step_ok:
  assumes "tracker_ok ops H (fst st)" "keeps (snd st)" "accepted_frames ops emit c st \<subseteq> H"
  shows "tracker_ok ops H (fst (activity_step ops emit c st)) \<and> keeps (snd (activity_step ops emit c st))"
proof (cases st)
  case (Pair a s)
  show ?thesis
  proof (cases c)
    case (PushCall b)
    obtain res a' s' where p: "push_block ops emit b (a, s) = (res, a', s')" by (metis prod.exhaust)
    show ?thesis
      using push_block_ok [OF _ _ p] assms by (auto simp: Pair PushCall p split: if_splits)
  next
    case InterruptCall
    then show ?thesis
      using assms interrupt_ok [of ops H a emit s] interrupt_keeps [OF tracker_ok_run, of a s ops]
      by (simp add: Pair)
  next
    case (FinishCall n)
    obtain a' s' where "finish_activity ops emit n (a, s) = (a', s')" by fastforce
    then show ?thesis
      using assms finish_activity_ok [of a s n a' s'] by (simp add: Pair FinishCall)
  qed
qed

lemma activity_run_ok:
  "tracker_ok ops H (fst st) \<Longrightarrow> keeps (snd st) \<Longrightarrow> observed_frames ops emit cs st \<subseteq> H \<Longrightarrow>
     tracker_ok ops H (fst (activity_run ops emit cs st)) \<and> keeps (snd (activity_run ops emit cs st))"
  by (induction cs arbitrary: st) (simp_all add: activity_step_ok)

end

text \<open>A sink that lists the runs it was handed, and takes those it likes.\<close>

definition log_run :: "(suspected_run \<Rightarrow> bool) \<Rightarrow> suspected_run \<Rightarrow> suspected_run list \<Rightarrow> bool \<times> suspected_run list" where
  "log_run takes r rs = (takes r, rs @ [r])"

interpretation logged: run_sink ops H "log_run takes" "list_all (silent_run ops H)"
  for ops :: "('f, 'e) float_ops" and H takes
  by unfold_locales (simp add: log_run_def)

text \<open>C26. A suspected run is never reported for audio that was not seen: whatever blocks arrive, in
  whatever order, every run handed out and the open one consist of at least five whole seconds in
  which accepted frames carried a zero far-end sample, with an active microphone.
\<close>

theorem suspected_runs_silent:
  fixes ops :: "('f, 'e) float_ops" and calls :: "'f activity_call list"
  assumes "activity_run ops (log_run takes) calls (new_activity ops, []) = (a, runs)"
    and "r \<in> set runs \<or> active_run a = Some r"
  shows "silent_run ops (observed_frames ops (log_run takes) calls (new_activity ops, [])) r"
proof -
  let ?H = "observed_frames ops (log_run takes) calls (new_activity ops, [])"
  have "tracker_ok ops ?H a \<and> list_all (silent_run ops ?H) runs"
    using logged.activity_run_ok [of ops ?H "(new_activity ops, [])" takes calls] assms(1)
    by (simp add: new_activity_ok)
  then show ?thesis
    using assms(2) by (auto simp: tracker_ok_def list_all_iff)
qed

text \<open>Integer samples, for evaluation: a sample is active from one upwards.\<close>

definition integer_ops :: "(int, int) float_ops" where
  "integer_ops = \<lparr>finite_sample = (\<lambda>_. True), nonzero_sample = (\<lambda>x. x \<noteq> 0), zero_peak = 0,
     max_abs = (\<lambda>p x. max p \<bar>x\<bar>), zero_energy = 0, add_square = (\<lambda>e x. e + x * x),
     mean_over = (\<lambda>e n. e div int n), reaches_active = (\<lambda>e. 1 \<le> e)\<rparr>"

definition quiet_block :: "int act_block" where
  "quiet_block = \<lparr>block_epoch = \<lparr>act_id = 0, act_start = 0, act_rate = 1, mic_expected = True, tap_expected = True\<rparr>,
     block_start = 0, block_mic = [1, 1, 1, 1, 1, 1], block_tap = [0, 0, 0, 0, 0, 1], block_unavailable = [],
     availability_known = True\<rparr>"

lemma increment_small: "increment n f = (if n + 1 < 2 ^ 64 then (n + 1, f) else (n, True))"
  by (auto simp: increment_def checked_add_def)
lemma upto_six: "[0..<6::nat] = [0,1,2,3,4,5]" by (simp add: upt_rec)
lemmas activity_eval = push_block_def block_error_def block_frames_def enter_block_def observe_frame_def
  count_frame_def note_unknown_def note_tap_def note_mic_def complete_bin_def count_second_def
  extend_candidate_def bin_zero_def bin_active_def close_run_def count_closed_def count_lost_run_def
  increment_small seal_partial_def interrupt_def empty_bin_def no_facts_def new_activity_def levels_def
  frame_available_def sample_at_def finish_activity_def UNCALIBRATED_SUSTAINED_SECONDS_def
  MAX_RETAINED_RATE_HZ_def MAX_ACTIVITY_RATE_HZ_def integer_ops_def

theorem suspected_runs_silent_witness:
  "silent_run integer_ops
     (observed_frames integer_ops (log_run (\<lambda>_. True)) [PushCall quiet_block] (new_activity integer_ops, []))
     \<lparr>run_epoch = \<lparr>act_id = 0, act_start = 0, act_rate = 1, mic_expected = True, tap_expected = True\<rparr>,
      run_start = 0, run_end = 5\<rparr>"
proof (rule suspected_runs_silent [OF prod.collapse [symmetric]])
  show "\<lparr>run_epoch = \<lparr>act_id = 0, act_start = 0, act_rate = 1, mic_expected = True, tap_expected = True\<rparr>,
      run_start = 0, run_end = 5\<rparr>
    \<in> set (snd (activity_run integer_ops (log_run (\<lambda>_. True)) [PushCall quiet_block] (new_activity integer_ops, [])))
    \<or> active_run (fst (activity_run integer_ops (log_run (\<lambda>_. True)) [PushCall quiet_block]
        (new_activity integer_ops, []))) = Some
        \<lparr>run_epoch = \<lparr>act_id = 0, act_start = 0, act_rate = 1, mic_expected = True, tap_expected = True\<rparr>,
         run_start = 0, run_end = 5\<rparr>"
    by (simp add: activity_eval quiet_block_def log_run_def Let_def upto_six)
qed

section \<open>Every position is observed once\<close>

definition placed :: "'f frame_obs set \<Rightarrow> ('f, 'e) activity_state \<Rightarrow> bool" where
  "placed H a \<longleftrightarrow> inj_on at_frame H \<and> at_frame ` H \<subseteq> {..<cursor a} \<and> (seen_epoch a = None \<longrightarrow> H = {})"

lemma block_log_positions:
  "inj_on at_frame (block_log ops b)" "at_frame ` block_log ops b = {block_start b..<block_start b + block_frames b}"
proof -
  show "inj_on at_frame (block_log ops b)"
    by (auto simp: block_log_def frame_of_def intro!: inj_onI)
  have "at_frame ` block_log ops b = (+) (block_start b) ` {0..<block_frames b}"
    by (simp add: block_log_def image_image frame_of_def)
  then show "at_frame ` block_log ops b = {block_start b..<block_start b + block_frames b}"
    by (simp add: add.commute)
qed

lemma observe_frame_sel:
  "cursor (fst (observe_frame ops emit b i (a, s))) = cursor a + 1"
  "seen_epoch (fst (observe_frame ops emit b i (a, s))) = seen_epoch a"
proof -
  obtain a1 s1 where c: "count_frame ops emit b i (a, s) = (a1, s1)" by fastforce
  have "cursor a1 = cursor a + 1" "seen_epoch a1 = seen_epoch a"
    using count_frame_sel(1,2) [OF refl refl, where ops = ops and b = b and i = i and emit = emit and a = a and s = s]
    by (simp_all add: c)
  moreover have "cursor (fst (complete_bin ops emit (block_epoch b) (a1, s1))) = cursor a1
      \<and> seen_epoch (fst (complete_bin ops emit (block_epoch b) (a1, s1))) = seen_epoch a1"
    by (cases "bin_zero (block_epoch b) (bin a1) \<and> bin_active ops (block_epoch b) (bin a1)")
       (simp_all add: complete_bin_cases)
  ultimately show "cursor (fst (observe_frame ops emit b i (a, s))) = cursor a + 1"
    "seen_epoch (fst (observe_frame ops emit b i (a, s))) = seen_epoch a"
    by (simp_all add: observe_frame_def c)
qed

lemma observe_frames_sel:
  "cursor (fst (foldl (\<lambda>st i. observe_frame ops emit b i st) st [0..<n])) = cursor (fst st) + n
   \<and> seen_epoch (fst (foldl (\<lambda>st i. observe_frame ops emit b i st) st [0..<n])) = seen_epoch (fst st)"
proof (induction n)
  case (Suc n)
  obtain a s where "foldl (\<lambda>st i. observe_frame ops emit b i st) st [0..<n] = (a, s)" by fastforce
  then show ?case using Suc observe_frame_sel [of ops emit b n a s] by simp
qed simp

lemma enter_block_cursor:
  "cursor (fst (enter_block ops emit b (a, s))) = block_start b
   \<and> seen_epoch (fst (enter_block ops emit b (a, s))) = Some (block_epoch b)"
  by (cases "seen_epoch a = Some (block_epoch b)"; cases "block_start b = cursor a")
     (simp_all add: enter_block_same enter_block_change)

lemma push_block_cursor:
  assumes "push_block ops emit b (a, s) = (res, a', s')"
  shows "cursor a' = cursor a \<and> seen_epoch a' = seen_epoch a \<and> (res = Inr () \<longrightarrow> block_frames b = 0)
    \<or> res = Inr () \<and> cursor a' = block_start b + block_frames b \<and> seen_epoch a' = Some (block_epoch b)
        \<and> (seen_epoch a \<noteq> None \<longrightarrow> cursor a \<le> block_start b)"
proof (cases "tracker_closed a \<or> halted a \<or> block_error a b \<noteq> None
    \<or> 2 ^ 64 \<le> block_start b + block_frames b \<or> block_frames b = 0")
  case True
  obtain x y where "interrupt ops emit (a, s) = (x, y)" by fastforce
  then show ?thesis
    using True assms interrupt_sel(2,3) [of ops emit a s]
    by (auto simp: push_block_def split: if_splits option.splits)
next
  case False
  obtain a1 s1 where e: "enter_block ops emit b (a, s) = (a1, s1)" by fastforce
  have "seen_epoch a \<noteq> None \<longrightarrow> cursor a \<le> block_start b"
    using False by (auto simp: block_error_def Let_def not_less split: if_splits)
  moreover have "res = Inr ()"
    and f: "foldl (\<lambda>st i. observe_frame ops emit b i st) (admit_block b a1, s1) [0..<block_frames b] = (a', s')"
    using False assms e by (simp_all add: push_block_def admit_block_def Let_def)
  ultimately show ?thesis
    using observe_frames_sel [of ops emit b "(admit_block b a1, s1)" "block_frames b"]
      enter_block_cursor [of ops emit b a s]
    by (simp add: f e admit_block_def)
qed

lemma placed_step:
  assumes "placed H (fst st)"
  shows "placed (H \<union> accepted_frames ops emit c st) (fst (activity_step ops emit c st))"
proof (cases st)
  case (Pair a s)
  show ?thesis
  proof (cases c)
    case (PushCall b)
    obtain res a' s' where p: "push_block ops emit b (a, s) = (res, a', s')" by (metis prod.exhaust)
    note cur = push_block_cursor [OF p]
    have none: "block_frames b = 0 \<Longrightarrow> block_log ops b = {}" by (simp add: block_log_def)
    have pl: "inj_on at_frame H" "at_frame ` H \<subseteq> {..<cursor a}" "seen_epoch a = None \<longrightarrow> H = {}"
      using assms by (simp_all add: placed_def Pair)
    have "placed (H \<union> (if res = Inr () then block_log ops b else {})) a'"
      using cur
    proof (elim disjE conjE)
      assume "res = Inr ()" and c: "cursor a' = block_start b + block_frames b" "seen_epoch a' = Some (block_epoch b)"
        "seen_epoch a \<noteq> None \<longrightarrow> cursor a \<le> block_start b"
      have before: "at_frame ` H \<subseteq> {..<block_start b}" using pl(2,3) c(3) by fastforce
      then have "at_frame ` H \<inter> at_frame ` block_log ops b = {}"
        by (auto simp: block_log_positions(2))
      then have "inj_on at_frame (H \<union> block_log ops b)"
        using pl(1) block_log_positions(1) [of ops b] by (auto simp: inj_on_Un)
      moreover have "at_frame ` (H \<union> block_log ops b) \<subseteq> {..<cursor a'}"
        using before by (auto simp: image_Un block_log_positions(2) c(1))
      ultimately show ?thesis using \<open>res = Inr ()\<close> c(2) by (simp add: placed_def)
    qed (use pl none in \<open>simp add: placed_def\<close>)
    then show ?thesis by (simp add: Pair PushCall p)
  next
    case InterruptCall
    then show ?thesis using assms by (simp add: Pair placed_def)
  next
    case (FinishCall n)
    obtain a1 s1 where "close_run emit (seal_partial ops a, s) = (a1, s1)" by fastforce
    then show ?thesis
      using assms close_run_sel(1,3) [of emit "seal_partial ops a" s]
      by (simp add: Pair FinishCall finish_activity_def placed_def)
  qed
qed

lemma placed_run:
  "placed H (fst st) \<Longrightarrow>
     placed (H \<union> observed_frames ops emit cs st) (fst (activity_run ops emit cs st))"
proof (induction cs arbitrary: H st)
  case (Cons c cs)
  then show ?case using Cons.IH [OF placed_step [OF Cons.prems]] by (simp add: Un_assoc)
qed simp

text \<open>A complete verdict covers the input exactly.\<close>

lemma terminal_exact:
  assumes ok: "tracker_ok ops H a" and p: "placed H a" and t: "f_terminal (facts a)"
  shows "0 < cursor a" "inj_on at_frame H" "at_frame ` H = {..<cursor a}"
    "\<forall>x\<in>H. whole_frame x \<and> (f_nonzero (facts a) \<or> zero_tap ops x)
       \<and> (f_observed (facts a) \<or> \<not> tap_expected (at_epoch x)) \<and> (f_absent (facts a) \<or> tap_expected (at_epoch x))"
proof -
  have c: "0 < cursor a" "observed_to ops H (facts a) (cursor a)"
    using t ok by (simp_all add: tracker_ok_def coverage_holds_def)
  have pl: "inj_on at_frame H" "at_frame ` H \<subseteq> {..<cursor a}" using p by (simp_all add: placed_def)
  show "0 < cursor a" "inj_on at_frame H" using c(1) pl(1) .
  have "\<exists>y\<in>H. at_frame y = at_frame x \<and> whole_frame y \<and> (f_nonzero (facts a) \<or> zero_tap ops y)
      \<and> (f_observed (facts a) \<or> \<not> tap_expected (at_epoch y)) \<and> (f_absent (facts a) \<or> tap_expected (at_epoch y))"
    if "x \<in> H" for x
    using that pl(2) c(2) by (auto simp: observed_to_def)
  then show "\<forall>x\<in>H. whole_frame x \<and> (f_nonzero (facts a) \<or> zero_tap ops x)
      \<and> (f_observed (facts a) \<or> \<not> tap_expected (at_epoch x)) \<and> (f_absent (facts a) \<or> tap_expected (at_epoch x))"
    using pl(1) by (metis inj_onD)
  show "at_frame ` H = {..<cursor a}"
    using pl(2) c(2) by (fastforce simp: observed_to_def image_iff)
qed

end
