(* ===== verification/ChannelActivity.thy ===== *)
theory ChannelActivity
  imports ActivityProps
begin

text \<open>
  \<open>ChannelActivity\<close> of \<open>crates/corti-core/src/activity.rs\<close>: the tracker of one input and stage, bound to
  capture epochs, that publishes what it finds into a quality record it is lent on every call. An
  \<open>expect\<close> that fails in the middle of a call is a \<open>None\<close> result.
\<close>

section \<open>State\<close>

record 'f channel_block =
  cb_epoch :: capture_epoch
  cb_start :: u64
  cb_mic :: "'f list"
  cb_tap :: "'f list"
  cb_unavailable :: "bool list option"

record published_run =
  pub_epoch :: u32
  pub_start :: u64
  pub_end :: u64
  pub_omitted :: bool

record run_publication =
  pub_run :: "published_run option"
  pub_omitted_runs :: u64
  pub_saturated :: bool

record ('f, 'e) channel_activity =
  ch_scope :: activity_scope
  ch_input :: activity_input
  ch_tracker :: "('f, 'e) activity_state"
  ch_epoch :: "capture_epoch option"
  ch_publication :: run_publication

text \<open>What \<open>publish_run\<close> borrows: the record and the publication.\<close>

record publish_state =
  lent_record :: quality_record
  lent_publication :: run_publication
  expect_failed :: bool

definition new_channel ::
    "('f, 'e) float_ops \<Rightarrow> activity_scope \<Rightarrow> activity_input \<Rightarrow> quality_error + ('f, 'e) channel_activity" where
  "new_channel ops scope inp =
     rbind (validate_input inp) (\<lambda>_. Inr \<lparr>ch_scope = scope, ch_input = inp, ch_tracker = new_activity ops,
       ch_epoch = None, ch_publication = \<lparr>pub_run = None, pub_omitted_runs = 0, pub_saturated = False\<rparr>\<rparr>)"

definition latest_levels :: "('f, 'e) channel_activity \<Rightarrow> ('f, 'e) activity_levels option" where
  "latest_levels ch = last_levels (ch_tracker ch)"

section \<open>Publication\<close>

text \<open>The source span of a run, when its epoch is the one observed and its end is bounded.\<close>

definition map_run ::
    "quality_record \<Rightarrow> activity_scope \<Rightarrow> capture_epoch option list \<Rightarrow> suspected_run \<Rightarrow> quality_span option" where
  "map_run r scope seen run =
     Option.bind (epoch_position (act_id (run_epoch run)) (epochs r)) (\<lambda>index.
       (let e = epochs r ! index; next = get_epoch (epochs r) (index + 1)
        in if Some e \<notin> set seen
              \<or> is_some_and next (\<lambda>n. epoch_id n \<noteq> saturating_add 32 (epoch_id e) 1
                   \<or> retained_start_frame n < run_end run)
              \<or> (next = None \<and> omitted_epochs (overflow r) \<noteq> 0)
           then None
           else map_option (\<lambda>(a, b). \<lparr>epoch = epoch_id e, start_frame = a, end_frame = b, track = Tap,
                    cause = FarReferenceSilent, loss_class = DegradedOnly, stage = scope_stage scope,
                    resolution = Outstanding\<rparr>)
                  (epoch_interval e next (run_start run) (run_end run))))"

definition count_omission :: "run_publication \<Rightarrow> run_publication" where
  "count_omission p =
     (case increment (pub_omitted_runs p) (pub_saturated p) of
        (n, sat) \<Rightarrow> p\<lparr>pub_omitted_runs := n, pub_saturated := sat\<rparr>)"

definition already_published :: "run_publication \<Rightarrow> suspected_run \<Rightarrow> published_run option" where
  "already_published p run =
     opt_filter (\<lambda>old. pub_epoch old = act_id (run_epoch run) \<and> pub_start old = run_start run
        \<and> (pub_omitted old \<or> run_end run \<le> pub_end old)) (pub_run p)"

definition publish_run ::
    "activity_scope \<Rightarrow> activity_input \<Rightarrow> capture_epoch option list \<Rightarrow> suspected_run \<Rightarrow> publish_state
       \<Rightarrow> bool \<times> publish_state" where
  "publish_run scope inp seen run s =
     (case already_published (lent_publication s) run of
        Some old \<Rightarrow> (\<not> pub_omitted old, s)
      | None \<Rightarrow>
          (let (accepted, r1) = (case map_run (lent_record s) scope seen run of
                 Some span \<Rightarrow> (case try_insert_span (lent_record s) span of
                     (Inr ok, r) \<Rightarrow> (ok, r) | (Inl _, r) \<Rightarrow> (False, r))
               | None \<Rightarrow> (False, lent_record s));
               p1 = (if accepted then lent_publication s else count_omission (lent_publication s));
               (failed, r2) = (if accepted then (False, r1)
                 else (case observe_activity_omissions r1 scope inp (pub_omitted_runs p1) (pub_saturated p1) of
                     (res, r) \<Rightarrow> (\<not> is_ok res, r)))
           in (accepted, \<lparr>lent_record = r2,
                 lent_publication = p1\<lparr>pub_run := Some \<lparr>pub_epoch = act_id (run_epoch run),
                   pub_start = run_start run, pub_end = run_end run, pub_omitted = \<not> accepted\<rparr>\<rparr>,
                 expect_failed = expect_failed s \<or> failed\<rparr>)))"

text \<open>The evidence of a tracker, and the fields \<open>default\<close> leaves.\<close>

definition tracker_evidence :: "activity_input \<Rightarrow> ('f, 'e) activity_state \<Rightarrow> activity_evidence" where
  "tracker_evidence inp a =
     (let f = facts a
      in default_evidence\<lparr>input := Some inp, observed_tap := f_observed f, nonzero_tap := f_nonzero f,
           sustained_zero_tap := f_sustained f, absent_tap_layout := f_absent f, suspected := f_suspected f,
           uncertain := f_uncertain f \<or> f_saturated f,
           complete := (if f_terminal f then Some (ActivityExtent (cursor a) (\<not> f_nonzero f)) else None)\<rparr>)"

definition publish_facts :: "('f, 'e) channel_activity \<Rightarrow> quality_record \<Rightarrow> quality_record" where
  "publish_facts ch r =
     r\<lparr>activity := observe (activity r) (ch_scope ch) (tracker_evidence (ch_input ch) (ch_tracker ch))\<rparr>"

section \<open>Calls\<close>

definition lend :: "('f, 'e) channel_activity \<Rightarrow> quality_record \<Rightarrow> publish_state" where
  "lend ch r = \<lparr>lent_record = r, lent_publication = ch_publication ch, expect_failed = False\<rparr>"

text \<open>The end of a call: the tracker and publication go back, and the facts into the record.\<close>

definition hand_back ::
    "'a \<Rightarrow> ('f, 'e) channel_activity \<Rightarrow> ('f, 'e) activity_state \<times> publish_state
       \<Rightarrow> 'a option \<times> ('f, 'e) channel_activity \<times> quality_record" where
  "hand_back res ch st =
     (case st of (a, s) \<Rightarrow>
       (let ch' = ch\<lparr>ch_tracker := a, ch_publication := lent_publication s\<rparr>
        in if expect_failed s then (None, ch', lent_record s)
           else (Some res, ch', publish_facts ch' (lent_record s))))"

definition tracker_block :: "'f channel_block \<Rightarrow> 'f act_block" where
  "tracker_block b =
     (let e = cb_epoch b
      in \<lparr>block_epoch = \<lparr>act_id = epoch_id e, act_start = retained_start_frame e, act_rate = retained_rate_hz e,
            mic_expected = mic_channels e \<noteq> 0, tap_expected = tap_channels e \<noteq> 0\<rparr>,
          block_start = cb_start b, block_mic = cb_mic b, block_tap = cb_tap b,
          block_unavailable = (case cb_unavailable b of None \<Rightarrow> [] | Some u \<Rightarrow> u),
          availability_known = (cb_unavailable b \<noteq> None)\<rparr>)"

definition push_channel ::
    "('f, 'e) float_ops \<Rightarrow> 'f channel_block \<Rightarrow> ('f, 'e) channel_activity \<Rightarrow> quality_record
       \<Rightarrow> (activity_input_error + unit) option \<times> ('f, 'e) channel_activity \<times> quality_record" where
  "push_channel ops b ch r =
     (if \<not> is_ok (validate r) then (Some (Inl InvalidQuality), ch, r)
      else (let e = cb_epoch b; seen = [ch_epoch ch, Some e];
                emit = publish_run (ch_scope ch) (ch_input ch) seen
            in if retained_rate_hz e \<noteq> input_rate_hz (ch_input ch)
                  \<or> \<not> is_ok (source_time_ns e (source_frame_base e))
                  \<or> is_some_and (ch_epoch ch) (\<lambda>old. epoch_id old = epoch_id e \<and> old \<noteq> e)
               then hand_back (Inl InvalidEpoch) ch (interrupt ops emit (ch_tracker ch, lend ch r))
               else (case push_block ops emit (tracker_block b) (ch_tracker ch, lend ch r) of
                   (res, a, s) \<Rightarrow>
                     (let ch1 = (if is_ok res \<and> (cb_mic b \<noteq> [] \<or> cb_tap b \<noteq> []) then ch\<lparr>ch_epoch := Some e\<rparr> else ch);
                          s1 = (case active_run a of None \<Rightarrow> s | Some run \<Rightarrow> snd (emit run s))
                      in hand_back res ch1 (a, s1)))))"

definition finish_channel ::
    "('f, 'e) float_ops \<Rightarrow> u64 option \<Rightarrow> ('f, 'e) channel_activity \<Rightarrow> quality_record
       \<Rightarrow> (quality_error + unit) option \<times> ('f, 'e) channel_activity \<times> quality_record" where
  "finish_channel ops authoritative ch r =
     (case validate r of
        Inl err \<Rightarrow> (Some (Inl err), ch, r)
      | Inr _ \<Rightarrow> hand_back (Inr ()) ch (finish_activity ops (publish_run (ch_scope ch) (ch_input ch) [ch_epoch ch, None])
                   authoritative (ch_tracker ch, lend ch r)))"

end
