(* ===== verification/ChannelProps.thy ===== *)
theory ChannelProps
  imports ChannelActivity
begin

text \<open>
  What publishing the activity of a channel does to the quality record: it never fails, keeps the
  record valid and every verdict about lost audio as it was. A verdict of an absent far end covers
  every frame of the input.
\<close>

section \<open>Changes that only degrade\<close>

definition degraded_only :: "quality_record \<Rightarrow> quality_record \<Rightarrow> bool" where
  "degraded_only r r' \<longleftrightarrow> well_formed r' \<and> epochs r' = epochs r \<and> coverage r' = coverage r
     \<and> omitted_epochs (overflow r') = omitted_epochs (overflow r)
     \<and> counter_saturated (overflow r') = counter_saturated (overflow r)
     \<and> (\<forall>c. c \<noteq> DegradedOnly \<longrightarrow> has_outstanding r' c = has_outstanding r c)
     \<and> (\<forall>q. covered (spans r) q \<subseteq> covered (spans r') q)
     \<and> (\<forall>q. loss_class q \<noteq> DegradedOnly \<longrightarrow> covered (spans r') q = covered (spans r) q)"

lemma degraded_only_refl: "well_formed r \<Longrightarrow> degraded_only r r"
  by (simp add: degraded_only_def)

lemma degraded_only_trans: "degraded_only r q \<Longrightarrow> degraded_only q p \<Longrightarrow> degraded_only r p"
  unfolding degraded_only_def by (simp, meson order_trans)

lemma degraded_only_verdicts:
  assumes "well_formed r" "degraded_only r r'"
  shows "source_completeness r' = source_completeness r" "completeness r' = completeness r"
    "requires_batch_recovery r' = requires_batch_recovery r"
  using assms
  by (simp_all add: degraded_only_def source_completeness_def completeness_def requires_batch_recovery_def well_formed_def)

lemma try_insert_degraded:
  assumes wf: "well_formed r" and t: "try_insert_span r s = (res, r')" and c: "loss_class s = DegradedOnly"
  shows "degraded_only r r'" and "res = Inr True \<Longrightarrow> frames_of s \<subseteq> covered (spans r') s"
proof -
  have wf': "well_formed r'" using wf_try_insert_span [OF wf, of s] t by simp
  have "degraded_only r r' \<and> (res = Inr True \<longrightarrow> frames_of s \<subseteq> covered (spans r') s)"
    using t
  proof (cases rule: try_insert_span_cases)
    case (kept kept m)
    have "list_all proper (s # spans r)"
      using kept valid_spans_proper [of r] valid_span_proper [of "epochs r" s] by simp
    then have k: "list_ex (kinds d) (kept @ [m]) \<longleftrightarrow> kinds d s \<or> list_ex (kinds d) (spans r)" for d
      using coalesce_kind [OF kept(2), of "kinds d"] by (simp add: kinds_def same_kind_def)
    have sorted: "list_ex (kinds d) (sort_spans (kept @ [m])) \<longleftrightarrow> kinds d s \<or> list_ex (kinds d) (spans r)" for d
      using k [of d] by (simp add: list_ex_iff)
    have cov: "covered (spans r') d = covered (s # spans r) d" for d
      using coalesce_plain(4) [OF kept(2), of d] by (auto simp: kept(3))
    have "has_outstanding r' d \<longleftrightarrow> kinds d s \<or> has_outstanding r d" for d
      unfolding has_outstanding_kinds kept(3) by (auto simp: sorted)
    moreover have "frames_of s \<subseteq> covered (spans r') s" by (simp add: cov)
    ultimately show ?thesis
      unfolding degraded_only_def using wf' c by (simp add: cov kinds_def) (simp add: kept(3), auto simp: same_kind_def)
  qed (use wf in \<open>simp_all add: degraded_only_refl\<close>)
  then show "degraded_only r r'" and "res = Inr True \<Longrightarrow> frames_of s \<subseteq> covered (spans r') s" by blast+
qed

lemma omit_activity_fields:
  "omitted_epochs (overflow (omit_activity r n)) = omitted_epochs (overflow r)"
  "counter_saturated (overflow (omit_activity r n)) = counter_saturated (overflow r)"
  "spans (omit_activity r n) = spans r" "epochs (omit_activity r n) = epochs r"
  "coverage (omit_activity r n) = coverage r"
  "c \<noteq> DegradedOnly \<Longrightarrow> omitted_spans (overflow (omit_activity r n)) c = omitted_spans (overflow r) c"
  "c \<noteq> DegradedOnly \<Longrightarrow>
     outstanding_omitted_spans (overflow (omit_activity r n)) c = outstanding_omitted_spans (overflow r) c"
  by (auto simp: omit_activity_def omit_span_def Let_def split: prod.splits)

lemma observe_omissions_degraded:
  assumes wf: "well_formed r" and inp: "is_ok (validate_input inp)" and runs: "fits64 runs"
    and o: "observe_activity_omissions r scope inp runs sat = (res, r')"
  shows "res = Inr ()" and "degraded_only r r'"
proof -
  have "is_ok (validate r)" using wf by (simp add: well_formed_def)
  then obtain u where v: "validate r = Inr u" by (auto simp: is_ok_iff)
  then show "res = Inr ()" using o by (simp add: observe_activity_omissions_def Let_def)
  have "well_formed r'" using wf_observe_activity_omissions [OF wf inp runs, of scope sat] o by simp
  then show "degraded_only r r'"
    using o v by (auto simp: degraded_only_def observe_activity_omissions_def Let_def omit_activity_fields
        has_outstanding_def)
qed

lemma publish_facts_degraded:
  assumes wf: "well_formed r" and e: "is_ok (validate_evidence e)" and z: "omitted_runs e = 0"
  shows "degraded_only r (r\<lparr>activity := observe (activity r) scope e\<rparr>)"
proof -
  have "fits64 (omitted_spans (overflow r) DegradedOnly)"
    using wf by (simp add: well_formed_def record_fits_def overflow_fits_def)
  then have "activity_counted (overflow r) (observe (activity r) scope e)"
    using wf z by (simp add: well_formed_def valid_iff activity_counted_total activity_total_observe)
  then have "well_formed (r\<lparr>activity := observe (activity r) scope e\<rparr>)"
    using wf e z by (auto simp: well_formed_def valid_iff record_fits_def observe_valid observe_runs)
  then show ?thesis by (simp add: degraded_only_def has_outstanding_def)
qed

lemma tracker_evidence_valid:
  assumes ok: "tracker_ok ops H a" and inp: "is_ok (validate_input inp)"
  shows "is_ok (validate_evidence (tracker_evidence inp a))"
proof -
  have f: "f_nonzero (facts a) \<or> f_sustained (facts a) \<longrightarrow> f_observed (facts a)"
    "f_suspected (facts a) \<longrightarrow> f_sustained (facts a)"
    using ok by (simp_all add: tracker_ok_def facts_agree_def)
  have "0 < cursor a \<and> (f_observed (facts a) \<or> f_absent (facts a))" if "f_terminal (facts a)"
    using ok that by (auto simp: tracker_ok_def coverage_holds_def observed_to_def)
  then show ?thesis
    using f inp by (auto simp: tracker_evidence_def Let_def valid_evidence_some [where i = inp] default_evidence_def)
qed

section \<open>Publishing a run\<close>

definition lent_ok :: "activity_input \<Rightarrow> quality_record \<Rightarrow> publish_state \<Rightarrow> bool" where
  "lent_ok inp r s \<longleftrightarrow> is_ok (validate_input inp) \<and> well_formed (lent_record s) \<and> degraded_only r (lent_record s)
     \<and> fits64 (pub_omitted_runs (lent_publication s)) \<and> \<not> expect_failed s"

lemma increment_fits: "fits64 n \<Longrightarrow> increment n f = (m, g) \<Longrightarrow> fits64 m"
  by (auto simp: increment_def split: option.splits)

lemma count_omission_fits:
  "fits64 (pub_omitted_runs p) \<Longrightarrow> fits64 (pub_omitted_runs (count_omission p))"
  using increment_fits [of "pub_omitted_runs p" "pub_saturated p"]
  by (cases "increment (pub_omitted_runs p) (pub_saturated p)") (simp add: count_omission_def)

lemma map_run_class: "map_run r scope seen run = Some s \<Longrightarrow> loss_class s = DegradedOnly"
  by (auto simp: map_run_def Let_def bind_eq_Some_conv split: if_splits)

lemma publish_run_ok:
  assumes ok: "lent_ok inp r s"
  shows "lent_ok inp r (snd (publish_run scope inp seen run s))"
proof (cases "already_published (lent_publication s) run")
  case (Some old)
  then show ?thesis using ok by (simp add: publish_run_def)
next
  case None
  obtain acc r1 where a: "(case map_run (lent_record s) scope seen run of
                 Some span \<Rightarrow> (case try_insert_span (lent_record s) span of
                     (Inr ok, r) \<Rightarrow> (ok, r) | (Inl _, r) \<Rightarrow> (False, r))
               | None \<Rightarrow> (False, lent_record s)) = (acc, r1)"
    by fastforce
  have wf: "well_formed (lent_record s)" and fits: "fits64 (pub_omitted_runs (lent_publication s))"
    and inp: "is_ok (validate_input inp)" and d: "degraded_only r (lent_record s)" and nf: "\<not> expect_failed s"
    using ok by (simp_all add: lent_ok_def)
  have r1: "degraded_only (lent_record s) r1"
  proof (cases "map_run (lent_record s) scope seen run")
    case (Some span)
    obtain res q where t: "try_insert_span (lent_record s) span = (res, q)" by fastforce
    have "q = r1" using a Some t by (auto split: sum.splits)
    then show ?thesis using try_insert_degraded(1) [OF wf t map_run_class [OF Some]] by simp
  qed (use a wf in \<open>simp add: degraded_only_refl\<close>)
  then have wf1: "well_formed r1" by (simp add: degraded_only_def)
  let ?p = "count_omission (lent_publication s)"
  obtain res r2 where o: "observe_activity_omissions r1 scope inp (pub_omitted_runs ?p) (pub_saturated ?p) = (res, r2)"
    by fastforce
  note obs = observe_omissions_degraded [OF wf1 inp count_omission_fits [OF fits] o]
  have d1: "degraded_only r r1" "degraded_only r r2"
    using degraded_only_trans [OF d r1] degraded_only_trans [OF _ obs(2)] by blast+
  have wf2: "well_formed r2" using obs(2) by (simp add: degraded_only_def)
  show ?thesis
    using None a o obs(1) inp wf1 wf2 d1 nf fits count_omission_fits [OF fits]
    by (simp add: publish_run_def lent_ok_def)
qed

interpretation published: run_sink ops H "publish_run scope inp seen" "lent_ok inp r"
  for ops :: "('f, 'e) float_ops" and H scope inp seen r
  by unfold_locales (rule publish_run_ok)

section \<open>One call\<close>

text \<open>What a channel keeps between calls: the tracker's invariant over the accepted frames.\<close>

definition channel_ok :: "('f, 'e) float_ops \<Rightarrow> 'f frame_obs set \<Rightarrow> ('f, 'e) channel_activity \<Rightarrow> bool" where
  "channel_ok ops H ch \<longleftrightarrow> is_ok (validate_input (ch_input ch)) \<and> tracker_ok ops H (ch_tracker ch)
     \<and> placed H (ch_tracker ch) \<and> fits64 (pub_omitted_runs (ch_publication ch))"

lemma lend_ok: "channel_ok ops H ch \<Longrightarrow> well_formed r \<Longrightarrow> lent_ok (ch_input ch) r (lend ch r)"
  by (simp add: channel_ok_def lent_ok_def lend_def degraded_only_refl)

text \<open>The end of a call, when the tracker's part of it kept its invariant.\<close>

definition call_ok ::
    "('f, 'e) float_ops \<Rightarrow> 'f frame_obs set \<Rightarrow> ('f, 'e) channel_activity \<Rightarrow> quality_record
       \<Rightarrow> 'a option \<times> ('f, 'e) channel_activity \<times> quality_record \<Rightarrow> bool" where
  "call_ok ops H ch r out \<longleftrightarrow>
     (case out of (res, ch', r') \<Rightarrow>
        res \<noteq> None \<and> channel_ok ops H ch' \<and> ch_input ch' = ch_input ch \<and> degraded_only r r')"

lemma hand_back_ok:
  assumes "tracker_ok ops H a" "placed H a" "lent_ok (ch_input ch) r s"
  shows "call_ok ops H ch r (hand_back res ch (a, s))" "fst (hand_back res ch (a, s)) = Some res"
proof -
  let ?ch = "ch\<lparr>ch_tracker := a, ch_publication := lent_publication s\<rparr>"
  have s: "is_ok (validate_input (ch_input ch))" "well_formed (lent_record s)" "degraded_only r (lent_record s)"
    "\<not> expect_failed s" "fits64 (pub_omitted_runs (lent_publication s))"
    using assms(3) by (simp_all add: lent_ok_def)
  have "degraded_only (lent_record s) (publish_facts ?ch (lent_record s))"
    unfolding publish_facts_def
    by (rule publish_facts_degraded [OF s(2)])
       (use tracker_evidence_valid [OF assms(1) s(1)] in \<open>simp_all add: tracker_evidence_def Let_def default_evidence_def\<close>)
  then have "degraded_only r (publish_facts ?ch (lent_record s))"
    using s(3) degraded_only_trans by blast
  then show "call_ok ops H ch r (hand_back res ch (a, s))" "fst (hand_back res ch (a, s)) = Some res"
    using assms(1,2) s by (simp_all add: hand_back_def Let_def call_ok_def channel_ok_def)
qed

lemma hand_back_epoch: "call_ok ops H (ch\<lparr>ch_epoch := e\<rparr>) r out = call_ok ops H ch r out"
  by (simp add: call_ok_def)

text \<open>The frames of a block that the call accepted.\<close>

definition pushed_frames ::
    "('f, 'e) float_ops \<Rightarrow> 'f channel_block \<Rightarrow> ('f, 'e) channel_activity \<Rightarrow> quality_record \<Rightarrow> 'f frame_obs set" where
  "pushed_frames ops b ch r =
     (if fst (push_channel ops b ch r) = Some (Inr ()) then block_log ops (tracker_block b) else {})"

lemma placed_interrupt: "placed H a \<Longrightarrow> placed H (fst (interrupt ops emit (a, s)))"
  by (simp add: placed_def)

lemma push_channel_ok:
  assumes ch: "channel_ok ops H ch" and r: "well_formed r"
  shows "call_ok ops (H \<union> pushed_frames ops b ch r) ch r (push_channel ops b ch r)"
proof -
  let ?e = "cb_epoch b"
  define emit where "emit = publish_run (ch_scope ch) (ch_input ch) [ch_epoch ch, Some ?e]"
  have t: "tracker_ok ops H (ch_tracker ch)" "placed H (ch_tracker ch)" using ch by (simp_all add: channel_ok_def)
  note lent = lend_ok [OF ch r]
  have v: "is_ok (validate r)" using r by (simp add: well_formed_def)
  have emits: "lent_ok (ch_input ch) r s \<Longrightarrow> lent_ok (ch_input ch) r (snd (emit run s))" for run s
    unfolding emit_def by (rule publish_run_ok)
  define bad where "bad \<longleftrightarrow> retained_rate_hz ?e \<noteq> input_rate_hz (ch_input ch)
      \<or> \<not> is_ok (source_time_ns ?e (source_frame_base ?e))
      \<or> is_some_and (ch_epoch ch) (\<lambda>old. epoch_id old = epoch_id ?e \<and> old \<noteq> ?e)"
  show ?thesis
  proof (cases bad)
    case True
    obtain x y where i: "interrupt ops emit (ch_tracker ch, lend ch r) = (x, y)" by fastforce
    have p: "push_channel ops b ch r = hand_back (Inl InvalidEpoch) ch (x, y)"
      using True v i by (simp add: push_channel_def emit_def bad_def Let_def)
    have "lent_ok (ch_input ch) r y"
      using published.interrupt_keeps [OF published.tracker_ok_run [OF t(1)] lent, of ops] i [unfolded emit_def]
      by (metis snd_conv)
    moreover have "tracker_ok ops H x" "placed H x"
      using interrupt_ok [OF t(1), of emit "lend ch r"] placed_interrupt [OF t(2), of ops emit "lend ch r"] i by simp_all
    ultimately have "call_ok ops H ch r (push_channel ops b ch r) \<and> fst (push_channel ops b ch r) = Some (Inl InvalidEpoch)"
      unfolding p by (intro conjI hand_back_ok)
    then show ?thesis by (simp add: pushed_frames_def)
  next
    case False
    obtain res a s where q: "push_block ops emit (tracker_block b) (ch_tracker ch, lend ch r) = (res, a, s)"
      by (metis prod.exhaust)
    let ?H = "H \<union> (if res = Inr () then block_log ops (tracker_block b) else {})"
    let ?ch = "if is_ok res \<and> (cb_mic b \<noteq> [] \<or> cb_tap b \<noteq> []) then ch\<lparr>ch_epoch := Some ?e\<rparr> else ch"
    let ?s = "case active_run a of None \<Rightarrow> s | Some run \<Rightarrow> snd (emit run s)"
    have p: "push_channel ops b ch r = hand_back res ?ch (a, ?s)"
      using False v q unfolding emit_def by (simp add: push_channel_def bad_def Let_def)
    have "tracker_ok ops ?H (ch_tracker ch)"
      using t(1) tracker_ok_mono [of ops H "ch_tracker ch" ?H] by simp
    then have "tracker_ok ops ?H a \<and> lent_ok (ch_input ch) r s"
      using published.push_block_ok [OF _ lent q [unfolded emit_def], of ?H] by simp
    moreover have "placed ?H a"
      using placed_step [of H "(ch_tracker ch, lend ch r)" ops emit "PushCall (tracker_block b)"] t(2)
      by (simp add: q)
    moreover have "lent_ok (ch_input ch) r ?s"
      using calculation(1) emits by (auto split: option.split)
    ultimately have "call_ok ops ?H ?ch r (push_channel ops b ch r) \<and> fst (push_channel ops b ch r) = Some res"
      unfolding p
      by (intro conjI hand_back_ok(1) hand_back_ok(2) [of ops ?H a ?ch r ?s]) (simp_all split: if_splits)
    then show ?thesis by (auto simp: pushed_frames_def call_ok_def split: if_splits)
  qed
qed

lemma finish_channel_ok:
  assumes ch: "channel_ok ops H ch" and r: "well_formed r"
  shows "call_ok ops H ch r (finish_channel ops authoritative ch r)"
proof -
  define emit where "emit = publish_run (ch_scope ch) (ch_input ch) [ch_epoch ch, None]"
  obtain u where v: "validate r = Inr u" using r by (auto simp: well_formed_def is_ok_iff)
  obtain a s where f: "finish_activity ops emit authoritative (ch_tracker ch, lend ch r) = (a, s)" by fastforce
  have t: "tracker_ok ops H (ch_tracker ch)" "placed H (ch_tracker ch)" using ch by (simp_all add: channel_ok_def)
  have "tracker_ok ops H a \<and> lent_ok (ch_input ch) r s"
    using published.finish_activity_ok [OF t(1) lend_ok [OF ch r] f [unfolded emit_def]] .
  moreover have "placed H a"
    using placed_step [of H "(ch_tracker ch, lend ch r)" ops emit "FinishCall authoritative"] t(2) f by simp
  moreover have "finish_channel ops authoritative ch r = hand_back (Inr ()) ch (a, s)"
    using v f by (simp add: finish_channel_def emit_def)
  ultimately show ?thesis using hand_back_ok(1) [of ops H a ch r s] by simp
qed

lemma new_channel_ok: "new_channel ops scope inp = Inr ch \<Longrightarrow> channel_ok ops {} ch"
  by (auto simp: new_channel_def channel_ok_def new_activity_ok placed_def rbind_Inr
      intro!: is_ok_iff [THEN iffD2])

section \<open>Sequences of calls\<close>

text \<open>Every call is lent a record; between calls the record is the caller's to change.\<close>

datatype 'f channel_call = ChannelPush "'f channel_block" quality_record | ChannelFinish "u64 option" quality_record

primrec lent_to :: "'f channel_call \<Rightarrow> quality_record" where
  "lent_to (ChannelPush b r) = r"
| "lent_to (ChannelFinish n r) = r"

primrec channel_step :: "('f, 'e) float_ops \<Rightarrow> ('f, 'e) channel_activity \<Rightarrow> 'f channel_call
    \<Rightarrow> ('f, 'e) channel_activity" where
  "channel_step ops ch (ChannelPush b r) = fst (snd (push_channel ops b ch r))"
| "channel_step ops ch (ChannelFinish n r) = fst (snd (finish_channel ops n ch r))"

primrec frames_of_call :: "('f, 'e) float_ops \<Rightarrow> ('f, 'e) channel_activity \<Rightarrow> 'f channel_call \<Rightarrow> 'f frame_obs set" where
  "frames_of_call ops ch (ChannelPush b r) = pushed_frames ops b ch r"
| "frames_of_call ops ch (ChannelFinish n r) = {}"

fun channel_frames :: "('f, 'e) float_ops \<Rightarrow> ('f, 'e) channel_activity \<Rightarrow> 'f channel_call list \<Rightarrow> 'f frame_obs set" where
  "channel_frames ops ch [] = {}"
| "channel_frames ops ch (c # cs) = frames_of_call ops ch c \<union> channel_frames ops (channel_step ops ch c) cs"

abbreviation channel_run :: "('f, 'e) float_ops \<Rightarrow> ('f, 'e) channel_activity \<Rightarrow> 'f channel_call list
    \<Rightarrow> ('f, 'e) channel_activity" where
  "channel_run ops \<equiv> run_from (channel_step ops)"

lemma call_ok_state:
  "call_ok ops H ch r out \<Longrightarrow> channel_ok ops H (fst (snd out)) \<and> ch_input (fst (snd out)) = ch_input ch"
  by (auto simp: call_ok_def)

lemma channel_step_ok:
  assumes "channel_ok ops H ch" "well_formed (lent_to c)"
  shows "channel_ok ops (H \<union> frames_of_call ops ch c) (channel_step ops ch c)
    \<and> ch_input (channel_step ops ch c) = ch_input ch"
proof (cases c)
  case (ChannelPush b r)
  then show ?thesis using call_ok_state [OF push_channel_ok [OF assms(1), of r b]] assms(2) by simp
next
  case (ChannelFinish n r)
  then show ?thesis using call_ok_state [OF finish_channel_ok [OF assms(1), of r n]] assms(2) by simp
qed

lemma channel_run_ok:
  "channel_ok ops H ch \<Longrightarrow> list_all (\<lambda>c. well_formed (lent_to c)) cs \<Longrightarrow>
     channel_ok ops (H \<union> channel_frames ops ch cs) (channel_run ops ch cs)
     \<and> ch_input (channel_run ops ch cs) = ch_input ch"
proof (induction cs arbitrary: H ch)
  case (Cons c cs)
  then show ?case
    using channel_step_ok [of ops H ch c] Cons.IH [of "H \<union> frames_of_call ops ch c" "channel_step ops ch c"]
    by (simp add: Un_assoc)
qed simp

text \<open>
  A call as its caller sees it: nothing when it panicked, or else whether it succeeded; then the channel
  and the record it gives back.
\<close>

primrec channel_call_result :: "('f, 'e) float_ops \<Rightarrow> ('f, 'e) channel_activity \<Rightarrow> 'f channel_call
    \<Rightarrow> bool option \<times> ('f, 'e) channel_activity \<times> quality_record" where
  "channel_call_result ops ch (ChannelPush b r) = apfst (map_option is_ok) (push_channel ops b ch r)"
| "channel_call_result ops ch (ChannelFinish n r) = apfst (map_option is_ok) (finish_channel ops n ch r)"

lemma call_ok_apfst [simp]: "call_ok ops H ch r (apfst (map_option f) out) = call_ok ops H ch r out"
  by (cases out) (simp add: call_ok_def)

lemma channel_call_ok:
  assumes "channel_ok ops H ch" and "well_formed (lent_to c)"
  shows "call_ok ops (H \<union> frames_of_call ops ch c) ch (lent_to c) (channel_call_result ops ch c)"
  using assms by (cases c) (simp_all add: push_channel_ok finish_channel_ok)

lemma finish_channel_result:
  assumes "well_formed r"
  shows "fst (finish_channel ops n ch r) \<in> {None, Some (Inr ())}"
proof -
  obtain u where "validate r = Inr u" using assms by (auto simp: well_formed_def is_ok_iff)
  then show ?thesis by (simp add: finish_channel_def hand_back_def Let_def split: prod.split)
qed

text \<open>C28. Publishing the activity of a channel is safe for the record it is lent, under one condition on
  the caller: every record lent to a call is well-formed. After any calls a further one, a push as well
  as a finish, does not panic (and a finish does not fail), gives back a well-formed record with the
  same epochs, and changes no verdict about lost audio. Of every kind of loss the frames recorded before
  are still recorded, and only degradation is ever added to: the frames of every other kind of loss are
  exactly those the record came with. The condition survives, since the record given back can be lent
  to the next call.\<close>

theorem activity_publishing_safe:
  assumes "new_channel ops scope inp = Inr ch0" and "list_all (\<lambda>c. well_formed (lent_to c)) calls"
    and "ch = channel_run ops ch0 calls" and "well_formed (lent_to call)"
    and "channel_call_result ops ch call = (res, ch', r')"
  shows "res \<noteq> None \<and> (case call of ChannelPush _ _ \<Rightarrow> True | ChannelFinish _ _ \<Rightarrow> res = Some True)
     \<and> well_formed r' \<and> epochs r' = epochs (lent_to call)
     \<and> source_completeness r' = source_completeness (lent_to call)
     \<and> completeness r' = completeness (lent_to call)
     \<and> requires_batch_recovery r' = requires_batch_recovery (lent_to call)
     \<and> covered (spans (lent_to call)) k \<subseteq> covered (spans r') k
     \<and> (loss_class k \<noteq> DegradedOnly \<longrightarrow> covered (spans r') k = covered (spans (lent_to call)) k)"
proof -
  have ch: "channel_ok ops (channel_frames ops ch0 calls) ch"
    using channel_run_ok [OF new_channel_ok [OF assms(1)] assms(2)] assms(3) by simp
  note ok = channel_call_ok [OF ch assms(4), unfolded assms(5)]
  have res: "res \<noteq> None" and d: "degraded_only (lent_to call) r'" using ok by (simp_all add: call_ok_def)
  have "case call of ChannelPush _ _ \<Rightarrow> True | ChannelFinish _ _ \<Rightarrow> res = Some True"
  proof (cases call)
    case (ChannelFinish n r)
    then show ?thesis
      using finish_channel_result [of r ops n ch] assms(4,5) res
      by (cases "finish_channel ops n ch r") auto
  qed simp
  then show ?thesis
    using res degraded_only_verdicts [OF assms(4) d] d by (simp add: degraded_only_def)
qed

definition call_epoch :: capture_epoch where
  "call_epoch = \<lparr>epoch_id = 0, source_start_ns = Some 0, source_rate_hz = 1, source_frame_base = 0,
     retained_start_frame = 0, retained_rate_hz = 1, mic_channels = 1, tap_channels = 1, reason = EpochStarted\<rparr>"

lemma call_epoch_facts:
  "epoch_id call_epoch = 0" "retained_start_frame call_epoch = 0" "retained_rate_hz call_epoch = 1"
  "mic_channels call_epoch = 1" "tap_channels call_epoch = 1"
  by (simp_all add: call_epoch_def)

lemma call_epoch_timed: "is_ok (source_time_ns call_epoch (source_frame_base call_epoch))"
  by (simp add: call_epoch_def source_time_ns_def validate_epoch_def nanos_at_def checked_sub_def try_from_def
      checked_add_def)

lemma validate_observed: "validate observed_record = Inr ()"
  by (rule unit_result [THEN iffD2]) (use well_formed_observed in \<open>simp add: well_formed_def\<close>)

definition call_block :: "u64 \<Rightarrow> int list \<Rightarrow> int list \<Rightarrow> int channel_block" where
  "call_block start mic tap = \<lparr>cb_epoch = call_epoch, cb_start = start, cb_mic = mic, cb_tap = tap, cb_unavailable = Some []\<rparr>"

abbreviation fresh_channel :: "(int, int) channel_activity" where
  "fresh_channel \<equiv> \<lparr>ch_scope = ScopeLive, ch_input = ActivityInput (replicate 32 1) 1,
     ch_tracker = new_activity integer_ops, ch_epoch = None,
     ch_publication = \<lparr>pub_run = None, pub_omitted_runs = 0, pub_saturated = False\<rparr>\<rparr>"

lemma fresh_channel_new: "new_channel integer_ops ScopeLive (ActivityInput (replicate 32 1) 1) = Inr fresh_channel"
  by (simp add: new_channel_def validate_input_def MAX_ACTIVITY_RATE_HZ_def)

theorem activity_publishing_safe_witness:
  "\<exists>res ch' r'. channel_call_result integer_ops fresh_channel
       (ChannelPush (call_block 0 [1] [0]) observed_record) = (res, ch', r')
     \<and> res \<noteq> None \<and> well_formed r' \<and> source_completeness r' = source_completeness observed_record
     \<and> fst (channel_call_result integer_ops ch' (ChannelFinish (Some 1) r')) = Some True"
proof -
  let ?push = "ChannelPush (call_block 0 [1] [0]) observed_record"
  obtain res ch' r' where p: "channel_call_result integer_ops fresh_channel ?push = (res, ch', r')"
    by (metis prod.exhaust)
  have "fresh_channel = channel_run integer_ops fresh_channel []" by simp
  from activity_publishing_safe [OF fresh_channel_new _ this _ p] well_formed_observed
  have pushed: "res \<noteq> None" "well_formed r'" "source_completeness r' = source_completeness observed_record"
    by simp_all
  obtain res2 ch2 r2 where f: "channel_call_result integer_ops ch' (ChannelFinish (Some 1) r') = (res2, ch2, r2)"
    by (metis prod.exhaust)
  have "ch' = channel_run integer_ops fresh_channel [?push]"
    using p by (cases "push_channel integer_ops (call_block 0 [1] [0]) fresh_channel observed_record") simp
  from activity_publishing_safe [OF fresh_channel_new _ this _ f] pushed(2) well_formed_observed
  have finished: "fst (channel_call_result integer_ops ch' (ChannelFinish (Some 1) r')) = Some True"
    unfolding f by simp
  show ?thesis
    by (rule exI [of _ res], rule exI [of _ ch'], rule exI [of _ r']) (intro conjI p pushed finished)
qed

text \<open>C27. A verdict of an absent far end is exact: when the published evidence says so, the accepted frames
  are the frames \<open>0 .. n\<close> of the input, each seen once, with every expected sample present, and none of
  them carried a nonzero far-end sample.
\<close>

theorem absent_verdict_exact:
  assumes "new_channel ops scope inp = Inr ch0" and "list_all (\<lambda>c. well_formed (lent_to c)) calls"
    and "ch = channel_run ops ch0 calls" and "H = channel_frames ops ch0 calls"
    and "far_reference (tracker_evidence inp (ch_tracker ch)) = FarAbsent"
  shows "\<exists>n. complete_end_frame (tracker_evidence inp (ch_tracker ch)) = Some n \<and> 0 < n
     \<and> bij_betw at_frame H {..<n} \<and> (\<forall>x\<in>H. whole_frame x \<and> zero_tap ops x)"
proof -
  have ok: "channel_ok ops H ch"
    using channel_run_ok [OF new_channel_ok [OF assms(1)] assms(2)] assms(3,4) by simp
  have t: "f_terminal (facts (ch_tracker ch))" "\<not> f_nonzero (facts (ch_tracker ch))"
    using assms(5) by (auto simp: far_reference_def tracker_evidence_def Let_def default_evidence_def split: if_splits)
  have e: "complete_end_frame (tracker_evidence inp (ch_tracker ch)) = Some (cursor (ch_tracker ch))"
    using t(1) by (simp add: complete_end_frame_def tracker_evidence_def Let_def default_evidence_def)
  have "tracker_ok ops H (ch_tracker ch)" "placed H (ch_tracker ch)" using ok by (simp_all add: channel_ok_def)
  note x = terminal_exact [OF this t(1)]
  show ?thesis
    using e x t(2) by (intro exI [of _ "cursor (ch_tracker ch)"]) (simp add: bij_betw_def)
qed

definition silent_call :: "int channel_call list" where
  "silent_call = [ChannelPush (call_block 0 [1, 0] [0, 0]) observed_record, ChannelFinish (Some 2) observed_record]"

theorem absent_verdict_exact_witness:
  "\<exists>n. bij_betw at_frame (channel_frames integer_ops fresh_channel silent_call) {..<n} \<and> 0 < n"
proof -
  have "far_reference (tracker_evidence (ActivityInput (replicate 32 1) 1)
      (ch_tracker (channel_run integer_ops fresh_channel silent_call))) = FarAbsent"
    by (simp add: silent_call_def push_channel_def finish_channel_def call_block_def call_epoch_facts call_epoch_timed validate_observed tracker_block_def
        hand_back_def lend_def publish_facts_def activity_eval Let_def upt_rec far_reference_def tracker_evidence_def
        default_evidence_def)
    
  from absent_verdict_exact [OF fresh_channel_new _ refl refl this] show ?thesis
    by (auto simp: silent_call_def well_formed_observed)
qed

end
