(* ===== verification/CallHistory.thy ===== *)
theory CallHistory
  imports Jobs
begin

text \<open>
  The content-free history of hosted calls of \<open>crates/corti-queue/src/lib.rs\<close>: typed records, their
  validation, the raw SQLite row each is stored as and the way back. A string is its UTF-8 bytes; a
  column of type INTEGER is an int in the range of \<open>i64\<close>, a timestamp a number of milliseconds as in
  the job table, and the derived serde names of an enumeration its tokens.
\<close>

section \<open>Identifiers\<close>

datatype identifier_error = IdEmpty | IdTooLong | IdControlCharacter

definition MAX_IDENTIFIER_BYTES :: nat where "MAX_IDENTIFIER_BYTES = 512"

abbreviation byte_of :: "char \<Rightarrow> nat" where "byte_of c \<equiv> of_char c"

text \<open>\<open>char::is_control\<close> on the encoded text: the C0 range, DEL, and C1 in its two-byte form.\<close>

fun has_control :: "string \<Rightarrow> bool" where
  "has_control [] \<longleftrightarrow> False"
| "has_control (b # bs) \<longleftrightarrow>
     byte_of b < 32 \<or> byte_of b = 127
     \<or> (byte_of b = 194 \<and> bs \<noteq> [] \<and> 128 \<le> byte_of (hd bs) \<and> byte_of (hd bs) < 160)
     \<or> has_control bs"

definition validate_identifier :: "string \<Rightarrow> identifier_error + unit" where
  "validate_identifier v =
     (if v = '''' then Inl IdEmpty
      else if MAX_IDENTIFIER_BYTES < length v then Inl IdTooLong
      else if has_control v then Inl IdControlCharacter
      else Inr ())"

definition is_currency :: "string \<Rightarrow> bool" where
  "is_currency v \<longleftrightarrow> length v = 3 \<and> list_all (\<lambda>b. 65 \<le> byte_of b \<and> byte_of b \<le> 90) v"

section \<open>Enumerations and their tokens\<close>

datatype call_error =
    InvalidRecordingId | ZeroAttempt | MissingTariff | CostNotNull
  | ExceedsInteger string | NegativeInteger string | OutsideU32 string | NotBoolean string
  | UnknownToken string | BadIdentifier identifier_error | InvalidCurrency | NoSuchRecording

datatype call_lane = LaneLive | LaneFinal | LaneAdHocQuestion | LanePinnedQuestion
datatype support_tier = Documented | Experimental | Blocked
datatype billing_basis = MeteredEstimate | IncludedSubscription | NoProviderRequest | UnknownBasis
datatype error_code =
    AuthUnarmed | AuthRejected | Permission | Quota | RateLimited | ModelUnavailable | NetworkError
  | TimeoutError | CanceledError | SupersededError | PolicyBlocked | CacheError | MalformedOutput
  | ProviderError | BrokerExited | AmbiguousDispatch | InternalError
datatype postprocess_outcome =
    Applied | Completed | Canceled | FailedCall | Superseded | TimedOut | Fallback | Ambiguous
datatype cache_source = CacheNone | CacheLocal | CacheProvider | CacheNetwork | CacheMixed

text \<open>An enumeration as the list of its values with their tokens.\<close>

type_synonym 'e tokens = "('e \<times> string) list"

definition enum_token :: "'e tokens \<Rightarrow> 'e \<Rightarrow> string" where
  "enum_token ts v = the (map_of ts v)"

definition enum_from_token :: "'e tokens \<Rightarrow> string \<Rightarrow> call_error + 'e" where
  "enum_from_token ts s = ok_or (map_of (map prod.swap ts) s) (UnknownToken s)"

definition lane_tokens :: "call_lane tokens" where
  "lane_tokens = [(LaneLive, ''live''), (LaneFinal, ''final''), (LaneAdHocQuestion, ''ad_hoc_question''),
     (LanePinnedQuestion, ''pinned_question'')]"

definition tier_tokens :: "support_tier tokens" where
  "tier_tokens = [(Documented, ''documented''), (Experimental, ''experimental''), (Blocked, ''blocked'')]"

definition basis_tokens :: "billing_basis tokens" where
  "basis_tokens = [(MeteredEstimate, ''metered_estimate''), (IncludedSubscription, ''included_subscription''),
     (NoProviderRequest, ''no_provider_request''), (UnknownBasis, ''unknown'')]"

definition error_tokens :: "error_code tokens" where
  "error_tokens = [(AuthUnarmed, ''auth_unarmed''), (AuthRejected, ''auth_rejected''), (Permission, ''permission''),
     (Quota, ''quota''), (RateLimited, ''rate_limited''), (ModelUnavailable, ''model_unavailable''),
     (NetworkError, ''network''), (TimeoutError, ''timeout''), (CanceledError, ''canceled''),
     (SupersededError, ''superseded''), (PolicyBlocked, ''policy_blocked''), (CacheError, ''cache''),
     (MalformedOutput, ''malformed_output''), (ProviderError, ''provider''), (BrokerExited, ''broker_exited''),
     (AmbiguousDispatch, ''ambiguous_dispatch''), (InternalError, ''internal'')]"

definition outcome_tokens :: "postprocess_outcome tokens" where
  "outcome_tokens = [(Applied, ''applied''), (Completed, ''completed''), (Canceled, ''canceled''),
     (FailedCall, ''failed''), (Superseded, ''superseded''), (TimedOut, ''timeout''), (Fallback, ''fallback''),
     (Ambiguous, ''ambiguous'')]"

definition cache_tokens :: "cache_source tokens" where
  "cache_tokens = [(CacheNone, ''none''), (CacheLocal, ''local''), (CacheProvider, ''provider''),
     (CacheNetwork, ''network''), (CacheMixed, ''mixed'')]"

section \<open>Call records\<close>

record normalized_usage =
  input_tokens :: "u64 option"
  output_tokens :: "u64 option"
  cached_read_tokens :: "u64 option"
  cached_write_tokens :: "u64 option"
  reasoning_tokens :: "u64 option"
  usage_complete :: bool

record latency_fields =
  queue_us :: "u64 option"
  auth_us :: "u64 option"
  cache_lookup_us :: "u64 option"
  connect_us :: "u64 option"
  ttfb_us :: "u64 option"
  ttft_us :: "u64 option"
  stream_us :: "u64 option"
  parse_us :: "u64 option"
  cache_commit_us :: "u64 option"
  total_us :: "u64 option"

record call_cost =
  cost_basis :: billing_basis
  cost_micros :: "u64 option"
  currency :: "string option"
  catalog_version :: "string option"
  tariff_id :: "string option"
  tariff_effective_at :: "instant option"

definition without_cost :: "billing_basis \<Rightarrow> call_cost" where
  "without_cost b = \<lparr>cost_basis = b, cost_micros = None, currency = None, catalog_version = None,
     tariff_id = None, tariff_effective_at = None\<rparr>"

definition metered_cost :: "u64 \<Rightarrow> string \<Rightarrow> string \<Rightarrow> string \<Rightarrow> instant \<Rightarrow> call_cost" where
  "metered_cost micros code catalog tariff effective =
     \<lparr>cost_basis = MeteredEstimate, cost_micros = Some micros, currency = Some code,
      catalog_version = Some catalog, tariff_id = Some tariff, tariff_effective_at = Some effective\<rparr>"

definition ensure_cost_fields :: "call_cost \<Rightarrow> bool \<Rightarrow> call_error + unit" where
  "ensure_cost_fields c expected =
     (let present = [cost_micros c \<noteq> None, currency c \<noteq> None, catalog_version c \<noteq> None, tariff_id c \<noteq> None,
                     tariff_effective_at c \<noteq> None]
      in if list_all (\<lambda>p. p = expected) present then Inr ()
         else if expected then Inl MissingTariff else Inl CostNotNull)"

definition validate_cost :: "call_cost \<Rightarrow> call_error + unit" where
  "validate_cost c = ensure_cost_fields c (cost_basis c = MeteredEstimate)"

record call_record =
  call_id :: string
  call_recording :: string
  request_group :: string
  call_target :: "string option"
  lane :: call_lane
  attempt_no :: u64
  provider_id :: string
  transport_id :: string
  tier :: support_tier
  model_id :: string
  adapter_version :: u32
  prompt_version :: u32
  output_schema_version :: u32
  session_generation :: u64
  transcript_revision :: u64
  control_revision :: u64
  steering_revision :: u64
  bank_revision :: u64
  question_revision :: "u64 option"
  outcome :: postprocess_outcome
  call_error_code :: "error_code option"
  call_cache :: cache_source
  request_sent :: bool
  usage :: normalized_usage
  cost :: call_cost
  queued_at :: instant
  dispatched_at :: "instant option"
  completed_at :: "instant option"
  latency :: latency_fields
  created_at :: instant

definition validate_call :: "call_record \<Rightarrow> call_error + unit" where
  "validate_call c =
     (if call_recording c = '''' \<or> 512 < length (call_recording c) \<or> has_control (call_recording c)
      then Inl InvalidRecordingId
      else if attempt_no c = 0 then Inl ZeroAttempt
      else validate_cost (cost c))"

section \<open>Columns\<close>

definition sqlite_u64 :: "u64 \<Rightarrow> string \<Rightarrow> call_error + int" where
  "sqlite_u64 v label = (if v < 2 ^ 63 then Inr (int v) else Inl (ExceedsInteger label))"

definition sqlite_optional_u64 :: "u64 option \<Rightarrow> string \<Rightarrow> call_error + int option" where
  "sqlite_optional_u64 v label = transpose_result (map_option (\<lambda>x. sqlite_u64 x label) v)"

definition raw_u64 :: "int \<Rightarrow> string \<Rightarrow> call_error + u64" where
  "raw_u64 v label = (if 0 \<le> v then Inr (nat v) else Inl (NegativeInteger label))"

definition raw_optional_u64 :: "int option \<Rightarrow> string \<Rightarrow> call_error + u64 option" where
  "raw_optional_u64 v label = transpose_result (map_option (\<lambda>x. raw_u64 x label) v)"

definition raw_u32 :: "int \<Rightarrow> string \<Rightarrow> call_error + u32" where
  "raw_u32 v label = (if 0 \<le> v \<and> v < 2 ^ 32 then Inr (nat v) else Inl (OutsideU32 label))"

definition raw_bool :: "int \<Rightarrow> string \<Rightarrow> call_error + bool" where
  "raw_bool v label = (if v = 0 then Inr False else if v = 1 then Inr True else Inl (NotBoolean label))"

text \<open>The columns of a row, those of usage, cost and latency grouped.\<close>

record raw_usage =
  raw_input :: "int option"
  raw_output :: "int option"
  raw_cached_read :: "int option"
  raw_cached_write :: "int option"
  raw_reasoning :: "int option"
  raw_usage_complete :: int

record raw_latency =
  raw_queue :: "int option"
  raw_auth :: "int option"
  raw_cache_lookup :: "int option"
  raw_connect :: "int option"
  raw_ttfb :: "int option"
  raw_ttft :: "int option"
  raw_stream :: "int option"
  raw_parse :: "int option"
  raw_cache_commit :: "int option"
  raw_total :: "int option"

record raw_cost =
  raw_basis :: string
  raw_micros :: "int option"
  raw_currency :: "string option"
  raw_catalog :: "string option"
  raw_tariff :: "string option"
  raw_effective :: "int option"

record raw_call =
  raw_call_id :: string
  raw_recording :: string
  raw_group :: string
  raw_target :: "string option"
  raw_lane :: string
  raw_attempt :: int
  raw_provider :: string
  raw_transport :: string
  raw_tier :: string
  raw_model :: string
  raw_adapter :: int
  raw_prompt :: int
  raw_schema :: int
  raw_generation :: int
  raw_transcript :: int
  raw_control :: int
  raw_steering :: int
  raw_bank :: int
  raw_question :: "int option"
  raw_outcome :: string
  raw_error :: "string option"
  raw_cache :: string
  raw_sent :: int
  raw_use :: raw_usage
  raw_price :: raw_cost
  raw_queued :: int
  raw_dispatched :: "int option"
  raw_completed :: "int option"
  raw_timing :: raw_latency
  raw_created :: int

abbreviation sql_bool :: "bool \<Rightarrow> int" where "sql_bool b \<equiv> (if b then 1 else 0)"

definition usage_to_raw :: "normalized_usage \<Rightarrow> call_error + raw_usage" where
  "usage_to_raw u =
     rbind (sqlite_optional_u64 (input_tokens u) ''input_tokens'') (\<lambda>i.
     rbind (sqlite_optional_u64 (output_tokens u) ''output_tokens'') (\<lambda>out.
     rbind (sqlite_optional_u64 (cached_read_tokens u) ''cached_read_tokens'') (\<lambda>cr.
     rbind (sqlite_optional_u64 (cached_write_tokens u) ''cached_write_tokens'') (\<lambda>cw.
     rbind (sqlite_optional_u64 (reasoning_tokens u) ''reasoning_tokens'') (\<lambda>re.
       Inr \<lparr>raw_input = i, raw_output = out, raw_cached_read = cr, raw_cached_write = cw,
            raw_reasoning = re, raw_usage_complete = sql_bool (usage_complete u)\<rparr>)))))"

definition latency_to_raw :: "latency_fields \<Rightarrow> call_error + raw_latency" where
  "latency_to_raw l =
     rbind (sqlite_optional_u64 (queue_us l) ''queue_us'') (\<lambda>q.
     rbind (sqlite_optional_u64 (auth_us l) ''auth_us'') (\<lambda>a.
     rbind (sqlite_optional_u64 (cache_lookup_us l) ''cache_lookup_us'') (\<lambda>k.
     rbind (sqlite_optional_u64 (connect_us l) ''connect_us'') (\<lambda>c.
     rbind (sqlite_optional_u64 (ttfb_us l) ''ttfb_us'') (\<lambda>b.
     rbind (sqlite_optional_u64 (ttft_us l) ''ttft_us'') (\<lambda>t.
     rbind (sqlite_optional_u64 (stream_us l) ''stream_us'') (\<lambda>s.
     rbind (sqlite_optional_u64 (parse_us l) ''parse_us'') (\<lambda>p.
     rbind (sqlite_optional_u64 (cache_commit_us l) ''cache_commit_us'') (\<lambda>m.
     rbind (sqlite_optional_u64 (total_us l) ''total_us'') (\<lambda>tot.
       Inr \<lparr>raw_queue = q, raw_auth = a, raw_cache_lookup = k, raw_connect = c, raw_ttfb = b, raw_ttft = t,
            raw_stream = s, raw_parse = p, raw_cache_commit = m, raw_total = tot\<rparr>))))))))))"

definition cost_to_raw :: "call_cost \<Rightarrow> int option \<Rightarrow> raw_cost" where
  "cost_to_raw c micros =
     \<lparr>raw_basis = enum_token basis_tokens (cost_basis c), raw_micros = micros, raw_currency = currency c,
      raw_catalog = catalog_version c, raw_tariff = tariff_id c,
      raw_effective = map_option fmt_utc (tariff_effective_at c)\<rparr>"

text \<open>The checked columns in the order of the source, then the row.\<close>

definition call_to_raw :: "call_record \<Rightarrow> call_error + raw_call" where
  "call_to_raw c =
     rbind (validate_call c) (\<lambda>_.
     rbind (sqlite_u64 (attempt_no c) ''attempt_no'') (\<lambda>attempt.
     rbind (sqlite_u64 (session_generation c) ''session_generation'') (\<lambda>generation.
     rbind (sqlite_u64 (transcript_revision c) ''transcript_revision'') (\<lambda>transcript.
     rbind (sqlite_u64 (control_revision c) ''control_revision'') (\<lambda>control.
     rbind (sqlite_u64 (steering_revision c) ''steering_revision'') (\<lambda>steering.
     rbind (sqlite_u64 (bank_revision c) ''bank_revision'') (\<lambda>bank.
     rbind (sqlite_optional_u64 (question_revision c) ''question_revision'') (\<lambda>question.
     rbind (usage_to_raw (usage c)) (\<lambda>use.
     rbind (sqlite_optional_u64 (cost_micros (cost c)) ''cost_micros'') (\<lambda>micros.
     rbind (latency_to_raw (latency c)) (\<lambda>timing.
       Inr \<lparr>raw_call_id = call_id c, raw_recording = call_recording c, raw_group = request_group c,
            raw_target = call_target c, raw_lane = enum_token lane_tokens (lane c), raw_attempt = attempt,
            raw_provider = provider_id c, raw_transport = transport_id c,
            raw_tier = enum_token tier_tokens (tier c), raw_model = model_id c,
            raw_adapter = int (adapter_version c), raw_prompt = int (prompt_version c),
            raw_schema = int (output_schema_version c), raw_generation = generation,
            raw_transcript = transcript, raw_control = control, raw_steering = steering, raw_bank = bank,
            raw_question = question, raw_outcome = enum_token outcome_tokens (outcome c),
            raw_error = map_option (enum_token error_tokens) (call_error_code c),
            raw_cache = enum_token cache_tokens (call_cache c), raw_sent = sql_bool (request_sent c),
            raw_use = use, raw_price = cost_to_raw (cost c) micros, raw_queued = fmt_utc (queued_at c),
            raw_dispatched = map_option fmt_utc (dispatched_at c),
            raw_completed = map_option fmt_utc (completed_at c), raw_timing = timing,
            raw_created = fmt_utc (created_at c)\<rparr>)))))))))))"

section \<open>Reading back\<close>

definition read_id :: "string \<Rightarrow> call_error + string" where
  "read_id v = (case validate_identifier v of Inl e \<Rightarrow> Inl (BadIdentifier e) | Inr _ \<Rightarrow> Inr v)"

definition read_currency :: "string \<Rightarrow> call_error + string" where
  "read_currency v = (if is_currency v then Inr v else Inl InvalidCurrency)"

definition raw_to_cost :: "raw_cost \<Rightarrow> call_error + call_cost" where
  "raw_to_cost r =
     rbind (enum_from_token basis_tokens (raw_basis r)) (\<lambda>basis.
     rbind (raw_optional_u64 (raw_micros r) ''cost_micros'') (\<lambda>micros.
     rbind (transpose_result (map_option read_currency (raw_currency r))) (\<lambda>cur.
       Inr \<lparr>cost_basis = basis, cost_micros = micros, currency = cur, catalog_version = raw_catalog r,
            tariff_id = raw_tariff r, tariff_effective_at = map_option parse_utc (raw_effective r)\<rparr>)))"

definition raw_to_usage :: "raw_usage \<Rightarrow> call_error + normalized_usage" where
  "raw_to_usage r =
     rbind (raw_optional_u64 (raw_input r) ''input_tokens'') (\<lambda>i.
     rbind (raw_optional_u64 (raw_output r) ''output_tokens'') (\<lambda>out.
     rbind (raw_optional_u64 (raw_cached_read r) ''cached_read_tokens'') (\<lambda>cr.
     rbind (raw_optional_u64 (raw_cached_write r) ''cached_write_tokens'') (\<lambda>cw.
     rbind (raw_optional_u64 (raw_reasoning r) ''reasoning_tokens'') (\<lambda>re.
     rbind (raw_bool (raw_usage_complete r) ''usage_complete'') (\<lambda>whole.
       Inr \<lparr>input_tokens = i, output_tokens = out, cached_read_tokens = cr, cached_write_tokens = cw,
            reasoning_tokens = re, usage_complete = whole\<rparr>))))))"

definition raw_to_latency :: "raw_latency \<Rightarrow> call_error + latency_fields" where
  "raw_to_latency r =
     rbind (raw_optional_u64 (raw_queue r) ''queue_us'') (\<lambda>q.
     rbind (raw_optional_u64 (raw_auth r) ''auth_us'') (\<lambda>a.
     rbind (raw_optional_u64 (raw_cache_lookup r) ''cache_lookup_us'') (\<lambda>k.
     rbind (raw_optional_u64 (raw_connect r) ''connect_us'') (\<lambda>c.
     rbind (raw_optional_u64 (raw_ttfb r) ''ttfb_us'') (\<lambda>b.
     rbind (raw_optional_u64 (raw_ttft r) ''ttft_us'') (\<lambda>t.
     rbind (raw_optional_u64 (raw_stream r) ''stream_us'') (\<lambda>s.
     rbind (raw_optional_u64 (raw_parse r) ''parse_us'') (\<lambda>p.
     rbind (raw_optional_u64 (raw_cache_commit r) ''cache_commit_us'') (\<lambda>m.
     rbind (raw_optional_u64 (raw_total r) ''total_us'') (\<lambda>tot.
       Inr \<lparr>queue_us = q, auth_us = a, cache_lookup_us = k, connect_us = c, ttfb_us = b, ttft_us = t,
            stream_us = s, parse_us = p, cache_commit_us = m, total_us = tot\<rparr>))))))))))"

definition raw_to_call :: "raw_call \<Rightarrow> call_error + call_record" where
  "raw_to_call r =
     rbind (raw_to_cost (raw_price r)) (\<lambda>price.
     rbind (read_id (raw_call_id r)) (\<lambda>i.
     rbind (read_id (raw_group r)) (\<lambda>grp.
     rbind (transpose_result (map_option read_id (raw_target r))) (\<lambda>target.
     rbind (enum_from_token lane_tokens (raw_lane r)) (\<lambda>ln.
     rbind (raw_u64 (raw_attempt r) ''attempt_no'') (\<lambda>attempt.
     rbind (read_id (raw_provider r)) (\<lambda>provider.
     rbind (read_id (raw_transport r)) (\<lambda>transport.
     rbind (enum_from_token tier_tokens (raw_tier r)) (\<lambda>tr.
     rbind (read_id (raw_model r)) (\<lambda>model.
     rbind (raw_u32 (raw_adapter r) ''adapter_version'') (\<lambda>adapter.
     rbind (raw_u32 (raw_prompt r) ''prompt_version'') (\<lambda>prompt.
     rbind (raw_u32 (raw_schema r) ''output_schema_version'') (\<lambda>schema.
     rbind (raw_u64 (raw_generation r) ''session_generation'') (\<lambda>generation.
     rbind (raw_u64 (raw_transcript r) ''transcript_revision'') (\<lambda>transcript.
     rbind (raw_u64 (raw_control r) ''control_revision'') (\<lambda>control.
     rbind (raw_u64 (raw_steering r) ''steering_revision'') (\<lambda>steering.
     rbind (raw_u64 (raw_bank r) ''bank_revision'') (\<lambda>bank.
     rbind (raw_optional_u64 (raw_question r) ''question_revision'') (\<lambda>question.
     rbind (enum_from_token outcome_tokens (raw_outcome r)) (\<lambda>oc.
     rbind (transpose_result (map_option (enum_from_token error_tokens) (raw_error r))) (\<lambda>err.
     rbind (enum_from_token cache_tokens (raw_cache r)) (\<lambda>cache.
     rbind (raw_bool (raw_sent r) ''provider_request_sent'') (\<lambda>sent.
     rbind (raw_to_usage (raw_use r)) (\<lambda>use.
     rbind (raw_to_latency (raw_timing r)) (\<lambda>timing.
       (let c = \<lparr>call_id = i, call_recording = raw_recording r, request_group = grp, call_target = target,
              lane = ln, attempt_no = attempt, provider_id = provider, transport_id = transport, tier = tr,
              model_id = model, adapter_version = adapter, prompt_version = prompt,
              output_schema_version = schema, session_generation = generation,
              transcript_revision = transcript, control_revision = control, steering_revision = steering,
              bank_revision = bank, question_revision = question, outcome = oc, call_error_code = err,
              call_cache = cache, request_sent = sent, usage = use, cost = price,
              queued_at = parse_utc (raw_queued r), dispatched_at = map_option parse_utc (raw_dispatched r),
              completed_at = map_option parse_utc (raw_completed r), latency = timing,
              created_at = parse_utc (raw_created r)\<rparr>
        in rbind (validate_call c) (\<lambda>_. Inr c)))))))))))))))))))))))))))"

section \<open>The way back\<close>

text \<open>What the types of a record guarantee: identifiers and currencies are valid, integers fit.\<close>

definition call_typed :: "call_record \<Rightarrow> bool" where
  "call_typed c \<longleftrightarrow>
     list_all (\<lambda>i. is_ok (validate_identifier i))
       [call_id c, request_group c, provider_id c, transport_id c, model_id c]
     \<and> pred_option (\<lambda>i. is_ok (validate_identifier i)) (call_target c)
     \<and> pred_option is_currency (currency (cost c))
     \<and> fits32 (adapter_version c) \<and> fits32 (prompt_version c) \<and> fits32 (output_schema_version c)"

definition to_millis :: "instant \<Rightarrow> instant" where "to_millis t = parse_utc (fmt_utc t)"

text \<open>A record as it survives storage: its instants lose what is below a millisecond.\<close>

definition stored_call :: "call_record \<Rightarrow> call_record" where
  "stored_call c = c\<lparr>queued_at := to_millis (queued_at c),
     dispatched_at := map_option to_millis (dispatched_at c),
     completed_at := map_option to_millis (completed_at c), created_at := to_millis (created_at c),
     cost := (cost c)\<lparr>tariff_effective_at := map_option to_millis (tariff_effective_at (cost c))\<rparr>\<rparr>"

lemma sqlite_raw_u64: "sqlite_u64 v l = Inr x \<Longrightarrow> raw_u64 x m = Inr v"
  by (auto simp: sqlite_u64_def raw_u64_def split: if_splits)

lemma sqlite_raw_optional: "sqlite_optional_u64 v l = Inr x \<Longrightarrow> raw_optional_u64 x m = Inr v"
  using sqlite_raw_u64
  by (cases v) (auto simp: sqlite_optional_u64_def raw_optional_u64_def transpose_result_def split: sum.splits)

lemma raw_sql_bool [simp]: "raw_bool (sql_bool b) l = Inr b"
  by (simp add: raw_bool_def)

lemma raw_u32_int [simp]: "fits32 n \<Longrightarrow> raw_u32 (int n) l = Inr n"
  by (simp add: raw_u32_def)

lemma read_id_valid [simp]: "is_ok (validate_identifier v) \<Longrightarrow> read_id v = Inr v"
  by (auto simp: read_id_def is_ok_iff)

lemma usage_roundtrip: "usage_to_raw u = Inr r \<Longrightarrow> raw_to_usage r = Inr u"
  by (auto simp: usage_to_raw_def raw_to_usage_def sqlite_raw_optional)

lemma latency_roundtrip: "latency_to_raw u = Inr r \<Longrightarrow> raw_to_latency r = Inr u"
  by (auto simp: latency_to_raw_def raw_to_latency_def sqlite_raw_optional)

text \<open>Every value has one token and every token one value.\<close>

lemma tokens_roundtrip:
  assumes "distinct (map snd ts)" and "v \<in> fst ` set ts"
  shows "enum_from_token ts (enum_token ts v) = Inr v"
proof -
  obtain s where s: "map_of ts v = Some s" using assms(2) by (metis domIff dom_map_of_conv_image_fst option.exhaust)
  have "distinct (map fst (map prod.swap ts))" using assms(1) by (simp add: comp_def)
  moreover have "(s, v) \<in> set (map prod.swap ts)" using map_of_SomeD [OF s] by force
  ultimately have "map_of (map prod.swap ts) s = Some v" by (rule map_of_is_SomeI)
  then show ?thesis using s by (simp add: enum_from_token_def enum_token_def)
qed

lemma lane_token [simp]: "enum_from_token lane_tokens (enum_token lane_tokens v) = Inr v"
  by (rule tokens_roundtrip; cases v; simp add: lane_tokens_def)

lemma tier_token [simp]: "enum_from_token tier_tokens (enum_token tier_tokens v) = Inr v"
  by (rule tokens_roundtrip; cases v; simp add: tier_tokens_def)

lemma basis_token [simp]: "enum_from_token basis_tokens (enum_token basis_tokens v) = Inr v"
  by (rule tokens_roundtrip; cases v; simp add: basis_tokens_def)

lemma error_token [simp]: "enum_from_token error_tokens (enum_token error_tokens v) = Inr v"
  by (rule tokens_roundtrip; cases v; simp add: error_tokens_def)

lemma outcome_token [simp]: "enum_from_token outcome_tokens (enum_token outcome_tokens v) = Inr v"
  by (rule tokens_roundtrip; cases v; simp add: outcome_tokens_def)

lemma cache_token [simp]: "enum_from_token cache_tokens (enum_token cache_tokens v) = Inr v"
  by (rule tokens_roundtrip; cases v; simp add: cache_tokens_def)

lemmas token_tables = lane_token tier_token basis_token error_token outcome_token cache_token

lemma transpose_some [simp]: "transpose_result (map_option Inr v) = Inr v"
  by (cases v) (simp_all add: transpose_result_def)

lemma cost_roundtrip:
  assumes "sqlite_optional_u64 (cost_micros c) l = Inr micros" and "pred_option is_currency (currency c)"
  shows "raw_to_cost (cost_to_raw c micros)
    = Inr (c\<lparr>tariff_effective_at := map_option to_millis (tariff_effective_at c)\<rparr>)"
  using assms
  by (cases c; cases "currency c")
     (auto simp: raw_to_cost_def cost_to_raw_def sqlite_raw_optional read_currency_def transpose_result_def
       to_millis_def [abs_def] option.map_comp comp_def)

lemma validate_stored: "validate_call (stored_call c) = validate_call c"
  by (simp add: validate_call_def stored_call_def validate_cost_def ensure_cost_fields_def)

lemma read_target:
  "pred_option (\<lambda>i. is_ok (validate_identifier i)) v \<Longrightarrow> transpose_result (map_option read_id v) = Inr v"
  by (cases v) (simp_all add: transpose_result_def)

lemma read_error:
  "transpose_result (map_option (enum_from_token error_tokens) (map_option (enum_token error_tokens) v)) = Inr v"
  by (cases v) (simp_all add: transpose_result_def)

lemma call_roundtrip:
  assumes w: "call_to_raw c = Inr r" and t: "call_typed c"
  shows "raw_to_call r = Inr (stored_call c)"
proof -
  have v: "is_ok (validate_call c)" using w by (auto simp: call_to_raw_def is_ok_iff)
  then have vs: "validate_call (stored_call c) = Inr ()" unfolding validate_stored by (auto simp: is_ok_iff)
  have st: "stored_call c = \<lparr>call_id = call_id c, call_recording = call_recording c, request_group = request_group c,
      call_target = call_target c, lane = lane c, attempt_no = attempt_no c, provider_id = provider_id c,
      transport_id = transport_id c, tier = tier c, model_id = model_id c, adapter_version = adapter_version c,
      prompt_version = prompt_version c, output_schema_version = output_schema_version c,
      session_generation = session_generation c, transcript_revision = transcript_revision c,
      control_revision = control_revision c, steering_revision = steering_revision c,
      bank_revision = bank_revision c, question_revision = question_revision c, outcome = outcome c,
      call_error_code = call_error_code c, call_cache = call_cache c, request_sent = request_sent c,
      usage = usage c, cost = (cost c)\<lparr>tariff_effective_at := map_option to_millis (tariff_effective_at (cost c))\<rparr>,
      queued_at = parse_utc (fmt_utc (queued_at c)),
      dispatched_at = map_option parse_utc (map_option fmt_utc (dispatched_at c)),
      completed_at = map_option parse_utc (map_option fmt_utc (completed_at c)), latency = latency c,
      created_at = parse_utc (fmt_utc (created_at c))\<rparr>"
    by (cases c) (simp add: stored_call_def to_millis_def [abs_def] option.map_comp comp_def)
  note ok = vs [unfolded st]
  obtain x where x: "call_to_raw c = Inr x" and
    raw: "raw_call_id x = call_id c" "raw_recording x = call_recording c" "raw_group x = request_group c"
      "raw_target x = call_target c" "raw_lane x = enum_token lane_tokens (lane c)"
      "raw_u64 (raw_attempt x) ''attempt_no'' = Inr (attempt_no c)" "raw_provider x = provider_id c"
      "raw_transport x = transport_id c" "raw_tier x = enum_token tier_tokens (tier c)" "raw_model x = model_id c"
      "raw_adapter x = int (adapter_version c)" "raw_prompt x = int (prompt_version c)"
      "raw_schema x = int (output_schema_version c)"
      "raw_u64 (raw_generation x) ''session_generation'' = Inr (session_generation c)"
      "raw_u64 (raw_transcript x) ''transcript_revision'' = Inr (transcript_revision c)"
      "raw_u64 (raw_control x) ''control_revision'' = Inr (control_revision c)"
      "raw_u64 (raw_steering x) ''steering_revision'' = Inr (steering_revision c)"
      "raw_u64 (raw_bank x) ''bank_revision'' = Inr (bank_revision c)"
      "raw_optional_u64 (raw_question x) ''question_revision'' = Inr (question_revision c)"
      "raw_outcome x = enum_token outcome_tokens (outcome c)"
      "raw_error x = map_option (enum_token error_tokens) (call_error_code c)"
      "raw_cache x = enum_token cache_tokens (call_cache c)" "raw_sent x = sql_bool (request_sent c)"
      "raw_to_usage (raw_use x) = Inr (usage c)"
      "raw_to_cost (raw_price x) = Inr ((cost c)\<lparr>tariff_effective_at := map_option to_millis (tariff_effective_at (cost c))\<rparr>)"
      "raw_queued x = fmt_utc (queued_at c)" "raw_dispatched x = map_option fmt_utc (dispatched_at c)"
      "raw_completed x = map_option fmt_utc (completed_at c)" "raw_to_latency (raw_timing x) = Inr (latency c)"
      "raw_created x = fmt_utc (created_at c)"
    using w t
    by (auto simp: call_to_raw_def call_typed_def sqlite_raw_u64 sqlite_raw_optional usage_roundtrip
        latency_roundtrip cost_roundtrip)
  have id: "read_id (call_id c) = Inr (call_id c)" "read_id (request_group c) = Inr (request_group c)"
    "read_id (provider_id c) = Inr (provider_id c)" "read_id (transport_id c) = Inr (transport_id c)"
    "read_id (model_id c) = Inr (model_id c)" "transpose_result (map_option read_id (call_target c)) = Inr (call_target c)"
    "fits32 (adapter_version c)" "fits32 (prompt_version c)" "fits32 (output_schema_version c)"
    using t by (auto simp: call_typed_def read_target)
  have "raw_to_call x = Inr (stored_call c)"
    by (simp only: raw_to_call_def raw id raw_u32_int token_tables read_error raw_sql_bool rbind_simps Let_def ok st)
  then show ?thesis using w x by simp
qed

end
