(* ===== verification/Queue.thy ===== *)
theory Queue
  imports CallHistory DetectWorker
begin

text \<open>
  The recordings table of \<open>crates/corti-queue/src/lib.rs\<close>, together with the job table it embeds and the
  call history that references it. A table is a list of rows; an operation that is one statement or one
  transaction returns an error, the database being what it was, or its result with the new database.
  The clock is passed in and a stored timestamp is a number of milliseconds, as in the job table; an
  instant of a recording is a number of nanoseconds. Paths are their text. Failures of the file itself
  and the migrations of old files are left out.
\<close>

section \<open>Status\<close>

datatype job_status = Recording | PendingTranscription | Transcribing | PendingNote | Done | Failed

definition is_terminal :: "job_status \<Rightarrow> bool" where
  "is_terminal s \<longleftrightarrow> s = Done \<or> s = Failed"

definition status_tokens :: "job_status tokens" where
  "status_tokens = [(Recording, ''recording''), (PendingTranscription, ''pending_transcription''),
     (Transcribing, ''transcribing''), (PendingNote, ''pending_note''), (Done, ''done''), (Failed, ''failed'')]"

definition status_to_string :: "job_status \<Rightarrow> string" where
  "status_to_string s = enum_token status_tokens s"

definition status_from_str :: "string \<Rightarrow> call_error + job_status" where
  "status_from_str t = enum_from_token status_tokens t"

datatype postprocess_state = AwaitingAuth | Dispatching | Finalizing | FallbackState | CompleteState

definition postprocess_tokens :: "postprocess_state tokens" where
  "postprocess_tokens = [(AwaitingAuth, ''awaiting_auth''), (Dispatching, ''dispatching''),
     (Finalizing, ''finalizing''), (FallbackState, ''fallback''), (CompleteState, ''complete'')]"

section \<open>Rows\<close>

record raw_row =
  rr_id :: string
  rr_started :: int
  rr_ended :: "int option"
  rr_app :: string
  rr_bundle :: "string option"
  rr_audio :: string
  rr_status :: string
  rr_s3 :: "string option"
  rr_transcribe_job :: "string option"
  rr_note :: "string option"
  rr_error :: "string option"
  rr_updated :: int
  rr_secs :: "string option"
  rr_post_state :: "string option"
  rr_post_updated :: "int option"
  rr_capture :: "string option"

text \<open>A float is only carried: the text of its value.\<close>

record queue_job =
  qj_id :: string
  qj_started :: Jobs.instant
  qj_ended :: "Jobs.instant option"
  qj_app :: string
  qj_bundle :: "string option"
  qj_audio :: string
  qj_status :: job_status
  qj_s3 :: "string option"
  qj_transcribe_job :: "string option"
  qj_note :: "string option"
  qj_error :: "string option"
  qj_secs :: "string option"
  qj_capture :: "string option"
  qj_post_state :: "postprocess_state option"
  qj_post_updated :: "Jobs.instant option"
  qj_updated :: Jobs.instant

definition meta_of :: "queue_job \<Rightarrow> recording_meta" where
  "meta_of j = \<lparr>started_at = nat (qj_started j), ended_at = map_option nat (qj_ended j),
     rec_app = \<lparr>bundle_id = qj_bundle j, app_name = qj_app j\<rparr>, audio_path = qj_audio j\<rparr>"

definition raw_to_job :: "raw_row \<Rightarrow> call_error + queue_job" where
  "raw_to_job r =
     rbind (status_from_str (rr_status r)) (\<lambda>status.
     rbind (transpose_result (map_option (enum_from_token postprocess_tokens) (rr_post_state r))) (\<lambda>post.
       Inr \<lparr>qj_id = rr_id r, qj_started = parse_utc (rr_started r), qj_ended = map_option parse_utc (rr_ended r),
            qj_app = rr_app r, qj_bundle = rr_bundle r, qj_audio = rr_audio r, qj_status = status,
            qj_s3 = rr_s3 r, qj_transcribe_job = rr_transcribe_job r, qj_note = rr_note r,
            qj_error = rr_error r, qj_secs = rr_secs r, qj_capture = rr_capture r, qj_post_state = post,
            qj_post_updated = map_option parse_utc (rr_post_updated r), qj_updated = parse_utc (rr_updated r)\<rparr>))"

text \<open>\<open>iter().map(..).collect()\<close> into a result: the first error wins.\<close>

fun collect_results :: "('a \<Rightarrow> 'e + 'b) \<Rightarrow> 'a list \<Rightarrow> 'e + 'b list" where
  "collect_results f [] = Inr []"
| "collect_results f (x # xs) = rbind (f x) (\<lambda>y. rbind (collect_results f xs) (\<lambda>ys. Inr (y # ys)))"

record job_update =
  up_status :: "job_status option"
  up_s3 :: "string option"
  up_transcribe_job :: "string option"
  up_note :: "string option"
  up_error :: "string option"
  up_secs :: "string option"
  up_audio :: "string option"
  up_ended :: "Jobs.instant option"

definition no_update :: job_update where
  "no_update = \<lparr>up_status = None, up_s3 = None, up_transcribe_job = None, up_note = None, up_error = None,
     up_secs = None, up_audio = None, up_ended = None\<rparr>"

section \<open>The database\<close>

record 't queue_db =
  recordings :: "raw_row list"
  job_rows :: "'t job_row list"
  call_rows :: "raw_call list"

datatype queue_error =
    NoRecording | NotFailed | CannotResetTo job_status | ConflictingJobIdentity | JobTable job_error
  | CallColumn call_error | ForeignKey

definition tracked :: "'t queue_db \<Rightarrow> string \<Rightarrow> bool" where
  "tracked db i \<longleftrightarrow> list_ex (\<lambda>r. rr_id r = i) (recordings db)"

definition find_row :: "'t queue_db \<Rightarrow> string \<Rightarrow> raw_row option" where
  "find_row db i = find (\<lambda>r. rr_id r = i) (recordings db)"

text \<open>\<open>UPDATE recordings SET .. WHERE p\<close>, with the number of changed rows.\<close>

definition update_rows ::
    "(raw_row \<Rightarrow> bool) \<Rightarrow> (raw_row \<Rightarrow> raw_row) \<Rightarrow> 't queue_db \<Rightarrow> nat \<times> 't queue_db" where
  "update_rows p f db =
     (length (filter p (recordings db)),
      db\<lparr>recordings := map (\<lambda>r. if p r then f r else r) (recordings db)\<rparr>)"

definition coalesce_column :: "'a option \<Rightarrow> 'a option \<Rightarrow> 'a option" where
  "coalesce_column new old = (case new of Some v \<Rightarrow> Some v | None \<Rightarrow> old)"

definition coalesce_value :: "'a option \<Rightarrow> 'a \<Rightarrow> 'a" where
  "coalesce_value new old = (case new of Some v \<Rightarrow> v | None \<Rightarrow> old)"

section \<open>Identity\<close>

text \<open>\<open>Path::file_stem\<close> on Unix text.\<close>

fun split_path :: "string \<Rightarrow> string list" where
  "split_path [] = [[]]"
| "split_path (c # cs) =
     (if c = CHR ''/'' then [] # split_path cs
      else (case split_path cs of [] \<Rightarrow> [[c]] | w # ws \<Rightarrow> (c # w) # ws))"

definition file_name :: "string \<Rightarrow> string option" where
  "file_name path =
     (let parts = filter (\<lambda>p. p \<noteq> '''' \<and> p \<noteq> ''.'') (split_path path)
      in if parts = [] \<or> last parts = ''..'' then None else Some (last parts))"

definition stem_of :: "string \<Rightarrow> string" where
  "stem_of name =
     (let before = rev (drop 1 (dropWhile (\<lambda>c. c \<noteq> CHR ''.'') (rev name)))
      in if before = '''' then name else before)"

definition queue_job_id :: "(nat \<Rightarrow> string) \<Rightarrow> recording_meta \<Rightarrow> string" where
  "queue_job_id started_name m =
     (case opt_filter (\<lambda>s. s \<noteq> '''') (map_option stem_of (file_name (audio_path m))) of
        Some s \<Rightarrow> s | None \<Rightarrow> started_name (started_at m))"

section \<open>Recordings\<close>

definition fresh_row :: "string \<Rightarrow> recording_meta \<Rightarrow> string option \<Rightarrow> Jobs.instant \<Rightarrow> raw_row" where
  "fresh_row i m marker now =
     \<lparr>rr_id = i, rr_started = fmt_utc (int (started_at m)),
      rr_ended = map_option (\<lambda>t. fmt_utc (int t)) (ended_at m), rr_app = app_name (rec_app m),
      rr_bundle = bundle_id (rec_app m), rr_audio = audio_path m,
      rr_status = status_to_string PendingTranscription, rr_s3 = None, rr_transcribe_job = None,
      rr_note = None, rr_error = None, rr_updated = fmt_utc now, rr_secs = None, rr_post_state = None,
      rr_post_updated = None, rr_capture = marker\<rparr>"

definition enqueue_with_capture_processing ::
    "(nat \<Rightarrow> string) \<Rightarrow> 't queue_db \<Rightarrow> recording_meta \<Rightarrow> string option \<Rightarrow> Jobs.instant \<Rightarrow> string \<times> 't queue_db" where
  "enqueue_with_capture_processing started_name db m marker now =
     (let i = queue_job_id started_name m
      in (i, if \<not> tracked db i then db\<lparr>recordings := recordings db @ [fresh_row i m marker now]\<rparr>
             else if marker \<noteq> None
             then snd (update_rows (\<lambda>r. rr_id r = i)
                    (\<lambda>r. r\<lparr>rr_capture := coalesce_column (rr_capture r) marker\<rparr>) db)
             else db))"

definition enqueue_meta ::
    "(nat \<Rightarrow> string) \<Rightarrow> 't queue_db \<Rightarrow> recording_meta \<Rightarrow> Jobs.instant \<Rightarrow> string \<times> 't queue_db" where
  "enqueue_meta started_name db m now = enqueue_with_capture_processing started_name db m None now"

definition get_recording :: "'t queue_db \<Rightarrow> string \<Rightarrow> call_error + queue_job option" where
  "get_recording db i = transpose_result (map_option raw_to_job (find_row db i))"

text \<open>An update by id, an error when there is no such row.\<close>

definition update_by_id :: "'t queue_db \<Rightarrow> string \<Rightarrow> (raw_row \<Rightarrow> raw_row) \<Rightarrow> queue_error + 't queue_db" where
  "update_by_id db i f =
     (case update_rows (\<lambda>r. rr_id r = i) f db of (n, db') \<Rightarrow> if n = 0 then Inl NoRecording else Inr db')"

definition set_status :: "'t queue_db \<Rightarrow> string \<Rightarrow> job_status \<Rightarrow> Jobs.instant \<Rightarrow> queue_error + 't queue_db" where
  "set_status db i s now =
     update_by_id db i (\<lambda>r. r\<lparr>rr_status := status_to_string s, rr_updated := fmt_utc now\<rparr>)"

definition complete_with_note :: "'t queue_db \<Rightarrow> string \<Rightarrow> string \<Rightarrow> Jobs.instant \<Rightarrow> queue_error + 't queue_db" where
  "complete_with_note db i note now =
     update_by_id db i (\<lambda>r. r\<lparr>rr_note := Some note, rr_status := status_to_string Done, rr_error := None,
       rr_updated := fmt_utc now\<rparr>)"

definition update_recording ::
    "'t queue_db \<Rightarrow> string \<Rightarrow> job_update \<Rightarrow> Jobs.instant \<Rightarrow> queue_error + 't queue_db" where
  "update_recording db i u now =
     update_by_id db i (\<lambda>r. r\<lparr>
       rr_status := coalesce_value (map_option status_to_string (up_status u)) (rr_status r),
       rr_s3 := coalesce_column (up_s3 u) (rr_s3 r),
       rr_transcribe_job := coalesce_column (up_transcribe_job u) (rr_transcribe_job r),
       rr_note := coalesce_column (up_note u) (rr_note r),
       rr_error := coalesce_column (up_error u) (rr_error r),
       rr_secs := coalesce_column (up_secs u) (rr_secs r),
       rr_audio := coalesce_value (up_audio u) (rr_audio r),
       rr_ended := coalesce_column (map_option fmt_utc (up_ended u)) (rr_ended r),
       rr_updated := fmt_utc now\<rparr>)"

definition fail_with :: "'t queue_db \<Rightarrow> string \<Rightarrow> string \<Rightarrow> Jobs.instant \<Rightarrow> queue_error + 't queue_db" where
  "fail_with db i err now =
     update_recording db i (no_update\<lparr>up_status := Some Failed, up_error := Some err\<rparr>) now"

definition retry_reset_to :: "'t queue_db \<Rightarrow> string \<Rightarrow> job_status \<Rightarrow> Jobs.instant \<Rightarrow> queue_error + 't queue_db" where
  "retry_reset_to db i s now =
     (if s \<noteq> PendingTranscription \<and> s \<noteq> PendingNote then Inl (CannotResetTo s)
      else case update_rows (\<lambda>r. rr_id r = i \<and> rr_status r = status_to_string Failed)
             (\<lambda>r. r\<lparr>rr_status := status_to_string s, rr_error := None, rr_updated := fmt_utc now\<rparr>) db of
             (n, db') \<Rightarrow> if n = 0 then Inl NotFailed else Inr db')"

definition retry_reset :: "'t queue_db \<Rightarrow> string \<Rightarrow> Jobs.instant \<Rightarrow> queue_error + 't queue_db" where
  "retry_reset db i now = retry_reset_to db i PendingTranscription now"

text \<open>One transaction over both tables: an error at either leaves the database as it was.\<close>

definition retry_rearm_recording ::
    "'t codec \<Rightarrow> 't queue_db \<Rightarrow> string \<Rightarrow> job_status \<Rightarrow> string \<Rightarrow> json \<Rightarrow> u32 \<Rightarrow> Jobs.instant \<Rightarrow> Jobs.instant
       \<Rightarrow> queue_error + 't queue_db" where
  "retry_rearm_recording c db i s kind payload max_attempts run_at now =
     (if get_str payload ''id'' \<noteq> Some i then Inl ConflictingJobIdentity
      else case rearm_recording_in_transaction False c (job_rows db) kind payload max_attempts run_at now of
             Inl err \<Rightarrow> Inl (JobTable err)
           | Inr (_, rows) \<Rightarrow> retry_reset_to (db\<lparr>job_rows := rows\<rparr>) i s now)"

section \<open>Queries\<close>

text \<open>
  \<open>ORDER BY started_at\<close> leaves the order of ties to SQLite: \<open>scan\<close> is the order in which it visits
  the table.
\<close>

definition by_start :: "(raw_row list \<Rightarrow> raw_row list) \<Rightarrow> raw_row list \<Rightarrow> raw_row list" where
  "by_start scan rows = sort_key rr_started (scan rows)"

definition terminal_row :: "raw_row \<Rightarrow> bool" where
  "terminal_row r \<longleftrightarrow> rr_status r = status_to_string Done \<or> rr_status r = status_to_string Failed"

definition resumable :: "(raw_row list \<Rightarrow> raw_row list) \<Rightarrow> 't queue_db \<Rightarrow> call_error + queue_job list" where
  "resumable scan db =
     collect_results raw_to_job (by_start scan (filter (\<lambda>r. \<not> terminal_row r) (recordings db)))"

definition all_recordings :: "(raw_row list \<Rightarrow> raw_row list) \<Rightarrow> 't queue_db \<Rightarrow> call_error + queue_job list" where
  "all_recordings scan db = collect_results raw_to_job (by_start scan (recordings db))"

definition expired ::
    "(raw_row list \<Rightarrow> raw_row list) \<Rightarrow> 't queue_db \<Rightarrow> Jobs.instant \<Rightarrow> call_error + queue_job list" where
  "expired scan db older_than =
     collect_results raw_to_job (by_start scan
       (filter (\<lambda>r. terminal_row r \<and> rr_updated r < fmt_utc older_than) (recordings db)))"

section \<open>Deletion\<close>

text \<open>\<open>DELETE FROM recordings WHERE p\<close>; the calls of a deleted recording go with it.\<close>

definition delete_rows :: "(raw_row \<Rightarrow> bool) \<Rightarrow> 't queue_db \<Rightarrow> nat \<times> 't queue_db" where
  "delete_rows p db =
     (let gone = filter p (recordings db)
      in (length gone, db\<lparr>recordings := filter (\<lambda>r. \<not> p r) (recordings db),
            call_rows := filter (\<lambda>c. \<not> list_ex (\<lambda>r. rr_id r = raw_recording c) gone) (call_rows db)\<rparr>))"

definition delete_terminal :: "'t queue_db \<Rightarrow> string \<Rightarrow> bool \<times> 't queue_db" where
  "delete_terminal db i =
     (case delete_rows (\<lambda>r. rr_id r = i \<and> terminal_row r) db of (n, db') \<Rightarrow> (0 < n, db'))"

definition delete_old_terminal :: "'t queue_db \<Rightarrow> Jobs.instant \<Rightarrow> nat \<times> 't queue_db" where
  "delete_old_terminal db older_than =
     delete_rows (\<lambda>r. terminal_row r \<and> rr_updated r < fmt_utc older_than) db"

section \<open>The embedded jobs\<close>

definition recording_payload_id :: "'t codec \<Rightarrow> 't \<Rightarrow> string option" where
  "recording_payload_id c raw =
     Option.bind (from_text c raw) (\<lambda>v. opt_filter (\<lambda>i. i \<noteq> '''') (get_str v ''id''))"

text \<open>A failed job goes when it is old, unless it is a retry whose recording is tracked or unknown.\<close>

definition gc_candidate :: "'t codec \<Rightarrow> 't queue_db \<Rightarrow> Jobs.instant \<Rightarrow> string \<Rightarrow> 't job_row \<Rightarrow> bool" where
  "gc_candidate c db cutoff recording_kind r \<longleftrightarrow>
     row_state r = JobFailed \<and> row_updated r < fmt_utc cutoff
     \<and> (row_kind r = recording_kind \<longrightarrow>
          is_some_and (recording_payload_id c (row_payload r)) (\<lambda>i. \<not> tracked db i))"

definition gc_failed_jobs :: "'t codec \<Rightarrow> 't queue_db \<Rightarrow> Jobs.instant \<Rightarrow> string \<Rightarrow> nat \<times> 't queue_db" where
  "gc_failed_jobs c db cutoff recording_kind =
     (let gone = gc_candidate c db cutoff recording_kind
      in (length (filter gone (job_rows db)), db\<lparr>job_rows := filter (\<lambda>r. \<not> gone r) (job_rows db)\<rparr>))"

definition delete_recording_jobs :: "'t codec \<Rightarrow> 't queue_db \<Rightarrow> string \<Rightarrow> string \<Rightarrow> nat \<times> 't queue_db" where
  "delete_recording_jobs c db kind recording =
     (let gone = (\<lambda>r. row_kind r = kind \<and> recording_payload_id c (row_payload r) = Some recording)
      in (length (filter gone (job_rows db)), db\<lparr>job_rows := filter (\<lambda>r. \<not> gone r) (job_rows db)\<rparr>))"

section \<open>Hosted projection and call history\<close>

definition set_postprocess_state ::
    "'t queue_db \<Rightarrow> string \<Rightarrow> postprocess_state option \<Rightarrow> Jobs.instant \<Rightarrow> queue_error + 't queue_db" where
  "set_postprocess_state db i s now =
     update_by_id db i (\<lambda>r. r\<lparr>rr_post_state := map_option (enum_token postprocess_tokens) s,
       rr_post_updated := map_option (\<lambda>_. fmt_utc now) s\<rparr>)"

definition upsert_postprocess_call :: "'t queue_db \<Rightarrow> call_record \<Rightarrow> queue_error + 't queue_db" where
  "upsert_postprocess_call db c =
     (case call_to_raw c of
        Inl err \<Rightarrow> Inl (CallColumn err)
      | Inr raw \<Rightarrow>
          if \<not> tracked db (raw_recording raw) then Inl ForeignKey
          else Inr (db\<lparr>call_rows :=
                 if list_ex (\<lambda>q. raw_call_id q = raw_call_id raw) (call_rows db)
                 then map (\<lambda>q. if raw_call_id q = raw_call_id raw then raw else q) (call_rows db)
                 else call_rows db @ [raw]\<rparr>))"

definition postprocess_history :: "'t queue_db \<Rightarrow> string \<Rightarrow> call_error + call_record list" where
  "postprocess_history db i =
     collect_results raw_to_call (sort_key (\<lambda>q. (raw_queued q, raw_call_id q))
       (filter (\<lambda>q. raw_recording q = i) (call_rows db)))"

definition postprocess_call :: "'t queue_db \<Rightarrow> string \<Rightarrow> call_error + call_record option" where
  "postprocess_call db i =
     transpose_result (map_option raw_to_call (find (\<lambda>q. raw_call_id q = i) (call_rows db)))"

end
