(* ===== verification/QueueProps.thy ===== *)
theory QueueProps
  imports Queue JobRuns
begin

text \<open>
  What the queue database keeps over every sequence of operations: it can always be read back, its
  tables refer to each other, a recording leaves only when it is finished, and the marker of its audio
  never changes. A manual retry commits both tables or neither, and a call comes back as it was stored.
\<close>

section \<open>The operations as one step function\<close>

datatype 't queue_op =
    QEnqueue recording_meta "string option" Jobs.instant
  | QSetStatus string job_status Jobs.instant
  | QCompleteWithNote string string Jobs.instant
  | QUpdate string job_update Jobs.instant
  | QFail string string Jobs.instant
  | QRetryReset string job_status Jobs.instant
  | QRetryRearm string job_status string json u32 Jobs.instant Jobs.instant
  | QSetPostprocess string "postprocess_state option" Jobs.instant
  | QUpsertCall call_record
  | QDeleteTerminal string
  | QDeleteOldTerminal Jobs.instant
  | QGcFailedJobs Jobs.instant string
  | QDeleteRecordingJobs string string
  | QJob "'t job_op"

definition keep_on_error :: "'d \<Rightarrow> 'e + 'd \<Rightarrow> 'd" where
  "keep_on_error d res = (case res of Inl _ \<Rightarrow> d | Inr d' \<Rightarrow> d')"

fun queue_step ::
    "(nat \<Rightarrow> string) \<Rightarrow> 't codec \<Rightarrow> time_limits \<Rightarrow> 't queue_db \<Rightarrow> 't queue_op \<Rightarrow> 't queue_db" where
  "queue_step sn c l db (QEnqueue m marker now) = snd (enqueue_with_capture_processing sn db m marker now)"
| "queue_step sn c l db (QSetStatus i s now) = keep_on_error db (set_status db i s now)"
| "queue_step sn c l db (QCompleteWithNote i note now) = keep_on_error db (complete_with_note db i note now)"
| "queue_step sn c l db (QUpdate i u now) = keep_on_error db (update_recording db i u now)"
| "queue_step sn c l db (QFail i err now) = keep_on_error db (fail_with db i err now)"
| "queue_step sn c l db (QRetryReset i s now) = keep_on_error db (retry_reset_to db i s now)"
| "queue_step sn c l db (QRetryRearm i s kind payload n run_at now) =
     keep_on_error db (retry_rearm_recording c db i s kind payload n run_at now)"
| "queue_step sn c l db (QSetPostprocess i s now) = keep_on_error db (set_postprocess_state db i s now)"
| "queue_step sn c l db (QUpsertCall call) = keep_on_error db (upsert_postprocess_call db call)"
| "queue_step sn c l db (QDeleteTerminal i) = snd (delete_terminal db i)"
| "queue_step sn c l db (QDeleteOldTerminal t) = snd (delete_old_terminal db t)"
| "queue_step sn c l db (QGcFailedJobs cutoff kind) = snd (gc_failed_jobs c db cutoff kind)"
| "queue_step sn c l db (QDeleteRecordingJobs kind i) = snd (delete_recording_jobs c db kind i)"
| "queue_step sn c l db (QJob op) = db\<lparr>job_rows := job_step c l (job_rows db) op\<rparr>"

text \<open>What the types of an operation's arguments guarantee.\<close>

primrec queue_op_ok :: "'t queue_op \<Rightarrow> bool" where
  "queue_op_ok (QUpsertCall call) = call_typed call"
| "queue_op_ok (QEnqueue m marker now) = True"
| "queue_op_ok (QSetStatus i s now) = True"
| "queue_op_ok (QCompleteWithNote i note now) = True"
| "queue_op_ok (QUpdate i u now) = True"
| "queue_op_ok (QFail i err now) = True"
| "queue_op_ok (QRetryReset i s now) = True"
| "queue_op_ok (QRetryRearm i s kind payload n run_at now) = True"
| "queue_op_ok (QSetPostprocess i s now) = True"
| "queue_op_ok (QDeleteTerminal i) = True"
| "queue_op_ok (QDeleteOldTerminal t) = True"
| "queue_op_ok (QGcFailedJobs cutoff kind) = True"
| "queue_op_ok (QDeleteRecordingJobs kind i) = True"
| "queue_op_ok (QJob op) = True"

section \<open>The invariant\<close>

definition row_readable :: "raw_row \<Rightarrow> bool" where
  "row_readable r \<longleftrightarrow> is_ok (raw_to_job r)"

definition call_readable :: "raw_call \<Rightarrow> bool" where
  "call_readable q \<longleftrightarrow> is_ok (raw_to_call q)"

definition db_ok :: "'t queue_db \<Rightarrow> bool" where
  "db_ok db \<longleftrightarrow> distinct (map rr_id (recordings db)) \<and> list_all row_readable (recordings db)
     \<and> distinct (map raw_call_id (call_rows db)) \<and> list_all call_readable (call_rows db)
     \<and> list_all (\<lambda>q. tracked db (raw_recording q)) (call_rows db)
     \<and> table_ok (job_rows db)"

definition empty_db :: "'t queue_db" where
  "empty_db = \<lparr>recordings = [], job_rows = [], call_rows = []\<rparr>"

lemma empty_db_ok: "db_ok empty_db"
  by (simp add: db_ok_def empty_db_def)

lemma status_roundtrip [simp]: "status_from_str (status_to_string s) = Inr s"
  unfolding status_from_str_def status_to_string_def
  by (rule tokens_roundtrip; cases s; simp add: status_tokens_def)

lemma postprocess_token [simp]: "enum_from_token postprocess_tokens (enum_token postprocess_tokens s) = Inr s"
  by (rule tokens_roundtrip; cases s; simp add: postprocess_tokens_def)

lemma status_to_string_inj [simp]: "status_to_string s = status_to_string t \<longleftrightarrow> s = t"
  by (metis Inr_inject status_roundtrip)

text \<open>A row is readable when its two tokens are.\<close>

lemma row_readable_iff:
  "row_readable r \<longleftrightarrow> is_ok (status_from_str (rr_status r))
     \<and> pred_option (\<lambda>t. is_ok (enum_from_token postprocess_tokens t)) (rr_post_state r)"
  by (cases "rr_post_state r")
     (auto simp: row_readable_def raw_to_job_def is_ok_rbind transpose_result_def is_ok_def split: sum.splits)

lemma update_rows_snd:
  "snd (update_rows p f db) = db\<lparr>recordings := map (\<lambda>r. if p r then f r else r) (recordings db)\<rparr>"
  by (simp add: update_rows_def)

lemma tracked_ids: "tracked db i \<longleftrightarrow> i \<in> set (map rr_id (recordings db))"
  by (auto simp: tracked_def list_ex_iff)

lemma tracked_iff: "tracked db i \<longleftrightarrow> (\<exists>r \<in> set (recordings db). rr_id r = i)"
  by (auto simp: tracked_def list_ex_iff)

lemma map_same_ids:
  "(\<And>r. rr_id (f r) = rr_id r) \<Longrightarrow> map rr_id (map (\<lambda>r. if p r then f r else r) rows) = map rr_id rows"
  by simp

text \<open>Updates of rows in place: ids stay, so the keys and references do.\<close>

lemma db_ok_update:
  assumes ok: "db_ok db" and id: "\<And>r. rr_id (f r) = rr_id r" and rd: "\<And>r. row_readable r \<Longrightarrow> row_readable (f r)"
  shows "db_ok (db\<lparr>recordings := map (\<lambda>r. if p r then f r else r) (recordings db)\<rparr>)"
proof -
  have ids: "map rr_id (map (\<lambda>r. if p r then f r else r) (recordings db)) = map rr_id (recordings db)"
    by (rule map_same_ids) (rule id)
  have "tracked (db\<lparr>recordings := map (\<lambda>r. if p r then f r else r) (recordings db)\<rparr>) i = tracked db i" for i
    unfolding tracked_ids by (simp add: ids del: map_map set_map)
  then show ?thesis
    using ok rd ids by (auto simp: db_ok_def list_all_iff simp del: map_map)
qed

lemma db_ok_by_id:
  assumes "db_ok db" and "update_by_id db i f = Inr db'" and "\<And>r. rr_id (f r) = rr_id r"
    and "\<And>r. row_readable r \<Longrightarrow> row_readable (f r)"
  shows "db_ok db'"
  using db_ok_update [OF assms(1), of f "\<lambda>r. rr_id r = i"] assms(2-4)
  by (auto simp: update_by_id_def update_rows_def split: if_splits)

lemma db_ok_jobs: "db_ok db \<Longrightarrow> table_ok rows \<Longrightarrow> db_ok (db\<lparr>job_rows := rows\<rparr>)"
  by (simp add: db_ok_def tracked_def)

lemma db_ok_delete:
  assumes "db_ok db"
  shows "db_ok (snd (delete_rows p db))"
proof -
  let ?db = "snd (delete_rows p db)"
  have d: "recordings ?db = filter (\<lambda>r. \<not> p r) (recordings db)" "job_rows ?db = job_rows db"
    "call_rows ?db = filter (\<lambda>q. \<not> list_ex (\<lambda>r. rr_id r = raw_recording q) (filter p (recordings db))) (call_rows db)"
    by (simp_all add: delete_rows_def Let_def)
  have "tracked ?db (raw_recording q)" if "q \<in> set (call_rows ?db)" for q
    using that assms by (simp add: d tracked_iff db_ok_def list_all_iff list_ex_iff) blast
  then show ?thesis
    using assms by (auto simp: db_ok_def d list_all_iff intro: distinct_map_filter)
qed

lemma db_ok_upsert:
  assumes ok: "db_ok db" and u: "upsert_postprocess_call db call = Inr db'" and t: "call_typed call"
  shows "db_ok db'"
proof -
  obtain raw where w: "call_to_raw call = Inr raw" and tr: "tracked db (raw_recording raw)"
    and db': "db' = db\<lparr>call_rows := if list_ex (\<lambda>q. raw_call_id q = raw_call_id raw) (call_rows db)
                 then map (\<lambda>q. if raw_call_id q = raw_call_id raw then raw else q) (call_rows db)
                 else call_rows db @ [raw]\<rparr>"
    using u by (auto simp: upsert_postprocess_call_def split: sum.splits if_splits)
  have rd: "call_readable raw" using call_roundtrip [OF w t] by (simp add: call_readable_def)
  have "map raw_call_id (map (\<lambda>q. if raw_call_id q = raw_call_id raw then raw else q) (call_rows db))
      = map raw_call_id (call_rows db)"
    by simp
  moreover have "tracked (db\<lparr>call_rows := qs\<rparr>) i = tracked db i" for qs i by (simp add: tracked_def)
  ultimately show ?thesis
    using ok rd tr by (auto simp: db' db_ok_def list_all_iff list_ex_iff simp del: map_map)
qed

lemma retry_reset_ok:
  assumes "db_ok db" and "retry_reset_to db i s now = Inr db'"
  shows "db_ok db'"
  using db_ok_update [OF assms(1), of "\<lambda>r. r\<lparr>rr_status := status_to_string s, rr_error := None, rr_updated := fmt_utc now\<rparr>"
      "\<lambda>r. rr_id r = i \<and> rr_status r = status_to_string Failed"] assms(2)
  by (auto simp: retry_reset_to_def update_rows_def row_readable_iff split: if_splits)

lemma queue_step_ok:
  assumes ok: "db_ok db" and opk: "queue_op_ok op"
  shows "db_ok (queue_step sn c l db op)"
proof -
  have keep: "db_ok (keep_on_error db res)" if "\<And>db'. res = Inr db' \<Longrightarrow> db_ok db'" for res :: "queue_error + 'a queue_db"
    using ok that by (auto simp: keep_on_error_def split: sum.splits)
  show ?thesis
  proof (cases op)
    case (QEnqueue m marker now)
    let ?i = "queue_job_id sn m"
    have "db_ok (db\<lparr>recordings := recordings db @ [fresh_row ?i m marker now]\<rparr>)" if "\<not> tracked db ?i"
      using that ok by (auto simp: db_ok_def tracked_iff fresh_row_def row_readable_iff list_all_iff)
    moreover have "db_ok (snd (update_rows (\<lambda>r. rr_id r = ?i)
        (\<lambda>r. r\<lparr>rr_capture := coalesce_column (rr_capture r) marker\<rparr>) db))"
      unfolding update_rows_snd by (rule db_ok_update [OF ok]) (simp_all add: row_readable_iff)
    ultimately show ?thesis
      using ok by (simp add: QEnqueue enqueue_with_capture_processing_def Let_def)
  next
    case (QSetStatus i s now)
    show ?thesis
      unfolding QSetStatus queue_step.simps set_status_def
      by (rule keep, erule db_ok_by_id [OF ok]) (simp_all add: row_readable_iff)
  next
    case (QCompleteWithNote i path now)
    show ?thesis
      unfolding QCompleteWithNote queue_step.simps complete_with_note_def
      by (rule keep, erule db_ok_by_id [OF ok]) (simp_all add: row_readable_iff)
  next
    case (QUpdate i u now)
    show ?thesis
      unfolding QUpdate queue_step.simps update_recording_def
      by (rule keep, erule db_ok_by_id [OF ok])
         (simp_all add: row_readable_iff coalesce_value_def split: option.splits)
  next
    case (QFail i err now)
    show ?thesis
      unfolding QFail queue_step.simps fail_with_def update_recording_def
      by (rule keep, erule db_ok_by_id [OF ok])
         (simp_all add: row_readable_iff coalesce_value_def no_update_def)
  next
    case (QRetryReset i s now)
    show ?thesis
      unfolding QRetryReset queue_step.simps
      by (rule keep, erule retry_reset_ok [OF ok])
  next
    case (QRetryRearm i s kind payload n run_at now)
    have "db_ok db'" if "retry_rearm_recording c db i s kind payload n run_at now = Inr db'" for db'
      using that retry_reset_ok [OF db_ok_jobs [OF ok enqueue_recording_ok]] ok
      by (auto simp: retry_rearm_recording_def rearm_recording_in_transaction_def db_ok_def split: if_splits sum.splits)
    then show ?thesis unfolding QRetryRearm queue_step.simps by (rule keep)
  next
    case (QSetPostprocess i s now)
    show ?thesis
      unfolding QSetPostprocess queue_step.simps set_postprocess_state_def
      by (rule keep, erule db_ok_by_id [OF ok]) (cases s; simp add: row_readable_iff)+
  next
    case (QUpsertCall call)
    show ?thesis
      unfolding QUpsertCall queue_step.simps
      by (rule keep, erule db_ok_upsert [OF ok]) (use opk in \<open>simp add: QUpsertCall\<close>)
  next
    case (QDeleteTerminal i)
    show ?thesis
      using db_ok_delete [OF ok, of "\<lambda>r. rr_id r = i \<and> terminal_row r"]
      by (simp add: QDeleteTerminal delete_terminal_def case_prod_beta)
  next
    case (QDeleteOldTerminal t)
    show ?thesis
      using db_ok_delete [OF ok] by (simp add: QDeleteOldTerminal delete_old_terminal_def)
  next
    case (QGcFailedJobs cutoff kind)
    have "table_ok (job_rows db)" using ok by (simp add: db_ok_def)
    then show ?thesis
      using db_ok_jobs [OF ok table_filter] by (simp add: QGcFailedJobs gc_failed_jobs_def Let_def)
  next
    case (QDeleteRecordingJobs kind i)
    have "table_ok (job_rows db)" using ok by (simp add: db_ok_def)
    then show ?thesis
      using db_ok_jobs [OF ok table_filter] by (simp add: QDeleteRecordingJobs delete_recording_jobs_def Let_def)
  next
    case (QJob op)
    have "table_ok (job_rows db)" using ok by (simp add: db_ok_def)
    then show ?thesis using db_ok_jobs [OF ok job_step_ok] by (simp add: QJob)
  qed
qed

interpretation queue: component "queue_step sn c l" queue_op_ok db_ok for sn c l
  by unfold_locales (rule queue_step_ok)


section \<open>A concrete queue\<close>

definition demo_meta :: recording_meta where
  "demo_meta = \<lparr>started_at = 0, ended_at = None, rec_app = \<lparr>bundle_id = None, app_name = ''Zoom''\<rparr>,
     audio_path = ''/a/rec.wav''\<rparr>"

definition demo_call :: call_record where
  "demo_call = \<lparr>call_id = ''c1'', call_recording = ''rec'', request_group = ''g'', call_target = None,
     lane = LaneLive, attempt_no = 1, provider_id = ''p'', transport_id = ''t'', tier = Documented,
     model_id = ''m'', adapter_version = 1, prompt_version = 1, output_schema_version = 1,
     session_generation = 0, transcript_revision = 0, control_revision = 0, steering_revision = 0,
     bank_revision = 0, question_revision = None, outcome = Completed, call_error_code = None,
     call_cache = CacheNone, request_sent = True,
     usage = \<lparr>input_tokens = Some 3, output_tokens = None, cached_read_tokens = None,
       cached_write_tokens = None, reasoning_tokens = None, usage_complete = False\<rparr>,
     cost = without_cost UnknownBasis, queued_at = 1500000, dispatched_at = Some 2000001,
     completed_at = None,
     latency = \<lparr>queue_us = Some 7, auth_us = None, cache_lookup_us = None, connect_us = None, ttfb_us = None,
       ttft_us = None, stream_us = None, parse_us = None, cache_commit_us = None, total_us = None\<rparr>,
     created_at = 1\<rparr>"

lemma demo_call_typed: "call_typed demo_call"
  by (simp add: call_typed_def demo_call_def validate_identifier_def MAX_IDENTIFIER_BYTES_def is_ok_def
      without_cost_def)

definition demo_db :: "json queue_db" where
  "demo_db = \<lparr>recordings = [(fresh_row ''rec'' demo_meta (Some ''raw'') 0)\<lparr>rr_status := ''failed''\<rparr>],
     job_rows = [], call_rows = []\<rparr>"

lemma demo_call_stored:
  "\<exists>db'. upsert_postprocess_call demo_db demo_call = Inr db'"
  by (simp add: upsert_postprocess_call_def call_to_raw_def demo_call_def demo_db_def validate_call_def
      validate_cost_def ensure_cost_fields_def without_cost_def sqlite_u64_def sqlite_optional_u64_def
      transpose_result_def usage_to_raw_def latency_to_raw_def tracked_def fresh_row_def)

section \<open>Reading it back\<close>

lemma collect_ok: "is_ok (collect_results f xs) \<longleftrightarrow> list_all (\<lambda>x. is_ok (f x)) xs"
  by (induction xs) (auto simp: is_ok_rbind is_ok_def split: sum.splits)

text \<open>C32. The queue can always be read back. After any sequence of recordings queued, moved, failed,
  retried and deleted, of hosted calls recorded and of job operations, on a fresh database: no two
  recordings and no two calls share an id, every recording and every stored call parses back to a
  record, every call belongs to a recording that is still there, and no two active jobs have the same
  kind and payload. So no listing, history or restart ever fails on what the program itself stored.\<close>

theorem queue_stays_valid:
  assumes "list_all queue_op_ok ops" and "\<And>rows. mset (scan rows) = mset rows"
  shows "let db = run_from (queue_step sn c l) empty_db ops
     in distinct (map rr_id (recordings db)) \<and> distinct (map raw_call_id (call_rows db))
        \<and> is_ok (all_recordings scan db) \<and> is_ok (resumable scan db) \<and> is_ok (postprocess_history db i)
        \<and> list_all (\<lambda>q. tracked db (raw_recording q)) (call_rows db) \<and> dedupe_ok (job_rows db)"
proof -
  let ?db = "run_from (queue_step sn c l) empty_db ops"
  have ok: "db_ok ?db" by (rule queue.run_inv [OF empty_db_ok assms(1)])
  have scan: "set (scan rows) = set rows" for rows using assms(2) by (metis set_mset_mset)
  have "list_all row_readable (recordings ?db)" "list_all call_readable (call_rows ?db)"
    using ok by (simp_all add: db_ok_def)
  then have "is_ok (all_recordings scan ?db)" "is_ok (resumable scan ?db)" "is_ok (postprocess_history ?db i)"
    by (auto simp: all_recordings_def resumable_def postprocess_history_def by_start_def collect_ok scan
        list_all_iff row_readable_def call_readable_def)
  with ok show ?thesis by (simp add: Let_def db_ok_def table_ok_def)
qed

theorem queue_stays_valid_witness:
  "is_ok (all_recordings id (run_from (queue_step (\<lambda>_. ''x'') demo_codec demo_limits) empty_db
     [QEnqueue demo_meta None 0, QUpsertCall demo_call, QFail ''rec'' ''boom'' 1]))"
  using queue_stays_valid [of "[QEnqueue demo_meta None 0, QUpsertCall demo_call, QFail ''rec'' ''boom'' 1]" id
      "\<lambda>_. ''x''" demo_codec demo_limits] demo_call_typed
  by (simp add: Let_def)

section \<open>What leaves the queue\<close>

primrec deletes :: "'t queue_op \<Rightarrow> bool" where
  "deletes (QDeleteTerminal i) = True"
| "deletes (QDeleteOldTerminal t) = True"
| "deletes (QEnqueue m marker now) = False"
| "deletes (QSetStatus i s now) = False"
| "deletes (QCompleteWithNote i note now) = False"
| "deletes (QUpdate i u now) = False"
| "deletes (QFail i err now) = False"
| "deletes (QRetryReset i s now) = False"
| "deletes (QRetryRearm i s kind payload n run_at now) = False"
| "deletes (QSetPostprocess i s now) = False"
| "deletes (QUpsertCall call) = False"
| "deletes (QGcFailedJobs cutoff kind) = False"
| "deletes (QDeleteRecordingJobs kind i) = False"
| "deletes (QJob op) = False"

definition marked :: "string \<Rightarrow> string \<Rightarrow> 't queue_db \<Rightarrow> bool" where
  "marked i m db \<longleftrightarrow> list_ex (\<lambda>r. rr_id r = i \<and> rr_capture r = Some m) (recordings db)"

lemma marked_update:
  "marked i m db \<Longrightarrow> (\<And>r. rr_id (f r) = rr_id r)
     \<Longrightarrow> (\<And>r. rr_capture r = Some m \<Longrightarrow> rr_capture (f r) = Some m)
     \<Longrightarrow> marked i m (db\<lparr>recordings := map (\<lambda>r. if p r then f r else r) (recordings db)\<rparr>)"
  unfolding marked_def list_ex_iff by (elim bexE, rule_tac x = "if p r then f r else r" in bexI) auto

lemma marked_by_id:
  "marked i m db \<Longrightarrow> update_by_id db j f = Inr db' \<Longrightarrow> (\<And>r. rr_id (f r) = rr_id r)
     \<Longrightarrow> (\<And>r. rr_capture (f r) = rr_capture r) \<Longrightarrow> marked i m db'"
  using marked_update [of i m db f "\<lambda>r. rr_id r = j"]
  by (auto simp: update_by_id_def update_rows_def split: if_splits)

lemma marked_retry: "marked i m db \<Longrightarrow> retry_reset_to db j s now = Inr db' \<Longrightarrow> marked i m db'"
  using marked_update [of i m db "\<lambda>r. r\<lparr>rr_status := status_to_string s, rr_error := None, rr_updated := fmt_utc now\<rparr>"
      "\<lambda>r. rr_id r = j \<and> rr_status r = status_to_string Failed"]
  by (auto simp: retry_reset_to_def update_rows_def split: if_splits)

lemma marked_same_rows: "recordings db' = recordings db \<Longrightarrow> marked i m db' = marked i m db"
  by (simp add: marked_def)

lemma retry_rearm_Inr:
  assumes "retry_rearm_recording c db i s kind payload n run_at now = Inr db'"
  obtains x rows where "get_str payload ''id'' = Some i"
    and "enqueue_recording_in_transaction c (job_rows db) kind payload n run_at now True = Inr (x, rows)"
    and "retry_reset_to (db\<lparr>job_rows := rows\<rparr>) i s now = Inr db'"
  using assms
  by (auto simp: retry_rearm_recording_def rearm_recording_in_transaction_def split: if_splits sum.splits)

lemma marked_delete:
  assumes "marked i m db" and "\<not> list_ex (\<lambda>r. rr_id r = i \<and> rr_capture r = Some m \<and> p r) (recordings db)"
  shows "marked i m (snd (delete_rows p db))"
  using assms by (auto simp: marked_def delete_rows_def Let_def list_ex_iff)

lemma marked_step:
  assumes mk: "marked i m db"
    and keep: "deletes op \<Longrightarrow> \<not> list_ex (\<lambda>r. rr_id r = i \<and> rr_capture r = Some m \<and> terminal_row r) (recordings db)"
  shows "marked i m (queue_step sn c l db op)"
proof -
  have keep_err: "marked i m (keep_on_error db res)" if "\<And>db'. res = Inr db' \<Longrightarrow> marked i m db'"
    for res :: "queue_error + 'a queue_db"
    using mk that by (auto simp: keep_on_error_def split: sum.splits)

  show ?thesis
  proof (cases op)
    case (QEnqueue meta marker now)
    have "marked i m (snd (update_rows q (\<lambda>r. r\<lparr>rr_capture := coalesce_column (rr_capture r) marker\<rparr>) db))" for q
      unfolding update_rows_snd by (rule marked_update [OF mk]) (simp_all add: coalesce_column_def)
    then show ?thesis
      using mk by (auto simp: QEnqueue enqueue_with_capture_processing_def Let_def marked_def)
  next
    case (QRetryReset j s now)
    show ?thesis unfolding QRetryReset queue_step.simps by (rule keep_err) (rule marked_retry [OF mk])
  next
    case (QRetryRearm j s kind payload n run_at now)
    have "marked i m (db\<lparr>job_rows := rows\<rparr>)" for rows using mk by (simp add: marked_def)
    then show ?thesis
      unfolding QRetryRearm queue_step.simps
      by (intro keep_err, elim retry_rearm_Inr, rule marked_retry)
  next
    case (QSetPostprocess j s now)
    show ?thesis unfolding QSetPostprocess queue_step.simps set_postprocess_state_def
      by (rule keep_err, erule marked_by_id [OF mk]) simp_all
  next
    case (QUpsertCall call)
    show ?thesis unfolding QUpsertCall queue_step.simps
      by (rule keep_err) (use mk in \<open>auto simp: upsert_postprocess_call_def marked_def split: sum.splits if_splits\<close>)
  next
    case (QDeleteTerminal j)
    have "marked i m (snd (delete_rows (\<lambda>r. rr_id r = j \<and> terminal_row r) db))"
      by (rule marked_delete [OF mk]) (use keep in \<open>auto simp: QDeleteTerminal list_ex_iff\<close>)
    then show ?thesis by (simp add: QDeleteTerminal delete_terminal_def case_prod_beta)
  next
    case (QDeleteOldTerminal t)
    show ?thesis
      unfolding QDeleteOldTerminal queue_step.simps delete_old_terminal_def
      by (rule marked_delete [OF mk]) (use keep in \<open>auto simp: QDeleteOldTerminal list_ex_iff\<close>)
  next
    case (QSetStatus j s now)
    show ?thesis unfolding QSetStatus queue_step.simps set_status_def
      by (rule keep_err, erule marked_by_id [OF mk]) simp_all
  next
    case (QCompleteWithNote j path now)
    show ?thesis unfolding QCompleteWithNote queue_step.simps complete_with_note_def
      by (rule keep_err, erule marked_by_id [OF mk]) simp_all
  next
    case (QUpdate j u now)
    show ?thesis unfolding QUpdate queue_step.simps update_recording_def
      by (rule keep_err, erule marked_by_id [OF mk]) simp_all
  next
    case (QFail j err now)
    show ?thesis unfolding QFail queue_step.simps fail_with_def update_recording_def
      by (rule keep_err, erule marked_by_id [OF mk]) simp_all
  qed (use mk in \<open>simp_all add: marked_def gc_failed_jobs_def delete_recording_jobs_def Let_def\<close>)
qed

text \<open>C33. Only finished recordings leave, and the marker of a recording's audio never changes. Along any
  sequence of operations, a queued recording whose capture is marked stays queued with the same marker,
  whatever is queued again under its id, up to the first deletion, if any, that finds it done or
  failed: neither a retry, a cleanup of old rows or of failed jobs, nor a hosted call removes
  unfinished work.\<close>

theorem only_finished_leave:
  assumes "marked i m db" and "\<not> marked i m (run_from (queue_step sn c l) db ops)"
  shows "\<exists>before op after. ops = before @ op # after \<and> deletes op
     \<and> list_ex (\<lambda>r. rr_id r = i \<and> rr_capture r = Some m
          \<and> status_from_str (rr_status r) \<in> {Inr Done, Inr Failed})
          (recordings (run_from (queue_step sn c l) db before))"
  using assms
proof (induction ops arbitrary: db)
  case Nil
  then show ?case by simp
next
  case (Cons op ops)
  show ?case
  proof (cases "marked i m (queue_step sn c l db op)")
    case True
    then obtain before op' after where "ops = before @ op' # after" "deletes op'"
      "list_ex (\<lambda>r. rr_id r = i \<and> rr_capture r = Some m \<and> status_from_str (rr_status r) \<in> {Inr Done, Inr Failed})
          (recordings (run_from (queue_step sn c l) (queue_step sn c l db op) before))"
      using Cons.IH [OF True] Cons.prems(2) by auto
    then show ?thesis by (intro exI [of _ "op # before"] exI [of _ op'] exI [of _ after]) simp
  next
    case False
    then have "deletes op" "list_ex (\<lambda>r. rr_id r = i \<and> rr_capture r = Some m \<and> terminal_row r) (recordings db)"
      using marked_step [OF Cons.prems(1), of op] by auto
    moreover have "status_from_str (rr_status r) \<in> {Inr Done, Inr Failed}" if "terminal_row r" for r
      using that by (auto simp: terminal_row_def)
    ultimately show ?thesis
      by (intro exI [of _ "[]"] exI [of _ op] exI [of _ ops]) (auto simp: list_ex_iff)
  qed
qed

theorem only_finished_leave_witness:
  "\<exists>before op after. [QJob (RecoverRunning 1), QDeleteTerminal ''rec''] = before @ op # after \<and> deletes op
     \<and> list_ex (\<lambda>r. rr_id r = ''rec'' \<and> rr_capture r = Some ''raw''
          \<and> status_from_str (rr_status r) \<in> {Inr Done, Inr Failed})
          (recordings (run_from (queue_step (\<lambda>_. ''x'') demo_codec demo_limits) demo_db before))"
  by (rule only_finished_leave)
     (simp_all add: marked_def demo_db_def fresh_row_def delete_terminal_def delete_rows_def terminal_row_def
       Let_def status_to_string_def enum_token_def status_tokens_def)

section \<open>A manual retry\<close>

lemma recording_payload_id_written:
  "codec_ok c \<Longrightarrow> get_str v ''id'' = Some i \<Longrightarrow> i \<noteq> '''' \<Longrightarrow> recording_payload_id c (to_text c v) = Some i"
  by (simp add: recording_payload_id_def codec_ok_def opt_filter_def)

lemma spent_facts:
  assumes "spent True v = Inr w"
  shows "get_str w ''id'' = get_str v ''id''" and "json_get w ''first_batch'' = Some (JBool False)"
  using json_set_get [of v "''first_batch''" "JBool False" w] assms by (simp_all add: spent_def get_str_def)

text \<open>After a successful rearm an active job of the kind carries the recording's payload, spent.\<close>

definition rearmed :: "'t codec \<Rightarrow> string \<Rightarrow> string \<Rightarrow> 't job_row \<Rightarrow> bool" where
  "rearmed c kind i q \<longleftrightarrow> row_kind q = kind \<and> active q \<and> recording_payload_id c (row_payload q) = Some i
     \<and> Option.bind (from_text c (row_payload q)) (\<lambda>v. json_get v ''first_batch'') = Some (JBool False)"

lemma rearmed_written:
  assumes "codec_ok c" and "row_payload q = to_text c w" and "spent True v = Inr w" and "get_str v ''id'' = Some i"
    and "i \<noteq> ''''" and "row_kind q = kind" and "active q"
  shows "rearmed c kind i q"
proof -
  have "get_str w ''id'' = Some i" using spent_facts [OF assms(3)] assms(4) by simp
  then show ?thesis
    using recording_payload_id_written [OF assms(1), of w i] spent_facts(2) [OF assms(3)] assms
    by (simp add: rearmed_def codec_ok_def)
qed

lemma enqueue_rearms:
  assumes c: "codec_ok c" and e: "enqueue_recording_in_transaction c rows kind p n run_at now True = Inr (x, rows')"
    and i: "get_str p ''id'' = Some i"
  shows "list_ex (rearmed c kind i) rows'"
  using e
proof (cases rule: enqueue_recording_Inr)
  case (fresh j q)
  have "rearmed c kind i (new_row (fresh_id rows) kind (to_text c q) n (fmt_utc run_at) None (fmt_utc now))"
    by (rule rearmed_written [OF c _ fresh(4) i]) (use fresh i in \<open>simp_all add: new_row_def active_def\<close>)
  then show ?thesis using fresh by auto
next
  case (merged j r old combined w f)
  have r: "r \<in> set rows" "row_kind r = kind" "get_str old ''id'' = Some i"
    using find_recording_Some [OF merged(3)] merged(1) i by (auto simp: recording_rows_def)
  have "get_str combined ''id'' = Some i"
    using merge_payload_facts(2) [OF c merged(4), of "''id''"] r(3) by (simp add: get_str_def)
  then have "rearmed c kind i (f r)"
    by (rule rearmed_written [OF c merged(9) merged(5)])
       (use merged(1,2,10) i r(2) in \<open>auto simp: active_def\<close>)
  moreover have "f r \<in> set rows'" using merged(7) r(1) by (force simp: update_where_Inr)
  ultimately show ?thesis by (auto simp: list_ex_iff)
next
  case (same j r old combined)
  have r: "r \<in> set rows" "row_kind r = kind" "from_text c (row_payload r) = Some old" "get_str old ''id'' = Some i"
    using find_recording_Some [OF same(3)] same(1) i by (auto simp: recording_rows_def)
  have "json_get old ''first_batch'' = Some (JBool False)" by (rule spent_facts(2) [OF same(5)])
  then have "rearmed c kind i r"
    using r same(1,2,8) i by (simp add: rearmed_def active_def recording_payload_id_def opt_filter_def)
  then show ?thesis using same(7) r(1) by (auto simp: list_ex_iff)
qed

lemma enum_from_Inr: "enum_from_token ts t = Inr v \<Longrightarrow> (v, t) \<in> set ts"
  by (auto simp: enum_from_token_def dest: map_of_SomeD)

lemma status_from_Inr: "status_from_str t = Inr s \<longleftrightarrow> t = status_to_string s"
proof
  assume "status_from_str t = Inr s"
  then have "(s, t) \<in> set status_tokens" unfolding status_from_str_def by (rule enum_from_Inr)
  then show "t = status_to_string s"
    by (auto simp: status_to_string_def enum_token_def status_tokens_def)
qed simp

text \<open>C34. A manual retry moves the recording and its job together. When it succeeds, the recording was
  failed and the target is a status work restarts from; exactly that row is now in the target status
  with its error cleared, every other recording and all call history are as they were, and an active
  job of the kind carries this recording's id with its first-batch right spent. There is no success
  that reopens the row without a job to run it, or the other way round.\<close>

theorem retry_moves_both:
  assumes "codec_ok c" and "retry_rearm_recording c db i s kind payload n run_at now = Inr db'"
  shows "s \<in> {PendingTranscription, PendingNote}
    \<and> list_ex (\<lambda>r. rr_id r = i \<and> status_from_str (rr_status r) = Inr Failed) (recordings db)
    \<and> recordings db' = map (\<lambda>r. if rr_id r = i \<and> status_from_str (rr_status r) = Inr Failed
          then r\<lparr>rr_status := status_to_string s, rr_error := None, rr_updated := fmt_utc now\<rparr> else r)
        (recordings db)
    \<and> call_rows db' = call_rows db
    \<and> list_ex (\<lambda>q. row_kind q = kind \<and> active q \<and> recording_payload_id c (row_payload q) = Some i
          \<and> Option.bind (from_text c (row_payload q)) (\<lambda>v. json_get v ''first_batch'') = Some (JBool False))
        (job_rows db')"
proof -
  obtain x rows where i: "get_str payload ''id'' = Some i"
    and e: "enqueue_recording_in_transaction c (job_rows db) kind payload n run_at now True = Inr (x, rows)"
    and r: "retry_reset_to (db\<lparr>job_rows := rows\<rparr>) i s now = Inr db'"
    by (rule retry_rearm_Inr [OF assms(2)])
  have "job_rows db' = rows" using r by (auto simp: retry_reset_to_def update_rows_def split: if_splits)
  then have "list_ex (rearmed c kind i) (job_rows db')" using enqueue_rearms [OF assms(1) e i] by simp
  then show ?thesis
    using r unfolding status_from_Inr
    by (auto simp: rearmed_def retry_reset_to_def update_rows_def filter_empty_conv list_ex_iff split: if_splits)
qed

lemma demo_retry:
  "\<exists>db'. retry_rearm_recording demo_codec demo_db ''rec'' PendingNote ''retry'' (JObject [(''id'', JString ''rec'')])
     5 0 0 = Inr db'"
  by (simp add: retry_rearm_recording_def rearm_recording_in_transaction_def enqueue_recording_in_transaction_def
      demo_db_def get_str_def settled_quality_def opt_filter_def recording_rows_def spent_def insert_row_def
      dedupe_ok_def retry_reset_to_def update_rows_def fresh_row_def status_to_string_def enum_token_def
      status_tokens_def Let_def)

theorem retry_moves_both_witness:
  "\<exists>db'. retry_rearm_recording demo_codec demo_db ''rec'' PendingNote ''retry'' (JObject [(''id'', JString ''rec'')])
       5 0 0 = Inr db'
     \<and> call_rows db' = [] \<and> length (recordings db') = 1"
proof -
  obtain db' where r: "retry_rearm_recording demo_codec demo_db ''rec'' PendingNote ''retry''
      (JObject [(''id'', JString ''rec'')]) 5 0 0 = Inr db'"
    using demo_retry by blast
  have "call_rows db' = [] \<and> length (recordings db') = 1"
    using retry_moves_both [OF demo_codec_ok r] by (simp add: demo_db_def)
  with r show ?thesis by blast
qed

section \<open>Call history\<close>

lemma find_replace:
  "find (\<lambda>q. f q = i) (map (\<lambda>q. if f q = f r then r else q) qs)
     = (if i = f r then (if list_ex (\<lambda>q. f q = i) qs then Some r else None) else find (\<lambda>q. f q = i) qs)"
  by (induction qs) auto

lemma find_append: "find p (xs @ ys) = (case find p xs of Some x \<Rightarrow> Some x | None \<Rightarrow> find p ys)"
  by (induction xs) auto

lemma find_none: "find p xs = None \<longleftrightarrow> \<not> list_ex p xs"
  by (induction xs) auto

lemma raw_call_id_of: "call_to_raw call = Inr raw \<Longrightarrow> raw_call_id raw = call_id call"
  by (auto simp: call_to_raw_def)

text \<open>C35. A hosted call comes back as it was recorded. After a successful upsert of a record, looking
  the call up by id returns that record, its instants cut to the millisecond the column keeps and
  everything else exact, whether it is new or replaces an earlier state of the same call; every other
  call reads as before.\<close>

theorem call_comes_back:
  assumes "upsert_postprocess_call db call = Inr db'" and "call_typed call"
  shows "postprocess_call db' i =
     (if i = call_id call then Inr (Some (stored_call call)) else postprocess_call db i)"
proof -
  obtain raw where w: "call_to_raw call = Inr raw"
    and db': "call_rows db' = (if list_ex (\<lambda>q. raw_call_id q = raw_call_id raw) (call_rows db)
                 then map (\<lambda>q. if raw_call_id q = raw_call_id raw then raw else q) (call_rows db)
                 else call_rows db @ [raw])"
    using assms(1) by (auto simp: upsert_postprocess_call_def split: sum.splits if_splits)
  have id: "raw_call_id raw = call_id call" by (rule raw_call_id_of [OF w])
  have "find (\<lambda>q. raw_call_id q = i) (call_rows db') =
      (if i = call_id call then Some raw else find (\<lambda>q. raw_call_id q = i) (call_rows db))"
    unfolding db' using find_none [of "\<lambda>q. raw_call_id q = call_id call" "call_rows db"]
    by (auto simp: find_replace [where f = raw_call_id and r = raw, unfolded id] find_append id split: option.splits)
  then show ?thesis
    using call_roundtrip [OF w assms(2)] by (simp add: postprocess_call_def transpose_result_def)
qed

theorem call_comes_back_witness:
  "\<exists>db'. upsert_postprocess_call demo_db demo_call = Inr db'
     \<and> postprocess_call db' ''c1'' = Inr (Some (stored_call demo_call))"
proof -
  obtain db' where u: "upsert_postprocess_call demo_db demo_call = Inr db'" using demo_call_stored by blast
  have "postprocess_call db' ''c1'' = Inr (Some (stored_call demo_call))"
    using call_comes_back [OF u demo_call_typed, of "''c1''"] by (simp add: demo_call_def)
  with u show ?thesis by blast
qed

end
