(* ===== verification/HostedTypes.thy ===== *)
theory HostedTypes
  imports CallHistory
begin

text \<open>
  The vocabulary of hosted requests of \<open>crates/corti-postprocess/src/contracts.rs\<close>: lanes, fences,
  deadlines, rows, requests, providers, catalogs, credentials, cancellation and provider events.
  Identifiers are valid strings, a text the list of its code points, prompts are carried by the code
  and left out.
\<close>

section \<open>Texts\<close>

definition scalars :: "string \<Rightarrow> utext" where
  "scalars s = map of_char s"

text \<open>\<open>char::len_utf8\<close> and \<open>str::len\<close>.\<close>

definition char_len :: "nat \<Rightarrow> nat" where
  "char_len c = (if c < 128 then 1 else if c < 2048 then 2 else if c < 65536 then 3 else 4)"

definition text_len :: "utext \<Rightarrow> nat" where
  "text_len t = sum_list (map char_len t)"

text \<open>\<open>char::is_control_char\<close> and \<open>char::is_whitespace\<close>.\<close>

definition is_control_char :: "nat \<Rightarrow> bool" where
  "is_control_char c \<longleftrightarrow> c < 32 \<or> (127 \<le> c \<and> c < 160)"

definition is_whitespace :: "nat \<Rightarrow> bool" where
  "is_whitespace c \<longleftrightarrow> (9 \<le> c \<and> c \<le> 13) \<or> c = 32 \<or> c = 133 \<or> c = 160 \<or> c = 5760
     \<or> (8192 \<le> c \<and> c \<le> 8202) \<or> c = 8232 \<or> c = 8233 \<or> c = 8239 \<or> c = 8287 \<or> c = 12288"

definition trim_start :: "utext \<Rightarrow> utext" where
  "trim_start t = dropWhile is_whitespace t"

definition trim_end :: "utext \<Rightarrow> utext" where
  "trim_end t = rev (dropWhile is_whitespace (rev t))"

definition trim :: "utext \<Rightarrow> utext" where
  "trim t = trim_end (trim_start t)"

fun starts_with :: "'a list \<Rightarrow> 'a list \<Rightarrow> bool" where
  "starts_with [] ys = True"
| "starts_with (x # xs) [] = False"
| "starts_with (x # xs) (y # ys) = (x = y \<and> starts_with xs ys)"

fun contains_text :: "utext \<Rightarrow> utext \<Rightarrow> bool" where
  "contains_text p [] = (p = [])"
| "contains_text p (c # cs) = (starts_with p (c # cs) \<or> contains_text p cs)"

text \<open>\<open>str::strip_prefix\<close> and \<open>str::split_once\<close>.\<close>

definition strip_prefix :: "utext \<Rightarrow> utext \<Rightarrow> utext option" where
  "strip_prefix p t = (if starts_with p t then Some (drop (length p) t) else None)"

fun split_once :: "utext \<Rightarrow> utext \<Rightarrow> (utext \<times> utext) option" where
  "split_once p [] = (if p = [] then Some ([], []) else None)"
| "split_once p (c # cs) =
     (if starts_with p (c # cs) then Some ([], drop (length p) (c # cs))
      else map_option (\<lambda>(before, after). (c # before, after)) (split_once p cs))"

definition is_ascii_digit :: "nat \<Rightarrow> bool" where
  "is_ascii_digit c \<longleftrightarrow> 48 \<le> c \<and> c \<le> 57"

definition is_ascii_alphabetic :: "nat \<Rightarrow> bool" where
  "is_ascii_alphabetic c \<longleftrightarrow> (65 \<le> c \<and> c \<le> 90) \<or> (97 \<le> c \<and> c \<le> 122)"

section \<open>Lanes and providers\<close>

definition is_question :: "call_lane \<Rightarrow> bool" where
  "is_question l \<longleftrightarrow> l = LaneAdHocQuestion \<or> l = LanePinnedQuestion"

definition is_automatic :: "call_lane \<Rightarrow> bool" where
  "is_automatic l \<longleftrightarrow> l = LaneLive \<or> l = LaneFinal \<or> l = LanePinnedQuestion"

datatype known_transport =
    VertexDirect | OpenAiDirect | ChatGptSubscription | AnthropicDirect | ClaudeSubscription | BedrockRuntime

record provider_descriptor =
  pd_provider :: string
  pd_transport :: string
  pd_tier :: support_tier
  pd_billing :: billing_basis
  adapter_available :: bool

fun transport_tier :: "known_transport \<Rightarrow> support_tier" where
  "transport_tier ChatGptSubscription = Experimental"
| "transport_tier ClaudeSubscription = Blocked"
| "transport_tier _ = Documented"

fun transport_billing :: "known_transport \<Rightarrow> billing_basis" where
  "transport_billing ChatGptSubscription = IncludedSubscription"
| "transport_billing ClaudeSubscription = UnknownBasis"
| "transport_billing _ = MeteredEstimate"

definition production_adapter_allowed :: "known_transport \<Rightarrow> bool" where
  "production_adapter_allowed t \<longleftrightarrow> t \<noteq> ClaudeSubscription"

fun transport_ids :: "known_transport \<Rightarrow> string \<times> string" where
  "transport_ids VertexDirect = (''google'', ''vertex_api'')"
| "transport_ids OpenAiDirect = (''openai'', ''openai_api'')"
| "transport_ids ChatGptSubscription = (''openai'', ''chatgpt_subscription'')"
| "transport_ids AnthropicDirect = (''anthropic'', ''anthropic_api'')"
| "transport_ids ClaudeSubscription = (''anthropic'', ''claude_subscription'')"
| "transport_ids BedrockRuntime = (''amazon'', ''bedrock_runtime'')"

definition known_descriptor :: "known_transport \<Rightarrow> provider_descriptor" where
  "known_descriptor t =
     \<lparr>pd_provider = fst (transport_ids t), pd_transport = snd (transport_ids t), pd_tier = transport_tier t,
      pd_billing = transport_billing t, adapter_available = production_adapter_allowed t\<rparr>"

section \<open>Requests\<close>

record request_fence =
  process_epoch :: u64
  fence_session :: u64
  fence_transcript :: u64
  fence_control :: u64
  fence_lane :: u64
  fence_steering :: u64
  fence_bank :: u64
  fence_question :: "u64 option"

definition is_expired_at :: "u64 \<Rightarrow> u64 \<Rightarrow> bool" where
  "is_expired_at deadline now \<longleftrightarrow> deadline \<le> now"

record transcript_row =
  tr_id :: string
  speaker :: utext
  start_ms :: u64
  end_ms :: u64
  tr_text :: utext

datatype local_cache_mode = Reusable | RecoveryOnly | MemoryOnly
datatype provider_cache_mode = CacheOff | ExplicitStablePrefix | UnavoidableImplicit | CacheUnavailable

record cache_policy =
  local_cache :: local_cache_mode
  provider_cache :: provider_cache_mode

record hosted_request =
  hr_call :: string
  hr_group :: string
  hr_target :: "string option"
  hr_lane :: call_lane
  hr_fence :: request_fence
  hr_provider :: string
  hr_transport :: string
  hr_model :: string
  hr_targets :: "transcript_row list"
  hr_context :: "transcript_row list"
  hr_cache_key :: "string option"
  hr_deadline :: u64
  hr_policy :: cache_policy

record provider_scope =
  connection_scope :: string
  scope_region :: "string option"

record adapter_capabilities =
  text_input :: bool
  text_output :: bool
  streaming :: bool
  structured_output :: bool
  explicit_prefix_cache :: bool
  implicit_cache_may_apply :: bool

record model_descriptor =
  md_provider :: string
  md_transport :: string
  md_tier :: support_tier
  exact_model :: string
  account_available :: bool
  md_region :: "string option"
  max_context :: u64
  max_output :: u64
  capabilities :: adapter_capabilities
  md_billing :: billing_basis
  md_tariff :: "string option"
  deprecated :: bool
  benchmarked :: bool

definition find_exact :: "model_descriptor list \<Rightarrow> string \<Rightarrow> string option \<Rightarrow> model_descriptor option" where
  "find_exact models model region = find (\<lambda>m. exact_model m = model \<and> md_region m = region) models"

datatype credential_source =
    Keychain | WorkloadIdentity | ApplicationDefaultCredentials | BrokerKeyring | ChatGptDevice
  | AwsDefaultChain | AwsProfile | AwsStaticKeychain | AwsAssumedRole | AwsSso

datatype credential_state =
    CredAbsent | CredResolving | CredReady "int option" credential_source | CredAwaitingUser
  | CredDevice string string string | CredRefreshing | CredRejected
  | CredUnsupported error_code | CredError error_code

definition is_ready :: "credential_state \<Rightarrow> bool" where
  "is_ready c = (case c of CredReady _ _ \<Rightarrow> True | _ \<Rightarrow> False)"

section \<open>Cancellation\<close>

datatype cancellation_reason =
    ByUser | MasterDisabled | LaneDisabled | SupersededCall | SteeringChanged | WordBankChanged
  | ModelChanged | SessionEnded | DeadlinePassed | Shutdown

fun cancellation_code :: "cancellation_reason \<Rightarrow> error_code" where
  "cancellation_code SupersededCall = SupersededError"
| "cancellation_code SteeringChanged = SupersededError"
| "cancellation_code WordBankChanged = SupersededError"
| "cancellation_code ModelChanged = SupersededError"
| "cancellation_code DeadlinePassed = TimeoutError"
| "cancellation_code _ = CanceledError"

text \<open>A token holds the first reason given; \<open>cancel\<close> answers whether this one was it.\<close>

definition cancel_token :: "cancellation_reason option \<Rightarrow> cancellation_reason \<Rightarrow> bool \<times> cancellation_reason option" where
  "cancel_token tok why = (case tok of None \<Rightarrow> (True, Some why) | Some r \<Rightarrow> (False, Some r))"

section \<open>Provider events and results\<close>

record event_context =
  ec_call :: string
  ec_group :: string
  ec_target :: "string option"
  ec_lane :: call_lane
  ec_fence :: request_fence

datatype cache_observation = NotCached | LocalHit | ProviderRead | ProviderWrite | ProviderImplicit

datatype provider_event_kind =
    EventQueued | EventAuthWaiting | DispatchStarted | EventHeaders | FirstText | TextDelta utext
  | UsageProvisional normalized_usage | CacheObserved cache_observation | EventCompleted normalized_usage
  | EventCanceled cancellation_reason "normalized_usage option" bool
  | EventFailed error_code "normalized_usage option"

definition no_latency :: latency_fields where
  "no_latency = \<lparr>queue_us = None, auth_us = None, cache_lookup_us = None, connect_us = None, ttfb_us = None,
     ttft_us = None, stream_us = None, parse_us = None, cache_commit_us = None, total_us = None\<rparr>"

lemma starts_with_append [simp]: "starts_with p (p @ t)"
  by (induction p) simp_all

lemma starts_with_iff: "starts_with p t \<longleftrightarrow> (\<exists>u. t = p @ u)"
  by (induction p t rule: starts_with.induct) auto

lemma contains_text_iff: "contains_text p t \<longleftrightarrow> (\<exists>a b. t = a @ p @ b)"
proof (induction t)
  case Nil
  then show ?case by auto
next
  case (Cons c cs)
  show ?case
  proof
    assume "contains_text p (c # cs)"
    then show "\<exists>a b. c # cs = a @ p @ b"
    proof (cases "starts_with p (c # cs)")
      case True
      then show ?thesis by (auto simp: starts_with_iff intro: exI [of _ "[]"])
    next
      case False
      then obtain a b where "cs = a @ p @ b" using Cons \<open>contains_text p (c # cs)\<close> by auto
      then have "c # cs = (c # a) @ p @ b" by simp
      then show ?thesis by blast
    qed
  next
    assume "\<exists>a b. c # cs = a @ p @ b"
    then obtain a b where ab: "c # cs = a @ p @ b" by blast
    show "contains_text p (c # cs)"
    proof (cases a)
      case Nil
      then have "starts_with p (c # cs)" using ab by (auto simp: starts_with_iff)
      then show ?thesis by simp
    next
      case (Cons d a')
      with ab have "cs = a' @ p @ b" by simp
      with Cons.IH show ?thesis by auto
    qed
  qed
qed

end
