(* ===== verification/HostedOutput.thy ===== *)
theory HostedOutput
  imports HostedTypes
begin

text \<open>
  The all-or-nothing validation of provider outputs of \<open>crates/corti-postprocess/src/validation.rs\<close>.
  Decoding the JSON text is serde's; everything after it is here. An output that passes is applied
  whole or refused whole.
\<close>

section \<open>Outputs\<close>

record replacement =
  rp_row :: string
  rp_text :: utext

record rewrite_output =
  rw_schema :: u32
  replacements :: "replacement list"

record question_output =
  qo_schema :: u32
  answer :: utext
  cited :: "string list"
  qo_truncated :: bool

record rewrite_limits =
  request_max :: nat
  catalog_max :: nat

definition effective_max :: "rewrite_limits \<Rightarrow> nat" where
  "effective_max l = (if request_max l < catalog_max l then request_max l else catalog_max l)"

datatype validation_error =
    MalformedJson | UnsupportedSchema | InvalidTargets | UnknownRow | DuplicateRow | ReorderedRows
  | EmptyReplacement | ControlCharacter | Markup | ExpansionLimit | AggregateLimit | SizeOverflow
  | EmptyAnswer | MissingCitation | InvalidNoAnswer | TruncationMismatch | NonDisjointTargets

definition EXPLICIT_NO_ANSWER :: utext where
  "EXPLICIT_NO_ANSWER = scalars ''No answer in supplied transcript.''"

section \<open>Plain text\<close>

definition is_bidi_control :: "nat \<Rightarrow> bool" where
  "is_bidi_control c \<longleftrightarrow> c = 1564 \<or> c = 8206 \<or> c = 8207 \<or> (8234 \<le> c \<and> c \<le> 8238) \<or> (8294 \<le> c \<and> c \<le> 8297)"

text \<open>A tag: \<open><\<close> before a letter or one of \<open>/!?\<close>, with a \<open>></\<close> closing it later.\<close>

fun has_tag :: "utext \<Rightarrow> bool" where
  "has_tag [] = False"
| "has_tag [c] = False"
| "has_tag (c # n # cs) =
     (c = 60 \<and> (n = 47 \<or> n = 33 \<or> n = 63 \<or> is_ascii_alphabetic n) \<and> 62 \<in> set (n # cs) \<or> has_tag (n # cs))"

definition contains_markup :: "utext \<Rightarrow> bool" where
  "contains_markup t \<longleftrightarrow>
     list_ex (\<lambda>p. contains_text (scalars p) t) [''`'', ''**'', ''__'', ''~~'', '']('', ''![''] 
     \<or> list_ex (\<lambda>p. starts_with (scalars p) (trim_start t)) [''# '', ''> '', ''- '', ''* '', ''+ '']
     \<or> is_some_and (split_once (scalars ''. '') (trim_start t))
         (\<lambda>(prefix, _). prefix \<noteq> [] \<and> list_all is_ascii_digit prefix)
     \<or> has_tag t"

definition validate_plain_text :: "utext \<Rightarrow> validation_error + unit" where
  "validate_plain_text t = (if list_ex (\<lambda>c. is_control_char c \<or> is_bidi_control c) t then Inl ControlCharacter else Inr ())"

definition strip_list_marker :: "utext \<Rightarrow> utext" where
  "strip_list_marker line =
     (case strip_prefix (scalars ''- '') line of
        Some rest \<Rightarrow> rest
      | None \<Rightarrow>
          (case split_once (scalars ''. '') line of
             Some (digits, rest) \<Rightarrow>
               if digits \<noteq> [] \<and> text_len digits \<le> 3 \<and> list_all is_ascii_digit digits then rest else line
           | None \<Rightarrow> line))"

text \<open>\<open>str::lines\<close> on text without carriage returns: the pieces between line feeds, without a last empty one.\<close>

fun split_lines :: "utext \<Rightarrow> utext list" where
  "split_lines [] = []"
| "split_lines (c # cs) =
     (if c = 10 then [] # split_lines cs
      else (case split_lines cs of [] \<Rightarrow> [[c]] | l # ls \<Rightarrow> (c # l) # ls))"

definition validate_answer_text :: "utext \<Rightarrow> validation_error + unit" where
  "validate_answer_text t =
     (if list_ex (\<lambda>c. (is_control_char c \<and> c \<noteq> 10) \<or> is_bidi_control c) t then Inl ControlCharacter
      else if list_ex (\<lambda>line. contains_markup (strip_list_marker (trim_start line))) (split_lines t) then Inl Markup
      else Inr ())"

section \<open>Rewrites\<close>

record validated_rewrite =
  vr_replacements :: "replacement list"
  target_snapshot :: "transcript_row list"

text \<open>The index of each target by its id; a target whose times are reversed or whose id repeats is refused.\<close>

fun target_indices :: "nat \<Rightarrow> (string \<times> nat) list \<Rightarrow> transcript_row list \<Rightarrow> (string \<times> nat) list option" where
  "target_indices n acc [] = Some acc"
| "target_indices n acc (t # ts) =
     (if end_ms t < start_ms t \<or> map_of acc (tr_id t) \<noteq> None then None
      else target_indices (Suc n) (acc @ [(tr_id t, n)]) ts)"

definition row_limit :: "utext \<Rightarrow> nat option" where
  "row_limit raw =
     Option.bind (checked_mul 64 (text_len raw) 3) (\<lambda>multiplied.
     Option.bind (checked_add 64 (text_len raw) 256) (\<lambda>additive. Some (max (multiplied div 2) additive)))"

text \<open>The checks of one replacement against the text it replaces.\<close>

definition check_replacement :: "utext \<Rightarrow> utext \<Rightarrow> validation_error + unit" where
  "check_replacement raw new =
     (if raw \<noteq> [] \<and> trim new = [] then Inl EmptyReplacement
      else rbind (validate_plain_text new) (\<lambda>_.
        if contains_markup new then Inl Markup
        else rbind (ok_or (row_limit raw) SizeOverflow) (\<lambda>limit.
          if limit < text_len new then Inl ExpansionLimit else Inr ())))"

text \<open>The loop over the replacements: ids seen, the last target index, the bytes so far.\<close>

fun check_replacements ::
    "(string \<times> nat) list \<Rightarrow> transcript_row list \<Rightarrow> string list \<Rightarrow> nat option \<Rightarrow> nat \<Rightarrow> replacement list
       \<Rightarrow> validation_error + nat" where
  "check_replacements ix targets seen previous sofar [] = Inr sofar"
| "check_replacements ix targets seen previous sofar (r # rs) =
     (case map_of ix (rp_row r) of
        None \<Rightarrow> Inl UnknownRow
      | Some i \<Rightarrow>
          if rp_row r \<in> set seen then Inl DuplicateRow
          else if is_some_and previous (\<lambda>p. i \<le> p) then Inl ReorderedRows
          else rbind (check_replacement (tr_text (targets ! i)) (rp_text r)) (\<lambda>_.
               rbind (ok_or (checked_add 64 sofar (text_len (rp_text r))) SizeOverflow) (\<lambda>sum'.
                 check_replacements ix targets (rp_row r # seen) (Some i) sum' rs)))"

definition validate_rewrite ::
    "rewrite_output \<Rightarrow> transcript_row list \<Rightarrow> rewrite_limits \<Rightarrow> validation_error + validated_rewrite" where
  "validate_rewrite out targets l =
     (if rw_schema out \<noteq> 1 then Inl UnsupportedSchema
      else rbind (ok_or (target_indices 0 [] targets) InvalidTargets) (\<lambda>ix.
           rbind (check_replacements ix targets [] None 0 (replacements out)) (\<lambda>sofar.
             if effective_max l < sofar then Inl AggregateLimit
             else Inr \<lparr>vr_replacements = replacements out, target_snapshot = targets\<rparr>)))"

text \<open>\<open>collect\<close> into a map keeps the last entry of a key.\<close>

definition replace_row :: "replacement list \<Rightarrow> transcript_row \<Rightarrow> transcript_row" where
  "replace_row rs row =
     (case map_of (rev (map (\<lambda>r. (rp_row r, rp_text r)) rs)) (tr_id row) of
        Some new \<Rightarrow> row\<lparr>tr_text := new\<rparr> | None \<Rightarrow> row)"

definition apply_rewrite :: "validated_rewrite \<Rightarrow> transcript_row list \<Rightarrow> validation_error + transcript_row list" where
  "apply_rewrite v targets =
     (if targets \<noteq> target_snapshot v then Inl InvalidTargets
      else Inr (map (replace_row (vr_replacements v)) targets))"

section \<open>Answers\<close>

record validated_question =
  vq_answer :: utext
  vq_cited :: "string list"
  vq_truncated :: bool

fun context_ids :: "string list \<Rightarrow> transcript_row list \<Rightarrow> string list option" where
  "context_ids seen [] = Some seen"
| "context_ids seen (r # rs) =
     (if end_ms r < start_ms r \<or> tr_id r \<in> set seen then None else context_ids (tr_id r # seen) rs)"

fun check_citations :: "string list \<Rightarrow> string list \<Rightarrow> string list \<Rightarrow> validation_error + unit" where
  "check_citations ids seen [] = Inr ()"
| "check_citations ids seen (c # cs) =
     (if c \<notin> set ids then Inl UnknownRow
      else if c \<in> set seen then Inl DuplicateRow
      else check_citations ids (c # seen) cs)"

definition validate_question ::
    "question_output \<Rightarrow> transcript_row list \<Rightarrow> bool \<Rightarrow> nat \<Rightarrow> validation_error + validated_question" where
  "validate_question out ctx truncated max_bytes =
     (if qo_schema out \<noteq> 1 then Inl UnsupportedSchema
      else if trim (answer out) = [] then Inl EmptyAnswer
      else if max_bytes < text_len (answer out) then Inl AggregateLimit
      else rbind (validate_answer_text (answer out)) (\<lambda>_.
        if qo_truncated out \<noteq> truncated then Inl TruncationMismatch
        else rbind (ok_or (context_ids [] ctx) InvalidTargets) (\<lambda>ids.
          let no_answer = answer out = EXPLICIT_NO_ANSWER
          in if cited out = [] \<and> \<not> no_answer then Inl MissingCitation
             else if no_answer \<and> cited out \<noteq> [] then Inl InvalidNoAnswer
             else rbind (check_citations ids [] (cited out)) (\<lambda>_.
               Inr \<lparr>vq_answer = answer out, vq_cited = cited out, vq_truncated = qo_truncated out\<rparr>))))"

section \<open>Chunks\<close>

fun see_all :: "string list \<Rightarrow> string list \<Rightarrow> string list \<Rightarrow> validation_error + string list" where
  "see_all expected seen [] = Inr seen"
| "see_all expected seen (r # rs) =
     (if r \<notin> set expected \<or> r \<in> set seen then Inl NonDisjointTargets else see_all expected (r # seen) rs)"

definition validate_disjoint_chunks :: "string list \<Rightarrow> string list list \<Rightarrow> validation_error + unit" where
  "validate_disjoint_chunks expected chunks =
     (if card (set expected) \<noteq> length expected then Inl InvalidTargets
      else rbind (see_all expected [] (concat chunks)) (\<lambda>seen.
        if length seen \<noteq> length expected then Inl NonDisjointTargets else Inr ()))"

end
