(* ===== verification/HostedOutputProps.thy ===== *)
theory HostedOutputProps
  imports HostedOutput "HOL-Library.Multiset"
begin

text \<open>
  What the validation of provider outputs promises: a rewrite that passes changes nothing but the text
  of the rows it names, within bounds; an answer that passes is grounded in the rows it was given; a
  partition into chunks that passes is one.
\<close>

section \<open>Targets\<close>

lemma target_indices_Some:
  "target_indices n acc ts = Some ix \<Longrightarrow> ix = acc @ zip (map tr_id ts) [n..<n + length ts]
     \<and> list_all (\<lambda>t. start_ms t \<le> end_ms t) ts
     \<and> distinct (map tr_id ts) \<and> fst ` set acc \<inter> tr_id ` set ts = {}"
proof (induction n acc ts rule: target_indices.induct)
  case (2 n acc t ts)
  then have step: "target_indices (Suc n) (acc @ [(tr_id t, n)]) ts = Some ix" "start_ms t \<le> end_ms t"
    "tr_id t \<notin> fst ` set acc"
    by (auto simp: map_of_eq_None_iff split: if_splits)
  have "[n..<n + length (t # ts)] = n # [Suc n..<Suc n + length ts]" by (simp add: upt_rec)
  with 2 step show ?case by (auto split: if_splits)
qed simp

lemma target_index:
  assumes "target_indices 0 [] ts = Some ix" and "map_of ix x = Some i"
  shows "i < length ts \<and> tr_id (ts ! i) = x"
proof -
  have "(x, i) \<in> set (zip (map tr_id ts) [0..<length ts])"
    using target_indices_Some [OF assms(1)] map_of_SomeD [OF assms(2)] by simp
  then show ?thesis by (auto simp: set_zip)
qed

section \<open>Rewrites\<close>

text \<open>The loop finds increasing targets, checks each and adds up the bytes.\<close>

lemma check_replacements_Inr:
  "check_replacements ix targets seen previous sofar rs = Inr n \<Longrightarrow>
     n = sofar + sum_list (map (\<lambda>r. text_len (rp_text r)) rs)
     \<and> (\<exists>js. list_all2 (\<lambda>r i. map_of ix (rp_row r) = Some i
               \<and> is_ok (check_replacement (tr_text (targets ! i)) (rp_text r))) rs js
          \<and> sorted_wrt (<) js \<and> (\<forall>p. previous = Some p \<longrightarrow> (\<forall>i \<in> set js. p < i)))"
proof (induction ix targets seen previous sofar rs rule: check_replacements.induct)
  case (2 ix targets seen previous sofar r rs)
  from "2.prems" obtain i where i: "map_of ix (rp_row r) = Some i" "\<not> is_some_and previous (\<lambda>p. i \<le> p)"
    "rp_row r \<notin> set seen" "is_ok (check_replacement (tr_text (targets ! i)) (rp_text r))"
    and step: "check_replacements ix targets (rp_row r # seen) (Some i) (sofar + text_len (rp_text r)) rs = Inr n"
    by (auto split: option.splits if_splits)
  have ih: "n = sofar + text_len (rp_text r) + sum_list (map (\<lambda>r. text_len (rp_text r)) rs)
      \<and> (\<exists>js. list_all2 (\<lambda>r i. map_of ix (rp_row r) = Some i
               \<and> is_ok (check_replacement (tr_text (targets ! i)) (rp_text r))) rs js
          \<and> sorted_wrt (<) js \<and> (\<forall>p. Some i = Some p \<longrightarrow> (\<forall>j \<in> set js. p < j)))"
    by (rule "2.IH" [OF i(1,3,2) step])
  then obtain js where js: "list_all2 (\<lambda>r i. map_of ix (rp_row r) = Some i
               \<and> is_ok (check_replacement (tr_text (targets ! i)) (rp_text r))) rs js"
    "sorted_wrt (<) js" "\<forall>j \<in> set js. i < j" by auto
  have "\<forall>p. previous = Some p \<longrightarrow> (\<forall>j \<in> set (i # js). p < j)"
    using i(2) js(3) by (fastforce simp: not_le)
  with js i ih show ?case by (intro conjI exI [of _ "i # js"]) auto
qed auto

text \<open>What one replacement may be.\<close>

definition plain_replacement :: "utext \<Rightarrow> utext \<Rightarrow> bool" where
  "plain_replacement raw new \<longleftrightarrow>
     (raw \<noteq> [] \<longrightarrow> list_ex (\<lambda>c. \<not> is_whitespace c) new)
     \<and> list_all (\<lambda>c. \<not> is_control_char c \<and> \<not> is_bidi_control c) new \<and> \<not> contains_markup new
     \<and> text_len new \<le> max (text_len raw * 3 div 2) (text_len raw + 256)"

lemma trim_Nil: "trim t = [] \<longleftrightarrow> list_all is_whitespace t"
proof
  assume "list_all is_whitespace t"
  then have "\<forall>c \<in> set (dropWhile is_whitespace t). is_whitespace c" by (auto simp: list_all_iff dest: set_dropWhileD)
  then show "trim t = []" by (simp add: trim_def trim_end_def trim_start_def dropWhile_eq_Nil_conv)
next
  assume "trim t = []"
  then have all: "\<forall>c \<in> set (dropWhile is_whitespace t). is_whitespace c"
    by (simp add: trim_def trim_end_def trim_start_def dropWhile_eq_Nil_conv)
  then have "dropWhile is_whitespace t = []"
    using hd_dropWhile [of is_whitespace t] by (cases "dropWhile is_whitespace t") auto
  then show "list_all is_whitespace t" by (simp add: dropWhile_eq_Nil_conv list_all_iff)
qed

lemma row_limit_Some: "row_limit raw = Some y \<Longrightarrow> y = max (text_len raw * 3 div 2) (text_len raw + 256)"
  by (auto simp: row_limit_def bind_eq_Some_conv)

lemma check_replacement_ok: "is_ok (check_replacement raw new) \<Longrightarrow> plain_replacement raw new"
  by (auto simp: check_replacement_def plain_replacement_def validate_plain_text_def trim_Nil
      is_ok_rbind list_ex_iff list_all_iff not_less dest: row_limit_Some split: if_splits)

text \<open>A replacement of an accepted rewrite belongs to one target, and was checked against its text.\<close>

lemma accepted_replacement:
  assumes ok: "validate_rewrite out targets l = Inr v"
    and m: "map_of (rev (map (\<lambda>r. (rp_row r, rp_text r)) (replacements out))) (tr_id t) = Some new"
    and t: "t \<in> set targets"
  shows "plain_replacement (tr_text t) new"
proof -
  obtain ix n where ix: "target_indices 0 [] targets = Some ix"
    and c: "check_replacements ix targets [] None 0 (replacements out) = Inr n"
    using ok by (auto simp: validate_rewrite_def split: if_splits)
  obtain js where js: "list_all2 (\<lambda>r i. map_of ix (rp_row r) = Some i
      \<and> is_ok (check_replacement (tr_text (targets ! i)) (rp_text r))) (replacements out) js"
    using check_replacements_Inr [OF c] by blast
  obtain r where r: "r \<in> set (replacements out)" "rp_row r = tr_id t" "rp_text r = new"
    using map_of_SomeD [OF m] by auto
  obtain k where k: "k < length (replacements out)" "replacements out ! k = r"
    using r(1) by (auto simp: in_set_conv_nth)
  have "map_of ix (tr_id t) = Some (js ! k)" "is_ok (check_replacement (tr_text (targets ! (js ! k))) new)"
    using list_all2_nthD [OF js k(1)] k(2) r by auto
  moreover have "targets ! (js ! k) = t"
  proof -
    have "tr_id (targets ! (js ! k)) = tr_id t" "js ! k < length targets"
      using target_index [OF ix calculation(1)] by simp_all
    moreover have "distinct (map tr_id targets)" using target_indices_Some [OF ix] by blast
    ultimately show ?thesis using t nth_mem [of "js ! k" targets] by (simp add: distinct_map inj_on_def)
  qed
  ultimately show ?thesis by (simp add: check_replacement_ok)
qed

text \<open>C36. A hosted rewrite can only rewrite text. When the validation accepts an output for a set of
  target rows, applying it to those rows succeeds and gives the same rows in the same order with the
  same ids, speakers and times; a row's text is its own or a replacement the output holds for that
  row, which is plain (no control or bidirectional characters, no markup), not blank unless the row
  was empty, and within the larger of one and a half times and 256 bytes over the original; and all
  replacements together stay within the byte limit of the request and the catalog.\<close>

theorem rewrite_changes_only_text:
  assumes "validate_rewrite out targets l = Inr v"
  shows "\<exists>rows. apply_rewrite v targets = Inr rows
     \<and> list_all2 (\<lambda>t r. r = t\<lparr>tr_text := tr_text r\<rparr>
          \<and> (tr_text r = tr_text t
             \<or> list_ex (\<lambda>p. rp_row p = tr_id t \<and> rp_text p = tr_text r) (replacements out)
               \<and> plain_replacement (tr_text t) (tr_text r))) targets rows
     \<and> sum_list (map (\<lambda>p. text_len (rp_text p)) (replacements out)) \<le> min (request_max l) (catalog_max l)"
proof -
  obtain ix n where c: "check_replacements ix targets [] None 0 (replacements out) = Inr n"
    and n: "n \<le> effective_max l"
    and v: "v = \<lparr>vr_replacements = replacements out, target_snapshot = targets\<rparr>"
    using assms by (auto simp: validate_rewrite_def not_less split: if_splits)
  let ?rows = "map (replace_row (replacements out)) targets"
  have row: "replace_row (replacements out) t = t\<lparr>tr_text := tr_text (replace_row (replacements out) t)\<rparr>
      \<and> (tr_text (replace_row (replacements out) t) = tr_text t
         \<or> list_ex (\<lambda>p. rp_row p = tr_id t \<and> rp_text p = tr_text (replace_row (replacements out) t)) (replacements out)
           \<and> plain_replacement (tr_text t) (tr_text (replace_row (replacements out) t)))" if "t \<in> set targets" for t
  proof (cases "map_of (rev (map (\<lambda>r. (rp_row r, rp_text r)) (replacements out))) (tr_id t)")
    case None
    then show ?thesis by (simp add: replace_row_def)
  next
    case (Some new)
    have "list_ex (\<lambda>p. rp_row p = tr_id t \<and> rp_text p = new) (replacements out)"
      using map_of_SomeD [OF Some] by (auto simp: list_ex_iff)
    then show ?thesis using accepted_replacement [OF assms Some that] Some by (simp add: replace_row_def)
  qed
  have "list_all2 (\<lambda>t r. r = t\<lparr>tr_text := tr_text r\<rparr>
          \<and> (tr_text r = tr_text t
             \<or> list_ex (\<lambda>p. rp_row p = tr_id t \<and> rp_text p = tr_text r) (replacements out)
               \<and> plain_replacement (tr_text t) (tr_text r))) targets ?rows"
    using row by (simp add: list_all2_conv_all_nth)
  then show ?thesis
    using check_replacements_Inr [OF c] n
    by (auto simp: apply_rewrite_def v effective_max_def split: if_splits)
qed

definition demo_row :: transcript_row where
  "demo_row = \<lparr>tr_id = ''a'', speaker = scalars ''Me'', start_ms = 0, end_ms = 900, tr_text = scalars ''helo''\<rparr>"

definition demo_rewrite :: rewrite_output where
  "demo_rewrite = \<lparr>rw_schema = 1, replacements = [\<lparr>rp_row = ''a'', rp_text = scalars ''hello''\<rparr>]\<rparr>"

lemmas plain_text_defs = validate_plain_text_def is_control_char_def is_bidi_control_def contains_markup_def
  is_ascii_alphabetic_def trim_def trim_end_def trim_start_def is_whitespace_def scalars_def row_limit_def
  text_len_def char_len_def

lemma demo_rewrite_accepted:
  "\<exists>v. validate_rewrite demo_rewrite [demo_row] \<lparr>request_max = 100, catalog_max = 80\<rparr> = Inr v"
  by (simp add: validate_rewrite_def demo_rewrite_def demo_row_def check_replacement_def plain_text_defs
      effective_max_def checked_mul_def checked_add_def)

theorem rewrite_changes_only_text_witness:
  "\<exists>v rows. validate_rewrite demo_rewrite [demo_row] \<lparr>request_max = 100, catalog_max = 80\<rparr> = Inr v
     \<and> apply_rewrite v [demo_row] = Inr rows \<and> length rows = 1"
proof -
  obtain v where v: "validate_rewrite demo_rewrite [demo_row] \<lparr>request_max = 100, catalog_max = 80\<rparr> = Inr v"
    using demo_rewrite_accepted by blast
  show ?thesis
    using rewrite_changes_only_text [OF v] v by (auto dest: list_all2_lengthD)
qed

section \<open>Answers\<close>

lemma context_ids_Some:
  "context_ids seen rs = Some ids \<Longrightarrow> set ids = set seen \<union> tr_id ` set rs \<and> distinct (map tr_id rs)
     \<and> set seen \<inter> tr_id ` set rs = {}"
  by (induction seen rs rule: context_ids.induct) (auto split: if_splits)

lemma check_citations_Inr:
  "check_citations ids seen cs = Inr u \<longleftrightarrow> set cs \<subseteq> set ids \<and> distinct cs \<and> set cs \<inter> set seen = {}"
  by (induction ids seen cs rule: check_citations.induct) auto

lemma if_Inl_Inr: "(if b then Inl e else r) = Inr y \<longleftrightarrow> \<not> b \<and> r = Inr y"
  by simp

text \<open>C37. A published answer is grounded. When the validation accepts an answer over a set of context
  rows, the answer is not blank, fits the byte bound, holds no control or bidirectional character but
  line feeds, keeps the truncation marker it was asked with, and cites distinct rows, every one among
  the rows it was given; it cites none exactly when it is the fixed sentence that says there is no
  answer.\<close>

theorem answer_is_grounded:
  assumes "validate_question out ctx truncated max_bytes = Inr q"
  shows "vq_answer q = answer out \<and> vq_cited q = cited out \<and> vq_truncated q = truncated
     \<and> list_ex (\<lambda>c. \<not> is_whitespace c) (answer out) \<and> text_len (answer out) \<le> max_bytes
     \<and> list_all (\<lambda>c. (is_control_char c \<longrightarrow> c = 10) \<and> \<not> is_bidi_control c) (answer out)
     \<and> distinct (cited out) \<and> set (cited out) \<subseteq> tr_id ` set ctx
     \<and> (cited out = [] \<longleftrightarrow> answer out = EXPLICIT_NO_ANSWER)"
proof -
  obtain u ids w where a: "qo_schema out = 1 \<and> trim (answer out) \<noteq> [] \<and> \<not> max_bytes < text_len (answer out)"
      "validate_answer_text (answer out) = Inr u" "qo_truncated out = truncated"
    and ids: "context_ids [] ctx = Some ids"
    and no: "\<not> (cited out = [] \<and> answer out \<noteq> EXPLICIT_NO_ANSWER)"
      "\<not> (answer out = EXPLICIT_NO_ANSWER \<and> cited out \<noteq> [])"
    and w: "check_citations ids [] (cited out) = Inr w"
    and q: "q = \<lparr>vq_answer = answer out, vq_cited = cited out, vq_truncated = qo_truncated out\<rparr>"
    using assms unfolding validate_question_def Let_def if_Inl_Inr rbind_Inr ok_or_Inr by blast
  have rest: "trim (answer out) \<noteq> []" "text_len (answer out) \<le> max_bytes" "qo_truncated out = truncated"
    "validate_answer_text (answer out) = Inr ()" "cited out = [] \<longleftrightarrow> answer out = EXPLICIT_NO_ANSWER"
    using a no by auto
  have c: "check_citations ids [] (cited out) = Inr ()" using w by simp
  have "set (cited out) \<subseteq> set ids" "distinct (cited out)" using c by (simp_all add: check_citations_Inr)
  moreover have "set ids = tr_id ` set ctx" using context_ids_Some [OF ids] by simp
  moreover have "list_all (\<lambda>c. (is_control_char c \<longrightarrow> c = 10) \<and> \<not> is_bidi_control c) (answer out)"
    using rest(4) by (auto simp: validate_answer_text_def list_all_iff list_ex_iff split: if_splits)
  moreover have "list_ex (\<lambda>c. \<not> is_whitespace c) (answer out)"
    using rest(1) by (auto simp: trim_Nil list_all_iff list_ex_iff)
  ultimately show ?thesis using rest q by simp
qed

definition demo_answer :: question_output where
  "demo_answer = \<lparr>qo_schema = 1, answer = scalars ''yes'', cited = [''a''], qo_truncated = False\<rparr>"

lemma demo_answer_accepted: "\<exists>q. validate_question demo_answer [demo_row] False 100 = Inr q"
  by (simp add: validate_question_def demo_answer_def demo_row_def validate_answer_text_def plain_text_defs
      strip_list_marker_def strip_prefix_def EXPLICIT_NO_ANSWER_def Let_def)

theorem answer_is_grounded_witness:
  "\<exists>q. validate_question demo_answer [demo_row] False 100 = Inr q \<and> vq_cited q = [''a'']"
proof -
  obtain q where q: "validate_question demo_answer [demo_row] False 100 = Inr q"
    using demo_answer_accepted by blast
  show ?thesis using answer_is_grounded [OF q] q by (simp add: demo_answer_def)
qed

section \<open>Chunks\<close>

lemma see_all_Inr:
  "see_all expected seen rs = Inr s \<longleftrightarrow> s = rev rs @ seen \<and> set rs \<subseteq> set expected \<and> distinct rs
     \<and> set rs \<inter> set seen = {}"
  by (induction expected seen rs rule: see_all.induct) auto

text \<open>C0. Chunking a final rewrite is checked to be a partition: the check accepts exactly when the expected
  row ids are distinct and the chunks together hold each of them once and nothing else.\<close>

theorem chunks_partition:
  "is_ok (validate_disjoint_chunks expected chunks) \<longleftrightarrow>
     distinct expected \<and> mset (concat chunks) = mset expected"
proof -
  have "is_ok (validate_disjoint_chunks expected chunks) \<longleftrightarrow>
      distinct expected \<and> distinct (concat chunks) \<and> set (concat chunks) \<subseteq> set expected
      \<and> length (concat chunks) = length expected"
  proof (cases "see_all expected [] (concat chunks)")
    case (Inl e)
    then have "\<not> (set (concat chunks) \<subseteq> set expected \<and> distinct (concat chunks))"
      using see_all_Inr [of expected "[]" "concat chunks" "rev (concat chunks)"] by (auto simp del: set_concat)
    then show ?thesis by (auto simp: validate_disjoint_chunks_def Inl)
  next
    case (Inr s)
    then show ?thesis
      using see_all_Inr [of expected "[]" "concat chunks" s]
      by (auto simp: validate_disjoint_chunks_def card_distinct distinct_card simp del: set_concat)
  qed
  also have "\<dots> \<longleftrightarrow> distinct expected \<and> mset (concat chunks) = mset expected"
  proof
    assume a: "distinct expected \<and> distinct (concat chunks) \<and> set (concat chunks) \<subseteq> set expected
      \<and> length (concat chunks) = length expected"
    then have "set (concat chunks) = set expected"
      by (intro card_subset_eq) (simp_all add: distinct_card del: set_concat)
    with a show "distinct expected \<and> mset (concat chunks) = mset expected"
      using set_eq_iff_mset_eq_distinct by blast
  next
    assume a: "distinct expected \<and> mset (concat chunks) = mset expected"
    then show "distinct expected \<and> distinct (concat chunks) \<and> set (concat chunks) \<subseteq> set expected
      \<and> length (concat chunks) = length expected"
      by (metis mset_eq_imp_distinct_iff mset_eq_length mset_eq_setD order_refl)
  qed
  finally show ?thesis .
qed

end
