(* ===== verification/Pricing.thy ===== *)
theory Pricing
  imports HostedTypes
begin

text \<open>
  Token usage and its cost, \<open>crates/corti-postprocess/src/pricing.rs\<close>: what a provider reports is
  normalised, priced by the one tariff that matches the call exactly, and rounded up to the micro. A
  cost that is not known is absent, never zero.
\<close>

section \<open>Usage\<close>

datatype pricing_error = NegativeUsage | BadCurrency | InconsistentUsage | ArithmeticOverflow | AmbiguousTariff

definition unknown_usage :: normalized_usage where
  "unknown_usage = \<lparr>input_tokens = None, output_tokens = None, cached_read_tokens = None,
     cached_write_tokens = None, reasoning_tokens = None, usage_complete = False\<rparr>"

record reported_usage =
  rep_input :: "int option"
  rep_output :: "int option"
  rep_cached_read :: "int option"
  rep_cached_write :: "int option"
  rep_reasoning :: "int option"
  rep_complete :: bool

definition nonnegative :: "int option \<Rightarrow> pricing_error + u64 option" where
  "nonnegative v = transpose_result (map_option (\<lambda>i. ok_or (try_from_int 64 i) NegativeUsage) v)"

definition normalize_usage :: "reported_usage \<Rightarrow> pricing_error + normalized_usage" where
  "normalize_usage r =
     rbind (nonnegative (rep_input r)) (\<lambda>i.
     rbind (nonnegative (rep_output r)) (\<lambda>out.
     rbind (nonnegative (rep_cached_read r)) (\<lambda>cr.
     rbind (nonnegative (rep_cached_write r)) (\<lambda>cw.
     rbind (nonnegative (rep_reasoning r)) (\<lambda>re.
       Inr \<lparr>input_tokens = i, output_tokens = out, cached_read_tokens = cr, cached_write_tokens = cw,
            reasoning_tokens = re, usage_complete = rep_complete r\<rparr>)))))"

section \<open>Tariffs\<close>

datatype input_accounting = IncludesCached | InputDisjoint
datatype output_accounting = IncludesReasoning | OutputDisjoint

record tariff_rates =
  rate_input :: "u64 option"
  rate_output :: "u64 option"
  rate_cached_read :: "u64 option"
  rate_cached_write :: "u64 option"
  rate_reasoning :: "u64 option"

record tariff =
  tf_id :: string
  tf_provider :: string
  tf_model :: string
  tf_region :: "string option"
  tf_tier :: support_tier
  effective_from :: int
  effective_until :: "int option"
  tf_currency :: string
  tf_input :: input_accounting
  tf_output :: output_accounting
  rates :: tariff_rates

record pricing_query =
  pq_provider :: string
  pq_model :: string
  pq_region :: "string option"
  pq_tier :: support_tier
  pq_dispatched :: int
  pq_billing :: billing_basis

definition tariff_matches :: "tariff \<Rightarrow> pricing_query \<Rightarrow> bool" where
  "tariff_matches t q \<longleftrightarrow>
     tf_provider t = pq_provider q \<and> tf_model t = pq_model q \<and> tf_region t = pq_region q
     \<and> tf_tier t = pq_tier q \<and> effective_from t \<le> pq_dispatched q
     \<and> is_none_or (effective_until t) (\<lambda>until. pq_dispatched q < until)"

text \<open>Tokens and rate of an optional class; none when only one of the two is known.\<close>

fun resolve_class :: "u64 option \<Rightarrow> u64 option \<Rightarrow> (u64 \<times> u64) option" where
  "resolve_class (Some tokens) (Some rate) = Some (tokens, rate)"
| "resolve_class None None = Some (0, 0)"
| "resolve_class (Some tokens) None = (if tokens = 0 then Some (0, 0) else None)"
| "resolve_class None (Some rate) = None"

fun required_rate :: "u64 \<Rightarrow> u64 option \<Rightarrow> u64 option" where
  "required_rate tokens (Some rate) = Some rate"
| "required_rate tokens None = (if tokens = 0 then Some 0 else None)"

fun sum_charges :: "u128 \<Rightarrow> (u64 \<times> u64) list \<Rightarrow> pricing_error + u128" where
  "sum_charges sofar [] = Inr sofar"
| "sum_charges sofar ((tokens, rate) # cs) =
     rbind (ok_or (checked_mul 128 tokens rate) ArithmeticOverflow) (\<lambda>charge.
     rbind (ok_or (checked_add 128 sofar charge) ArithmeticOverflow) (\<lambda>next. sum_charges next cs))"

definition round_micros :: "u128 \<Rightarrow> pricing_error + u64" where
  "round_micros numerator =
     rbind (if numerator = 0 then Inr 0
            else rbind (ok_or (checked_add 128 numerator (1000000 - 1)) ArithmeticOverflow) (\<lambda>n. Inr (n div 1000000)))
       (\<lambda>rounded. ok_or (try_from 64 rounded) ArithmeticOverflow)"

definition uncached_input :: "input_accounting \<Rightarrow> u64 \<Rightarrow> u64 \<Rightarrow> u64 \<Rightarrow> pricing_error + u64" where
  "uncached_input acc tokens cached_read cached_write =
     (case acc of
        InputDisjoint \<Rightarrow> Inr tokens
      | IncludesCached \<Rightarrow>
          rbind (ok_or (checked_add 64 cached_read cached_write) ArithmeticOverflow) (\<lambda>cached.
            ok_or (checked_sub tokens cached) InconsistentUsage))"

definition billable_output :: "output_accounting \<Rightarrow> u64 \<Rightarrow> u64 \<Rightarrow> pricing_error + u64" where
  "billable_output acc tokens reasoning =
     (case acc of
        OutputDisjoint \<Rightarrow> Inr tokens
      | IncludesReasoning \<Rightarrow> ok_or (checked_sub tokens reasoning) InconsistentUsage)"

definition estimate_micros :: "tariff \<Rightarrow> normalized_usage \<Rightarrow> pricing_error + u64 option" where
  "estimate_micros t u =
     (if \<not> usage_complete u then Inr None
      else case (input_tokens u, output_tokens u, resolve_class (cached_read_tokens u) (rate_cached_read (rates t)),
                 resolve_class (cached_write_tokens u) (rate_cached_write (rates t)),
                 resolve_class (reasoning_tokens u) (rate_reasoning (rates t))) of
        (Some i, Some out, Some (cr, cr_rate), Some (cw, cw_rate), Some (re, re_rate)) \<Rightarrow>
          rbind (uncached_input (tf_input t) i cr cw) (\<lambda>uncached.
          rbind (billable_output (tf_output t) out re) (\<lambda>billable.
            case (required_rate uncached (rate_input (rates t)), required_rate billable (rate_output (rates t))) of
              (Some i_rate, Some out_rate) \<Rightarrow>
                rbind (sum_charges 0 [(uncached, i_rate), (billable, out_rate), (cr, cr_rate), (cw, cw_rate), (re, re_rate)])
                  (\<lambda>numerator. map_sum id Some (round_micros numerator))
            | _ \<Rightarrow> Inr None))
      | _ \<Rightarrow> Inr None)"

section \<open>Catalogs and estimates\<close>

record tariff_catalog =
  tc_version :: string
  tc_source :: string
  tc_retrieved :: int
  valid_until :: int
  tariffs :: "tariff list"

record cost_estimate =
  ce_basis :: billing_basis
  ce_micros :: "u64 option"
  ce_currency :: "string option"
  ce_catalog :: "string option"
  ce_tariff :: "string option"
  ce_effective :: "int option"

definition estimate_without_cost :: "billing_basis \<Rightarrow> cost_estimate" where
  "estimate_without_cost b = \<lparr>ce_basis = b, ce_micros = None, ce_currency = None, ce_catalog = None,
     ce_tariff = None, ce_effective = None\<rparr>"

definition catalog_estimate ::
    "tariff_catalog \<Rightarrow> pricing_query \<Rightarrow> normalized_usage \<Rightarrow> pricing_error + cost_estimate" where
  "catalog_estimate c q u =
     (case pq_billing q of
        IncludedSubscription \<Rightarrow> Inr (estimate_without_cost IncludedSubscription)
      | NoProviderRequest \<Rightarrow> Inr (estimate_without_cost NoProviderRequest)
      | UnknownBasis \<Rightarrow> Inr (estimate_without_cost UnknownBasis)
      | MeteredEstimate \<Rightarrow>
          if valid_until c < pq_dispatched q then Inr (estimate_without_cost UnknownBasis)
          else case filter (\<lambda>t. tariff_matches t q) (tariffs c) of
                 [] \<Rightarrow> Inr (estimate_without_cost UnknownBasis)
               | [t] \<Rightarrow>
                   rbind (estimate_micros t u) (\<lambda>micros.
                     case micros of
                       None \<Rightarrow> Inr (estimate_without_cost UnknownBasis)
                     | Some m \<Rightarrow> Inr \<lparr>ce_basis = MeteredEstimate, ce_micros = Some m,
                         ce_currency = Some (tf_currency t), ce_catalog = Some (tc_version c),
                         ce_tariff = Some (tf_id t), ce_effective = Some (effective_from t)\<rparr>)
               | _ # _ # _ \<Rightarrow> Inl AmbiguousTariff)"

section \<open>Rendering\<close>

text \<open>The decimal digits of a number, and the fraction to at least four places.\<close>

fun decimal :: "nat \<Rightarrow> string" where
  "decimal n = (if n < 10 then [char_of (48 + n)] else decimal (n div 10) @ [char_of (48 + n mod 10)])"

definition six_digits :: "nat \<Rightarrow> string" where
  "six_digits n = map (\<lambda>k. char_of (48 + n div 10 ^ k mod 10)) [5, 4, 3, 2, 1, 0]"

text \<open>Trailing zeros go while more than four digits follow the point.\<close>

fun drop_zeros :: "string \<Rightarrow> string" where
  "drop_zeros frac = (if 4 < length frac \<and> last frac = CHR ''0'' then drop_zeros (butlast frac) else frac)"

definition format_micros :: "u64 \<Rightarrow> string" where
  "format_micros m = decimal (m div 1000000) @ ''.'' @ drop_zeros (six_digits (m mod 1000000))"

text \<open>The separator of two of the labels is U+00B7, written here as its UTF-8 bytes.\<close>

definition middle_dot :: string where
  "middle_dot = [char_of (194 :: nat), char_of (183 :: nat)]"

definition render_cost :: "cost_estimate \<Rightarrow> string" where
  "render_cost e =
     (case ce_basis e of
        IncludedSubscription \<Rightarrow> ''Included subscription '' @ middle_dot @ '' cost unavailable''
      | NoProviderRequest \<Rightarrow> ''Local cache '' @ middle_dot @ '' no provider request''
      | UnknownBasis \<Rightarrow> ''Cost unavailable''
      | MeteredEstimate \<Rightarrow>
          (case (ce_currency e, ce_micros e) of
             (Some cur, Some micros) \<Rightarrow>
               if cur = ''USD'' then ''Estimated $'' @ format_micros micros
               else ''Estimated '' @ cur @ '' '' @ format_micros micros
           | _ \<Rightarrow> ''Cost unavailable''))"

end
