(* ===== verification/PricingProps.thy ===== *)
theory PricingProps
  imports Pricing
begin

text \<open>
  What an estimate promises: it is the exact charge of the one matching tariff rounded up once, or no
  amount at all.
\<close>

section \<open>The exact charge\<close>

definition known :: "nat option \<Rightarrow> nat" where
  "known v = (case v of None \<Rightarrow> 0 | Some n \<Rightarrow> n)"

text \<open>The tokens of the two main classes that no other class already counts.\<close>

definition fresh_input :: "tariff \<Rightarrow> normalized_usage \<Rightarrow> nat" where
  "fresh_input t u = known (input_tokens u)
     - (if tf_input t = IncludesCached then known (cached_read_tokens u) + known (cached_write_tokens u) else 0)"

definition spoken_output :: "tariff \<Rightarrow> normalized_usage \<Rightarrow> nat" where
  "spoken_output t u = known (output_tokens u)
     - (if tf_output t = IncludesReasoning then known (reasoning_tokens u) else 0)"

text \<open>Tokens of each class, none counted twice, times the rate of the class, in millionths of a micro.\<close>

definition exact_charge :: "tariff \<Rightarrow> normalized_usage \<Rightarrow> nat" where
  "exact_charge t u =
     fresh_input t u * known (rate_input (rates t)) + spoken_output t u * known (rate_output (rates t))
       + known (cached_read_tokens u) * known (rate_cached_read (rates t))
       + known (cached_write_tokens u) * known (rate_cached_write (rates t))
       + known (reasoning_tokens u) * known (rate_reasoning (rates t))"

text \<open>
  Every class with a token to charge has a rate, a class with a rate has a reported count, and the
  parts do not exceed the wholes.
\<close>

definition class_priced :: "u64 option \<Rightarrow> u64 option \<Rightarrow> bool" where
  "class_priced tokens rate \<longleftrightarrow> (rate = None \<longrightarrow> known tokens = 0) \<and> (tokens = None \<longrightarrow> rate = None)"

definition fully_priced :: "tariff \<Rightarrow> normalized_usage \<Rightarrow> bool" where
  "fully_priced t u \<longleftrightarrow>
     usage_complete u \<and> input_tokens u \<noteq> None \<and> output_tokens u \<noteq> None
     \<and> (0 < fresh_input t u \<longrightarrow> rate_input (rates t) \<noteq> None)
     \<and> (0 < spoken_output t u \<longrightarrow> rate_output (rates t) \<noteq> None)
     \<and> list_all (\<lambda>(tokens, rate). class_priced tokens rate)
         [(cached_read_tokens u, rate_cached_read (rates t)), (cached_write_tokens u, rate_cached_write (rates t)),
          (reasoning_tokens u, rate_reasoning (rates t))]
     \<and> (tf_input t = IncludesCached \<longrightarrow>
          known (cached_read_tokens u) + known (cached_write_tokens u) \<le> known (input_tokens u))
     \<and> (tf_output t = IncludesReasoning \<longrightarrow> known (reasoning_tokens u) \<le> known (output_tokens u))"

lemma known_simps [simp]: "known None = 0" "known (Some n) = n"
  by (simp_all add: known_def)

lemma resolve_class_Some:
  "resolve_class tokens rate = Some (n, r) \<longleftrightarrow> class_priced tokens rate \<and> n = known tokens \<and> r = known rate"
  by (cases "(tokens, rate)" rule: resolve_class.cases) (auto simp: class_priced_def)

lemma required_rate_Some:
  "required_rate n rate = Some r \<longleftrightarrow> (0 < n \<longrightarrow> rate \<noteq> None) \<and> r = known rate"
  by (cases "(n, rate)" rule: required_rate.cases) auto

lemma sum_charges_Inr: "sum_charges sofar cs = Inr n \<Longrightarrow> n = sofar + sum_list (map (\<lambda>(k, r). k * r) cs)"
  by (induction cs arbitrary: sofar) fastforce+

lemma round_micros_Inr: "round_micros n = Inr m \<Longrightarrow> m = div_ceil n 1000000"
proof -
  have "(n + 999999) div 1000000 = div_ceil n 1000000" for n :: nat
  proof -
    have r: "(n mod 1000000 + 999999) div 1000000 = (if n mod 1000000 = 0 then 0 else 1 :: nat)"
    proof (cases "n mod 1000000 = 0")
      case False
      moreover have "n mod 1000000 < 1000000" by simp
      ultimately have "(n mod 1000000 + 999999) div 1000000 = 1" by (intro div_nat_eqI) simp_all
      with False show ?thesis by simp
    qed simp
    have "(n + 999999) div 1000000 = (n mod 1000000 + 999999 + n div 1000000 * 1000000) div 1000000"
      by (simp add: add.commute add.left_commute)
    also have "\<dots> = n div 1000000 + (n mod 1000000 + 999999) div 1000000"
      by (rule div_mult_self1) simp
    finally show ?thesis unfolding r by (simp add: div_ceil_def)
  qed
  then show "round_micros n = Inr m \<Longrightarrow> ?thesis" by (auto simp: round_micros_def div_ceil_def split: if_splits)
qed

lemma uncached_input_Inr:
  "uncached_input acc n cr cw = Inr f \<Longrightarrow> f = n - (if acc = IncludesCached then cr + cw else 0)
     \<and> (acc = IncludesCached \<longrightarrow> cr + cw \<le> n)"
  by (auto simp: uncached_input_def split: input_accounting.splits)

lemma billable_output_Inr:
  "billable_output acc n re = Inr f \<Longrightarrow> f = n - (if acc = IncludesReasoning then re else 0)
     \<and> (acc = IncludesReasoning \<longrightarrow> re \<le> n)"
  by (auto simp: billable_output_def split: output_accounting.splits)

lemma estimate_micros_Some:
  assumes "estimate_micros t u = Inr (Some m)"
  shows "m = div_ceil (exact_charge t u) 1000000 \<and> fully_priced t u"
proof -
  obtain i out cr crr cw cwr re rer where c: "usage_complete u" "input_tokens u = Some i" "output_tokens u = Some out"
    "resolve_class (cached_read_tokens u) (rate_cached_read (rates t)) = Some (cr, crr)"
    "resolve_class (cached_write_tokens u) (rate_cached_write (rates t)) = Some (cw, cwr)"
    "resolve_class (reasoning_tokens u) (rate_reasoning (rates t)) = Some (re, rer)"
    using assms by (auto simp: estimate_micros_def split: if_splits option.splits prod.splits)
  obtain f b where f: "uncached_input (tf_input t) i cr cw = Inr f" and b: "billable_output (tf_output t) out re = Inr b"
    and rest: "(case (required_rate f (rate_input (rates t)), required_rate b (rate_output (rates t))) of
              (Some i_rate, Some out_rate) \<Rightarrow>
                rbind (sum_charges 0 [(f, i_rate), (b, out_rate), (cr, crr), (cw, cwr), (re, rer)])
                  (\<lambda>numerator. map_sum id Some (round_micros numerator))
            | _ \<Rightarrow> Inr None) = Inr (Some m)"
    using assms c by (auto simp: estimate_micros_def simp del: sum_charges.simps)
  obtain ir outr where rates: "required_rate f (rate_input (rates t)) = Some ir"
    "required_rate b (rate_output (rates t)) = Some outr"
    using rest by (cases "required_rate f (rate_input (rates t))"; cases "required_rate b (rate_output (rates t))") auto
  obtain n where "sum_charges 0 [(f, ir), (b, outr), (cr, crr), (cw, cwr), (re, rer)] = Inr n" "round_micros n = Inr m"
    using rest by (auto simp: rates map_sum_Inr simp del: sum_charges.simps)
  note r = f b rates this
  note k = c(4-6) [unfolded resolve_class_Some]
  have "n = exact_charge t u"
    using sum_charges_Inr [OF r(5)] uncached_input_Inr [OF r(1)] billable_output_Inr [OF r(2)]
      r(3,4) [unfolded required_rate_Some] k c
    by (simp add: exact_charge_def fresh_input_def spoken_output_def)
  moreover have "fully_priced t u"
    using uncached_input_Inr [OF r(1)] billable_output_Inr [OF r(2)] r(3,4) [unfolded required_rate_Some] k c
    by (auto simp: fully_priced_def fresh_input_def spoken_output_def)
  ultimately show ?thesis using round_micros_Inr [OF r(6)] by simp
qed

lemma estimate_micros_None:
  assumes "estimate_micros t u = Inr None"
  shows "\<not> fully_priced t u"
proof
  assume full: "fully_priced t u"
  then obtain i out where i: "input_tokens u = Some i" "output_tokens u = Some out"
    by (auto simp: fully_priced_def)
  let ?cr = "known (cached_read_tokens u)" and ?cw = "known (cached_write_tokens u)" and ?re = "known (reasoning_tokens u)"
  have c: "resolve_class (cached_read_tokens u) (rate_cached_read (rates t)) = Some (?cr, known (rate_cached_read (rates t)))"
    "resolve_class (cached_write_tokens u) (rate_cached_write (rates t)) = Some (?cw, known (rate_cached_write (rates t)))"
    "resolve_class (reasoning_tokens u) (rate_reasoning (rates t)) = Some (?re, known (rate_reasoning (rates t)))"
    using full by (simp_all add: resolve_class_Some fully_priced_def)
  have complete: "usage_complete u" using full by (simp add: fully_priced_def)
  obtain f where f: "uncached_input (tf_input t) i ?cr ?cw = Inr f"
    using assms c i complete
    by (cases "uncached_input (tf_input t) i ?cr ?cw") (simp_all add: estimate_micros_def del: sum_charges.simps)
  obtain b where b: "billable_output (tf_output t) out ?re = Inr b"
    using assms c i complete f
    by (cases "billable_output (tf_output t) out ?re") (simp_all add: estimate_micros_def del: sum_charges.simps)
  have "required_rate f (rate_input (rates t)) = Some (known (rate_input (rates t)))"
    "required_rate b (rate_output (rates t)) = Some (known (rate_output (rates t)))"
    using full i uncached_input_Inr [OF f] billable_output_Inr [OF b]
    by (auto simp: required_rate_Some fully_priced_def fresh_input_def spoken_output_def)
  then obtain charges where
    "estimate_micros t u = rbind (sum_charges 0 charges) (\<lambda>n. map_sum id Some (round_micros n))"
    using c i f b complete by (simp add: estimate_micros_def del: sum_charges.simps)
  then show False
    using assms by (cases "sum_charges 0 charges"; cases "round_micros (projr (sum_charges 0 charges))") simp_all
qed

text \<open>C38. A price is exact or absent. Whatever the catalog answers, an estimate that carries an amount is
  metered, dispatched within the catalog's validity, and priced by the only tariff that matches
  provider, model, region, tier and instant: the usage was complete, every class with a token to charge
  has a rate (input and output included), no cached or reasoning token is charged twice, and the amount
  is the exact charge rounded up once to the micro. Every other estimate carries no amount, currency or
  tariff at all, and there is a reason for it: the query was not metered, its dispatch was after the
  catalog's validity, no tariff matches, or the only one that matches does not price the usage.\<close>

theorem price_exact_or_absent:
  assumes "catalog_estimate c q u = Inr e"
  shows "if ce_basis e = MeteredEstimate
     then \<exists>t. filter (\<lambda>t. tariff_matches t q) (tariffs c) = [t]
        \<and> pq_billing q = MeteredEstimate \<and> pq_dispatched q \<le> valid_until c \<and> fully_priced t u
        \<and> e = \<lparr>ce_basis = MeteredEstimate, ce_micros = Some (div_ceil (exact_charge t u) 1000000),
             ce_currency = Some (tf_currency t), ce_catalog = Some (tc_version c), ce_tariff = Some (tf_id t),
             ce_effective = Some (effective_from t)\<rparr>
     else ce_micros e = None \<and> ce_currency e = None \<and> ce_tariff e = None \<and> ce_effective e = None
        \<and> (pq_billing q \<noteq> MeteredEstimate \<and> ce_basis e = pq_billing q
           \<or> ce_basis e = UnknownBasis
             \<and> (valid_until c < pq_dispatched q \<or> filter (\<lambda>t. tariff_matches t q) (tariffs c) = []
                \<or> (\<exists>t. filter (\<lambda>t. tariff_matches t q) (tariffs c) = [t] \<and> \<not> fully_priced t u)))"
proof (cases "pq_billing q = MeteredEstimate \<and> pq_dispatched q \<le> valid_until c")
  case False
  then have "e = estimate_without_cost (if pq_billing q = MeteredEstimate then UnknownBasis else pq_billing q)"
    using assms by (auto simp: catalog_estimate_def split: billing_basis.splits)
  then show ?thesis using False by (auto simp: estimate_without_cost_def)
next
  case metered: True
  consider (none) "e = estimate_without_cost UnknownBasis"
      "filter (\<lambda>t. tariff_matches t q) (tariffs c) = []
        \<or> (\<exists>t. filter (\<lambda>t. tariff_matches t q) (tariffs c) = [t] \<and> estimate_micros t u = Inr None)"
    | (one) t m where "filter (\<lambda>t. tariff_matches t q) (tariffs c) = [t]" "estimate_micros t u = Inr (Some m)"
      "e = \<lparr>ce_basis = MeteredEstimate, ce_micros = Some m, ce_currency = Some (tf_currency t),
         ce_catalog = Some (tc_version c), ce_tariff = Some (tf_id t), ce_effective = Some (effective_from t)\<rparr>"
  proof (cases "filter (\<lambda>t. tariff_matches t q) (tariffs c)")
    case Nil
    then show ?thesis using assms metered none by (simp add: catalog_estimate_def not_less)
  next
    case (Cons t ts)
    then have one_match: "filter (\<lambda>t. tariff_matches t q) (tariffs c) = [t]"
      using assms metered by (cases ts) (auto simp: catalog_estimate_def not_less)
    then obtain micros where "estimate_micros t u = Inr micros"
      using assms metered by (auto simp: catalog_estimate_def not_less)
    then show ?thesis
      using assms metered one_match none one
      by (cases micros) (auto simp: catalog_estimate_def not_less)
  qed
  then show ?thesis
  proof cases
    case none
    then show ?thesis using estimate_micros_None by (auto simp: estimate_without_cost_def)
  next
    case (one t m)
    then show ?thesis using estimate_micros_Some [OF one(2)] metered by simp
  qed
qed

definition demo_tariff :: tariff where
  "demo_tariff = \<lparr>tf_id = ''t'', tf_provider = ''openai'', tf_model = ''m'', tf_region = None, tf_tier = Documented,
     effective_from = 0, effective_until = None, tf_currency = ''USD'', tf_input = IncludesCached,
     tf_output = IncludesReasoning,
     rates = \<lparr>rate_input = Some 3, rate_output = Some 7, rate_cached_read = None, rate_cached_write = None,
       rate_reasoning = None\<rparr>\<rparr>"

definition demo_catalog :: tariff_catalog where
  "demo_catalog = \<lparr>tc_version = ''1'', tc_source = '''', tc_retrieved = 0, valid_until = 10, tariffs = [demo_tariff]\<rparr>"

definition demo_query :: pricing_query where
  "demo_query = \<lparr>pq_provider = ''openai'', pq_model = ''m'', pq_region = None, pq_tier = Documented,
     pq_dispatched = 5, pq_billing = MeteredEstimate\<rparr>"

definition demo_usage :: normalized_usage where
  "demo_usage = unknown_usage\<lparr>input_tokens := Some 10, output_tokens := Some 4, usage_complete := True\<rparr>"

lemma demo_estimate: "\<exists>e. catalog_estimate demo_catalog demo_query demo_usage = Inr e \<and> ce_basis e = MeteredEstimate"
  by (simp add: catalog_estimate_def demo_catalog_def demo_query_def demo_tariff_def demo_usage_def
      unknown_usage_def tariff_matches_def estimate_micros_def uncached_input_def billable_output_def
      round_micros_def checked_add_def checked_mul_def checked_sub_def try_from_def)

theorem price_exact_or_absent_witness:
  "\<exists>e. catalog_estimate demo_catalog demo_query demo_usage = Inr e \<and> ce_micros e = Some 1"
proof -
  obtain e where e: "catalog_estimate demo_catalog demo_query demo_usage = Inr e" "ce_basis e = MeteredEstimate"
    using demo_estimate by blast
  obtain t where t: "filter (\<lambda>t. tariff_matches t demo_query) (tariffs demo_catalog) = [t]"
    "ce_micros e = Some (div_ceil (exact_charge t demo_usage) 1000000)"
    using price_exact_or_absent [OF e(1)] e(2) by auto
  have "t = demo_tariff" using t(1) by (auto simp: demo_catalog_def split: if_splits)
  then show ?thesis using e(1) t(2)
    by (simp add: exact_charge_def fresh_input_def spoken_output_def demo_tariff_def demo_usage_def unknown_usage_def
      div_ceil_def)
qed

section \<open>Reported usage\<close>

text \<open>Normalising never clamps: it fails exactly when some reported count is negative or too large.\<close>

lemma nonnegative_Inr:
  "nonnegative v = Inr w \<longleftrightarrow> pred_option (\<lambda>i. 0 \<le> i \<and> i < 2 ^ 64) v \<and> w = map_option nat v"
  by (cases v) (auto simp: nonnegative_def transpose_result_def try_from_int_def split: sum.splits if_splits)

end
