(* ===== verification/Subscriptions.thy ===== *)
theory Subscriptions
  imports HostedTypes
begin

text \<open>
  Question subscriptions, \<open>crates/corti-chat/src/subscriptions.rs\<close>: presets, validation, how much new
  speech makes a question due, the part of the transcript it reads, and the readable part of an answer
  that is still streaming. Unicode words and lower case are the library's.
\<close>

record word_ops =
  unicode_words :: "utext \<Rightarrow> utext list"
  to_lowercase :: "utext \<Rightarrow> utext"

definition MAX_SUBSCRIPTIONS :: nat where "MAX_SUBSCRIPTIONS = 16"
definition MAX_TEMPLATE_BYTES :: nat where "MAX_TEMPLATE_BYTES = 8 * 1024"
definition MAX_PARTIAL_ANSWER_BYTES :: nat where "MAX_PARTIAL_ANSWER_BYTES = 16 * 1024"

section \<open>Settings\<close>

datatype subscription_error =
    InvalidId | InvalidTemplate | InvalidTitle | DuplicateId | TooMany | UnknownVariant

datatype subscription_preset = PresetNone | AskedOfMe | RunningSummary | TopicWatch
datatype answer_format = Paragraph | Bullets
datatype speaker_filter = AllSpeakers | Them | Me
datatype context_window = Whole | LastMinutes u32 | LastRows u32

definition subscription_id :: "string \<Rightarrow> subscription_error + string" where
  "subscription_id v =
     (if v = '''' \<or> 32 < length v
         \<or> \<not> list_all (\<lambda>b. (97 \<le> byte_of b \<and> byte_of b \<le> 122) \<or> (48 \<le> byte_of b \<and> byte_of b \<le> 57) \<or> b = CHR ''-'') v
      then Inl InvalidId else Inr v)"

definition preset_tokens :: "subscription_preset tokens" where
  "preset_tokens = [(PresetNone, ''none''), (AskedOfMe, ''asked_of_me''), (RunningSummary, ''running_summary''),
     (TopicWatch, ''topic_watch'')]"

definition format_tokens :: "answer_format tokens" where
  "format_tokens = [(Paragraph, ''paragraph''), (Bullets, ''bullets'')]"

definition speaker_tokens :: "speaker_filter tokens" where
  "speaker_tokens = [(AllSpeakers, ''all''), (Them, ''them''), (Me, ''me'')]"

definition parse_variant :: "'v tokens \<Rightarrow> string \<Rightarrow> subscription_error + 'v" where
  "parse_variant ts s = ok_or (map_of (map prod.swap ts) s) UnknownVariant"

definition parse_window :: "string \<Rightarrow> u32 \<Rightarrow> u32 \<Rightarrow> subscription_error + context_window" where
  "parse_window window minutes rows =
     (if window = ''whole'' then Inr Whole
      else if window = ''last_minutes'' then Inr (LastMinutes (max minutes 1))
      else if window = ''last_rows'' then Inr (LastRows (max rows 1))
      else Inl UnknownVariant)"

fun default_template :: "subscription_preset \<Rightarrow> utext" where
  \<open>default_template PresetNone = []\<close>
| \<open>default_template AskedOfMe = scalars ''List the questions or requests the other speakers have directed at me (the "Me" speaker), most recent first. Quote each briefly and say who asked if the transcript shows it. If nothing was asked of me, say so.''\<close>
| \<open>default_template RunningSummary = scalars ''Give a running bullet list of what has been discussed so far, one short bullet per topic or decision, in order.''\<close>
| \<open>default_template TopicWatch = scalars ''What are they saying about the topic named below? Summarise the points made so far as short bullets and note any open questions.''\<close>

definition default_format :: "subscription_preset \<Rightarrow> answer_format" where
  "default_format p = (if p = PresetNone then Paragraph else Bullets)"

record trigger_policy =
  quiet_micros :: u64
  min_new_words :: u64
  min_new_speech_ms :: u64
  min_interval_micros :: u64
  on_speakers :: speaker_filter

definition default_trigger_policy :: trigger_policy where
  "default_trigger_policy = \<lparr>quiet_micros = 750000, min_new_words = 40, min_new_speech_ms = 30000,
     min_interval_micros = 0, on_speakers = AllSpeakers\<rparr>"

definition default_trigger :: "subscription_preset \<Rightarrow> trigger_policy" where
  "default_trigger p =
     (if p = AskedOfMe then \<lparr>quiet_micros = 1000000, min_new_words = 1, min_new_speech_ms = 0,
        min_interval_micros = 0, on_speakers = Them\<rparr>
      else default_trigger_policy)"

definition default_context :: "subscription_preset \<Rightarrow> context_window" where
  "default_context p = (if p = AskedOfMe then LastMinutes 5 else Whole)"

fun format_instruction :: "answer_format \<Rightarrow> utext" where
  \<open>format_instruction Paragraph = scalars ''Answer in one short plain-text paragraph.''\<close>
| \<open>format_instruction Bullets = scalars ''Answer as a plain-text bullet list: one item per line, each line starting with "- ". No headings, no emphasis markers.''\<close>

section \<open>Rows\<close>

definition ascii_lower :: "nat \<Rightarrow> nat" where
  "ascii_lower c = (if 65 \<le> c \<and> c \<le> 90 then c + 32 else c)"

definition row_is_me :: "transcript_row \<Rightarrow> bool" where
  "row_is_me r \<longleftrightarrow> map ascii_lower (trim (speaker r)) = scalars ''me''"

definition filter_matches :: "speaker_filter \<Rightarrow> transcript_row \<Rightarrow> bool" where
  "filter_matches f r = (case f of AllSpeakers \<Rightarrow> True | Them \<Rightarrow> \<not> row_is_me r | Me \<Rightarrow> row_is_me r)"

text \<open>The suffix of the ledger a window covers; for minutes it starts at the first row ending within them.\<close>

definition select_window :: "context_window \<Rightarrow> transcript_row list \<Rightarrow> transcript_row list" where
  "select_window w ledger =
     (case w of
        Whole \<Rightarrow> ledger
      | LastRows rows \<Rightarrow> drop (saturating_sub (length ledger) rows) ledger
      | LastMinutes minutes \<Rightarrow>
          (if ledger = [] then ledger
           else let horizon = saturating_sub (end_ms (last ledger)) (saturating_mul 64 minutes 60000)
                in dropWhile (\<lambda>r. end_ms r < horizon) ledger))"

section \<open>Progress\<close>

record progress_counters =
  pc_words :: u64
  pc_speech :: u64
  pc_rows :: u64

definition no_progress :: progress_counters where
  "no_progress = \<lparr>pc_words = 0, pc_speech = 0, pc_rows = 0\<rparr>"

definition add_row :: "word_ops \<Rightarrow> transcript_row \<Rightarrow> progress_counters \<Rightarrow> progress_counters" where
  "add_row w r c =
     \<lparr>pc_words = saturating_add 64 (pc_words c) (length (unicode_words w (tr_text r))),
      pc_speech = saturating_add 64 (pc_speech c) (saturating_sub (end_ms r) (start_ms r)),
      pc_rows = saturating_add 64 (pc_rows c) 1\<rparr>"

record progress_ledger =
  led_all :: progress_counters
  led_them :: progress_counters
  led_me :: progress_counters
  last_all_at :: u64
  last_them_at :: u64
  last_me_at :: u64

definition empty_ledger :: progress_ledger where
  "empty_ledger = \<lparr>led_all = no_progress, led_them = no_progress, led_me = no_progress,
     last_all_at = 0, last_them_at = 0, last_me_at = 0\<rparr>"

fun observe_progress :: "word_ops \<Rightarrow> u64 \<Rightarrow> transcript_row list \<Rightarrow> progress_ledger \<Rightarrow> progress_ledger" where
  "observe_progress w now [] l = l"
| "observe_progress w now (r # rs) l =
     (let l' = l\<lparr>led_all := add_row w r (led_all l), last_all_at := now\<rparr>
      in observe_progress w now rs
           (if row_is_me r then l'\<lparr>led_me := add_row w r (led_me l), last_me_at := now\<rparr>
            else l'\<lparr>led_them := add_row w r (led_them l), last_them_at := now\<rparr>))"

definition led_counters :: "progress_ledger \<Rightarrow> speaker_filter \<Rightarrow> progress_counters" where
  "led_counters l f = (case f of AllSpeakers \<Rightarrow> led_all l | Them \<Rightarrow> led_them l | Me \<Rightarrow> led_me l)"

definition last_progress_at :: "progress_ledger \<Rightarrow> speaker_filter \<Rightarrow> u64" where
  "last_progress_at l f = (case f of AllSpeakers \<Rightarrow> last_all_at l | Them \<Rightarrow> last_them_at l | Me \<Rightarrow> last_me_at l)"

definition meaningful_progress :: "trigger_policy \<Rightarrow> progress_ledger \<Rightarrow> progress_ledger \<Rightarrow> bool" where
  "meaningful_progress p baseline current =
     (let before = led_counters baseline (on_speakers p); after = led_counters current (on_speakers p)
      in pc_rows before < pc_rows after
         \<and> (min_new_words p \<le> saturating_sub (pc_words after) (pc_words before)
            \<or> min_new_speech_ms p \<le> saturating_sub (pc_speech after) (pc_speech before)))"

section \<open>Subscriptions\<close>

record subscription_spec =
  sub_id :: string
  sub_title :: utext
  sub_template :: utext
  sub_enabled :: bool
  sub_preset :: subscription_preset
  sub_format :: answer_format
  sub_trigger :: trigger_policy
  sub_context :: context_window
  name_hints :: "utext list"

fun preset_title :: "subscription_preset \<Rightarrow> utext" where
  "preset_title PresetNone = scalars ''Custom question''"
| "preset_title AskedOfMe = scalars ''Asked of me''"
| "preset_title RunningSummary = scalars ''Running summary''"
| "preset_title TopicWatch = scalars ''Topic watch''"

definition from_preset :: "string \<Rightarrow> subscription_preset \<Rightarrow> subscription_spec" where
  "from_preset i p =
     \<lparr>sub_id = i, sub_title = preset_title p, sub_template = [], sub_enabled = True, sub_preset = p,
      sub_format = default_format p, sub_trigger = default_trigger p, sub_context = default_context p,
      name_hints = []\<rparr>"

definition effective_template :: "subscription_spec \<Rightarrow> utext" where
  "effective_template s =
     (if trim (sub_template s) = [] then default_template (sub_preset s) else trim (sub_template s))"

definition validate_spec :: "subscription_spec \<Rightarrow> subscription_error + unit" where
  "validate_spec s =
     (if 128 < text_len (sub_title s) \<or> list_ex is_control_char (sub_title s) then Inl InvalidTitle
      else if MAX_TEMPLATE_BYTES < text_len (sub_template s)
           \<or> list_ex (\<lambda>c. is_control_char c \<and> c \<noteq> 10) (sub_template s) then Inl InvalidTemplate
      else if trim (effective_template s) = [] then Inl InvalidTemplate
      else Inr ())"

text \<open>\<open>[..].join(", ")\<close>.\<close>

fun join_text :: "utext \<Rightarrow> utext list \<Rightarrow> utext" where
  "join_text sep [] = []"
| "join_text sep [t] = t"
| "join_text sep (t # u # ts) = t @ sep @ join_text sep (u # ts)"

definition question_text :: "subscription_spec \<Rightarrow> utext" where
  "question_text s =
     effective_template s
     @ (if sub_preset s = AskedOfMe \<and> name_hints s \<noteq> []
        then [10] @ scalars ''I also answer to: '' @ join_text (scalars '', '') (name_hints s) @ scalars ''.''
        else [])
     @ [10] @ format_instruction (sub_format s)"

definition changes_question :: "subscription_spec \<Rightarrow> subscription_spec \<Rightarrow> bool" where
  "changes_question a b \<longleftrightarrow>
     question_text a \<noteq> question_text b \<or> sub_context a \<noteq> sub_context b \<or> sub_preset a \<noteq> sub_preset b"

fun validate_specs :: "string list \<Rightarrow> subscription_spec list \<Rightarrow> subscription_error + unit" where
  "validate_specs seen [] = Inr ()"
| "validate_specs seen (s # ss) =
     (if sub_id s \<in> set seen then Inl DuplicateId
      else rbind (validate_spec s) (\<lambda>_. validate_specs (sub_id s # seen) ss))"

definition validate_set :: "subscription_spec list \<Rightarrow> subscription_error + unit" where
  "validate_set specs = (if MAX_SUBSCRIPTIONS < length specs then Inl TooMany else validate_specs [] specs)"

section \<open>Was something asked of me?\<close>

definition INTERROGATIVES :: "utext list" where
  "INTERROGATIVES = map scalars [''what'', ''why'', ''how'', ''when'', ''where'', ''who'', ''which'', ''whose'',
     ''can'', ''could'', ''would'', ''should'', ''will'', ''do'', ''does'', ''did'', ''is'', ''are'', ''was'',
     ''were'', ''have'', ''has'', ''any'', ''tell'', ''walk'', ''remind'']"

definition looks_asked_of_me :: "word_ops \<Rightarrow> utext \<Rightarrow> utext list \<Rightarrow> bool" where
  "looks_asked_of_me w t hints =
     (let lowered = to_lowercase w t; words = unicode_words w lowered
      in 63 \<in> set lowered
         \<or> (words \<noteq> [] \<and> list_ex (\<lambda>x. x \<in> set INTERROGATIVES) (take 3 words)
            \<and> list_ex (\<lambda>x. x \<in> set (map scalars [''you'', ''your'', ''yours'', ''yourself''])
                 \<or> list_ex (\<lambda>h. h \<noteq> [] \<and> to_lowercase w h = x) hints) words))"

definition rows_contain_question_for_me :: "word_ops \<Rightarrow> transcript_row list \<Rightarrow> utext list \<Rightarrow> bool" where
  "rows_contain_question_for_me w rows hints =
     list_ex (\<lambda>r. \<not> row_is_me r \<and> looks_asked_of_me w (tr_text r) hints) rows"

section \<open>A streaming answer\<close>

text \<open>\<open>u32::from_str_radix(_, 16)\<close>, which accepts a leading plus, then \<open>char::from_u32\<close>.\<close>

definition hex_digit_value :: "nat \<Rightarrow> nat option" where
  "hex_digit_value c =
     (if 48 \<le> c \<and> c \<le> 57 then Some (c - 48)
      else if 97 \<le> c \<and> c \<le> 102 then Some (c - 87)
      else if 65 \<le> c \<and> c \<le> 70 then Some (c - 55) else None)"

fun hex_value :: "nat \<Rightarrow> utext \<Rightarrow> nat option" where
  "hex_value n [] = Some n"
| "hex_value n (c # cs) = Option.bind (hex_digit_value c) (\<lambda>d. hex_value (16 * n + d) cs)"

definition parse_hex :: "utext \<Rightarrow> nat option" where
  "parse_hex t =
     (let digits = (if t \<noteq> [] \<and> hd t = 43 then tl t else t)
      in if digits = [] then None else hex_value 0 digits)"

definition scalar_value :: "nat \<Rightarrow> nat option" where
  "scalar_value n = (if n < 55296 \<or> (57344 \<le> n \<and> n < 1114112) then Some n else None)"

text \<open>The decoded string up to its closing quote or the last complete escape.\<close>

fun decode_answer :: "utext \<Rightarrow> utext" where
  "decode_answer [] = []"
| "decode_answer (c # cs) =
     (if c = 34 then []
      else if c = 92 then
        (case cs of
           [] \<Rightarrow> []
         | e # rest \<Rightarrow>
             if e = 110 then 10 # decode_answer rest
             else if e = 116 then 32 # decode_answer rest
             else if e = 34 \<or> e = 92 \<or> e = 47 then e # decode_answer rest
             else if e = 117 then
               (if text_len (take 4 rest) < 4 then []
                else (case Option.bind (parse_hex (take 4 rest)) scalar_value of
                        Some d \<Rightarrow> d # decode_answer (drop 4 rest) | None \<Rightarrow> decode_answer (drop 4 rest)))
             else decode_answer rest)
      else if is_control_char c then decode_answer cs
      else c # decode_answer cs)"

text \<open>The longest prefix within a number of bytes.\<close>

fun take_bytes :: "nat \<Rightarrow> utext \<Rightarrow> utext" where
  "take_bytes n [] = []"
| "take_bytes n (c # cs) = (if char_len c \<le> n then c # take_bytes (n - char_len c) cs else [])"

definition answer_key :: utext where
  "answer_key = [34] @ scalars ''answer'' @ [34]"

definition partial_answer_from_prefix :: "utext \<Rightarrow> utext option" where
  "partial_answer_from_prefix prefix =
     Option.bind (split_once answer_key prefix) (\<lambda>(_, after_key).
     Option.bind (split_once [58] after_key) (\<lambda>(_, value).
     Option.bind (strip_prefix [34] (trim_start value)) (\<lambda>body.
       let trimmed = trim_end (decode_answer body)
       in if trimmed = [] then None
          else Some (if MAX_PARTIAL_ANSWER_BYTES < text_len trimmed
                     then take_bytes MAX_PARTIAL_ANSWER_BYTES trimmed else trimmed))))"

end
