(* ===== verification/SubscriptionProps.thy ===== *)
theory SubscriptionProps
  imports Subscriptions "HOL-Library.Sublist"
begin

text \<open>
  What the question subscriptions promise: the answer shown while the provider streams its JSON object
  only grows.
\<close>

section \<open>Cutting and extending texts\<close>

lemma starts_with_take: "starts_with p t \<longleftrightarrow> take (length p) t = p"
  by (induction p t rule: starts_with.induct) auto

lemma starts_with_extend:
  "length p \<le> length t \<Longrightarrow> starts_with p (t @ u) \<longleftrightarrow> starts_with p t"
  by (simp add: starts_with_take)

lemma starts_with_length: "starts_with p t \<Longrightarrow> length p \<le> length t"
  by (metis starts_with_take length_take min.cobounded1)

lemma strip_prefix_append: "strip_prefix p t = Some r \<Longrightarrow> strip_prefix p (t @ u) = Some (r @ u)"
  using starts_with_length [of p t] starts_with_extend [of p t u] by (auto simp: strip_prefix_def split: if_splits)

lemma split_once_length: "split_once p t = Some (b, a) \<Longrightarrow> length p \<le> length t"
proof (induction p t arbitrary: b a rule: split_once.induct)
  case (2 p c cs)
  then show ?case by (cases "starts_with p (c # cs)") (fastforce dest: starts_with_length)+
qed (auto split: if_splits)

lemma split_once_append: "split_once p t = Some (b, a) \<Longrightarrow> split_once p (t @ u) = Some (b, a @ u)"
proof (induction p t arbitrary: b a rule: split_once.induct)
  case (1 p)
  then show ?case by (cases u) (auto split: if_splits)
next
  case (2 p c cs)
  have len: "length p \<le> length (c # cs)"
    by (rule split_once_length [OF "2.prems"])
  have same: "starts_with p (c # cs @ u) \<longleftrightarrow> starts_with p (c # cs)"
    using starts_with_extend [OF len, of u] by simp
  show ?case
  proof (cases "starts_with p (c # cs)")
    case True
    then show ?thesis using "2.prems" len same by (cases p) auto
  next
    case False
    then show ?thesis using "2.prems" "2.IH" [OF False] same by auto
  qed
qed

lemma trim_start_append: "trim_start t \<noteq> [] \<Longrightarrow> trim_start (t @ u) = trim_start t @ u"
  unfolding trim_start_def by (induction t) auto

section \<open>Decoding a cut string\<close>

lemma hex_value_len: "hex_value n t = Some v \<Longrightarrow> text_len t = length t"
  by (induction n t arbitrary: v rule: hex_value.induct)
    (auto simp: text_len_def char_len_def hex_digit_value_def bind_eq_Some_conv split: if_splits)

lemma parse_hex_len: "parse_hex t = Some v \<Longrightarrow> text_len t = length t"
  using hex_value_len [of 0 t v] hex_value_len [of 0 "tl t" v]
  by (cases t) (auto simp: parse_hex_def Let_def text_len_def char_len_def split: if_splits)

text \<open>A cut inside an escape hides that escape and nothing before it.\<close>

lemma decode_short_unicode:
  "length rest < 4 \<Longrightarrow> decode_answer (92 # 117 # rest) = []"
  by (auto split: option.split simp: bind_eq_Some_conv dest!: parse_hex_len)

lemma decode_unicode_append:
  assumes "\<And>s. length s \<le> length rest \<Longrightarrow> prefix (decode_answer s) (decode_answer (s @ u))"
  shows "prefix (decode_answer (92 # 117 # rest)) (decode_answer (92 # 117 # rest @ u))"
proof (cases "length rest < 4")
  case True
  then show ?thesis by (simp only: decode_short_unicode prefix_bot.bot_least Nil_prefix)
next
  case False
  then have "take 4 (rest @ u) = take 4 rest" and "drop 4 (rest @ u) = drop 4 rest @ u" by simp_all
  moreover have "prefix (decode_answer (drop 4 rest)) (decode_answer (drop 4 rest @ u))"
    by (rule assms) simp
  ultimately show ?thesis by (auto split: option.split)
qed

lemma decode_answer_prefix: "prefix (decode_answer t) (decode_answer (t @ u))"
proof (induction t rule: length_induct)
  case (1 t)
  then have IH: "prefix (decode_answer s) (decode_answer (s @ u))" if "length s < length t" for s
    using that by blast
  show ?case
  proof (cases t)
    case (Cons c cs)
    note t = this
    show ?thesis
    proof (cases "c = 92 \<and> cs \<noteq> []")
      case False
      then show ?thesis using IH [of cs] t by (cases "c = 92") auto
    next
      case True
      then obtain e rest where cs: "cs = e # rest" by (cases cs) auto
      show ?thesis
      proof (cases "e = 117")
        case True
        then show ?thesis
          using decode_unicode_append [of rest u] IH t cs \<open>c = 92 \<and> cs \<noteq> []\<close> by simp
      next
        case False
        then show ?thesis using IH [of rest] t cs \<open>c = 92 \<and> cs \<noteq> []\<close> by simp
      qed
    qed
  qed simp
qed

lemma trim_end_prefix: "prefix (trim_end t) t"
  by (metis prefix_def rev_append rev_rev_ident takeWhile_dropWhile_id trim_end_def)

lemma trim_end_append: "trim_end t \<noteq> [] \<Longrightarrow> prefix (trim_end t) (trim_end (t @ u))"
proof -
  assume some: "trim_end t \<noteq> []"
  obtain w where w: "t = trim_end t @ w" using trim_end_prefix [of t] by (auto simp: prefix_def)
  have last: "dropWhile is_whitespace (rev (trim_end t)) = rev (trim_end t)"
    unfolding trim_end_def by (simp add: dropWhile_idem)
  have "prefix (trim_end t) (trim_end (trim_end t @ v))" for v
    using last unfolding trim_end_def
    by (simp add: dropWhile_append) 
  then show ?thesis using w by (metis append_assoc)
qed

lemma take_bytes_prefix: "prefix s t \<Longrightarrow> prefix (take_bytes n s) (take_bytes n t)"
proof (induction s arbitrary: t n)
  case (Cons c cs)
  then obtain ts where "t = c # ts" and "prefix cs ts" by (cases t) auto
  then show ?case using Cons.IH by simp
qed simp

lemma take_bytes_whole: "text_len t \<le> n \<Longrightarrow> take_bytes n t = t"
  by (induction n t rule: take_bytes.induct) (auto simp: text_len_def)

lemma take_bytes_len: "text_len (take_bytes n t) \<le> n"
  by (induction n t rule: take_bytes.induct) (auto simp: text_len_def)

lemma partial_answer_take:
  "partial_answer_from_prefix p =
     Option.bind (split_once answer_key p) (\<lambda>(_, after_key).
     Option.bind (split_once [58] after_key) (\<lambda>(_, value).
     Option.bind (strip_prefix [34] (trim_start value)) (\<lambda>body.
       if trim_end (decode_answer body) = [] then None
       else Some (take_bytes MAX_PARTIAL_ANSWER_BYTES (trim_end (decode_answer body))))))"
proof -
  have "(if MAX_PARTIAL_ANSWER_BYTES < text_len t then take_bytes MAX_PARTIAL_ANSWER_BYTES t else t)
      = take_bytes MAX_PARTIAL_ANSWER_BYTES t" for t
    by (simp add: take_bytes_whole)
  then show ?thesis unfolding partial_answer_from_prefix_def Let_def by (simp only:)
qed

text \<open>C39. The answer shown while a provider streams only grows. Whatever bytes arrive after a prefix of the
  JSON object from which an answer was already shown, an answer is still shown, the one shown before
  is a prefix of it, and neither exceeds 16 KiB; a cut inside an escape hides that escape only.\<close>

theorem shown_answer_only_grows:
  assumes "partial_answer_from_prefix p = Some shown"
  shows "\<exists>later. partial_answer_from_prefix (p @ extra) = Some later \<and> prefix shown later
     \<and> text_len later \<le> MAX_PARTIAL_ANSWER_BYTES"
proof -
  obtain k after_key v val body where
    key: "split_once answer_key p = Some (k, after_key)" and colon: "split_once [58] after_key = Some (v, val)"
    and body: "strip_prefix [34] (trim_start val) = Some body" and some: "trim_end (decode_answer body) \<noteq> []"
    and shown: "shown = take_bytes MAX_PARTIAL_ANSWER_BYTES (trim_end (decode_answer body))"
    using assms unfolding partial_answer_take by (auto simp: bind_eq_Some_conv split: if_splits)
  have "trim_start val \<noteq> []" using body by (auto simp: strip_prefix_def)
  then have body': "strip_prefix [34] (trim_start (val @ extra)) = Some (body @ extra)"
    using strip_prefix_append [OF body] by (simp add: trim_start_append)
  obtain rest where "decode_answer (body @ extra) = decode_answer body @ rest"
    using decode_answer_prefix by (auto simp: prefix_def)
  then have grows: "prefix (trim_end (decode_answer body)) (trim_end (decode_answer (body @ extra)))"
    using trim_end_append [OF some] by metis
  then have "trim_end (decode_answer (body @ extra)) \<noteq> []" using some by auto
  then show ?thesis
    using split_once_append [OF key, of extra] split_once_append [OF colon, of extra] body' take_bytes_prefix [OF grows]
    by (simp add: partial_answer_take shown take_bytes_len)
qed

definition demo_stream :: utext where
  "demo_stream = answer_key @ [58, 32, 34, 104, 105, 92]"

theorem shown_answer_only_grows_witness:
  "partial_answer_from_prefix demo_stream = Some [104, 105]
    \<and> (\<exists>later. partial_answer_from_prefix (demo_stream @ [110, 120]) = Some later \<and> prefix [104, 105] later)"
proof -
  have "partial_answer_from_prefix demo_stream = Some [104, 105]"
    by (simp add: demo_stream_def answer_key_def scalars_def partial_answer_from_prefix_def strip_prefix_def
        trim_start_def trim_end_def is_whitespace_def is_control_char_def text_len_def char_len_def
        MAX_PARTIAL_ANSWER_BYTES_def)
  then show ?thesis using shown_answer_only_grows [of demo_stream "[104, 105]" "[110, 120]"] by blast
qed

end
