(* ===== verification/VertexAuth.thy ===== *)
theory VertexAuth
  imports HostedTypes
begin

text \<open>
  The resolver of Vertex credentials, \<open>crates/corti-postprocess-providers/src/vertex_auth.rs\<close>: a state
  machine that asks its driver for one resolution at a time, keeps the newest waiting request of each
  automatic lane, warns once per unarmed episode and backs off after failures. Every reading of the
  clock is an argument.
\<close>

section \<open>State\<close>

definition VERTEX_POLL_MICROS :: nat where "VERTEX_POLL_MICROS = 5000000"
definition VERTEX_RETRY_BASE :: nat where "VERTEX_RETRY_BASE = 30000000"
definition VERTEX_RETRY_MAX :: nat where "VERTEX_RETRY_MAX = 600000000"

datatype resolution_kind = Resolve | Refresh

record resolution_attempt =
  at_id :: u64
  at_episode :: u64
  at_kind :: resolution_kind
  at_started :: u64

datatype vertex_state =
    VUnarmed u64 u64
  | VResolving resolution_attempt
  | VReady u64 "int option"
  | VRefreshing resolution_attempt "int option"
  | VRejected u64
  | VError u64 error_code

fun state_episode :: "vertex_state \<Rightarrow> u64" where
  "state_episode (VUnarmed e _) = e"
| "state_episode (VReady e _) = e"
| "state_episode (VRejected e) = e"
| "state_episode (VError e _) = e"
| "state_episode (VResolving a) = at_episode a"
| "state_episode (VRefreshing a _) = at_episode a"

fun vertex_credential :: "vertex_state \<Rightarrow> credential_state" where
  "vertex_credential (VUnarmed _ _) = CredAbsent"
| "vertex_credential (VResolving _) = CredResolving"
| "vertex_credential (VReady _ expires) = CredReady expires ApplicationDefaultCredentials"
| "vertex_credential (VRefreshing _ _) = CredRefreshing"
| "vertex_credential (VRejected _) = CredRejected"
| "vertex_credential (VError _ code) = CredError code"

datatype resolution_outcome = OutReady "int option" | OutUnarmed | OutRejected | OutError error_code

record auto_pending =
  ap_lane :: call_lane
  ap_sequence :: u64
  ap_fence :: request_fence
  ap_deadline :: u64

datatype pending_retention = Stored | Replaced | IgnoredOlder
datatype dispatch_disposition =
  DispatchNow | Arming pending_retention | WaitingForRefresh pending_retention | BlockedBy error_code

datatype resolver_error = StaleAttempt | NotReady

record vertex_resolver =
  vx_state :: vertex_state
  next_attempt :: u64
  warned_episode :: "u64 option"
  live_pending :: "auto_pending option"
  final_pending :: "auto_pending option"
  pinned_pending :: "auto_pending option"
  blocked_until :: "u64 option"
  failure_streak :: u32

definition auto_pending_new ::
    "call_lane \<Rightarrow> u64 \<Rightarrow> request_fence \<Rightarrow> u64 \<Rightarrow> auto_pending option" where
  "auto_pending_new l sequence fence deadline =
     (if is_automatic l then Some \<lparr>ap_lane = l, ap_sequence = sequence, ap_fence = fence, ap_deadline = deadline\<rparr>
      else None)"

definition vertex_new :: "u64 \<Rightarrow> vertex_resolver" where
  "vertex_new now = \<lparr>vx_state = VUnarmed 1 now, next_attempt = 1, warned_episode = None, live_pending = None,
     final_pending = None, pinned_pending = None, blocked_until = None, failure_streak = 0\<rparr>"

section \<open>Operations\<close>

text \<open>\<open>wrapping_add(1).max(1)\<close>.\<close>

definition next_episode :: "u64 \<Rightarrow> u64" where
  "next_episode e = max ((e + 1) mod 2 ^ 64) 1"

definition error_backoff :: "u32 \<Rightarrow> u64" where
  "error_backoff streak = min (VERTEX_RETRY_BASE * 2 ^ min (saturating_sub streak 1) 5) VERTEX_RETRY_MAX"

definition new_attempt ::
    "vertex_resolver \<Rightarrow> u64 \<Rightarrow> resolution_kind \<Rightarrow> u64 \<Rightarrow> resolution_attempt \<times> vertex_resolver" where
  "new_attempt v episode kind started =
     (\<lparr>at_id = next_attempt v, at_episode = episode, at_kind = kind, at_started = started\<rparr>,
      v\<lparr>next_attempt := max ((next_attempt v + 1) mod 2 ^ 64) 1\<rparr>)"

definition mark_token_lost :: "vertex_resolver \<Rightarrow> u64 \<Rightarrow> vertex_resolver" where
  "mark_token_lost v now =
     (case vx_state v of
        VUnarmed _ _ \<Rightarrow> v
      | VResolving _ \<Rightarrow> v
      | s \<Rightarrow> v\<lparr>warned_episode := None, vx_state := VUnarmed (next_episode (state_episode s)) now\<rparr>)"

text \<open>A failed state whose backoff has passed is armed afresh before the poll.\<close>

definition rearm_blocked :: "vertex_resolver \<Rightarrow> u64 \<Rightarrow> u64 \<Rightarrow> vertex_resolver" where
  "rearm_blocked v now lost_at =
     (case blocked_until v of
        None \<Rightarrow> v
      | Some until \<Rightarrow>
          (case vx_state v of
             VRejected _ \<Rightarrow> if until \<le> now then mark_token_lost (v\<lparr>blocked_until := None\<rparr>) lost_at else v
           | VError _ _ \<Rightarrow> if until \<le> now then mark_token_lost (v\<lparr>blocked_until := None\<rparr>) lost_at else v
           | _ \<Rightarrow> v))"

definition vertex_drive ::
    "vertex_resolver \<Rightarrow> u64 \<Rightarrow> u64 \<Rightarrow> u64 \<Rightarrow> resolution_attempt option \<times> vertex_resolver" where
  "vertex_drive v checked_at lost_at now =
     (let v' = rearm_blocked v checked_at lost_at
      in case vx_state v' of
           VUnarmed episode poll_at \<Rightarrow>
             if now < poll_at then (None, v')
             else (case new_attempt v' episode Resolve now of
                     (a, v'') \<Rightarrow> (Some a, v''\<lparr>vx_state := VResolving a\<rparr>))
         | _ \<Rightarrow> (None, v'))"

definition start_refresh :: "vertex_resolver \<Rightarrow> u64 \<Rightarrow> resolver_error + resolution_attempt \<times> vertex_resolver" where
  "start_refresh v now =
     (case vx_state v of
        VReady episode expires \<Rightarrow>
          (case new_attempt v episode Refresh now of
             (a, v') \<Rightarrow> Inr (a, v'\<lparr>vx_state := VRefreshing a expires\<rparr>))
      | _ \<Rightarrow> Inl NotReady)"

text \<open>The warning is the episode it belongs to.\<close>

definition observe_dispatch_intent :: "vertex_resolver \<Rightarrow> u64 option \<times> vertex_resolver" where
  "observe_dispatch_intent v =
     (let warn = (let e = state_episode (vx_state v)
                  in if warned_episode v = Some e then (None, v) else (Some e, v\<lparr>warned_episode := Some e\<rparr>))
      in case vx_state v of VUnarmed _ _ \<Rightarrow> warn | VResolving _ \<Rightarrow> warn | _ \<Rightarrow> (None, v))"

definition retain_slot :: "auto_pending option \<Rightarrow> auto_pending \<Rightarrow> pending_retention \<times> auto_pending option" where
  "retain_slot slot p =
     (case slot of
        None \<Rightarrow> (Stored, Some p)
      | Some old \<Rightarrow> if ap_sequence p < ap_sequence old then (IgnoredOlder, slot) else (Replaced, Some p))"

text \<open>An ad-hoc lane has no slot; \<open>auto_pending_new\<close> refuses it.\<close>

definition retain_pending :: "vertex_resolver \<Rightarrow> auto_pending \<Rightarrow> pending_retention \<times> vertex_resolver" where
  "retain_pending v p =
     (case ap_lane p of
        LaneLive \<Rightarrow> (case retain_slot (live_pending v) p of (r, slot) \<Rightarrow> (r, v\<lparr>live_pending := slot\<rparr>))
      | LaneFinal \<Rightarrow> (case retain_slot (final_pending v) p of (r, slot) \<Rightarrow> (r, v\<lparr>final_pending := slot\<rparr>))
      | LanePinnedQuestion \<Rightarrow> (case retain_slot (pinned_pending v) p of (r, slot) \<Rightarrow> (r, v\<lparr>pinned_pending := slot\<rparr>))
      | LaneAdHocQuestion \<Rightarrow> (IgnoredOlder, v))"

definition intend_auto_dispatch ::
    "vertex_resolver \<Rightarrow> auto_pending \<Rightarrow> (dispatch_disposition \<times> u64 option) \<times> vertex_resolver" where
  "intend_auto_dispatch v p =
     (let arming = (case retain_pending v p of
                      (r, v') \<Rightarrow> (case observe_dispatch_intent v' of (w, v'') \<Rightarrow> ((Arming r, w), v'')))
      in case vx_state v of
           VReady _ _ \<Rightarrow> ((DispatchNow, None), v)
         | VUnarmed _ _ \<Rightarrow> arming
         | VResolving _ \<Rightarrow> arming
         | VRefreshing _ _ \<Rightarrow> (case retain_pending v p of (r, v') \<Rightarrow> ((WaitingForRefresh r, None), v'))
         | VRejected _ \<Rightarrow> ((BlockedBy AuthRejected, None), v)
         | VError _ code \<Rightarrow> ((BlockedBy code, None), v))"

definition clear_pending :: "vertex_resolver \<Rightarrow> vertex_resolver" where
  "clear_pending v = v\<lparr>live_pending := None, final_pending := None, pinned_pending := None\<rparr>"

definition take_valid_pending :: "vertex_resolver \<Rightarrow> u64 \<Rightarrow> auto_pending list \<times> vertex_resolver" where
  "take_valid_pending v now =
     (filter (\<lambda>p. \<not> is_expired_at (ap_deadline p) now)
        (concat (map (\<lambda>slot. case slot of None \<Rightarrow> [] | Some p \<Rightarrow> [p]) [live_pending v, final_pending v, pinned_pending v])),
      clear_pending v)"

definition schedule_error_retry :: "vertex_resolver \<Rightarrow> u64 \<Rightarrow> vertex_resolver" where
  "schedule_error_retry v now =
     (let streak = saturating_add 32 (failure_streak v) 1
      in v\<lparr>failure_streak := streak, blocked_until := Some (saturating_add 64 now (error_backoff streak))\<rparr>)"

fun outstanding :: "vertex_state \<Rightarrow> resolution_attempt option" where
  "outstanding (VResolving a) = Some a"
| "outstanding (VRefreshing a _) = Some a"
| "outstanding _ = None"

definition vertex_complete ::
    "vertex_resolver \<Rightarrow> resolution_attempt \<Rightarrow> resolution_outcome \<Rightarrow> u64
       \<Rightarrow> resolver_error + auto_pending list \<times> vertex_resolver" where
  "vertex_complete v a res now =
     (if outstanding (vx_state v) \<noteq> Some a then Inl StaleAttempt
      else case res of
        OutReady expires \<Rightarrow>
          Inr (take_valid_pending
            (v\<lparr>vx_state := VReady (at_episode a) expires, failure_streak := 0, blocked_until := None\<rparr>) now)
      | OutUnarmed \<Rightarrow>
          (let refresh = at_kind a = Refresh
           in Inr ([], v\<lparr>warned_episode := (if refresh then None else warned_episode v),
                vx_state := VUnarmed (if refresh then next_episode (at_episode a) else at_episode a)
                  (saturating_add 64 (at_started a) VERTEX_POLL_MICROS)\<rparr>))
      | OutRejected \<Rightarrow> Inr ([], schedule_error_retry (v\<lparr>vx_state := VRejected (at_episode a)\<rparr>) now)
      | OutError code \<Rightarrow> Inr ([], schedule_error_retry (v\<lparr>vx_state := VError (at_episode a) code\<rparr>) now))"

end
