(* ===== verification/VertexAuthProps.thy ===== *)
theory VertexAuthProps
  imports VertexAuth
begin

text \<open>
  What the credential machine promises over every run: one resolution at a time, polls of an episode
  five seconds apart, one warning per episode, and a bounded wait after failures.
\<close>

section \<open>Runs\<close>

text \<open>The operations, with the time that passes before each reading of the clock.\<close>

datatype vertex_op =
    VxDrive nat nat nat
  | VxRefresh nat
  | VxIntent
  | VxAuto auto_pending
  | VxComplete resolution_attempt resolution_outcome nat
  | VxLost nat
  | VxClear

text \<open>The machine with its clock, the attempts it started and the warnings it gave, newest first.\<close>

record vertex_trace =
  vt_vertex :: vertex_resolver
  vt_clock :: nat
  vt_attempts :: "resolution_attempt list"
  vt_warnings :: "u64 list"

definition log_option :: "'a option \<Rightarrow> 'a list \<Rightarrow> 'a list" where
  "log_option x xs = (case x of None \<Rightarrow> xs | Some y \<Rightarrow> y # xs)"

fun vertex_step :: "vertex_trace \<Rightarrow> vertex_op \<Rightarrow> vertex_trace" where
  "vertex_step s (VxDrive d1 d2 d3) =
     (let c1 = vt_clock s + d1; c2 = c1 + d2; c3 = c2 + d3
      in case vertex_drive (vt_vertex s) c1 c2 c3 of
           (a, v) \<Rightarrow> s\<lparr>vt_vertex := v, vt_clock := c3, vt_attempts := log_option a (vt_attempts s)\<rparr>)"
| "vertex_step s (VxRefresh d) =
     (case start_refresh (vt_vertex s) (vt_clock s + d) of
        Inl _ \<Rightarrow> s\<lparr>vt_clock := vt_clock s + d\<rparr>
      | Inr (a, v) \<Rightarrow> s\<lparr>vt_vertex := v, vt_clock := vt_clock s + d, vt_attempts := a # vt_attempts s\<rparr>)"
| "vertex_step s VxIntent =
     (case observe_dispatch_intent (vt_vertex s) of
        (w, v) \<Rightarrow> s\<lparr>vt_vertex := v, vt_warnings := log_option w (vt_warnings s)\<rparr>)"
| "vertex_step s (VxAuto p) =
     (case intend_auto_dispatch (vt_vertex s) p of
        ((d, w), v) \<Rightarrow> s\<lparr>vt_vertex := v, vt_warnings := log_option w (vt_warnings s)\<rparr>)"
| "vertex_step s (VxComplete a res d) =
     (case vertex_complete (vt_vertex s) a res (vt_clock s + d) of
        Inl _ \<Rightarrow> s\<lparr>vt_clock := vt_clock s + d\<rparr>
      | Inr (_, v) \<Rightarrow> s\<lparr>vt_vertex := v, vt_clock := vt_clock s + d\<rparr>)"
| "vertex_step s (VxLost d) =
     s\<lparr>vt_vertex := mark_token_lost (vt_vertex s) (vt_clock s + d), vt_clock := vt_clock s + d\<rparr>"
| "vertex_step s VxClear = s\<lparr>vt_vertex := clear_pending (vt_vertex s)\<rparr>"

definition vertex_start :: "nat \<Rightarrow> vertex_trace" where
  "vertex_start now = \<lparr>vt_vertex = vertex_new now, vt_clock = now, vt_attempts = [], vt_warnings = []\<rparr>"

section \<open>The invariant\<close>

abbreviation episode :: "vertex_trace \<Rightarrow> u64" where
  "episode s \<equiv> state_episode (vx_state (vt_vertex s))"

text \<open>Warnings belong to past episodes or to the current one, which then knows it.\<close>

definition warnings_ok :: "vertex_trace \<Rightarrow> bool" where
  "warnings_ok s \<longleftrightarrow> distinct (vt_warnings s) \<and> (\<forall>e \<in> set (vt_warnings s). e \<le> episode s)
     \<and> (episode s \<in> set (vt_warnings s) \<longrightarrow> warned_episode (vt_vertex s) = Some (episode s))"

text \<open>Two successive polls of an episode are an interval apart.\<close>

definition spaced :: "resolution_attempt \<Rightarrow> resolution_attempt \<Rightarrow> bool" where
  "spaced older newer \<longleftrightarrow> (at_kind newer = Resolve \<longrightarrow> at_episode older < at_episode newer
     \<or> min (at_started older + VERTEX_POLL_MICROS) u64_max \<le> at_started newer)"

text \<open>
  The newest attempt is outstanding, or the machine waits for its interval, or it left the state from
  which an attempt of its episode could be polled again.
\<close>

fun poll_ok :: "resolution_attempt list \<Rightarrow> vertex_state \<Rightarrow> bool" where
  "poll_ok (a # _) (VUnarmed e poll) \<longleftrightarrow>
     at_episode a < e \<or> min (at_started a + VERTEX_POLL_MICROS) u64_max \<le> poll"
| "poll_ok _ _ \<longleftrightarrow> True"

definition attempts_ok :: "vertex_trace \<Rightarrow> bool" where
  "attempts_ok s \<longleftrightarrow> successively (\<lambda>newer older. spaced older newer) (vt_attempts s)
     \<and> (\<forall>a \<in> set (vt_attempts s). at_episode a \<le> episode s)
     \<and> (\<forall>a. outstanding (vx_state (vt_vertex s)) = Some a \<longrightarrow> vt_attempts s \<noteq> [] \<and> a = hd (vt_attempts s))
     \<and> poll_ok (vt_attempts s) (vx_state (vt_vertex s))"

definition vertex_inv :: "nat \<Rightarrow> vertex_trace \<Rightarrow> bool" where
  "vertex_inv n s \<longleftrightarrow> warnings_ok s \<and> attempts_ok s \<and> episode s \<le> n"

lemma next_episode_Suc: "e < 2 ^ 64 - 1 \<Longrightarrow> next_episode e = Suc e"
  by (simp add: next_episode_def)

lemma vertex_start_inv: "vertex_inv 1 (vertex_start now)"
  by (simp add: vertex_inv_def vertex_start_def vertex_new_def warnings_ok_def attempts_ok_def)

lemma mark_token_lost_episode:
  "state_episode (vx_state v) < 2 ^ 64 - 1 \<Longrightarrow>
     mark_token_lost v now = v
     \<or> (mark_token_lost v now = v\<lparr>warned_episode := None,
           vx_state := VUnarmed (Suc (state_episode (vx_state v))) now\<rparr>
        \<and> (\<forall>e p. vx_state v \<noteq> VUnarmed e p))"
  by (cases "vx_state v") (simp_all add: mark_token_lost_def next_episode_Suc)

text \<open>A change of anything but state and warning keeps the invariant, and so does losing the token.\<close>

lemma inv_same:
  assumes "vertex_inv n s" and "vx_state v = vx_state (vt_vertex s)" and "warned_episode v = warned_episode (vt_vertex s)"
  shows "vertex_inv n (s\<lparr>vt_vertex := v, vt_clock := c\<rparr>)"
  using assms by (simp add: vertex_inv_def warnings_ok_def attempts_ok_def)

lemma inv_lost:
  assumes "vertex_inv n s" and "vx_state v = VUnarmed (Suc (episode s)) now"
  shows "vertex_inv (Suc n) (s\<lparr>vt_vertex := v, vt_clock := c\<rparr>)"
  using assms unfolding vertex_inv_def warnings_ok_def attempts_ok_def
  by (cases "vt_attempts s") (auto simp: less_Suc_eq_le)

lemma inv_mono: "vertex_inv n s \<Longrightarrow> vertex_inv (Suc n) s"
  by (simp add: vertex_inv_def)

lemma inv_token_lost:
  assumes "vertex_inv n s" and "n < 2 ^ 64 - 1" and "vx_state v = vx_state (vt_vertex s)"
    and "warned_episode v = warned_episode (vt_vertex s)"
  shows "vertex_inv (Suc n) (s\<lparr>vt_vertex := mark_token_lost v now, vt_clock := c\<rparr>)"
proof -
  have ep: "state_episode (vx_state v) < 2 ^ 64 - 1"
    using assms(1-3) by (auto simp: vertex_inv_def)
  show ?thesis
  proof (rule disjE [OF mark_token_lost_episode [OF ep, of now]])
    assume "mark_token_lost v now = v"
    then show ?thesis using inv_mono [OF inv_same [OF assms(1,3,4)]] by simp
  next
    assume "mark_token_lost v now = v\<lparr>warned_episode := None,
           vx_state := VUnarmed (Suc (state_episode (vx_state v))) now\<rparr>
        \<and> (\<forall>e p. vx_state v \<noteq> VUnarmed e p)"
    then show ?thesis using inv_lost [OF assms(1), of "mark_token_lost v now" now] assms(3) by simp
  qed
qed

lemma inv_rearm:
  assumes "vertex_inv n s" and "n < 2 ^ 64 - 1"
  shows "vertex_inv (Suc n) (s\<lparr>vt_vertex := rearm_blocked (vt_vertex s) t now, vt_clock := c\<rparr>)"
proof -
  have "rearm_blocked (vt_vertex s) t now = vt_vertex s
      \<or> rearm_blocked (vt_vertex s) t now = mark_token_lost (vt_vertex s\<lparr>blocked_until := None\<rparr>) now"
    by (auto simp: rearm_blocked_def split: option.splits vertex_state.splits)
  moreover have "vertex_inv (Suc n) (s\<lparr>vt_vertex := vt_vertex s, vt_clock := c\<rparr>)"
    by (rule inv_mono [OF inv_same [OF assms(1) refl refl]])
  moreover have "vertex_inv (Suc n)
      (s\<lparr>vt_vertex := mark_token_lost (vt_vertex s\<lparr>blocked_until := None\<rparr>) now, vt_clock := c\<rparr>)"
    by (rule inv_token_lost [OF assms]) simp_all
  ultimately show ?thesis by metis
qed

lemma inv_poll:
  assumes "vertex_inv n s" and "vx_state (vt_vertex s) = VUnarmed e p" and "p \<le> now"
    and "vx_state v = VResolving a" and "warned_episode v = warned_episode (vt_vertex s)"
    and "a = \<lparr>at_id = i, at_episode = e, at_kind = Resolve, at_started = now\<rparr>"
  shows "vertex_inv n (s\<lparr>vt_vertex := v, vt_clock := now, vt_attempts := a # vt_attempts s\<rparr>)"
proof -
  have "spaced (hd (vt_attempts s)) a" if "vt_attempts s \<noteq> []"
    using assms that by (cases "vt_attempts s") (auto simp: vertex_inv_def attempts_ok_def spaced_def)
  moreover have "warnings_ok s \<and> attempts_ok s \<and> episode s \<le> n" using assms(1) by (simp add: vertex_inv_def)
  ultimately show ?thesis
    using assms(2-6)
    by (cases "vt_attempts s") (fastforce simp: vertex_inv_def warnings_ok_def attempts_ok_def)+
qed

lemma inv_refresh:
  assumes "vertex_inv n s" and "vx_state (vt_vertex s) = VReady e x"
    and "vx_state v = VRefreshing a x" and "warned_episode v = warned_episode (vt_vertex s)"
    and "a = \<lparr>at_id = i, at_episode = e, at_kind = Refresh, at_started = now\<rparr>"
  shows "vertex_inv n (s\<lparr>vt_vertex := v, vt_clock := now, vt_attempts := a # vt_attempts s\<rparr>)"
proof -
  have "warnings_ok s \<and> attempts_ok s \<and> episode s \<le> n" using assms(1) by (simp add: vertex_inv_def)
  then show ?thesis
    using assms(2-5)
    by (cases "vt_attempts s") (fastforce simp: vertex_inv_def warnings_ok_def attempts_ok_def spaced_def)+
qed

lemma inv_settled:
  assumes "vertex_inv n s" and "state_episode (vx_state v) = episode s"
    and "outstanding (vx_state v) = None" and "warned_episode v = warned_episode (vt_vertex s)"
    and "poll_ok (vt_attempts s) (vx_state v)"
  shows "vertex_inv n (s\<lparr>vt_vertex := v, vt_clock := c\<rparr>)"
  using assms
  by (cases "vx_state v") (fastforce simp: vertex_inv_def warnings_ok_def attempts_ok_def)+


section \<open>Every step\<close>

lemma inv_drive:
  assumes "vertex_inv n s" and "n < 2 ^ 64 - 1"
  shows "vertex_inv (Suc n) (vertex_step s (VxDrive d1 d2 d3))"
proof -
  define v' where "v' = rearm_blocked (vt_vertex s) (vt_clock s + d1) (vt_clock s + d1 + d2)"
  have inv: "vertex_inv (Suc n) (s\<lparr>vt_vertex := v', vt_clock := c\<rparr>)" for c
    unfolding v'_def by (rule inv_rearm [OF assms])
  show ?thesis
  proof (cases "\<exists>e p. vx_state v' = VUnarmed e p \<and> p \<le> vt_clock s + d1 + d2 + d3")
    case True
    then obtain e p where st: "vx_state v' = VUnarmed e p" and le: "p \<le> vt_clock s + d1 + d2 + d3"
      by blast
    show ?thesis
      using inv_poll [OF inv, where e = e and p = p and now = "vt_clock s + d1 + d2 + d3"] st le
      by (auto simp: Let_def vertex_drive_def v'_def [symmetric] new_attempt_def log_option_def)
  next
    case False
    then show ?thesis
      using inv by (auto simp: Let_def vertex_drive_def v'_def [symmetric] log_option_def split: vertex_state.split)
  qed
qed

lemma inv_warn:
  assumes "vertex_inv n s" and "observe_dispatch_intent u = (w, v)" and "vx_state u = vx_state (vt_vertex s)"
    and "warned_episode u = warned_episode (vt_vertex s)"
  shows "vertex_inv n (s\<lparr>vt_vertex := v, vt_warnings := log_option w (vt_warnings s)\<rparr>)"
  using assms
  by (auto simp: observe_dispatch_intent_def vertex_inv_def warnings_ok_def attempts_ok_def log_option_def Let_def
      split: vertex_state.splits if_splits)

lemma retain_pending_same:
  "retain_pending v p = (r, v') \<Longrightarrow> vx_state v' = vx_state v \<and> warned_episode v' = warned_episode v"
  by (auto simp: retain_pending_def split: call_lane.splits prod.splits)

lemma inv_auto:
  assumes "vertex_inv n s"
  shows "vertex_inv n (vertex_step s (VxAuto p))"
proof -
  obtain r v' where v': "retain_pending (vt_vertex s) p = (r, v')" by fastforce
  obtain w v'' where v'': "observe_dispatch_intent v' = (w, v'')" by fastforce
  note same = retain_pending_same [OF v']
  have warn: "vertex_inv n (s\<lparr>vt_vertex := v'', vt_warnings := log_option w (vt_warnings s)\<rparr>)"
    by (rule inv_warn [OF assms v'']) (use same in simp_all)
  have keep: "vertex_inv n (s\<lparr>vt_vertex := u, vt_warnings := log_option None (vt_warnings s)\<rparr>)"
    if "vx_state u = vx_state (vt_vertex s)" "warned_episode u = warned_episode (vt_vertex s)" for u
    using inv_same [OF assms that, of "vt_clock s"] by (simp add: log_option_def)
  show ?thesis
    using warn keep [of v'] keep [OF refl refl] same by (cases "vx_state (vt_vertex s)") (simp_all add: intend_auto_dispatch_def v' v'')
qed

lemma schedule_error_retry_same:
  "vx_state (schedule_error_retry v now) = vx_state v"
  "warned_episode (schedule_error_retry v now) = warned_episode v"
  by (simp_all add: schedule_error_retry_def Let_def)

lemma inv_complete:
  assumes "vertex_inv n s" and "n < 2 ^ 64 - 1"
  shows "vertex_inv (Suc n) (vertex_step s (VxComplete a res d))"
proof (cases "outstanding (vx_state (vt_vertex s)) = Some a")
  case False
  then show ?thesis
    using inv_mono [OF inv_same [OF assms(1) refl refl]] by (simp add: vertex_complete_def)
next
  case True
  then have ep: "at_episode a = episode s"
    by (cases "vx_state (vt_vertex s)") auto
  have hd: "\<exists>as. vt_attempts s = a # as"
    using assms(1) True by (cases "vt_attempts s") (auto simp: vertex_inv_def attempts_ok_def)
  have lt: "episode s < 2 ^ 64 - 1"
    using assms by (auto simp: vertex_inv_def)
  note settled = inv_mono [OF inv_settled [OF assms(1)]]
  show ?thesis
  proof (cases res)
    case (OutReady x)
    show ?thesis
      using ep unfolding vertex_step.simps vertex_complete_def True OutReady take_valid_pending_def clear_pending_def
      by simp (rule settled; simp)
  next
    case OutUnarmed
    show ?thesis
    proof (cases "at_kind a")
      case Resolve
      show ?thesis
        using ep hd unfolding vertex_step.simps vertex_complete_def True OutUnarmed Resolve
        by (simp add: Let_def) (rule settled; auto simp: saturating_add_def)
    next
      case Refresh
      show ?thesis
        using ep unfolding vertex_step.simps vertex_complete_def True OutUnarmed Refresh
        by (simp add: Let_def next_episode_Suc [OF lt]) (rule inv_lost [OF assms(1)]; simp)
    qed
  next
    case OutRejected
    show ?thesis
      using ep unfolding vertex_step.simps vertex_complete_def True OutRejected
      by simp (rule settled; simp add: schedule_error_retry_same)
  next
    case (OutError code)
    show ?thesis
      using ep unfolding vertex_step.simps vertex_complete_def True OutError
      by simp (rule settled; simp add: schedule_error_retry_same)
  qed
qed

lemma vertex_step_inv:
  assumes "vertex_inv n s" and "n < 2 ^ 64 - 1"
  shows "vertex_inv (Suc n) (vertex_step s op)"
proof (cases op)
  case (VxRefresh d)
  show ?thesis
  proof (cases "\<exists>e x. vx_state (vt_vertex s) = VReady e x")
    case True
    then obtain e x where st: "vx_state (vt_vertex s) = VReady e x" by blast
    show ?thesis
      using inv_mono [OF inv_refresh [OF assms(1) st, where now = "vt_clock s + d"]] st
      by (auto simp: VxRefresh start_refresh_def new_attempt_def)
  next
    case False
    then show ?thesis
      using inv_mono [OF inv_same [OF assms(1) refl refl]]
      by (simp add: VxRefresh start_refresh_def split: vertex_state.split)
  qed
next
  case VxIntent
  then show ?thesis
    using inv_mono [OF inv_warn [OF assms(1)]] by (auto split: prod.split)
next
  case (VxLost d)
  then show ?thesis
    using inv_token_lost [OF assms refl refl] by simp
next
  case VxClear
  then show ?thesis
    using inv_mono [OF inv_same [OF assms(1), of "clear_pending (vt_vertex s)" "vt_clock s"]]
    by (simp add: clear_pending_def)
qed (use assms in \<open>simp_all only: inv_drive inv_complete inv_mono [OF inv_auto]\<close>)

lemma vertex_run_inv:
  assumes "vertex_inv n s" and "n + length ops < 2 ^ 64"
  shows "vertex_inv (n + length ops) (foldl vertex_step s ops)"
  using assms
proof (induction ops arbitrary: n s)
  case (Cons op ops)
  have "n < 2 ^ 64 - 1" using Cons.prems(2) by simp
  from Cons.IH [OF vertex_step_inv [OF Cons.prems(1) this]] Cons.prems(2) show ?case by simp
qed simp

section \<open>The property\<close>

text \<open>C40. Over any run of the credential machine (drives, refreshes, dispatch intents, completions that may be
  stale, lost tokens) the user is warned at most once per unarmed episode, and each background resolution belongs to a
  later episode than the attempt before it or starts at least five seconds after that attempt.\<close>

theorem resolver_polls_politely:
  assumes "length ops < 2 ^ 64 - 1"
  shows "distinct (vt_warnings (foldl vertex_step (vertex_start now) ops))
    \<and> successively (\<lambda>newer older. spaced older newer) (vt_attempts (foldl vertex_step (vertex_start now) ops))"
  using vertex_run_inv [OF vertex_start_inv [of now], of ops] assms
  by (simp add: vertex_inv_def warnings_ok_def attempts_ok_def)

definition demo_attempt :: resolution_attempt where
  "demo_attempt = \<lparr>at_id = 1, at_episode = 1, at_kind = Resolve, at_started = 10\<rparr>"

definition demo_ops :: "vertex_op list" where
  "demo_ops = [VxIntent, VxDrive 0 0 0, VxComplete demo_attempt OutUnarmed 5, VxIntent, VxDrive 5 0 0, VxDrive 5000000 0 0]"

theorem resolver_polls_politely_witness:
  "distinct (vt_warnings (foldl vertex_step (vertex_start 10) demo_ops))
    \<and> map at_started (vt_attempts (foldl vertex_step (vertex_start 10) demo_ops)) = [5000020, 10]
    \<and> vt_warnings (foldl vertex_step (vertex_start 10) demo_ops) = [1]"
proof (intro conjI)
  have "length demo_ops < 2 ^ 64 - 1" by (simp add: demo_ops_def)
  then show "distinct (vt_warnings (foldl vertex_step (vertex_start 10) demo_ops))"
    using resolver_polls_politely by blast
qed (simp_all add: demo_ops_def vertex_start_def vertex_new_def observe_dispatch_intent_def Let_def log_option_def
      vertex_drive_def rearm_blocked_def new_attempt_def vertex_complete_def demo_attempt_def saturating_add_def
      VERTEX_POLL_MICROS_def)

end
