(* ===== verification/Spec2Isabelle.thy ===== *)
theory Spec2Isabelle
  imports DetectWorker CaptureMismatch CaptureProps BoundaryPolicy InputClock JobRuns
    Diff LiveBatch EventStreamProps LexiconProps ChannelProps QueueProps HostedOutputProps PricingProps
    SubscriptionProps VertexAuthProps
begin

text \<open>
  A verification library for corti, the macOS call recorder and transcriber.

  The program. A detector (\<open>crates/corti-detect\<close>) debounces the microphone's in-use signal and starts
  and stops recordings. The capture callback accounts for every source frame
  (\<open>corti-core/src/capture_accounting.rs\<close>) and emits audio blocks, capture epochs and loss spans in
  order; a persisted quality record (\<open>corti-core/src/quality.rs\<close>, \<open>quality_activity.rs\<close>,
  \<open>quality_mapping.rs\<close>) collects what was lost, where, and whether a later batch pass recovered it.
  Live transcription cuts windows at boundaries that every track agrees on
  (\<open>corti-transcribe/src/boundary.rs\<close>) and maps engine output back to input frames
  (\<open>corti-transcribe-local/src/input_clock.rs\<close>). Work that must survive a crash is a row of a durable
  job table (\<open>corti-jobs/src/lib.rs\<close>), whose recording payloads carry the settled quality record.
  Hosted text tools batch finalized rows (\<open>corti-chat/src/batch.rs\<close>), decode binary provider streams
  (\<open>corti-postprocess-providers/src/eventstream.rs\<close>) and show their edits as a diff
  (\<open>corti-postprocess/src/diff.rs\<close>).

  The theories, in the order of the data.
    \<^item> \<open>Prelude\<close>: Rust's integers as natural numbers with the width written out (checked, saturating and
      wrapping operations), results as sums, and two interfaces as locales: \<open>component\<close> (a step function,
      admissible events, an invariant every step keeps) with its extension \<open>monotone_component\<close> (a fact
      that no step retracts), and the merge of snapshots as a join. \<open>Carry\<close> adds the interface of exact
      dividers that keep their fraction. Every locale is interpreted on the code's own definitions.
    \<^item> \<open>DetectMachine\<close>, \<open>DetectWorker\<close>: \<open>machine.rs\<close> and the worker of \<open>platform.rs\<close>. The worker's calls
      are its output; the platform's answers are carried by the messages. Shown: a start needs an
      unbroken debounce window, a stop an unbroken coalescing window, actions alternate, wake-ups do
      not spin; the calls refine a protocol automaton and the machine agrees with the held recorder.
    \<^item> \<open>QualityTypes\<close>, \<open>QualityActivity\<close>, \<open>QualityRecord\<close>: the quality model with every operation of
      its record. \<open>QualityCoalesce\<close>, \<open>QualityFacts\<close>, \<open>QualityOps\<close>, \<open>QualityMerge\<close>: the coalescing loop
      ends and keeps the covered frames, each operation keeps a valid record valid and what it does
      to the losses of a class. \<open>QualityProps\<close>: validity and source loss over all runs, exact
      accounting of an insertion, recovery, both merges, the mask of lost audio. \<open>QualityMapping\<close>:
      losses known in retained coordinates always reach the record. \<open>CaptureMismatch\<close>: so do the
      frames that one side of the live tee is missing (\<open>capture_mismatch.rs\<close>).
    \<^item> \<open>ActivityTracker\<close>, \<open>ActivityProps\<close>: the observation of far-end silence (\<open>activity.rs\<close>): a suspected run
      is whole seconds of observed silence. \<open>ChannelActivity\<close>, \<open>ChannelProps\<close>: its publication into the
      quality record never fails and changes no verdict about lost audio; an absent far end is exact.
    \<^item> \<open>CaptureTimeline\<close>: the timeline, its fixed pending queue and admissions. \<open>CaptureFacts\<close>,
      \<open>CaptureStream\<close>, \<open>CapturePlan\<close>: the invariant that relates what was emitted to the state, kept by
      every path of a callback. \<open>CaptureProps\<close>: the stream tiles the source, audio belongs to the epoch
      announced last, admissions are exact, emitted epochs satisfy the quality record's validation,
      overflow summaries reach the record, the frame mapper is an exact divider.
    \<^item> \<open>BoundaryPolicy\<close>, \<open>InputClock\<close>: the cut is the least frame every track can end at, admission is
      bounded, a fence is final and due in time; projections of cuts keep their order and assign
      every sample once, the skipped clock is exact.
    \<^item> \<open>JobPayload\<close>, \<open>Jobs\<close>: the payload merge and the table with all of its operations.
      \<open>JobProps\<close>, \<open>JobRuns\<close>: at most one active row per key, the earliest due job first, the exact
      backoff, settled losses survive every run, stale claims are refused, budgets bound the attempts
      and failing jobs park; and the crash loop that the budget does not stop.
    \<^item> \<open>CallHistory\<close>, \<open>Queue\<close>, \<open>QueueProps\<close>: the database of recordings with the embedded job table and
      the history of hosted calls (\<open>corti-queue/src/lib.rs\<close>). It can be read back after every run, only
      finished recordings leave, a manual retry moves both tables or neither, a call comes back as stored.
    \<^item> \<open>Diff\<close>: both texts are reconstructed, and the kept tokens are a longest common subsequence.
      \<open>LiveBatch\<close>: rows leave in order, exactly once, and on time. \<open>EventStream\<close>, \<open>EventStreamProps\<close>:
      frames written in the wire format decode to the same messages however the bytes are cut.
    \<^item> \<open>LexiconDocument\<close>, \<open>Lexicon\<close>, \<open>LexiconProps\<close>: the correction rules, their compilation and the
      substitution pass (\<open>crates/corti-lexicon\<close>). Documents are canonical, the pass is the longest-match
      replacement at word boundaries with an exact trace, and it is not idempotent.

  Conventions. A Rust struct is a record and an enum a datatype with the source's constructors, renamed
  only where HOL has the name. \<open>u64\<close> values are natural numbers; each component proves that its fields
  stay within their widths, or assumes it of its inputs by a predicate such as \<open>op_ok\<close>.
  \<open>&mut self\<close> methods return the new state beside their result, and every error return is an \<open>Inl\<close> or
  \<open>None\<close>. Loops are structural recursions over the data they walk, or functions with a measure; no
  definition runs on fuel, so every operation is shown to return. Capacities (epochs, spans, pending
  descriptors, table cells, message sizes) are the constants of the source.

  Parameters. Code outside the repository is an argument: Unicode segmentation and character classes
  in the diff, Unicode case mapping, the hash and the JSON text in the lexicon, the JSON text codec and the decoding of a quality record in the job payloads (\<open>codec\<close>,
  with \<open>codec_ok\<close> for the documented round trip), the range of timestamps (\<open>time_limits\<close>), the order in
  which SQLite returns rows that tie, and the recorder, live hook and clock of the detector worker.

  Not modelled. SQLite itself (a table is a list of rows with its unique index; I/O failures are left
  out), serde and file formats, floating-point time stamps beyond whether they are whole, and
  everything whose content is FFI, network or window handling: the CoreAudio bindings and WAV writer,
  echo cancellation, the ASR engines, the provider clients, the Tauri shell and the command line
  tools. The hosted coordinator, live inbox filing and the normaliser have
  logic of their own and are not modelled yet.
\<close>

end
